(* ===== verification/Prelude.thy ===== *)
theory Prelude
  imports Main "HOL-Library.Word" "HOL-Library.Monad_Syntax"
begin

unbundle bit_operations_syntax

text \<open>
  Shared ground of the development: bytes and C strings, checked reads and
  writes of C buffers, the \<^verbatim>\<open><ctype.h>\<close> and \<^verbatim>\<open><string.h>\<close> functions the
  sources call, the status codes of \<^verbatim>\<open>ares.h\<close>, and the lemma
  collections the component theories use.

  A C string is the list of its bytes before the terminating NUL; a pointer
  into it is the suffix it points at, so \<^verbatim>\<open>*p\<close> is 0 exactly when the suffix is
  empty. A buffer (\<^verbatim>\<open>unsigned char *abuf\<close>) is a byte list and a pointer into
  it an offset; reading past its end or writing past its capacity is \<^term>\<open>None\<close>,
  which stands for undefined behaviour and must be proved not to occur.
\<close>

named_theorems buf_simps \<open>rewriting of checked buffer accesses\<close>
named_theorems wire_simps \<open>16 and 32 bit fields in network byte order\<close>

section \<open>Bytes and C strings\<close>

type_synonym byte = "8 word"
type_synonym cstring = "byte list"

definition str :: "string \<Rightarrow> cstring" where
  "str s = map of_char s"

abbreviation (input) DOT :: byte where "DOT \<equiv> 0x2e"
abbreviation (input) BACKSLASH :: byte where "BACKSLASH \<equiv> 0x5c"
abbreviation (input) HASH :: byte where "HASH \<equiv> 0x23"
abbreviation (input) NEWLINE :: byte where "NEWLINE \<equiv> 0x0a"
abbreviation (input) SLASH :: byte where "SLASH \<equiv> 0x2f"
abbreviation (input) SEMICOLON :: byte where "SEMICOLON \<equiv> 0x3b"
abbreviation (input) COLON :: byte where "COLON \<equiv> 0x3a"

text \<open>The character classes of the C locale.\<close>

definition isspace :: "byte \<Rightarrow> bool" where
  "isspace c \<longleftrightarrow> c = 0x20 \<or> (9 \<le> c \<and> c \<le> 13)"

definition isdigit :: "byte \<Rightarrow> bool" where
  "isdigit c \<longleftrightarrow> 0x30 \<le> c \<and> c \<le> 0x39"

definition tolower :: "byte \<Rightarrow> byte" where
  "tolower c = (if 0x41 \<le> c \<and> c \<le> 0x5a then c + 0x20 else c)"

text \<open>\<^verbatim>\<open>strcasecmp(a, b) == 0\<close>; \<^verbatim>\<open>strncmp(s, opt, strlen(opt)) == 0\<close>;
  \<^verbatim>\<open>strncasecmp(s, name, strlen(name)) == 0\<close>.\<close>

definition strcaseeq :: "cstring \<Rightarrow> cstring \<Rightarrow> bool" where
  "strcaseeq a b \<longleftrightarrow> map tolower a = map tolower b"

definition has_prefix :: "cstring \<Rightarrow> cstring \<Rightarrow> bool" where
  "has_prefix s opt \<longleftrightarrow> take (length opt) s = opt"

definition has_prefix_nocase :: "cstring \<Rightarrow> cstring \<Rightarrow> bool" where
  "has_prefix_nocase s name \<longleftrightarrow> map tolower (take (length name) s) = map tolower name"

text \<open>The two scanning loops every parser of the sources uses:
  \<^verbatim>\<open>while (isspace(*p)) p++;\<close> and \<^verbatim>\<open>while (*p && !isspace(*p)) p++;\<close>.\<close>

definition skip_space :: "cstring \<Rightarrow> cstring" where
  "skip_space p = dropWhile isspace p"

definition word_of_line :: "cstring \<Rightarrow> cstring" where
  "word_of_line p = takeWhile (\<lambda>c. \<not> isspace c) p"

definition skip_word :: "cstring \<Rightarrow> cstring" where
  "skip_word p = dropWhile (\<lambda>c. \<not> isspace c) p"

text \<open>\<^verbatim>\<open>%d\<close> of a value below 1000.\<close>

definition decimal :: "nat \<Rightarrow> cstring" where
  "decimal n =
     (if n \<ge> 100 then [word_of_nat (48 + n div 100)] else []) @
     (if n \<ge> 10 then [word_of_nat (48 + n div 10 mod 10)] else []) @
     [word_of_nat (48 + n mod 10)]"

text \<open>A string that holds no NUL, as every value of type \<^verbatim>\<open>char *\<close> does.\<close>

definition no_nul :: "cstring \<Rightarrow> bool" where
  "no_nul s \<longleftrightarrow> 0 \<notin> set s"

section \<open>Checked buffer accesses\<close>

definition rd :: "byte list \<Rightarrow> nat \<Rightarrow> byte option" where
  "rd buf p = (if p < length buf then Some (buf ! p) else None)"

definition push :: "nat \<Rightarrow> byte list \<Rightarrow> byte \<Rightarrow> byte list option" where
  "push cap out c = (if length out < cap then Some (out @ [c]) else None)"

fun push_all :: "nat \<Rightarrow> byte list \<Rightarrow> byte list \<Rightarrow> byte list option" where
  "push_all cap out [] = Some out"
| "push_all cap out (c # cs) = do { out' \<leftarrow> push cap out c; push_all cap out' cs }"

definition rd_range :: "byte list \<Rightarrow> nat \<Rightarrow> nat \<Rightarrow> byte list option" where
  "rd_range buf p n = (if p + n \<le> length buf then Some (take n (drop p buf)) else None)"

lemma rd_Some [buf_simps]: "p < length buf \<Longrightarrow> rd buf p = Some (buf ! p)"
  by (simp add: rd_def)

lemma rd_eq_SomeD: "rd buf p = Some b \<Longrightarrow> p < length buf \<and> b = buf ! p"
  by (simp add: rd_def split: if_splits)

lemma push_Some [buf_simps]: "length out < cap \<Longrightarrow> push cap out c = Some (out @ [c])"
  by (simp add: push_def)

lemma push_all_Some [buf_simps]:
  "length out + length cs \<le> cap \<Longrightarrow> push_all cap out cs = Some (out @ cs)"
  by (induction cs arbitrary: out) (auto simp: push_def)

lemma rd_range_Some [buf_simps]:
  "p + n \<le> length buf \<Longrightarrow> rd_range buf p n = Some (take n (drop p buf))"
  by (simp add: rd_range_def)

lemma length_skip_space [simp]: "length (skip_space p) \<le> length p"
  by (simp add: skip_space_def length_dropWhile_le)

lemma length_skip_word [simp]: "length (skip_word p) \<le> length p"
  by (simp add: skip_word_def length_dropWhile_le)

lemma word_skip_split: "word_of_line p @ skip_word p = p"
  by (simp add: word_of_line_def skip_word_def)

lemma strcaseeq_refl [simp]: "strcaseeq a a"
  by (simp add: strcaseeq_def)

lemma strcaseeq_length: "strcaseeq a b \<Longrightarrow> length a = length b"
  by (metis length_map strcaseeq_def)

text \<open>Reading one word and the blanks behind it makes progress on a non-empty string.\<close>

lemma skip_word_space_less [simp]:
  "p \<noteq> [] \<Longrightarrow> length (skip_space (skip_word p)) < length p"
proof (cases p)
  case (Cons c q)
  show ?thesis
  proof (cases "isspace c")
    case True
    then have "skip_space (skip_word p) = dropWhile isspace q"
      by (simp add: Cons skip_word_def skip_space_def)
    then show ?thesis by (simp add: Cons le_imp_less_Suc length_dropWhile_le)
  next
    case False
    then have "skip_word p = skip_word q" by (simp add: Cons skip_word_def)
    then have "length (skip_space (skip_word p)) \<le> length q"
      by (metis le_trans length_skip_space length_skip_word)
    then show ?thesis by (simp add: Cons)
  qed
qed simp

section \<open>Allocation outcomes\<close>

text \<open>
  A function that allocates takes the outcomes of its allocations as an argument: \<open>m k\<close>
  says whether the \<open>k\<close>-th one succeeds. \<open>allocs_ok m\<close> is the case with enough memory.
\<close>

definition allocs_ok :: "(nat \<Rightarrow> bool) \<Rightarrow> bool" where
  "allocs_ok m \<longleftrightarrow> (\<forall>k. m k)"

lemma allocs_okD: "allocs_ok m \<Longrightarrow> m k"
  by (simp add: allocs_ok_def)

lemma allocs_ok_True [simp]: "allocs_ok (\<lambda>_. True)"
  by (simp add: allocs_ok_def)

section \<open>Status codes (\<^verbatim>\<open>ares.h\<close>)\<close>

datatype ares_status =
    ARES_SUCCESS | ARES_ENODATA | ARES_EFORMERR | ARES_ESERVFAIL | ARES_ENOTFOUND
  | ARES_ENOTIMP | ARES_EREFUSED | ARES_EBADQUERY | ARES_EBADNAME | ARES_EBADFAMILY
  | ARES_EBADRESP | ARES_ECONNREFUSED | ARES_ETIMEOUT | ARES_EOF | ARES_EFILE
  | ARES_ENOMEM | ARES_EDESTRUCTION

fun status_code :: "ares_status \<Rightarrow> nat" where
  "status_code ARES_SUCCESS = 0"
| "status_code ARES_ENODATA = 1"
| "status_code ARES_EFORMERR = 2"
| "status_code ARES_ESERVFAIL = 3"
| "status_code ARES_ENOTFOUND = 4"
| "status_code ARES_ENOTIMP = 5"
| "status_code ARES_EREFUSED = 6"
| "status_code ARES_EBADQUERY = 7"
| "status_code ARES_EBADNAME = 8"
| "status_code ARES_EBADFAMILY = 9"
| "status_code ARES_EBADRESP = 10"
| "status_code ARES_ECONNREFUSED = 11"
| "status_code ARES_ETIMEOUT = 12"
| "status_code ARES_EOF = 13"
| "status_code ARES_EFILE = 14"
| "status_code ARES_ENOMEM = 15"
| "status_code ARES_EDESTRUCTION = 16"

end
