(* ===== verification/DnsWire.thy ===== *)
theory DnsWire
  imports Prelude
begin

text \<open>
  The wire format macros of \<^verbatim>\<open>ares_dns.h\<close> and the constants of
  \<^verbatim>\<open>ares_nameser.h\<close>: 16 and 32 bit fields in network byte order and the
  header, question and resource record accessors built from them. Every read
  is checked against the buffer.
\<close>

section \<open>Constants\<close>

definition HFIXEDSZ :: nat where "HFIXEDSZ = 12"
definition QFIXEDSZ :: nat where "QFIXEDSZ = 4"
definition RRFIXEDSZ :: nat where "RRFIXEDSZ = 10"
definition PACKETSZ :: nat where "PACKETSZ = 512"
definition MAXCDNAME :: nat where "MAXCDNAME = 255"
definition MAXLABEL :: nat where "MAXLABEL = 63"
definition INDIR_MASK :: byte where "INDIR_MASK = 0xc0"

definition C_IN :: nat where "C_IN = 1"
definition T_A :: nat where "T_A = 1"
definition T_CNAME :: nat where "T_CNAME = 5"
definition T_PTR :: nat where "T_PTR = 12"

lemmas wire_consts = HFIXEDSZ_def QFIXEDSZ_def RRFIXEDSZ_def PACKETSZ_def
  MAXCDNAME_def MAXLABEL_def C_IN_def T_A_def T_CNAME_def T_PTR_def

datatype rcode = NOERROR | FORMERR | SERVFAIL | NXDOMAIN | NOTIMP | REFUSED | OtherRcode nat

fun rcode_of :: "nat \<Rightarrow> rcode" where
  "rcode_of n = (if n = 0 then NOERROR else if n = 1 then FORMERR else if n = 2 then SERVFAIL
     else if n = 3 then NXDOMAIN else if n = 4 then NOTIMP else if n = 5 then REFUSED
     else OtherRcode n)"

section \<open>Fields\<close>

definition get16 :: "byte \<Rightarrow> byte \<Rightarrow> nat" where
  "get16 b0 b1 = push_bit 8 (unat b0) OR unat b1"

definition DNS__16BIT :: "byte list \<Rightarrow> nat \<Rightarrow> nat option" where
  "DNS__16BIT buf p = do { b0 \<leftarrow> rd buf p; b1 \<leftarrow> rd buf (p + 1); Some (get16 b0 b1) }"

text \<open>\<^verbatim>\<open>DNS__32BIT\<close> has type \<^verbatim>\<open>int\<close>: a first byte above 127 gives a negative value.\<close>

definition DNS__32BIT :: "byte list \<Rightarrow> nat \<Rightarrow> int option" where
  "DNS__32BIT buf p = do {
     b0 \<leftarrow> rd buf p; b1 \<leftarrow> rd buf (p + 1); b2 \<leftarrow> rd buf (p + 2); b3 \<leftarrow> rd buf (p + 3);
     Some (sint (push_bit 24 (ucast b0 :: 32 word) OR push_bit 16 (ucast b1)
                 OR push_bit 8 (ucast b2) OR ucast b3)) }"

text \<open>\<^verbatim>\<open>((v) >> 8) & 0xff\<close> and \<^verbatim>\<open>(v) & 0xff\<close> of an \<^verbatim>\<open>int\<close> \<open>v\<close>.\<close>

definition DNS__SET16BIT :: "int \<Rightarrow> byte list" where
  "DNS__SET16BIT v = [word_of_int (drop_bit 8 v), word_of_int v]"

definition DNS__SET32BIT :: "int \<Rightarrow> byte list" where
  "DNS__SET32BIT v = [word_of_int (drop_bit 24 v), word_of_int (drop_bit 16 v),
                      word_of_int (drop_bit 8 v), word_of_int v]"

section \<open>Header, question and resource record accessors\<close>

definition DNS_HEADER_QID :: "byte list \<Rightarrow> nat option" where
  "DNS_HEADER_QID h = DNS__16BIT h 0"

definition DNS_HEADER_QR :: "byte list \<Rightarrow> nat option" where
  "DNS_HEADER_QR h = do { b \<leftarrow> rd h 2; Some (unat (drop_bit 7 b AND 1)) }"

definition DNS_HEADER_TC :: "byte list \<Rightarrow> nat option" where
  "DNS_HEADER_TC h = do { b \<leftarrow> rd h 2; Some (unat (drop_bit 1 b AND 1)) }"

definition DNS_HEADER_RD :: "byte list \<Rightarrow> nat option" where
  "DNS_HEADER_RD h = do { b \<leftarrow> rd h 2; Some (unat (b AND 1)) }"

definition DNS_HEADER_RCODE :: "byte list \<Rightarrow> nat option" where
  "DNS_HEADER_RCODE h = do { b \<leftarrow> rd h 3; Some (unat (b AND 0xf)) }"

definition DNS_HEADER_QDCOUNT :: "byte list \<Rightarrow> nat option" where
  "DNS_HEADER_QDCOUNT h = DNS__16BIT h 4"

definition DNS_HEADER_ANCOUNT :: "byte list \<Rightarrow> nat option" where
  "DNS_HEADER_ANCOUNT h = DNS__16BIT h 6"

definition DNS_QUESTION_TYPE :: "byte list \<Rightarrow> nat \<Rightarrow> nat option" where
  "DNS_QUESTION_TYPE buf q = DNS__16BIT buf q"

definition DNS_QUESTION_CLASS :: "byte list \<Rightarrow> nat \<Rightarrow> nat option" where
  "DNS_QUESTION_CLASS buf q = DNS__16BIT buf (q + 2)"

definition DNS_RR_TYPE :: "byte list \<Rightarrow> nat \<Rightarrow> nat option" where
  "DNS_RR_TYPE buf r = DNS__16BIT buf r"

definition DNS_RR_CLASS :: "byte list \<Rightarrow> nat \<Rightarrow> nat option" where
  "DNS_RR_CLASS buf r = DNS__16BIT buf (r + 2)"

definition DNS_RR_TTL :: "byte list \<Rightarrow> nat \<Rightarrow> int option" where
  "DNS_RR_TTL buf r = DNS__32BIT buf (r + 4)"

definition DNS_RR_LEN :: "byte list \<Rightarrow> nat \<Rightarrow> nat option" where
  "DNS_RR_LEN buf r = DNS__16BIT buf (r + 8)"

text \<open>The setters a query needs; each updates the header bytes in place.\<close>

definition DNS_HEADER_SET_QID :: "byte list \<Rightarrow> int \<Rightarrow> byte list" where
  "DNS_HEADER_SET_QID h v = h[0 := word_of_int (drop_bit 8 v), 1 := word_of_int v]"

definition DNS_HEADER_SET_OPCODE :: "byte list \<Rightarrow> byte \<Rightarrow> byte list" where
  "DNS_HEADER_SET_OPCODE h v = h[2 := h ! 2 OR push_bit 3 (v AND 0xf)]"

definition DNS_HEADER_SET_RD :: "byte list \<Rightarrow> byte \<Rightarrow> byte list" where
  "DNS_HEADER_SET_RD h v = h[2 := h ! 2 OR (v AND 1)]"

definition DNS_HEADER_SET_QDCOUNT :: "byte list \<Rightarrow> int \<Rightarrow> byte list" where
  "DNS_HEADER_SET_QDCOUNT h v = h[4 := word_of_int (drop_bit 8 v), 5 := word_of_int v]"

lemmas dns_accessors = DNS_HEADER_QID_def DNS_HEADER_QR_def DNS_HEADER_TC_def DNS_HEADER_RD_def
  DNS_HEADER_RCODE_def DNS_HEADER_QDCOUNT_def DNS_HEADER_ANCOUNT_def DNS_QUESTION_TYPE_def
  DNS_QUESTION_CLASS_def DNS_RR_TYPE_def DNS_RR_CLASS_def DNS_RR_TTL_def DNS_RR_LEN_def

section \<open>Lemmas\<close>

lemma unat_byte_less: "unat (b :: byte) < 256"
  using unsigned_less [of b, where ?'a = nat] by simp

lemma push_or_add: "b < 256 \<Longrightarrow> push_bit 8 a OR b = 256 * a + (b::nat)"
proof -
  assume "b < 256"
  then have "take_bit 8 b = b" by (simp add: take_bit_nat_eq_self)
  then have "push_bit 8 a AND b = take_bit 8 (push_bit 8 a) AND b"
    by (metis (no_types) take_bit_eq_mask and.assoc and.commute)
  then have "push_bit 8 a AND b = 0" by (simp add: take_bit_push_bit)
  then have "push_bit 8 a OR b = push_bit 8 a + b"
    by (simp add: disjunctive_add_eq_or)
  then show ?thesis by (simp add: push_bit_eq_mult)
qed

lemma get16_eq [wire_simps]: "get16 b0 b1 = 256 * unat b0 + unat b1"
  unfolding get16_def by (rule push_or_add) (rule unat_byte_less)

lemma get16_less: "get16 b0 b1 < 65536"
  using unat_byte_less [of b0] unat_byte_less [of b1] by (simp add: get16_eq)

lemma DNS__16BIT_Some [buf_simps]:
  "p + 1 < length buf \<Longrightarrow> DNS__16BIT buf p = Some (get16 (buf ! p) (buf ! (p + 1)))"
  by (simp add: DNS__16BIT_def rd_def)

lemma DNS__16BIT_less: "DNS__16BIT buf p = Some v \<Longrightarrow> v < 65536"
  by (auto simp: DNS__16BIT_def get16_less bind_eq_Some_conv)

lemma get16_set16 [wire_simps]:
  assumes "0 \<le> v" "v < 65536"
  shows "get16 (word_of_int (drop_bit 8 v)) (word_of_int v) = nat v"
proof -
  have hi: "unat (word_of_int (drop_bit 8 v) :: byte) = nat (v div 256)"
    using assms by (simp add: unat_eq_nat_uint uint_word_of_int drop_bit_eq_div take_bit_eq_mod)
  have lo: "unat (word_of_int v :: byte) = nat (v mod 256)"
    by (simp add: unat_eq_nat_uint uint_word_of_int take_bit_eq_mod)
  have "256 * nat (v div 256) + nat (v mod 256) = nat v"
    using assms by (simp add: nat_div_distrib nat_mod_distrib)
  then show ?thesis by (simp only: get16_eq hi lo)
qed

lemma length_SET16BIT [simp]: "length (DNS__SET16BIT v) = 2"
  by (simp add: DNS__SET16BIT_def)

text \<open>What \<^verbatim>\<open>DNS__SET16BIT\<close> stored, \<^verbatim>\<open>DNS__16BIT\<close> reads back.\<close>

lemma DNS__16BIT_SET16BIT [wire_simps]:
  assumes "0 \<le> v" "v < 65536"
  shows "DNS__16BIT (xs @ DNS__SET16BIT v @ ys) (length xs) = Some (nat v)"
  using assms by (simp add: DNS__16BIT_def DNS__SET16BIT_def rd_def nth_append get16_set16)

end
