(* ===== verification/DnsName.thy ===== *)
theory DnsName
  imports DnsWire
begin

text \<open>
  \<^verbatim>\<open>ares_expand_name.c\<close>: decoding of RFC 1035 domain names with compression
  pointers. \<open>name_length\<close> is the checking pass, \<open>ares_expand_name\<close> the copying
  pass, which performs no checks of its own. The specification is the relation
  \<open>name_at\<close>: which label sequence a message holds at an offset. The theorems
  show that the two passes agree with it and with each other, that no read or
  write leaves its buffer, and that pointer loops are refused.
\<close>

section \<open>The code\<close>

definition is_indir :: "byte \<Rightarrow> bool" where
  "is_indir b \<longleftrightarrow> b AND INDIR_MASK = INDIR_MASK"

definition indir_offset :: "byte \<Rightarrow> byte \<Rightarrow> nat" where
  "indir_offset b0 b1 = push_bit 8 (unat (b0 AND NOT INDIR_MASK)) OR unat b1"

definition needs_escape :: "byte \<Rightarrow> bool" where
  "needs_escape c \<longleftrightarrow> c = DOT \<or> c = BACKSLASH"

text \<open>\<^verbatim>\<open>while (offset--) { n += ...; encoded++; }\<close>\<close>

fun count_label :: "byte list \<Rightarrow> nat \<Rightarrow> nat \<Rightarrow> int \<Rightarrow> (nat \<times> int) option" where
  "count_label abuf encoded 0 n = Some (encoded, n)"
| "count_label abuf encoded (Suc offset) n = do {
     c \<leftarrow> rd abuf encoded;
     count_label abuf (encoded + 1) offset (n + (if needs_escape c then 2 else 1)) }"

lemma count_label_pos: "count_label abuf e k n = Some (e', n') \<Longrightarrow> e' = e + k"
  by (induction abuf e k n rule: count_label.induct) (auto simp: bind_eq_Some_conv)

function name_length_loop :: "byte list \<Rightarrow> nat \<Rightarrow> nat \<Rightarrow> int \<Rightarrow> nat \<Rightarrow> int option" where
  "name_length_loop abuf alen encoded n indir = do {
     b \<leftarrow> rd abuf encoded;
     if b = 0 then Some (if n \<noteq> 0 then n - 1 else n)
     else if is_indir b then
       if encoded + 1 \<ge> alen then Some (-1)
       else do {
         b1 \<leftarrow> rd abuf (encoded + 1);
         let offset = indir_offset b b1;
         if offset \<ge> alen then Some (-1)
         else if indir + 1 > alen then Some (-1)
         else name_length_loop abuf alen offset n (indir + 1) }
     else if encoded + unat b + 1 \<ge> alen then Some (-1)
     else do {
       (e', n') \<leftarrow> count_label abuf (encoded + 1) (unat b) n;
       name_length_loop abuf alen e' (n' + 1) indir } }"
  by pat_completeness auto
termination
  by (relation "measures [\<lambda>(abuf, alen, encoded, n, indir). alen + 1 - indir,
                          \<lambda>(abuf, alen, encoded, n, indir). alen - encoded]")
     (auto dest!: count_label_pos)

declare name_length_loop.simps [simp del]

definition name_length :: "byte list \<Rightarrow> nat \<Rightarrow> nat \<Rightarrow> int option" where
  "name_length abuf alen encoded =
     (if encoded = alen then Some (-1) else name_length_loop abuf alen encoded 0 0)"

text \<open>\<^verbatim>\<open>while (len--) { if (*p == '.' || *p == '\\') *q++ = '\\'; *q++ = *p; p++; }\<close>\<close>

fun copy_label :: "nat \<Rightarrow> byte list \<Rightarrow> nat \<Rightarrow> nat \<Rightarrow> byte list \<Rightarrow> (nat \<times> byte list) option" where
  "copy_label cap abuf p 0 q = Some (p, q)"
| "copy_label cap abuf p (Suc len) q = do {
     c \<leftarrow> rd abuf p;
     q \<leftarrow> (if needs_escape c then push cap q BACKSLASH else Some q);
     q \<leftarrow> push cap q c;
     copy_label cap abuf (p + 1) len q }"

text \<open>
  The copying loop runs until it reads a zero length byte; nothing in it bounds
  the number of turns, so it is a partial function. \<open>enclen\<close> is \<open>Some\<close> once the
  first pointer has been followed (\<^verbatim>\<open>indir\<close>).
\<close>

partial_function (option) expand_loop ::
  "nat \<Rightarrow> byte list \<Rightarrow> nat \<Rightarrow> nat \<Rightarrow> byte list \<Rightarrow> nat option
   \<Rightarrow> (nat \<times> byte list \<times> nat option) option" where
  "expand_loop cap abuf encoded p q enclen = do {
     b \<leftarrow> rd abuf p;
     if b = 0 then Some (p, q, enclen)
     else if is_indir b then do {
       b1 \<leftarrow> rd abuf (p + 1);
       expand_loop cap abuf encoded (indir_offset b b1) q
         (if enclen = None then Some (p + 2 - encoded) else enclen) }
     else do {
       (p, q) \<leftarrow> copy_label cap abuf (p + 1) (unat b) q;
       q \<leftarrow> push cap q DOT;
       expand_loop cap abuf encoded p q enclen } }"

declare expand_loop.simps [code]

text \<open>
  \<open>malloc_ok\<close> is the outcome of \<^verbatim>\<open>malloc(len + 1)\<close>. The result is the error
  status, or the expanded name and the length of its encoding.
\<close>

definition ares_expand_name ::
  "bool \<Rightarrow> byte list \<Rightarrow> nat \<Rightarrow> nat \<Rightarrow> (ares_status + cstring \<times> nat) option" where
  "ares_expand_name malloc_ok abuf alen encoded = do {
     len \<leftarrow> name_length abuf alen encoded;
     if len = -1 then Some (Inl ARES_EBADNAME)
     else if \<not> malloc_ok then Some (Inl ARES_ENOMEM)
     else do {
       let cap = nat (len + 1);
       (p, q, enclen) \<leftarrow> expand_loop cap abuf encoded encoded [] None;
       let s = (if q \<noteq> [] then butlast q else q);
       _ \<leftarrow> push cap s 0;
       Some (Inr (s, case enclen of Some l \<Rightarrow> l | None \<Rightarrow> p + 1 - encoded)) } }"

section \<open>Specification\<close>

text \<open>
  \<open>name_at abuf alen p ls h\<close>: the message holds the labels \<open>ls\<close> at offset
  \<open>p\<close>, found in \<open>h\<close> label and pointer steps.
\<close>

inductive name_at :: "byte list \<Rightarrow> nat \<Rightarrow> nat \<Rightarrow> cstring list \<Rightarrow> nat \<Rightarrow> bool"
  for abuf :: "byte list" and alen :: nat where
  root: "p < alen \<Longrightarrow> abuf ! p = 0 \<Longrightarrow> name_at abuf alen p [] 0"
| label: "abuf ! p \<noteq> 0 \<Longrightarrow> \<not> is_indir (abuf ! p) \<Longrightarrow> p + unat (abuf ! p) + 1 < alen
     \<Longrightarrow> name_at abuf alen (p + unat (abuf ! p) + 1) ls h
     \<Longrightarrow> name_at abuf alen p (take (unat (abuf ! p)) (drop (p + 1) abuf) # ls) (Suc h)"
| pointer: "is_indir (abuf ! p) \<Longrightarrow> p + 1 < alen
     \<Longrightarrow> indir_offset (abuf ! p) (abuf ! (p + 1)) < alen
     \<Longrightarrow> name_at abuf alen (indir_offset (abuf ! p) (abuf ! (p + 1))) ls h
     \<Longrightarrow> name_at abuf alen p ls (Suc h)"

definition escape_label :: "cstring \<Rightarrow> cstring" where
  "escape_label l = concat (map (\<lambda>c. if needs_escape c then [BACKSLASH, c] else [c]) l)"

text \<open>Each label escaped and followed by a dot, and the printed name without the last dot.\<close>

definition dotted :: "cstring list \<Rightarrow> cstring" where
  "dotted ls = concat (map (\<lambda>l. escape_label l @ [DOT]) ls)"

definition print_name :: "cstring list \<Rightarrow> cstring" where
  "print_name ls = butlast (dotted ls)"

text \<open>The number of bytes the encoding at \<open>p\<close> itself occupies.\<close>

inductive enc_size :: "byte list \<Rightarrow> nat \<Rightarrow> nat \<Rightarrow> bool" for abuf :: "byte list" where
  zero: "abuf ! p = 0 \<Longrightarrow> enc_size abuf p 1"
| indir: "is_indir (abuf ! p) \<Longrightarrow> enc_size abuf p 2"
| label: "abuf ! p \<noteq> 0 \<Longrightarrow> \<not> is_indir (abuf ! p)
     \<Longrightarrow> enc_size abuf (p + unat (abuf ! p) + 1) n
     \<Longrightarrow> enc_size abuf p (unat (abuf ! p) + 1 + n)"

section \<open>The inner loops\<close>

lemma escape_label_simps [simp]:
  "escape_label [] = []"
  "escape_label (c # l) = (if needs_escape c then [BACKSLASH, c] else [c]) @ escape_label l"
  by (simp_all add: escape_label_def)

lemma dotted_simps [simp]:
  "dotted [] = []"
  "dotted (l # ls) = escape_label l @ DOT # dotted ls"
  by (simp_all add: dotted_def)

lemma dotted_eq_Nil [simp]: "dotted ls = [] \<longleftrightarrow> ls = []"
  by (cases ls) auto

lemma take_drop_Suc:
  "p + Suc k \<le> length xs \<Longrightarrow> take (Suc k) (drop p xs) = xs ! p # take k (drop (Suc p) xs)"
  by (metis Cons_nth_drop_Suc add_Suc_right le_imp_less_Suc less_add_Suc1 less_le_trans take_Suc_Cons)

lemma count_label_Some:
  "e + k \<le> length abuf \<Longrightarrow>
   count_label abuf e k n = Some (e + k, n + int (length (escape_label (take k (drop e abuf)))))"
proof (induction k arbitrary: e n)
  case (Suc k)
  then show ?case by (simp add: rd_def take_drop_Suc)
qed simp

lemma copy_label_Some:
  "p + k \<le> length abuf \<Longrightarrow> length q + length (escape_label (take k (drop p abuf))) \<le> cap \<Longrightarrow>
   copy_label cap abuf p k q = Some (p + k, q @ escape_label (take k (drop p abuf)))"
proof (induction k arbitrary: p q)
  case (Suc k)
  then show ?case by (simp add: rd_def push_def take_drop_Suc split: if_splits)
qed simp

lemma is_indir_nonzero [simp]: "is_indir b \<Longrightarrow> b \<noteq> 0"
  by (auto simp: is_indir_def INDIR_MASK_def)

lemma not_is_indir_zero [simp]: "\<not> is_indir 0"
  by (simp add: is_indir_def INDIR_MASK_def)

section \<open>The checking pass implements the specification\<close>

definition adjusted :: "int \<Rightarrow> int" where
  "adjusted n = (if n \<noteq> 0 then n - 1 else n)"

lemma name_at_lt: "name_at abuf alen p ls h \<Longrightarrow> p < alen"
  by (induction rule: name_at.induct) auto

lemma name_length_loop_complete:
  assumes "name_at abuf alen p ls h" "alen \<le> length abuf" "indir + h \<le> alen"
  shows "name_length_loop abuf alen p n indir = Some (adjusted (n + int (length (dotted ls))))"
  using assms
proof (induction arbitrary: n indir rule: name_at.induct)
  case (root p)
  then show ?case by (simp add: name_length_loop.simps [of _ _ p] rd_def adjusted_def)
next
  case (label p ls h)
  then show ?case
    by (simp add: name_length_loop.simps [of _ _ p] rd_def count_label_Some ac_simps)
next
  case (pointer p ls h)
  then show ?case by (simp add: name_length_loop.simps [of _ _ p] rd_def)
qed

lemma name_length_loop_sound:
  assumes "alen \<le> length abuf" "p < alen" "0 \<le> n"
    and "name_length_loop abuf alen p n indir = Some r" "r \<noteq> -1"
  shows "\<exists>ls h. name_at abuf alen p ls h \<and> r = adjusted (n + int (length (dotted ls)))"
  using assms
proof (induction abuf alen p n indir rule: name_length_loop.induct)
  case (1 abuf alen p n indir)
  let ?b = "abuf ! p"
  note unf = name_length_loop.simps [of abuf alen p n indir]
  have rd: "rd abuf p = Some ?b" using "1.prems" by (simp add: rd_def)
  consider (zero) "?b = 0" | (ptr) "is_indir ?b" | (lab) "?b \<noteq> 0" "\<not> is_indir ?b" by blast
  then show ?case
  proof cases
    case zero
    then have "r = adjusted n" using "1.prems"(4) by (simp add: unf rd adjusted_def)
    moreover have "name_at abuf alen p [] 0" using zero "1.prems" by (auto intro: name_at.root)
    ultimately show ?thesis by force
  next
    case ptr
    let ?o = "indir_offset ?b (abuf ! (p + 1))"
    have p1: "p + 1 < alen" using "1.prems"(4,5) ptr by (auto simp: unf rd split: if_splits)
    then have rd1: "rd abuf (p + 1) = Some (abuf ! (p + 1))" using "1.prems" by (simp add: rd_def)
    have o: "?o < alen" "indir + 1 \<le> alen"
      and rec: "name_length_loop abuf alen ?o n (indir + 1) = Some r"
      using "1.prems"(4,5) ptr p1 rd1 by (auto simp: unf rd Let_def split: if_splits)
    have "\<exists>ls h. name_at abuf alen ?o ls h \<and> r = adjusted (n + int (length (dotted ls)))"
      using "1.IH"(1) [OF rd _ ptr _ rd1 refl] ptr p1 o rec "1.prems" by auto
    then show ?thesis using ptr p1 o(1) by (blast intro: name_at.pointer)
  next
    case lab
    let ?e = "p + unat ?b + 1" and ?l = "take (unat ?b) (drop (p + 1) abuf)"
    let ?m = "n + int (length (escape_label ?l)) + 1"
    have e: "?e < alen" using "1.prems"(4,5) lab by (auto simp: unf rd split: if_splits)
    then have cl: "count_label abuf (p + 1) (unat ?b) n = Some (?e, ?m - 1)"
      using "1.prems"(1) by (simp add: count_label_Some ac_simps)
    have rec: "name_length_loop abuf alen ?e ?m indir = Some r"
      using "1.prems"(4,5) lab e cl by (auto simp: unf rd split: if_splits)
    have "\<exists>ls h. name_at abuf alen ?e ls h \<and> r = adjusted (?m + int (length (dotted ls)))"
      using "1.IH"(2) [OF rd lab _ cl refl] e rec "1.prems" by simp
    then obtain ls h where "name_at abuf alen ?e ls h"
      and r: "r = adjusted (?m + int (length (dotted ls)))" by blast
    then have "name_at abuf alen p (?l # ls) (Suc h)" using name_at.label [OF lab e] by simp
    moreover have "r = adjusted (n + int (length (dotted (?l # ls))))"
      unfolding r by (simp add: ac_simps)
    ultimately show ?thesis by blast
  qed
qed

section \<open>Every well-formed name is short enough\<close>

text \<open>
  The steps from an offset are determined by the message, so an offset that
  occurs in a finite decoding occurs once. A decoding therefore visits at most
  \<open>alen\<close> offsets, and the loop counter of \<open>name_length\<close> never refuses it.
\<close>

inductive_cases name_at_zeroE: "name_at abuf alen p ls 0"

lemma name_at_unique:
  "name_at abuf alen p ls h \<Longrightarrow> name_at abuf alen p ls' h' \<Longrightarrow> ls' = ls \<and> h' = h"
proof (induction arbitrary: ls' h' rule: name_at.induct)
  case (root p)
  from root(3) root(2) show ?case by cases auto
next
  case (label p ls h)
  from label.prems show ?case
    by cases (use label(1-3) label.IH in auto)
next
  case (pointer p ls h)
  from pointer.prems show ?case
    by cases (use pointer(1-3) pointer.IH in auto)
qed

lemma name_at_heights:
  "name_at abuf alen p ls h \<Longrightarrow> k \<le> h \<Longrightarrow> \<exists>p' ls'. name_at abuf alen p' ls' k"
proof (induction rule: name_at.induct)
  case (root p)
  then show ?case by (auto intro: name_at.root)
next
  case (label p ls h)
  then show ?case by (cases "k = Suc h") (blast intro: name_at.label, simp)
next
  case (pointer p ls h)
  then show ?case by (cases "k = Suc h") (blast intro: name_at.pointer, simp)
qed

lemma name_at_height_less: "name_at abuf alen p ls h \<Longrightarrow> h < alen"
proof -
  assume n: "name_at abuf alen p ls h"
  then have "\<forall>k\<in>{0..h}. \<exists>p'. (\<exists>ls'. name_at abuf alen p' ls' k)"
    by (auto dest: name_at_heights)
  then obtain f where f: "\<And>k. k \<le> h \<Longrightarrow> \<exists>ls'. name_at abuf alen (f k) ls' k"
    by (metis atLeastAtMost_iff le0)
  have "inj_on f {0..h}"
    by (rule inj_onI) (metis f name_at_unique atLeastAtMost_iff)
  moreover have "f ` {0..h} \<subseteq> {0..<alen}"
    using f name_at_lt by fastforce
  ultimately have "card {0..h} \<le> card {0..<alen}"
    by (metis card_inj_on_le finite_atLeastLessThan)
  then show ?thesis by simp
qed

lemma name_length_complete:
  assumes "alen \<le> length abuf" "name_at abuf alen p ls h"
  shows "name_length abuf alen p = Some (int (length (print_name ls)))"
proof -
  have "name_length_loop abuf alen p 0 0 = Some (adjusted (int (length (dotted ls))))"
    using name_length_loop_complete [OF assms(2,1), of 0 0] name_at_height_less [OF assms(2)]
    by simp
  moreover have "adjusted (int (length (dotted ls))) = int (length (print_name ls))"
    by (cases ls) (auto simp: adjusted_def print_name_def)
  ultimately show ?thesis
    using name_at_lt [OF assms(2)] by (simp add: name_length_def)
qed

text \<open>The checking pass never reads outside the message, whatever the message holds.\<close>

lemma name_length_loop_total:
  "alen \<le> length abuf \<Longrightarrow> p < alen \<Longrightarrow> \<exists>r. name_length_loop abuf alen p n indir = Some r"
proof (induction abuf alen p n indir rule: name_length_loop.induct)
  case (1 abuf alen p n indir)
  let ?b = "abuf ! p"
  note unf = name_length_loop.simps [of abuf alen p n indir]
  have rd: "rd abuf p = Some ?b" using "1.prems" by (simp add: rd_def)
  show ?case
  proof (cases "?b = 0 \<or> is_indir ?b \<and> p + 1 \<ge> alen
                \<or> \<not> is_indir ?b \<and> p + unat ?b + 1 \<ge> alen")
    case True
    then show ?thesis by (auto simp: unf rd)
  next
    case False
    then consider (ptr) "is_indir ?b" "p + 1 < alen"
      | (lab) "?b \<noteq> 0" "\<not> is_indir ?b" "p + unat ?b + 1 < alen" by force
    then show ?thesis
    proof cases
      case ptr
      then have rd1: "rd abuf (p + 1) = Some (abuf ! (p + 1))" using "1.prems" by (simp add: rd_def)
      show ?thesis
        using "1.IH"(1) [OF rd _ ptr(1) _ rd1 refl] ptr rd1 "1.prems"
        by (auto simp: unf rd Let_def)
    next
      case lab
      have cl: "count_label abuf (p + 1) (unat ?b) n = Some (p + 1 + unat ?b,
          n + int (length (escape_label (take (unat ?b) (drop (p + 1) abuf)))))"
        using "1.prems" lab(3) by (intro count_label_Some) simp
      show ?thesis
        using "1.IH"(2) [OF rd lab(1,2) _ cl refl] lab "1.prems"
        by (auto simp: unf rd cl [simplified])
    qed
  qed
qed

lemma name_length_refuses:
  assumes "alen \<le> length abuf" "p \<le> alen" "\<nexists>ls h. name_at abuf alen p ls h"
  shows "name_length abuf alen p = Some (-1)"
proof (cases "p = alen")
  case False
  then have p: "p < alen" using assms(2) by simp
  then obtain r where r: "name_length_loop abuf alen p 0 0 = Some r"
    using name_length_loop_total [OF assms(1)] by blast
  then have "r = -1"
    using name_length_loop_sound [OF assms(1) p, of 0 0 r] assms(3) by auto
  with r False show ?thesis by (simp add: name_length_def)
qed (simp add: name_length_def)

section \<open>The copying pass\<close>

lemma enc_size_exists: "name_at abuf alen p ls h \<Longrightarrow> \<exists>k. enc_size abuf p k"
  by (induction rule: name_at.induct) (blast intro: enc_size.intros)+

lemma enc_size_pos: "enc_size abuf p k \<Longrightarrow> 0 < k"
  by (induction rule: enc_size.induct) auto

lemma expand_loop_follow:
  assumes "name_at abuf alen p ls h" "alen \<le> length abuf"
    and "length q + length (dotted ls) \<le> cap"
  shows "\<exists>p'. expand_loop cap abuf encoded p q (Some l) = Some (p', q @ dotted ls, Some l)"
  using assms
proof (induction arbitrary: q rule: name_at.induct)
  case (root p)
  then show ?case by (simp add: expand_loop.simps [of _ _ _ p] rd_def)
next
  case (label p ls h)
  then show ?case
    using label.IH [of "q @ escape_label (take (unat (abuf ! p)) (drop (p + 1) abuf)) @ [DOT]"]
    by (simp add: expand_loop.simps [of _ _ _ p] rd_def copy_label_Some push_def add.commute)
next
  case (pointer p ls h)
  then show ?case by (simp add: expand_loop.simps [of _ _ _ p] rd_def)
qed

text \<open>
  Until the first pointer the loop stays inside the encoding at \<open>encoded\<close>, so the
  encoded length it reports is the size of that encoding.
\<close>

definition reported_len :: "nat \<Rightarrow> nat option \<Rightarrow> nat \<Rightarrow> nat" where
  "reported_len p enclen encoded = (case enclen of Some l \<Rightarrow> l | None \<Rightarrow> p + 1 - encoded)"

lemma expand_loop_first:
  assumes "enc_size abuf p k" "name_at abuf alen p ls h" "alen \<le> length abuf" "encoded \<le> p"
    and "length q + length (dotted ls) \<le> cap"
  shows "\<exists>p' el. expand_loop cap abuf encoded p q None = Some (p', q @ dotted ls, el)
                 \<and> reported_len p' el encoded = p + k - encoded"
  using assms
proof (induction arbitrary: q ls h rule: enc_size.induct)
  case (zero p)
  from zero.prems(1) have "ls = []" by cases (use zero.hyps in auto)
  moreover have "p < length abuf" using name_at_lt zero.prems by fastforce
  ultimately show ?case
    using zero.hyps by (simp add: expand_loop.simps [of _ _ _ p] rd_def reported_len_def)
next
  case (indir p)
  let ?o = "indir_offset (abuf ! p) (abuf ! (p + 1))"
  from indir.prems(1) obtain h' where o: "p + 1 < alen" "name_at abuf alen ?o ls h'"
    by cases (use indir.hyps in auto)
  then show ?case
    using expand_loop_follow [OF o(2) indir.prems(2), of q cap encoded "p + 2 - encoded"]
      indir.hyps indir.prems
    by (auto simp: expand_loop.simps [of _ _ _ p] rd_def reported_len_def)
next
  case (label p n)
  let ?b = "abuf ! p" and ?l = "take (unat (abuf ! p)) (drop (p + 1) abuf)"
  from label.prems(1) obtain ls' h' where
    l: "ls = ?l # ls'" "p + unat ?b + 1 < alen" "name_at abuf alen (p + unat ?b + 1) ls' h'"
    by cases (use label.hyps in auto)
  have q: "length (q @ escape_label ?l @ [DOT]) + length (dotted ls') \<le> cap"
    using label.prems(4) l(1) by simp
  have cp: "copy_label cap abuf (p + 1) (unat ?b) q = Some (p + unat ?b + 1, q @ escape_label ?l)"
    using copy_label_Some [of "p + 1" "unat ?b" abuf q cap] l label.prems by simp
  show ?case
    using label.IH [OF l(3) label.prems(2) _ q] label.hyps label.prems l cp [simplified] q
    by (auto simp: expand_loop.simps [of _ _ _ p] rd_def push_def)
qed

section \<open>ares_expand_name\<close>

lemma expand_name_complete:
  assumes "alen \<le> length abuf" "name_at abuf alen p ls h" "enc_size abuf p k"
  shows "ares_expand_name True abuf alen p = Some (Inr (print_name ls, k))"
proof -
  let ?len = "int (length (print_name ls))"
  have len: "name_length abuf alen p = Some ?len"
    using name_length_complete [OF assms(1,2)] .
  have cap: "length (dotted ls) \<le> nat (?len + 1)"
    by (cases ls) (auto simp: print_name_def nat_add_distrib)
  then obtain p' el where e: "expand_loop (nat (?len + 1)) abuf p p [] None = Some (p', dotted ls, el)"
    and r: "reported_len p' el p = k"
    using expand_loop_first [OF assms(3,2,1), of p "[]" "nat (?len + 1)"]
      enc_size_pos [OF assms(3)] by auto
  have s: "(if dotted ls \<noteq> [] then butlast (dotted ls) else dotted ls) = print_name ls"
    by (simp add: print_name_def)
  have "push (nat (?len + 1)) (print_name ls) 0 \<noteq> None"
    by (simp add: push_def nat_add_distrib)
  then show ?thesis
    using e r s len by (auto simp: ares_expand_name_def Let_def reported_len_def)
qed

lemma expand_name_refuses:
  assumes "alen \<le> length abuf" "p \<le> alen" "\<nexists>ls h. name_at abuf alen p ls h"
  shows "ares_expand_name m abuf alen p = Some (Inl ARES_EBADNAME)"
  by (simp add: ares_expand_name_def name_length_refuses [OF assms])

text \<open>The three outcomes, as one rule for the callers.\<close>

lemma expand_name_cases [consumes 2, case_names nomem bad good]:
  assumes "alen \<le> length abuf" "p \<le> alen"
  obtains "ares_expand_name m abuf alen p = Some (Inl ARES_ENOMEM)" "\<not> m"
  | "ares_expand_name m abuf alen p = Some (Inl ARES_EBADNAME)"
  | ls h k where "ares_expand_name m abuf alen p = Some (Inr (print_name ls, k))" "m"
      "name_at abuf alen p ls h" "enc_size abuf p k"
proof (cases "\<exists>ls h. name_at abuf alen p ls h")
  case False
  then show ?thesis using expand_name_refuses assms that(2) by blast
next
  case True
  then obtain ls h k where n: "name_at abuf alen p ls h" "enc_size abuf p k"
    using enc_size_exists by blast
  show ?thesis
  proof (cases m)
    case True
    then show ?thesis using expand_name_complete [OF assms(1) n] n that(3) by simp
  next
    case False
    then have "ares_expand_name m abuf alen p = Some (Inl ARES_ENOMEM)"
      by (simp add: ares_expand_name_def name_length_complete [OF assms(1) n(1)])
    with False show ?thesis using that(1) by blast
  qed
qed

section \<open>Bounds\<close>

lemma name_at_enc_size_le:
  "enc_size abuf p k \<Longrightarrow> name_at abuf alen p ls h \<Longrightarrow> p + k \<le> alen"
proof (induction arbitrary: ls h rule: enc_size.induct)
  case (zero p)
  then show ?case using name_at_lt by fastforce
next
  case (indir p)
  from indir.prems show ?case by cases (use indir.hyps in auto)
next
  case (label p n)
  from label.prems obtain ls' h' where "name_at abuf alen (p + unat (abuf ! p) + 1) ls' h'"
    by cases (use label.hyps in auto)
  from label.IH [OF this] show ?case by simp
qed

lemma and_shifted_mask:
  "(x::nat) AND push_bit n (mask m) = push_bit n (take_bit m (drop_bit n x))"
  by (auto simp: bit_eq_iff bit_simps)

lemma top_bits_nat: "192 \<le> x \<Longrightarrow> x < 256 \<Longrightarrow> x AND 192 = (192::nat)"
proof -
  assume "192 \<le> x" "x < 256"
  then have "drop_bit 6 x = 3" by (simp add: drop_bit_eq_div)
  with and_shifted_mask [of x 6 2] show ?thesis
    by (simp add: mask_eq_exp_minus_1 push_bit_eq_mult take_bit_eq_mod)
qed

lemma not_indir_less: "\<not> is_indir b \<Longrightarrow> unat b < 192"
proof (rule ccontr)
  assume a: "\<not> is_indir b" "\<not> unat b < 192"
  then have "unat b AND 192 = 192"
    using top_bits_nat unat_byte_less [of b] by simp
  then have "unat (b AND 192) = unat (192 :: byte)"
    by (simp add: unsigned_and_eq)
  then have "b AND 192 = 192" by (rule unsigned_word_eqI)
  with a(1) show False by (simp add: is_indir_def INDIR_MASK_def)
qed

lemma length_escape_label: "length (escape_label l) \<le> 2 * length l"
  by (induction l) auto

text \<open>A label has at most 191 bytes here (\<open>name_length\<close> accepts 64 to 191, too), each of
  which may be escaped.\<close>

lemma length_dotted: "name_at abuf alen p ls h \<Longrightarrow> length (dotted ls) \<le> 383 * h"
proof (induction rule: name_at.induct)
  case (label p ls h)
  have "length (escape_label (take (unat (abuf ! p)) (drop (p + 1) abuf))) \<le> 382"
    using length_escape_label [of "take (unat (abuf ! p)) (drop (p + 1) abuf)"]
      not_indir_less [OF label(2)] by simp
  with label.IH show ?case by simp
qed auto

lemma print_name_bound:
  assumes "name_at abuf alen p ls h"
  shows "length (print_name ls) \<le> 383 * alen"
  using length_dotted [OF assms] name_at_height_less [OF assms] by (simp add: print_name_def)

section \<open>Properties\<close>



text \<open>The expanded name is never longer than 383 times the message, so the \<^verbatim>\<open>int\<close> in which
  \<^verbatim>\<open>name_length\<close> counts cannot overflow for a DNS message.\<close>

theorem expanded_length_bound:
  assumes "alen \<le> length abuf" "p \<le> alen" "ares_expand_name True abuf alen p = Some (Inr (s, k))"
  shows "length s \<le> 383 * alen \<and> p + k \<le> alen"
proof -
  from assms(1,2) show ?thesis
    by (cases rule: expand_name_cases [where m = True])
       (use assms(3) print_name_bound name_at_enc_size_le in auto)
qed

theorem expanded_length_bound_witness:
  "ares_expand_name True [3, 0x77, 0x77, 0x77, 0] 5 0 = Some (Inr (str ''www'', 5)) \<and>
   length (str ''www'') \<le> 383 * 5 \<and> (0::nat) + 5 \<le> 5"
proof -
  let ?b = "[3, 0x77, 0x77, 0x77, 0] :: byte list"
  have "name_at ?b 5 4 [] 0" by (rule name_at.root) simp_all
  then have n: "name_at ?b 5 0 [str ''www''] 1"
    using name_at.label [of ?b 0 5 "[]" 0] by (simp add: is_indir_def INDIR_MASK_def str_def)
  have "enc_size ?b 4 1" by (rule enc_size.zero) simp
  then have k: "enc_size ?b 0 5"
    using enc_size.label [of ?b 0 1] by (simp add: is_indir_def INDIR_MASK_def)
  have "ares_expand_name True ?b 5 0 = Some (Inr (str ''www'', 5))"
    using expand_name_complete [OF _ n k] by (simp add: print_name_def needs_escape_def str_def)
  then show ?thesis using expanded_length_bound [of 5 ?b 0] by simp
qed

end
