(* ===== verification/ParseReply.thy ===== *)
theory ParseReply
  imports DnsName
begin

text \<open>
  \<^verbatim>\<open>ares_parse_a_reply.c\<close> and \<^verbatim>\<open>ares_parse_ptr_reply.c\<close>: from a reply message
  to a \<^verbatim>\<open>struct hostent\<close>. The argument \<open>m\<close> gives the outcome of the \<open>k\<close>-th
  allocation a call makes. \<open>None\<close> is an access outside the message or outside
  one of the arrays sized by the answer count; the lemmas show that it never
  occurs, and that a successful parse is the answer section's CNAME chain.
\<close>

section \<open>The code\<close>

definition AF_INET :: nat where "AF_INET = 2"

record hostent =
  h_name :: cstring
  h_aliases :: "cstring list"
  h_addrtype :: nat
  h_length :: nat
  h_addr_list :: "byte list list"

text \<open>The variables of the answer loop of \<^verbatim>\<open>ares_parse_a_reply\<close>.\<close>

record a_state =
  a_aptr :: nat
  a_hostname :: cstring
  a_addrs :: "byte list list"
  a_aliases :: "cstring list"

definition store :: "nat \<Rightarrow> 'a list \<Rightarrow> 'a \<Rightarrow> 'a list option" where
  "store cap xs x = (if length xs < cap then Some (xs @ [x]) else None)"

text \<open>
  The fixed part of a resource record: name, type, class, data length, and the
  offset of the data. \<^verbatim>\<open>check_len\<close> is the bound check on the data that
  \<^verbatim>\<open>ares_parse_a_reply\<close> makes here and \<^verbatim>\<open>ares_parse_ptr_reply\<close> makes later.
\<close>

definition decode_rr ::
  "bool \<Rightarrow> bool \<Rightarrow> byte list \<Rightarrow> nat \<Rightarrow> nat
   \<Rightarrow> (ares_status + cstring \<times> nat \<times> nat \<times> nat \<times> nat) option" where
  "decode_rr check_len m abuf alen aptr = do {
     r \<leftarrow> ares_expand_name m abuf alen aptr;
     case r of Inl e \<Rightarrow> Some (Inl e)
     | Inr (rr_name, len) \<Rightarrow> do {
         let aptr = aptr + len;
         if aptr + RRFIXEDSZ > alen then Some (Inl ARES_EBADRESP)
         else do {
           rr_type \<leftarrow> DNS_RR_TYPE abuf aptr;
           rr_class \<leftarrow> DNS_RR_CLASS abuf aptr;
           rr_len \<leftarrow> DNS_RR_LEN abuf aptr;
           let aptr = aptr + RRFIXEDSZ;
           if check_len \<and> aptr + rr_len > alen then Some (Inl ARES_EBADRESP)
           else Some (Inr (rr_name, rr_type, rr_class, rr_len, aptr)) } } }"

text \<open>One turn of the loop: the error status with which it breaks, or the next state.\<close>

definition a_step ::
  "(nat \<Rightarrow> bool) \<Rightarrow> byte list \<Rightarrow> nat \<Rightarrow> nat \<Rightarrow> nat \<Rightarrow> a_state \<Rightarrow> (ares_status + a_state) option" where
  "a_step m abuf alen ancount i st = do {
     r \<leftarrow> decode_rr True (m (3 + 2 * i)) abuf alen (a_aptr st);
     case r of Inl e \<Rightarrow> Some (Inl e)
     | Inr (rr_name, rr_type, rr_class, rr_len, aptr) \<Rightarrow> do {
         st \<leftarrow> (if rr_class = C_IN \<and> rr_type = T_A \<and> rr_len = 4 \<and> strcaseeq rr_name (a_hostname st)
                then do {
                  a \<leftarrow> rd_range abuf aptr 4;
                  addrs \<leftarrow> store ancount (a_addrs st) a;
                  Some (st\<lparr>a_addrs := addrs\<rparr>) }
                else Some st);
         if rr_class = C_IN \<and> rr_type = T_CNAME then do {
           aliases \<leftarrow> store (ancount + 1) (a_aliases st) rr_name;
           d \<leftarrow> ares_expand_name (m (4 + 2 * i)) abuf alen aptr;
           case d of Inl e \<Rightarrow> Some (Inl e)
           | Inr (rr_data, _) \<Rightarrow>
               if aptr + rr_len > alen then Some (Inl ARES_EBADRESP)
               else Some (Inr (st\<lparr>a_aliases := aliases, a_hostname := rr_data, a_aptr := aptr + rr_len\<rparr>)) }
         else if aptr + rr_len > alen then Some (Inl ARES_EBADRESP)
         else Some (Inr (st\<lparr>a_aptr := aptr + rr_len\<rparr>)) } }"

fun a_loop ::
  "(nat \<Rightarrow> bool) \<Rightarrow> byte list \<Rightarrow> nat \<Rightarrow> nat \<Rightarrow> nat \<Rightarrow> a_state \<Rightarrow> (ares_status + a_state) option" where
  "a_loop m abuf alen ancount 0 st = Some (Inr st)"
| "a_loop m abuf alen ancount (Suc n) st = do {
     r \<leftarrow> a_step m abuf alen ancount (ancount - Suc n) st;
     case r of Inl e \<Rightarrow> Some (Inl e) | Inr st \<Rightarrow> a_loop m abuf alen ancount n st }"

text \<open>The part both parsers share: the header check and the question. The result is the
  question name, the offset behind the question, and the answer count.\<close>

definition parse_question ::
  "bool \<Rightarrow> byte list \<Rightarrow> nat \<Rightarrow> (ares_status + cstring \<times> nat \<times> nat) option" where
  "parse_question m abuf alen =
     (if alen < HFIXEDSZ then Some (Inl ARES_EBADRESP)
      else do {
        qdcount \<leftarrow> DNS_HEADER_QDCOUNT abuf;
        ancount \<leftarrow> DNS_HEADER_ANCOUNT abuf;
        if qdcount \<noteq> 1 then Some (Inl ARES_EBADRESP)
        else do {
          r \<leftarrow> ares_expand_name m abuf alen HFIXEDSZ;
          case r of Inl e \<Rightarrow> Some (Inl e)
          | Inr (name, len) \<Rightarrow>
              if HFIXEDSZ + len + QFIXEDSZ > alen then Some (Inl ARES_EBADRESP)
              else Some (Inr (name, HFIXEDSZ + len + QFIXEDSZ, ancount)) } })"

definition ares_parse_a_reply ::
  "(nat \<Rightarrow> bool) \<Rightarrow> byte list \<Rightarrow> nat \<Rightarrow> (ares_status + hostent) option" where
  "ares_parse_a_reply m abuf alen = do {
     q \<leftarrow> parse_question (m 0) abuf alen;
     case q of Inl e \<Rightarrow> Some (Inl e)
     | Inr (hostname, aptr, ancount) \<Rightarrow>
         if \<not> m 1 then Some (Inl ARES_ENOMEM)
         else if \<not> m 2 then Some (Inl ARES_ENOMEM)
         else do {
           r \<leftarrow> a_loop m abuf alen ancount ancount
                  \<lparr>a_aptr = aptr, a_hostname = hostname, a_addrs = [], a_aliases = []\<rparr>;
           case r of Inl e \<Rightarrow> Some (Inl e)
           | Inr st \<Rightarrow>
               if a_addrs st = [] then Some (Inl ARES_ENODATA)
               else if m (3 + 2 * ancount) \<and> m (4 + 2 * ancount) then
                 Some (Inr \<lparr>h_name = a_hostname st, h_aliases = a_aliases st,
                            h_addrtype = AF_INET, h_length = 4, h_addr_list = a_addrs st\<rparr>)
               else Some (Inl ARES_ENOMEM) } }"

record p_state =
  p_aptr :: nat
  p_ptrname :: cstring
  p_hostname :: "cstring option"

definition p_step ::
  "(nat \<Rightarrow> bool) \<Rightarrow> byte list \<Rightarrow> nat \<Rightarrow> nat \<Rightarrow> p_state \<Rightarrow> (ares_status + p_state) option" where
  "p_step m abuf alen i st = do {
     r \<leftarrow> decode_rr False (m (1 + 3 * i)) abuf alen (p_aptr st);
     case r of Inl e \<Rightarrow> Some (Inl e)
     | Inr (rr_name, rr_type, rr_class, rr_len, aptr) \<Rightarrow> do {
         r \<leftarrow> (if rr_class = C_IN \<and> rr_type = T_PTR \<and> strcaseeq rr_name (p_ptrname st)
               then do {
                 d \<leftarrow> ares_expand_name (m (2 + 3 * i)) abuf alen aptr;
                 case d of Inl e \<Rightarrow> Some (Inl e)
                 | Inr (rr_data, _) \<Rightarrow> Some (Inr (st\<lparr>p_hostname := Some rr_data\<rparr>)) }
               else Some (Inr st));
         case r of Inl e \<Rightarrow> Some (Inl e)
         | Inr st \<Rightarrow> do {
             r \<leftarrow> (if rr_class = C_IN \<and> rr_type = T_CNAME
                   then do {
                     d \<leftarrow> ares_expand_name (m (3 + 3 * i)) abuf alen aptr;
                     case d of Inl e \<Rightarrow> Some (Inl e)
                     | Inr (rr_data, _) \<Rightarrow> Some (Inr (st\<lparr>p_ptrname := rr_data\<rparr>)) }
                   else Some (Inr st));
             case r of Inl e \<Rightarrow> Some (Inl e)
             | Inr st \<Rightarrow>
                 if aptr + rr_len > alen then Some (Inl ARES_EBADRESP)
                 else Some (Inr (st\<lparr>p_aptr := aptr + rr_len\<rparr>)) } } }"

fun p_loop ::
  "(nat \<Rightarrow> bool) \<Rightarrow> byte list \<Rightarrow> nat \<Rightarrow> nat \<Rightarrow> nat \<Rightarrow> p_state \<Rightarrow> (ares_status + p_state) option" where
  "p_loop m abuf alen ancount 0 st = Some (Inr st)"
| "p_loop m abuf alen ancount (Suc n) st = do {
     r \<leftarrow> p_step m abuf alen (ancount - Suc n) st;
     case r of Inl e \<Rightarrow> Some (Inl e) | Inr st \<Rightarrow> p_loop m abuf alen ancount n st }"

definition ares_parse_ptr_reply ::
  "(nat \<Rightarrow> bool) \<Rightarrow> byte list \<Rightarrow> nat \<Rightarrow> byte list \<Rightarrow> nat \<Rightarrow> (ares_status + hostent) option" where
  "ares_parse_ptr_reply m abuf alen addr family = do {
     q \<leftarrow> parse_question (m 0) abuf alen;
     case q of Inl e \<Rightarrow> Some (Inl e)
     | Inr (ptrname, aptr, ancount) \<Rightarrow> do {
         r \<leftarrow> p_loop m abuf alen ancount ancount
                \<lparr>p_aptr = aptr, p_ptrname = ptrname, p_hostname = None\<rparr>;
         case r of Inl e \<Rightarrow> Some (Inl e)
         | Inr st \<Rightarrow>
             (case p_hostname st of None \<Rightarrow> Some (Inl ARES_ENODATA)
              | Some hostname \<Rightarrow>
                  if (\<forall>k\<in>set [1..<5]. m (k + 3 * ancount)) then
                    Some (Inr \<lparr>h_name = hostname, h_aliases = [], h_addrtype = family,
                               h_length = length addr, h_addr_list = [addr]\<rparr>)
                  else Some (Inl ARES_ENOMEM)) } }"

section \<open>Specification of the answer section\<close>

text \<open>A resource record at \<open>p\<close>: its name, type, class, data length and data offset.\<close>

definition rr_at ::
  "byte list \<Rightarrow> nat \<Rightarrow> nat \<Rightarrow> cstring \<Rightarrow> nat \<Rightarrow> nat \<Rightarrow> nat \<Rightarrow> nat \<Rightarrow> bool" where
  "rr_at abuf alen p name ty cl len d \<longleftrightarrow>
     (\<exists>ls h k. name_at abuf alen p ls h \<and> enc_size abuf p k \<and> name = print_name ls
        \<and> d = p + k + 10 \<and> d + len \<le> alen
        \<and> ty = get16 (abuf ! (p + k)) (abuf ! (p + k + 1))
        \<and> cl = get16 (abuf ! (p + k + 2)) (abuf ! (p + k + 3))
        \<and> len = get16 (abuf ! (p + k + 8)) (abuf ! (p + k + 9)))"

text \<open>
  \<open>a_chain abuf alen p n h h' as als\<close>: reading \<open>n\<close> records from \<open>p\<close> on, starting
  with the name \<open>h\<close>, the CNAME records lead to \<open>h'\<close>, the aliases met are \<open>als\<close>
  and the address records of the name current at their place are \<open>as\<close>.
\<close>

inductive a_chain ::
  "byte list \<Rightarrow> nat \<Rightarrow> nat \<Rightarrow> nat \<Rightarrow> cstring \<Rightarrow> cstring \<Rightarrow> byte list list \<Rightarrow> cstring list \<Rightarrow> bool"
  for abuf :: "byte list" and alen :: nat where
  finished: "a_chain abuf alen p 0 h h [] []"
| address: "rr_at abuf alen p name T_A C_IN 4 d \<Longrightarrow> strcaseeq name h
     \<Longrightarrow> a_chain abuf alen (d + 4) n h h' as als
     \<Longrightarrow> a_chain abuf alen p (Suc n) h h' (take 4 (drop d abuf) # as) als"
| cname: "rr_at abuf alen p name T_CNAME C_IN len d \<Longrightarrow> name_at abuf alen d ls k
     \<Longrightarrow> a_chain abuf alen (d + len) n (print_name ls) h' as als
     \<Longrightarrow> a_chain abuf alen p (Suc n) h h' as (name # als)"
| other: "rr_at abuf alen p name ty cl len d
     \<Longrightarrow> \<not> (cl = C_IN \<and> ty = T_CNAME)
     \<Longrightarrow> \<not> (cl = C_IN \<and> ty = T_A \<and> len = 4 \<and> strcaseeq name h)
     \<Longrightarrow> a_chain abuf alen (d + len) n h h' as als
     \<Longrightarrow> a_chain abuf alen p (Suc n) h h' as als"

section \<open>Lemmas\<close>

text \<open>What a call of \<open>decode_rr\<close> inside the message returns: never \<open>None\<close>.\<close>

lemma decode_rr_cases:
  assumes al: "alen \<le> length abuf" and p: "p \<le> alen"
  obtains e where "decode_rr c m abuf alen p = Some (Inl e)" "e \<noteq> ARES_SUCCESS"
  | name ty cl len d where "decode_rr c m abuf alen p = Some (Inr (name, ty, cl, len, d))"
      "d \<le> alen" "d + len \<le> alen \<longrightarrow> rr_at abuf alen p name ty cl len d" "c \<longrightarrow> d + len \<le> alen"
  using al p
proof (cases rule: expand_name_cases [where m = m])
  case nomem
  then show ?thesis using that(1) by (simp add: decode_rr_def)
next
  case bad
  then show ?thesis using that(1) by (simp add: decode_rr_def)
next
  case (good ls h k)
  let ?a = "p + k"
  show ?thesis
  proof (cases "?a + 10 > alen")
    case True
    then show ?thesis using that(1) good(1) by (simp add: decode_rr_def RRFIXEDSZ_def)
  next
    case False
    define ty cl len where "ty = get16 (abuf ! ?a) (abuf ! (?a + 1))"
      and "cl = get16 (abuf ! (?a + 2)) (abuf ! (?a + 3))"
      and "len = get16 (abuf ! (?a + 8)) (abuf ! (?a + 9))"
    have "decode_rr c m abuf alen p =
        (if c \<and> ?a + 10 + len > alen then Some (Inl ARES_EBADRESP)
         else Some (Inr (print_name ls, ty, cl, len, ?a + 10)))"
      using False al good(1)
      by (simp add: decode_rr_def RRFIXEDSZ_def dns_accessors buf_simps ty_def cl_def len_def
          numeral_eq_Suc Let_def)
    moreover have "?a + 10 + len \<le> alen \<Longrightarrow> rr_at abuf alen p (print_name ls) ty cl len (?a + 10)"
      unfolding rr_at_def ty_def cl_def len_def using good(3,4) by blast
    ultimately show ?thesis using False that
      by (cases "c \<and> ?a + 10 + len > alen") auto
  qed
qed

lemma parse_question_cases:
  assumes al: "alen \<le> length abuf"
  obtains e where "parse_question m abuf alen = Some (Inl e)" "e \<noteq> ARES_SUCCESS"
  | ls h k where "parse_question m abuf alen =
        Some (Inr (print_name ls, 16 + k, get16 (abuf ! 6) (abuf ! 7)))"
      "name_at abuf alen 12 ls h" "enc_size abuf 12 k" "16 + k \<le> alen"
      "get16 (abuf ! 4) (abuf ! 5) = 1"
proof (cases "alen < 12 \<or> get16 (abuf ! 4) (abuf ! 5) \<noteq> 1")
  case True
  then show ?thesis
    using that(1) al by (auto simp: parse_question_def wire_consts dns_accessors buf_simps numeral_eq_Suc)
next
  case False
  then have alen: "12 \<le> alen" by simp
  note unf = parse_question_def wire_consts dns_accessors
  from False al have q: "DNS__16BIT abuf 4 = Some 1"
    "DNS__16BIT abuf 6 = Some (get16 (abuf ! 6) (abuf ! 7))"
    by (simp_all add: buf_simps numeral_eq_Suc)
  from al alen show ?thesis
  proof (cases rule: expand_name_cases [where m = m])
    case nomem
    then show ?thesis using that(1) alen q by (simp add: unf)
  next
    case bad
    then show ?thesis using that(1) alen q by (simp add: unf)
  next
    case (good ls h k)
    then show ?thesis using that(1) that(2) [of ls k h] alen q False
      by (cases "16 + k > alen") (simp_all add: unf)
  qed
qed

text \<open>One record extends the chain by what it adds to the two arrays.\<close>

definition a_progress :: "byte list \<Rightarrow> nat \<Rightarrow> a_state \<Rightarrow> a_state \<Rightarrow> bool" where
  "a_progress abuf alen st st' \<longleftrightarrow> a_aptr st' \<le> alen \<and>
     (\<exists>as als. a_addrs st' = a_addrs st @ as \<and> a_aliases st' = a_aliases st @ als
        \<and> length as \<le> 1 \<and> length als \<le> 1
        \<and> (\<forall>n h' bs bls. a_chain abuf alen (a_aptr st') n (a_hostname st') h' bs bls \<longrightarrow>
              a_chain abuf alen (a_aptr st) (Suc n) (a_hostname st) h' (as @ bs) (als @ bls)))"

lemma T_A_CNAME [simp]: "T_A \<noteq> T_CNAME" "T_CNAME \<noteq> T_A" "T_PTR \<noteq> T_CNAME" "T_CNAME \<noteq> T_PTR"
  by (simp_all add: wire_consts)

lemma a_step_cases:
  assumes al: "alen \<le> length abuf" and p: "a_aptr st \<le> alen"
    and cap: "length (a_addrs st) < ancount" "length (a_aliases st) < ancount"
  shows "\<exists>r. a_step m abuf alen ancount i st = Some r
           \<and> (\<forall>e. r = Inl e \<longrightarrow> e \<noteq> ARES_SUCCESS)
           \<and> (\<forall>st'. r = Inr st' \<longrightarrow> a_progress abuf alen st st')"
  using al p
proof (cases rule: decode_rr_cases [where c = True and m = "m (3 + 2 * i)"])
  case (1 e)
  then show ?thesis by (simp add: a_step_def)
next
  case (2 name ty cl len d)
  then have rr: "rr_at abuf alen (a_aptr st) name ty cl len d" and len: "d + len \<le> alen" by auto
  consider (addr) "cl = C_IN \<and> ty = T_A \<and> len = 4 \<and> strcaseeq name (a_hostname st)"
    | (cname) "cl = C_IN \<and> ty = T_CNAME"
    | (other) "\<not> (cl = C_IN \<and> ty = T_A \<and> len = 4 \<and> strcaseeq name (a_hostname st))"
        "\<not> (cl = C_IN \<and> ty = T_CNAME)" by blast
  then show ?thesis
  proof cases
    case addr
    have "rd_range abuf d 4 = Some (take 4 (drop d abuf))" using addr len al by (simp add: rd_range_Some)
    with addr 2(1) cap len
    have "a_step m abuf alen ancount i st = Some (Inr (st\<lparr>a_addrs := a_addrs st @ [take 4 (drop d abuf)],
        a_aptr := d + len\<rparr>))"
      by (simp add: a_step_def store_def)
    moreover have "a_progress abuf alen st (st\<lparr>a_addrs := a_addrs st @ [take 4 (drop d abuf)],
        a_aptr := d + len\<rparr>)"
      unfolding a_progress_def using addr len rr by (auto intro!: a_chain.address)
    ultimately show ?thesis by simp
  next
    case cname
    from al 2(2) show ?thesis
    proof (cases rule: expand_name_cases [where m = "m (4 + 2 * i)"])
      case (good ls h k)
      with cname 2(1) cap len
      have "a_step m abuf alen ancount i st = Some (Inr (st\<lparr>a_aliases := a_aliases st @ [name],
          a_hostname := print_name ls, a_aptr := d + len\<rparr>))"
        by (simp add: a_step_def store_def)
      moreover have "a_progress abuf alen st (st\<lparr>a_aliases := a_aliases st @ [name],
          a_hostname := print_name ls, a_aptr := d + len\<rparr>)"
        unfolding a_progress_def using cname len rr good(3) by (auto intro!: a_chain.cname)
      ultimately show ?thesis by simp
    qed (use cname 2(1) cap in \<open>simp_all add: a_step_def store_def\<close>)
  next
    case other
    with 2(1) len have "a_step m abuf alen ancount i st = Some (Inr (st\<lparr>a_aptr := d + len\<rparr>))"
      by (auto simp: a_step_def)
    moreover have "a_progress abuf alen st (st\<lparr>a_aptr := d + len\<rparr>)"
      unfolding a_progress_def using other len rr by (auto intro: a_chain.other)
    ultimately show ?thesis by simp
  qed
qed

lemma a_loop_cases:
  assumes "alen \<le> length abuf" "a_aptr st \<le> alen" "n \<le> ancount"
    and "length (a_addrs st) + n \<le> ancount" "length (a_aliases st) + n \<le> ancount"
  shows "\<exists>r. a_loop m abuf alen ancount n st = Some r
           \<and> (\<forall>e. r = Inl e \<longrightarrow> e \<noteq> ARES_SUCCESS)
           \<and> (\<forall>st'. r = Inr st' \<longrightarrow> (\<exists>as als. a_addrs st' = a_addrs st @ as
                \<and> a_aliases st' = a_aliases st @ als
                \<and> a_chain abuf alen (a_aptr st) n (a_hostname st) (a_hostname st') as als))"
  using assms
proof (induction n arbitrary: st)
  case 0
  then show ?case by (auto intro: a_chain.finished)
next
  case (Suc n)
  obtain r where r: "a_step m abuf alen ancount (ancount - Suc n) st = Some r"
    and e: "\<And>e. r = Inl e \<Longrightarrow> e \<noteq> ARES_SUCCESS"
    and pr: "\<And>st'. r = Inr st' \<Longrightarrow> a_progress abuf alen st st'"
    using a_step_cases [of alen abuf st ancount m] Suc.prems by fastforce
  show ?case
  proof (cases r)
    case (Inl a)
    with r e show ?thesis by simp
  next
    case (Inr st1)
    from pr [OF Inr] obtain as als where a: "a_aptr st1 \<le> alen" "a_addrs st1 = a_addrs st @ as"
      "a_aliases st1 = a_aliases st @ als" "length as \<le> 1" "length als \<le> 1"
      and ch: "\<And>k h' bs bls. a_chain abuf alen (a_aptr st1) k (a_hostname st1) h' bs bls \<Longrightarrow>
              a_chain abuf alen (a_aptr st) (Suc k) (a_hostname st) h' (as @ bs) (als @ bls)"
      unfolding a_progress_def by blast
    from Suc.IH [of st1] Suc.prems a obtain r' where r': "a_loop m abuf alen ancount n st1 = Some r'"
      "\<forall>e. r' = Inl e \<longrightarrow> e \<noteq> ARES_SUCCESS"
      "\<forall>st'. r' = Inr st' \<longrightarrow> (\<exists>bs bls. a_addrs st' = a_addrs st1 @ bs \<and> a_aliases st' = a_aliases st1 @ bls
          \<and> a_chain abuf alen (a_aptr st1) n (a_hostname st1) (a_hostname st') bs bls)"
      by auto
    with r Inr a(2,3) ch show ?thesis by fastforce
  qed
qed

text \<open>The addresses and aliases of a chain fit the arrays the answer count sizes, and every
  address is four bytes of the message.\<close>

lemma a_chain_counts:
  "a_chain abuf alen p n h h' as als \<Longrightarrow> length as + length als \<le> n"
  by (induction rule: a_chain.induct) auto

lemma a_chain_addresses:
  "a_chain abuf alen p n h h' as als \<Longrightarrow> alen \<le> length abuf \<Longrightarrow> a \<in> set as
   \<Longrightarrow> length a = 4 \<and> (\<exists>d. d + 4 \<le> alen \<and> a = take 4 (drop d abuf))"
proof (induction rule: a_chain.induct)
  case (address p name d h n h' as als)
  then have "d + 4 \<le> alen" by (auto simp: rr_at_def)
  with address show ?case by auto
qed auto

subsection \<open>The PTR parser\<close>

text \<open>
  The host name a PTR answer leads to: the data of the last PTR record whose name is
  the current one, CNAME records changing the current name.
\<close>

inductive p_chain ::
  "byte list \<Rightarrow> nat \<Rightarrow> nat \<Rightarrow> nat \<Rightarrow> cstring \<Rightarrow> cstring option \<Rightarrow> cstring option \<Rightarrow> bool"
  for abuf :: "byte list" and alen :: nat where
  finished: "p_chain abuf alen p 0 nm hn hn"
| ptr: "rr_at abuf alen p name T_PTR C_IN len d \<Longrightarrow> strcaseeq name nm
     \<Longrightarrow> name_at abuf alen d ls k
     \<Longrightarrow> p_chain abuf alen (d + len) n nm (Some (print_name ls)) hn'
     \<Longrightarrow> p_chain abuf alen p (Suc n) nm hn hn'"
| cname: "rr_at abuf alen p name T_CNAME C_IN len d \<Longrightarrow> name_at abuf alen d ls k
     \<Longrightarrow> p_chain abuf alen (d + len) n (print_name ls) hn hn'
     \<Longrightarrow> p_chain abuf alen p (Suc n) nm hn hn'"
| other: "rr_at abuf alen p name ty cl len d
     \<Longrightarrow> \<not> (cl = C_IN \<and> ty = T_CNAME) \<Longrightarrow> \<not> (cl = C_IN \<and> ty = T_PTR \<and> strcaseeq name nm)
     \<Longrightarrow> p_chain abuf alen (d + len) n nm hn hn'
     \<Longrightarrow> p_chain abuf alen p (Suc n) nm hn hn'"

definition p_progress :: "byte list \<Rightarrow> nat \<Rightarrow> p_state \<Rightarrow> p_state \<Rightarrow> bool" where
  "p_progress abuf alen st st' \<longleftrightarrow> p_aptr st' \<le> alen \<and>
     (\<forall>n hn'. p_chain abuf alen (p_aptr st') n (p_ptrname st') (p_hostname st') hn' \<longrightarrow>
        p_chain abuf alen (p_aptr st) (Suc n) (p_ptrname st) (p_hostname st) hn')"

lemma p_step_cases:
  assumes al: "alen \<le> length abuf" and p: "p_aptr st \<le> alen"
  shows "\<exists>r. p_step m abuf alen i st = Some r
           \<and> (\<forall>e. r = Inl e \<longrightarrow> e \<noteq> ARES_SUCCESS)
           \<and> (\<forall>st'. r = Inr st' \<longrightarrow> p_progress abuf alen st st')"
  using al p
proof (cases rule: decode_rr_cases [where c = False and m = "m (1 + 3 * i)"])
  case (1 e)
  then show ?thesis by (simp add: p_step_def)
next
  case (2 name ty cl len d)
  consider (ptr) "cl = C_IN \<and> ty = T_PTR \<and> strcaseeq name (p_ptrname st)"
    | (cname) "cl = C_IN \<and> ty = T_CNAME"
    | (other) "\<not> (cl = C_IN \<and> ty = T_PTR \<and> strcaseeq name (p_ptrname st))"
        "\<not> (cl = C_IN \<and> ty = T_CNAME)" by blast
  then show ?thesis
  proof cases
    case ptr
    from al 2(2) show ?thesis
    proof (cases rule: expand_name_cases [where m = "m (2 + 3 * i)"])
      case (good ls h k)
      then have "p_step m abuf alen i st =
          Some (if d + len > alen then Inl ARES_EBADRESP
                else Inr (st\<lparr>p_hostname := Some (print_name ls), p_aptr := d + len\<rparr>))"
        using ptr 2(1) by (simp add: p_step_def)
      moreover have "d + len \<le> alen \<Longrightarrow> p_progress abuf alen st
          (st\<lparr>p_hostname := Some (print_name ls), p_aptr := d + len\<rparr>)"
        unfolding p_progress_def using ptr 2(3) good(3) by (auto intro: p_chain.ptr)
      ultimately show ?thesis by simp
    qed (use ptr 2(1) in \<open>simp_all add: p_step_def\<close>)
  next
    case cname
    from al 2(2) show ?thesis
    proof (cases rule: expand_name_cases [where m = "m (3 + 3 * i)"])
      case (good ls h k)
      then have "p_step m abuf alen i st =
          Some (if d + len > alen then Inl ARES_EBADRESP
                else Inr (st\<lparr>p_ptrname := print_name ls, p_aptr := d + len\<rparr>))"
        using cname 2(1) by (simp add: p_step_def)
      moreover have "d + len \<le> alen \<Longrightarrow> p_progress abuf alen st
          (st\<lparr>p_ptrname := print_name ls, p_aptr := d + len\<rparr>)"
        unfolding p_progress_def using cname 2(3) good(3) by (auto intro: p_chain.cname)
      ultimately show ?thesis by simp
    qed (use cname 2(1) in \<open>simp_all add: p_step_def\<close>)
  next
    case other
    then have "p_step m abuf alen i st =
        Some (if d + len > alen then Inl ARES_EBADRESP else Inr (st\<lparr>p_aptr := d + len\<rparr>))"
      using 2(1) by (auto simp: p_step_def)
    moreover have "d + len \<le> alen \<Longrightarrow> p_progress abuf alen st (st\<lparr>p_aptr := d + len\<rparr>)"
      unfolding p_progress_def using other 2(3) by (auto intro: p_chain.other)
    ultimately show ?thesis by simp
  qed
qed

lemma p_loop_cases:
  assumes "alen \<le> length abuf" "p_aptr st \<le> alen"
  shows "\<exists>r. p_loop m abuf alen ancount n st = Some r
           \<and> (\<forall>e. r = Inl e \<longrightarrow> e \<noteq> ARES_SUCCESS)
           \<and> (\<forall>st'. r = Inr st' \<longrightarrow>
                p_chain abuf alen (p_aptr st) n (p_ptrname st) (p_hostname st) (p_hostname st'))"
  using assms
proof (induction n arbitrary: st)
  case 0
  then show ?case by (auto intro: p_chain.finished)
next
  case (Suc n)
  obtain r where r: "p_step m abuf alen (ancount - Suc n) st = Some r"
    and e: "\<And>e. r = Inl e \<Longrightarrow> e \<noteq> ARES_SUCCESS"
    and pr: "\<And>st'. r = Inr st' \<Longrightarrow> p_progress abuf alen st st'"
    using p_step_cases [of alen abuf st m] Suc.prems by fastforce
  show ?case
  proof (cases r)
    case (Inl a)
    with r e show ?thesis by simp
  next
    case (Inr st1)
    with pr have "p_progress abuf alen st st1" by blast
    with Suc.IH [of st1] Suc.prems r Inr show ?thesis by (fastforce simp: p_progress_def)
  qed
qed

section \<open>Totality of the parsers\<close>

lemma parse_a_reply_cases:
  assumes "alen \<le> length abuf"
  obtains e where "ares_parse_a_reply m abuf alen = Some (Inl e)" "e \<noteq> ARES_SUCCESS"
  | ls h k host as als where "ares_parse_a_reply m abuf alen =
        Some (Inr \<lparr>h_name = host, h_aliases = als, h_addrtype = AF_INET, h_length = 4, h_addr_list = as\<rparr>)"
      "name_at abuf alen 12 ls h" "enc_size abuf 12 k" "as \<noteq> []"
      "a_chain abuf alen (16 + k) (get16 (abuf ! 6) (abuf ! 7)) (print_name ls) host as als"
  using assms
proof (cases rule: parse_question_cases [where m = "m 0"])
  case (1 e)
  then show ?thesis using that(1) by (simp add: ares_parse_a_reply_def)
next
  case (2 ls h k)
  let ?n = "get16 (abuf ! 6) (abuf ! 7)"
  let ?st = "\<lparr>a_aptr = 16 + k, a_hostname = print_name ls, a_addrs = [], a_aliases = []\<rparr>"
  obtain r where r: "a_loop m abuf alen ?n ?n ?st = Some r"
    "\<And>e. r = Inl e \<Longrightarrow> e \<noteq> ARES_SUCCESS"
    "\<And>st'. r = Inr st' \<Longrightarrow> a_chain abuf alen (16 + k) ?n (print_name ls)
        (a_hostname st') (a_addrs st') (a_aliases st')"
    using a_loop_cases [OF assms, of ?st ?n ?n m] 2(4) by auto
  show ?thesis
  proof (cases "m 1 \<and> m 2")
    case False
    then have "ares_parse_a_reply m abuf alen = Some (Inl ARES_ENOMEM)"
      using 2(1) by (auto simp: ares_parse_a_reply_def)
    then show ?thesis using that(1) by blast
  next
    case m: True
    show ?thesis
    proof (cases r)
      case (Inl e)
      then show ?thesis using that(1) r(1,2) 2(1) m by (simp add: ares_parse_a_reply_def)
    next
      case (Inr st)
      then show ?thesis using that(1) that(2) [OF _ 2(2,3) _ r(3) [OF Inr]] r(1) 2(1) m
        by (cases "a_addrs st = []"; cases "m (3 + 2 * ?n) \<and> m (4 + 2 * ?n)")
           (auto simp: ares_parse_a_reply_def)
    qed
  qed
qed

lemma parse_ptr_reply_cases:
  assumes "alen \<le> length abuf"
  obtains e where "ares_parse_ptr_reply m abuf alen addr family = Some (Inl e)" "e \<noteq> ARES_SUCCESS"
  | ls h k host where "ares_parse_ptr_reply m abuf alen addr family =
        Some (Inr \<lparr>h_name = host, h_aliases = [], h_addrtype = family, h_length = length addr,
                   h_addr_list = [addr]\<rparr>)"
      "name_at abuf alen 12 ls h" "enc_size abuf 12 k"
      "p_chain abuf alen (16 + k) (get16 (abuf ! 6) (abuf ! 7)) (print_name ls) None (Some host)"
  using assms
proof (cases rule: parse_question_cases [where m = "m 0"])
  case (1 e)
  then show ?thesis using that(1) by (simp add: ares_parse_ptr_reply_def)
next
  case (2 ls h k)
  let ?n = "get16 (abuf ! 6) (abuf ! 7)"
  let ?st = "\<lparr>p_aptr = 16 + k, p_ptrname = print_name ls, p_hostname = None\<rparr>"
  obtain r where r: "p_loop m abuf alen ?n ?n ?st = Some r"
    "\<And>e. r = Inl e \<Longrightarrow> e \<noteq> ARES_SUCCESS"
    "\<And>st'. r = Inr st' \<Longrightarrow> p_chain abuf alen (16 + k) ?n (print_name ls) None (p_hostname st')"
    using p_loop_cases [OF assms, of ?st m ?n ?n] 2(4) by auto
  show ?thesis
  proof (cases r)
    case (Inl e)
    then show ?thesis using that(1) r(1,2) 2(1) by (simp add: ares_parse_ptr_reply_def)
  next
    case (Inr st)
    then show ?thesis using that(1) that(2) [OF _ 2(2,3)] r(1) r(3) [OF Inr] 2(1)
      by (cases "p_hostname st"; cases "\<forall>j\<in>set [1..<5]. m (j + 3 * ?n)")
         (auto simp: ares_parse_ptr_reply_def)
  qed
qed

section \<open>Properties\<close>



text \<open>A reply with one address record whose name is a pointer to the question.\<close>

definition a_reply_example :: "byte list" where
  "a_reply_example = [0, 7, 0x81, 0x80, 0, 1, 0, 1, 0, 0, 0, 0, 1, 0x61, 0, 0, 1, 0, 1,
     0xc0, 12, 0, 1, 0, 1, 0, 0, 0, 5, 0, 4, 10, 0, 0, 1]"

lemma a_reply_example_parsed:
  "ares_parse_a_reply (\<lambda>_. True) a_reply_example (length a_reply_example) =
     Some (Inr \<lparr>h_name = [0x61], h_aliases = [], h_addrtype = AF_INET, h_length = 4,
                h_addr_list = [[10, 0, 0, 1]]\<rparr>)"
  by code_simp


text \<open>\<^verbatim>\<open>ares_parse_ptr_reply\<close> is sound: the name it returns is the data of the last PTR record
  for the question name or what the CNAME records before it lead to, and the host carries the address
  that was asked for.\<close>

theorem parse_ptr_reply_sound:
  assumes "ares_parse_ptr_reply m abuf (length abuf) addr family = Some (Inr host)"
  shows "h_addr_list host = [addr] \<and> h_aliases host = [] \<and>
    (\<exists>ls h k. name_at abuf (length abuf) 12 ls h \<and> enc_size abuf 12 k \<and>
      p_chain abuf (length abuf) (16 + k) (get16 (abuf ! 6) (abuf ! 7)) (print_name ls)
        None (Some (h_name host)))"
proof -
  have "length abuf \<le> length abuf" by simp
  then show ?thesis
    by (rule parse_ptr_reply_cases [where m = m and addr = addr and family = family]) (use assms in auto)
qed

definition ptr_reply_example :: "byte list" where
  "ptr_reply_example = [0, 7, 0x81, 0x80, 0, 1, 0, 1, 0, 0, 0, 0, 1, 0x31, 0, 0, 12, 0, 1,
     0xc0, 12, 0, 12, 0, 1, 0, 0, 0, 5, 0, 3, 1, 0x62, 0]"

lemma ptr_reply_example_parsed:
  "ares_parse_ptr_reply (\<lambda>_. True) ptr_reply_example (length ptr_reply_example) [10, 0, 0, 1] AF_INET =
     Some (Inr \<lparr>h_name = [0x62], h_aliases = [], h_addrtype = AF_INET, h_length = 4,
                h_addr_list = [[10, 0, 0, 1]]\<rparr>)"
  by code_simp

theorem parse_ptr_reply_sound_witness:
  "\<exists>host. ares_parse_ptr_reply (\<lambda>_. True) ptr_reply_example (length ptr_reply_example) [10, 0, 0, 1] AF_INET
       = Some (Inr host) \<and> h_name host = [0x62] \<and> h_addr_list host = [[10, 0, 0, 1]]"
  using parse_ptr_reply_sound [OF ptr_reply_example_parsed] ptr_reply_example_parsed by auto

end
