(* ===== verification/HostsFile.thy ===== *)
theory HostsFile
  imports ParseReply
begin

text \<open>
  \<^verbatim>\<open>ares__read_line.c\<close>, \<^verbatim>\<open>ares__get_hostent.c\<close> and the two \<^verbatim>\<open>file_lookup\<close>
  functions: reading \<^verbatim>\<open>/etc/hosts\<close>. A \<^verbatim>\<open>FILE *\<close> is the bytes not read yet and
  a flag that says whether reading them ends in an error. \<^verbatim>\<open>inet_addr\<close> is an
  argument. Internet addresses are \<open>32 word\<close> values in host byte order, so
  \<^verbatim>\<open>ntohl\<close> and \<^verbatim>\<open>htonl\<close> are the identity.
\<close>

type_synonym in_addr = "32 word"

definition INADDR_NONE :: in_addr where "INADDR_NONE = 0xffffffff"

definition bytes_of_addr :: "in_addr \<Rightarrow> byte list" where
  "bytes_of_addr a = [ucast (drop_bit 24 a), ucast (drop_bit 16 a), ucast (drop_bit 8 a), ucast a]"

record cfile =
  f_data :: cstring
  f_error :: bool

section \<open>ares\_\_read\_line\<close>

text \<open>\<^verbatim>\<open>fgets\<close>: at most \<open>n - 1\<close> bytes, up to and including a newline.\<close>

definition first_line :: "cstring \<Rightarrow> cstring" where
  "first_line d = (let l = takeWhile (\<lambda>c. c \<noteq> NEWLINE) d in
     if length l < length d then l @ [NEWLINE] else l)"

definition fgets :: "nat \<Rightarrow> cstring \<Rightarrow> (cstring \<times> cstring) option" where
  "fgets n d = (if d = [] then None
     else let k = min (length (first_line d)) (n - 1) in Some (take k d, drop k d))"

lemma fgets_less: "fgets n d = Some (c, d') \<Longrightarrow> 2 \<le> n \<Longrightarrow> length d' < length d"
  by (cases d) (auto simp: fgets_def first_line_def Let_def min_def split: if_splits)

text \<open>
  The loop. \<open>buf\<close> is the string read so far (\<^verbatim>\<open>offset\<close> is its length); \<open>m k\<close>
  is the outcome of the \<open>k\<close>-th \<^verbatim>\<open>realloc\<close>. A NUL byte in the file ends the string
  there; at the very start of a line it makes the code read \<^verbatim>\<open>(*buf)[-1]\<close>, the
  \<open>None\<close> case.
\<close>

function read_line_loop ::
  "(nat \<Rightarrow> bool) \<Rightarrow> nat \<Rightarrow> cfile \<Rightarrow> cstring \<Rightarrow> nat
   \<Rightarrow> (ares_status \<times> cstring \<times> cfile \<times> nat) option" where
  "read_line_loop m k fp buf bufsize =
     (if bufsize < length buf + 2 then None
      else case fgets (bufsize - length buf) (f_data fp) of
        None \<Rightarrow> Some (if buf \<noteq> [] then ARES_SUCCESS else if f_error fp then ARES_EFILE else ARES_EOF,
                      buf, fp, bufsize)
      | Some (chunk, rest) \<Rightarrow>
          let buf' = buf @ takeWhile (\<lambda>c. c \<noteq> 0) chunk; fp' = fp\<lparr>f_data := rest\<rparr> in
          if buf' = [] then None
          else if last buf' = NEWLINE then Some (ARES_SUCCESS, butlast buf', fp', bufsize)
          else if \<not> m k then Some (ARES_ENOMEM, buf', fp', bufsize)
          else read_line_loop m (Suc k) fp' buf' (2 * bufsize))"
  by pat_completeness auto
termination
  by (relation "measure (\<lambda>(m, k, fp, buf, bufsize). length (f_data fp))")
     (auto dest: fgets_less)

declare read_line_loop.simps [simp del]

text \<open>
  \<open>buf\<close> is the size of the caller's buffer, \<open>None\<close> for the NULL pointer, in
  which case 128 bytes are allocated first. The new size is returned, so the caller can
  pass it to the next call.
\<close>

definition ares__read_line ::
  "(nat \<Rightarrow> bool) \<Rightarrow> cfile \<Rightarrow> nat option \<Rightarrow> (ares_status \<times> cstring \<times> cfile \<times> nat option) option" where
  "ares__read_line m fp buf =
     (if buf = None \<and> \<not> m 0 then Some (ARES_ENOMEM, [], fp, None)
      else map_option (\<lambda>(st, line, fp, sz). (st, line, fp, Some sz))
             (read_line_loop m 1 fp [] (case buf of None \<Rightarrow> 128 | Some sz \<Rightarrow> sz)))"

section \<open>ares\_\_get\_hostent\<close>

function (sequential) split_words :: "cstring \<Rightarrow> cstring list" where
  "split_words [] = []"
| "split_words (c # p) = word_of_line (c # p) # split_words (skip_space (skip_word (c # p)))"
  by pat_completeness auto
termination
proof (relation "measure length")
  show "(skip_space (skip_word (c # p)), c # p) \<in> measure length" for c p
    using skip_word_space_less [of "c # p"] by simp
qed simp

text \<open>
  One line of the hosts file: \<open>None\<close> where the loop body continues with the next
  line, an error where an allocation fails.
\<close>

definition parse_host_line ::
  "(cstring \<Rightarrow> in_addr) \<Rightarrow> (nat \<Rightarrow> bool) \<Rightarrow> cstring \<Rightarrow> (ares_status + hostent) option" where
  "parse_host_line inet_addr m line =
     (if line = [] \<or> hd line = HASH then None
      else let line = takeWhile (\<lambda>c. c \<noteq> HASH) line; p = skip_word line in
        if p = [] then None
        else let addr = inet_addr (word_of_line line) in
          if addr = INADDR_NONE then None
          else let p = skip_space (tl p) in
            if p = [] then None
            else let canonical = word_of_line p; q = skip_word p;
                     aliases = (if q = [] then [] else split_words (skip_space (tl q))) in
              if list_all m [0..<5 + length aliases] then
                Some (Inr \<lparr>h_name = canonical, h_aliases = aliases, h_addrtype = AF_INET,
                           h_length = 4, h_addr_list = [bytes_of_addr addr]\<rparr>)
              else Some (Inl ARES_ENOMEM))"

lemma read_line_loop_less:
  "read_line_loop m k fp buf bufsize = Some (ARES_SUCCESS, l, fp', sz) \<Longrightarrow>
   length (f_data fp') < length (f_data fp) \<or> (buf \<noteq> [] \<and> length (f_data fp') \<le> length (f_data fp))"
proof (induction m k fp buf bufsize rule: read_line_loop.induct)
  case (1 m k fp buf bufsize)
  show ?case
  proof (cases "fgets (bufsize - length buf) (f_data fp)")
    case None
    then show ?thesis using "1.prems" by (subst (asm) read_line_loop.simps) (auto split: if_splits)
  next
    case (Some a)
    obtain chunk rest where a: "a = (chunk, rest)" by force
    have sz: "\<not> bufsize < length buf + 2"
      using "1.prems" by (subst (asm) read_line_loop.simps) (auto split: if_splits)
    then have less: "length rest < length (f_data fp)"
      using fgets_less [of "bufsize - length buf"] Some a by simp
    show ?thesis
      using "1.prems" "1.IH" [OF sz Some [unfolded a] refl refl refl] less sz Some a
      by (subst (asm) read_line_loop.simps) (auto simp: Let_def split: if_splits)
  qed
qed

lemma read_line_less:
  "ares__read_line m fp buf = Some (ARES_SUCCESS, l, fp', buf') \<Longrightarrow>
   length (f_data fp') < length (f_data fp)"
  by (auto simp: ares__read_line_def dest: read_line_loop_less split: if_splits)

text \<open>
  The line loop. \<open>m i False\<close> gives the allocations of \<^verbatim>\<open>ares__read_line\<close> for the
  \<open>i\<close>-th line read, \<open>m i True\<close> those of the host entry.
\<close>

function get_hostent_loop ::
  "(cstring \<Rightarrow> in_addr) \<Rightarrow> (nat \<Rightarrow> bool \<Rightarrow> nat \<Rightarrow> bool) \<Rightarrow> nat \<Rightarrow> cfile \<Rightarrow> nat option
   \<Rightarrow> ((ares_status + hostent) \<times> cfile) option" where
  "get_hostent_loop inet_addr m i fp buf = (case ares__read_line (m i False) fp buf of
     None \<Rightarrow> None
   | Some (status, line, fp', buf') \<Rightarrow>
       if status \<noteq> ARES_SUCCESS then Some (Inl status, fp')
       else case parse_host_line inet_addr (m i True) line of
         None \<Rightarrow> get_hostent_loop inet_addr m (Suc i) fp' buf'
       | Some r \<Rightarrow> Some (r, fp'))"
  by pat_completeness auto
termination
  by (relation "measure (\<lambda>(inet_addr, m, i, fp, buf). length (f_data fp))")
     (auto dest: read_line_less)

declare get_hostent_loop.simps [simp del]

definition ares__get_hostent ::
  "(cstring \<Rightarrow> in_addr) \<Rightarrow> (nat \<Rightarrow> bool \<Rightarrow> nat \<Rightarrow> bool) \<Rightarrow> cfile
   \<Rightarrow> ((ares_status + hostent) \<times> cfile) option" where
  "ares__get_hostent inet_addr m fp = get_hostent_loop inet_addr m 0 fp None"

lemma get_hostent_loop_less:
  "get_hostent_loop inet_addr m i fp buf = Some (Inr h, fp') \<Longrightarrow>
   length (f_data fp') < length (f_data fp)"
proof (induction inet_addr m i fp buf rule: get_hostent_loop.induct)
  case (1 inet_addr m i fp buf)
  then show ?case
    by (subst (asm) (2) get_hostent_loop.simps)
       (fastforce split: option.splits if_splits prod.splits dest: read_line_less)
qed

section \<open>The two file\_lookup functions\<close>

text \<open>\<open>hit\<close> is the test each of them makes on an entry; \<open>m j\<close> gives the allocations of
  the \<open>j\<close>-th entry.\<close>

function lookup_loop ::
  "(hostent \<Rightarrow> bool) \<Rightarrow> (cstring \<Rightarrow> in_addr) \<Rightarrow> (nat \<Rightarrow> nat \<Rightarrow> bool \<Rightarrow> nat \<Rightarrow> bool) \<Rightarrow> nat \<Rightarrow> cfile
   \<Rightarrow> (ares_status + hostent) option" where
  "lookup_loop hit inet_addr m j fp = (case ares__get_hostent inet_addr (m j) fp of
     None \<Rightarrow> None
   | Some (Inl status, _) \<Rightarrow> Some (Inl (if status = ARES_EOF then ARES_ENOTFOUND else status))
   | Some (Inr host, fp') \<Rightarrow>
       if hit host then Some (Inr host) else lookup_loop hit inet_addr m (Suc j) fp')"
  by pat_completeness auto
termination
  by (relation "measure (\<lambda>(hit, inet_addr, m, j, fp). length (f_data fp))")
     (auto simp: ares__get_hostent_def dest: get_hostent_loop_less)

declare lookup_loop.simps [simp del]

text \<open>\<open>file\<close> is \<open>None\<close> when \<^verbatim>\<open>fopen(PATH_HOSTS, "r")\<close> fails.\<close>

definition file_lookup_name ::
  "(cstring \<Rightarrow> in_addr) \<Rightarrow> (nat \<Rightarrow> nat \<Rightarrow> bool \<Rightarrow> nat \<Rightarrow> bool) \<Rightarrow> cfile option \<Rightarrow> cstring
   \<Rightarrow> (ares_status + hostent) option" where
  "file_lookup_name inet_addr m file name = (case file of
     None \<Rightarrow> Some (Inl ARES_ENOTFOUND)
   | Some fp \<Rightarrow> lookup_loop
       (\<lambda>h. strcaseeq (h_name h) name \<or> list_ex (\<lambda>a. strcaseeq a name) (h_aliases h)) inet_addr m 0 fp)"

definition file_lookup_addr ::
  "(cstring \<Rightarrow> in_addr) \<Rightarrow> (nat \<Rightarrow> nat \<Rightarrow> bool \<Rightarrow> nat \<Rightarrow> bool) \<Rightarrow> cfile option \<Rightarrow> in_addr
   \<Rightarrow> (ares_status + hostent) option" where
  "file_lookup_addr inet_addr m file addr = (case file of
     None \<Rightarrow> Some (Inl ARES_ENOTFOUND)
   | Some fp \<Rightarrow> lookup_loop (\<lambda>h. hd (h_addr_list h) = bytes_of_addr addr) inet_addr m 0 fp)"

section \<open>Reference: the lines and the entries of a file\<close>

definition line_of :: "cstring \<Rightarrow> cstring" where
  "line_of d = takeWhile (\<lambda>c. c \<noteq> NEWLINE) d"

definition rest_of :: "cstring \<Rightarrow> cstring" where
  "rest_of d = drop 1 (dropWhile (\<lambda>c. c \<noteq> NEWLINE) d)"

lemma rest_of_less: "d \<noteq> [] \<Longrightarrow> length (rest_of d) < length d"
proof -
  assume "d \<noteq> []"
  have "length (dropWhile (\<lambda>c. c \<noteq> NEWLINE) d) \<le> length d" by (rule length_dropWhile_le)
  moreover have "0 < length d" using \<open>d \<noteq> []\<close> by simp
  ultimately show ?thesis unfolding rest_of_def length_drop by linarith
qed

function file_lines :: "cstring \<Rightarrow> cstring list" where
  "file_lines d = (if d = [] then [] else line_of d # file_lines (rest_of d))"
  by pat_completeness auto
termination by (relation "measure length") (auto simp: rest_of_less)

declare file_lines.simps [simp del]

definition entry_of :: "(cstring \<Rightarrow> in_addr) \<Rightarrow> cstring \<Rightarrow> hostent option" where
  "entry_of inet_addr line = (case parse_host_line inet_addr (\<lambda>_. True) line of
     Some (Inr h) \<Rightarrow> Some h | _ \<Rightarrow> None)"

definition file_entries :: "(cstring \<Rightarrow> in_addr) \<Rightarrow> cstring \<Rightarrow> hostent list" where
  "file_entries inet_addr d = List.map_filter (entry_of inet_addr) (file_lines d)"

section \<open>Lemmas\<close>

lemma newline_split:
  obtains (no_newline) "NEWLINE \<notin> set d" "line_of d = d" "rest_of d = []" "first_line d = d"
  | (newline) l r where "d = l @ NEWLINE # r" "NEWLINE \<notin> set l" "line_of d = l" "rest_of d = r"
      "first_line d = l @ [NEWLINE]"
proof (cases "NEWLINE \<in> set d")
  case False
  then have "\<forall>c\<in>set d. c \<noteq> NEWLINE" by metis
  then have "takeWhile (\<lambda>c. c \<noteq> NEWLINE) d = d" "dropWhile (\<lambda>c. c \<noteq> NEWLINE) d = []"
    by simp_all
  then have "line_of d = d" "rest_of d = []" "first_line d = d"
    unfolding line_of_def rest_of_def first_line_def Let_def by (simp_all only:) simp_all
  with False show ?thesis by (rule no_newline)
next
  case True
  then obtain l r where d: "d = l @ NEWLINE # r" "NEWLINE \<notin> set l" by (meson split_list_first)
  then have "\<forall>c\<in>set l. c \<noteq> NEWLINE" by metis
  then have "takeWhile (\<lambda>c. c \<noteq> NEWLINE) d = l" "dropWhile (\<lambda>c. c \<noteq> NEWLINE) d = NEWLINE # r"
    by (simp_all add: d(1) takeWhile_append dropWhile_append)
  then show ?thesis using d newline by (simp add: line_of_def rest_of_def first_line_def)
qed

lemma line_rest_append:
  "NEWLINE \<notin> set c \<Longrightarrow> line_of (c @ d) = c @ line_of d \<and> rest_of (c @ d) = rest_of d"
  by (induction c) (auto simp: line_of_def rest_of_def)

lemma takeWhile_no_nul: "no_nul d \<Longrightarrow> takeWhile (\<lambda>c. c \<noteq> 0) (take k d) = take k d"
  unfolding no_nul_def by (metis (mono_tags) in_set_takeD takeWhile_eq_all_conv)

lemma chunk_cases:
  assumes "0 < n" "n \<le> length (first_line d)"
  shows "(last (take n d) = NEWLINE \<and> butlast (take n d) = line_of d \<and> drop n d = rest_of d)
         \<or> NEWLINE \<notin> set (take n d)"
proof (cases rule: newline_split [of d])
  case no_newline
  then show ?thesis by (meson in_set_takeD)
next
  case (newline l r)
  show ?thesis
  proof (cases "n \<le> length l")
    case True
    then show ?thesis using newline(1,2) by (auto dest: in_set_takeD)
  next
    case False
    then have "n = length l + 1" using assms(2) newline(5) by simp
    then show ?thesis using newline(1,3,4) by simp
  qed
qed

text \<open>Without NUL bytes and with enough memory a line is read whole, whatever the buffer size.\<close>

lemma read_line_loop_correct:
  assumes "no_nul (f_data fp)" "allocs_ok m" "length buf + 2 \<le> bufsize" "NEWLINE \<notin> set buf"
    and "buf \<noteq> [] \<or> f_data fp \<noteq> []"
  shows "\<exists>sz\<ge>bufsize. read_line_loop m k fp buf bufsize =
           Some (ARES_SUCCESS, buf @ line_of (f_data fp), fp\<lparr>f_data := rest_of (f_data fp)\<rparr>, sz)"
  using assms
proof (induction m k fp buf bufsize rule: read_line_loop.induct)
  case (1 m k fp buf bufsize)
  let ?d = "f_data fp"
  note unf = read_line_loop.simps [of m k fp buf bufsize]
  show ?case
  proof (cases "?d = []")
    case True
    then have "line_of ?d = []" "rest_of ?d = []" by (simp_all add: line_of_def rest_of_def)
    then show ?thesis using True "1.prems"(3,5)
      by (intro exI [of _ bufsize]) (simp add: unf fgets_def)
  next
    case False
    define n where "n = min (length (first_line ?d)) (bufsize - length buf - 1)"
    define chunk rest where "chunk = take n ?d" and "rest = drop n ?d"
    have d: "?d = chunk @ rest" by (simp add: chunk_def rest_def)
    have fg: "fgets (bufsize - length buf) ?d = Some (chunk, rest)"
      using False by (simp add: fgets_def Let_def n_def chunk_def rest_def)
    have "first_line ?d \<noteq> []" using False by (cases rule: newline_split [of ?d]) auto
    then have n0: "0 < n" "n \<le> length (first_line ?d)"
      using "1.prems"(3) by (cases "first_line ?d"; simp add: n_def)+
    then have ne: "chunk \<noteq> []" using False by (simp add: chunk_def)
    have len: "length buf + length chunk + 1 \<le> bufsize"
      using "1.prems"(3) by (simp add: chunk_def n_def)
    have tw: "takeWhile (\<lambda>c. c \<noteq> 0) chunk = chunk"
      unfolding chunk_def by (rule takeWhile_no_nul [OF "1.prems"(1)])
    consider "last chunk = NEWLINE" "butlast chunk = line_of ?d" "rest = rest_of ?d"
      | (no) "NEWLINE \<notin> set chunk"
      using chunk_cases [OF n0] unfolding chunk_def rest_def by blast
    then show ?thesis
    proof cases
      case 1
      then show ?thesis using ne "1.prems"(3) fg
        by (intro exI [of _ bufsize]) (simp add: unf Let_def butlast_append tw)
    next
      case no
      let ?fp = "fp\<lparr>f_data := rest\<rparr>"
      have lnot: "last (buf @ chunk) \<noteq> NEWLINE"
        using no last_in_set [OF ne] ne by (metis last_appendR)
      have "line_of ?d = chunk @ line_of rest" "rest_of ?d = rest_of rest"
        unfolding d using line_rest_append [OF no, of rest] by simp_all
      moreover have "no_nul rest" using "1.prems"(1) unfolding d no_nul_def by simp
      moreover have step: "read_line_loop m k fp buf bufsize =
          read_line_loop m (Suc k) ?fp (buf @ chunk) (2 * bufsize)"
        using allocs_okD [OF "1.prems"(2), of k] "1.prems"(3) fg ne lnot by (simp add: unf Let_def tw)
      moreover have "\<exists>sz\<ge>2 * bufsize. read_line_loop m (Suc k) ?fp (buf @ chunk) (2 * bufsize) =
          Some (ARES_SUCCESS, (buf @ chunk) @ line_of rest, ?fp\<lparr>f_data := rest_of rest\<rparr>, sz)"
        using "1.IH" [OF _ fg refl refl refl] "1.prems"(2-4) allocs_okD [OF "1.prems"(2), of k] \<open>no_nul rest\<close> ne lnot no len
        by (simp add: tw)
      ultimately show ?thesis by fastforce
    qed
  qed
qed

definition big_enough :: "nat option \<Rightarrow> bool" where
  "big_enough buf \<longleftrightarrow> (case buf of None \<Rightarrow> True | Some sz \<Rightarrow> 2 \<le> sz)"

lemma read_line_correct:
  assumes "no_nul (f_data fp)" "allocs_ok m" "f_data fp \<noteq> []" "big_enough buf"
  shows "\<exists>sz. ares__read_line m fp buf =
           Some (ARES_SUCCESS, line_of (f_data fp), fp\<lparr>f_data := rest_of (f_data fp)\<rparr>, Some sz) \<and> 2 \<le> sz"
proof -
  let ?sz = "case buf of None \<Rightarrow> 128 | Some sz \<Rightarrow> sz"
  have sz: "length ([]::cstring) + 2 \<le> ?sz"
    using assms(4) by (auto simp: big_enough_def split: option.splits)
  obtain sz' where "?sz \<le> sz'" "read_line_loop m 1 fp [] ?sz =
      Some (ARES_SUCCESS, line_of (f_data fp), fp\<lparr>f_data := rest_of (f_data fp)\<rparr>, sz')"
    using read_line_loop_correct [OF assms(1,2) sz, of 1] assms(3) by auto
  then show ?thesis
    using allocs_okD [OF assms(2), of 0] sz by (simp add: ares__read_line_def)
qed

lemma read_line_eof:
  assumes "allocs_ok m" "f_data fp = []" "big_enough buf"
  shows "\<exists>sz. ares__read_line m fp buf =
           Some (if f_error fp then ARES_EFILE else ARES_EOF, [], fp, Some sz)"
  using assms allocs_okD [OF assms(1), of 0]
  by (auto simp: ares__read_line_def read_line_loop.simps fgets_def big_enough_def split: option.splits)

lemma parse_host_line_ok:
  "allocs_ok m \<Longrightarrow> parse_host_line inet_addr m line = map_option Inr (entry_of inet_addr line)"
  by (simp add: parse_host_line_def entry_of_def Let_def list_all_iff allocs_okD)

lemma no_nul_rest: "no_nul d \<Longrightarrow> no_nul (rest_of d)"
  unfolding no_nul_def rest_of_def by (auto dest!: in_set_dropD set_dropWhileD)

lemma file_entries_Cons:
  "d \<noteq> [] \<Longrightarrow> file_entries inet_addr d =
     (case entry_of inet_addr (line_of d) of None \<Rightarrow> file_entries inet_addr (rest_of d)
      | Some h \<Rightarrow> h # file_entries inet_addr (rest_of d))"
  unfolding file_entries_def by (subst file_lines.simps) (simp add: map_filter_simps)

lemma file_entries_Nil [simp]: "file_entries inet_addr [] = []"
  by (simp add: file_entries_def file_lines.simps map_filter_simps)

text \<open>With enough memory \<^verbatim>\<open>ares__get_hostent\<close> returns the next entry of the file.\<close>

lemma get_hostent_loop_correct:
  assumes "no_nul (f_data fp)" "big_enough buf" "\<forall>i b. allocs_ok (m i b)"
  shows "\<exists>fp'. f_error fp' = f_error fp \<and> no_nul (f_data fp') \<and>
     (case file_entries inet_addr (f_data fp) of
        [] \<Rightarrow> get_hostent_loop inet_addr m i fp buf =
                Some (Inl (if f_error fp then ARES_EFILE else ARES_EOF), fp')
      | h # hs \<Rightarrow> get_hostent_loop inet_addr m i fp buf = Some (Inr h, fp')
                 \<and> file_entries inet_addr (f_data fp') = hs)"
  using assms
proof (induction inet_addr m i fp buf rule: get_hostent_loop.induct)
  case (1 inet_addr m i fp buf)
  let ?d = "f_data fp"
  note unf = get_hostent_loop.simps [of inet_addr m i fp buf]
  have m: "allocs_ok (m i False)" "allocs_ok (m i True)" using "1.prems"(3) by simp_all
  show ?case
  proof (cases "?d = []")
    case True
    then show ?thesis using read_line_eof [OF m(1) True "1.prems"(2)] "1.prems"(1)
      by (auto simp: unf intro!: exI [of _ fp])
  next
    case False
    let ?fp = "fp\<lparr>f_data := rest_of ?d\<rparr>"
    obtain sz where sz: "ares__read_line (m i False) fp buf =
        Some (ARES_SUCCESS, line_of ?d, ?fp, Some sz)" "2 \<le> sz"
      using read_line_correct [OF "1.prems"(1) m(1) False "1.prems"(2)] by blast
    have nn: "no_nul (rest_of ?d)" by (rule no_nul_rest [OF "1.prems"(1)])
    note pl = parse_host_line_ok [OF m(2), of inet_addr "line_of ?d"]
    show ?thesis
    proof (cases "entry_of inet_addr (line_of ?d)")
      case None
      then have "file_entries inet_addr ?d = file_entries inet_addr (rest_of ?d)"
        using file_entries_Cons [OF False] by simp
      moreover have "get_hostent_loop inet_addr m i fp buf =
          get_hostent_loop inet_addr m (Suc i) ?fp (Some sz)"
        using sz None pl by (simp add: unf)
      ultimately show ?thesis
        using "1.IH" [OF sz(1) refl refl refl] sz(2) None pl nn "1.prems"(3)
        by (cases "file_entries inet_addr (rest_of ?d)"; cases "f_error fp") (auto simp: big_enough_def)
    next
      case (Some h)
      then have "file_entries inet_addr ?d = h # file_entries inet_addr (rest_of ?d)"
        using file_entries_Cons [OF False] by simp
      then show ?thesis using sz Some pl nn by (auto simp: unf)
    qed
  qed
qed

text \<open>A lookup finds the first entry of the file that passes its test.\<close>

lemma lookup_loop_correct:
  assumes "no_nul (f_data fp)" "\<forall>j i b. allocs_ok (m j i b)"
  shows "lookup_loop hit inet_addr m j fp =
     Some (case find hit (file_entries inet_addr (f_data fp)) of
             None \<Rightarrow> Inl (if f_error fp then ARES_EFILE else ARES_ENOTFOUND)
           | Some h \<Rightarrow> Inr h)"
  using assms
proof (induction hit inet_addr m j fp rule: lookup_loop.induct)
  case (1 hit inet_addr m j fp)
  note unf = lookup_loop.simps [of hit inet_addr m j fp] ares__get_hostent_def
  have "\<forall>i b. allocs_ok (m j i b)" using "1.prems"(2) by simp
  then obtain fp' where fp': "f_error fp' = f_error fp" "no_nul (f_data fp')"
    and g: "case file_entries inet_addr (f_data fp) of
        [] \<Rightarrow> get_hostent_loop inet_addr (m j) 0 fp None =
                Some (Inl (if f_error fp then ARES_EFILE else ARES_EOF), fp')
      | h # hs \<Rightarrow> get_hostent_loop inet_addr (m j) 0 fp None = Some (Inr h, fp')
                 \<and> file_entries inet_addr (f_data fp') = hs"
    using get_hostent_loop_correct [OF "1.prems"(1), of None "m j" inet_addr 0]
    by (auto simp: big_enough_def)
  show ?case
  proof (cases "file_entries inet_addr (f_data fp)")
    case Nil
    then show ?thesis using g by (simp add: unf)
  next
    case (Cons h hs)
    then have r: "get_hostent_loop inet_addr (m j) 0 fp None = Some (Inr h, fp')"
      and hs: "file_entries inet_addr (f_data fp') = hs" using g by simp_all
    show ?thesis
    proof (cases "hit h")
      case True
      then show ?thesis using r Cons by (simp add: unf)
    next
      case False
      then have "lookup_loop hit inet_addr m j fp = lookup_loop hit inet_addr m (Suc j) fp'"
        using r by (simp add: unf)
      with "1.IH" [of "(Inr h, fp')" "Inr h" fp' h] r fp' "1.prems"(2) hs Cons False
      show ?thesis by (simp add: ares__get_hostent_def)
    qed
  qed
qed

section \<open>Properties\<close>

text \<open>C38: Looking a name up in the hosts file finds the first line, in the order of the file, whose
  name or one of whose aliases is equal to it up to case, for lines of any length: the growing buffer
  of \<^verbatim>\<open>ares__read_line\<close> cuts the file into its lines. Without one the result is
  \<^verbatim>\<open>ARES_ENOTFOUND\<close>, after a read error \<^verbatim>\<open>ARES_EFILE\<close>.\<close>

theorem hosts_lookup_first_match:
  assumes "no_nul (f_data fp)" "\<forall>j i b. allocs_ok (m j i b)"
  shows "file_lookup_name inet_addr m (Some fp) name =
     Some (case find (\<lambda>h. strcaseeq (h_name h) name \<or> list_ex (\<lambda>a. strcaseeq a name) (h_aliases h))
                 (file_entries inet_addr (f_data fp)) of
             None \<Rightarrow> Inl (if f_error fp then ARES_EFILE else ARES_ENOTFOUND)
           | Some h \<Rightarrow> Inr h)"
  using lookup_loop_correct [OF assms] by (simp add: file_lookup_name_def)

theorem hosts_lookup_first_match_witness:
  "let fp = \<lparr>f_data = str ''1.2.3.4 a b'' @ [10] @ str ''5.6.7.8 b'', f_error = False\<rparr> in
   (case file_lookup_name (\<lambda>s. word_of_nat (length s)) (\<lambda>_ _ _ _. True) (Some fp) (str ''B'') of
      Some (Inr h) \<Rightarrow> h_name h = str ''a'' | _ \<Rightarrow> False)"
  unfolding Let_def
  by (subst hosts_lookup_first_match) (simp add: no_nul_def str_def, simp, code_simp)

text \<open>\<^verbatim>\<open>ares__read_line\<close> returns the next line of the file without its newline, however often
  it has to double its buffer, and leaves the file behind that newline.\<close>

theorem read_line_next_line:
  assumes "no_nul (f_data fp)" "allocs_ok m" "f_data fp \<noteq> []"
  shows "\<exists>sz. ares__read_line m fp None =
           Some (ARES_SUCCESS, line_of (f_data fp), fp\<lparr>f_data := rest_of (f_data fp)\<rparr>, Some sz) \<and> 2 \<le> sz"
  using read_line_correct [OF assms, of None] by (simp add: big_enough_def)

theorem read_line_next_line_witness:
  "\<exists>sz. ares__read_line (\<lambda>_. True) \<lparr>f_data = [0x61, 10, 0x62], f_error = False\<rparr> None =
     Some (ARES_SUCCESS, [0x61], \<lparr>f_data = [0x62], f_error = False\<rparr>, Some sz) \<and> 2 \<le> sz"
  using read_line_next_line [of "\<lparr>f_data = [0x61, 10, 0x62], f_error = False\<rparr>" "\<lambda>_. True"]
  by (simp add: no_nul_def line_of_def rest_of_def)

end
