(* ===== verification/InetPton.thy ===== *)
theory InetPton
  imports HostsFile
begin

text \<open>
  \<^verbatim>\<open>inet_pton4\<close> and \<^verbatim>\<open>inet_pton6\<close> of \<^verbatim>\<open>ares_init.c\<close>: addresses in text form. The array
  \<^verbatim>\<open>tmp\<close> is the list of the bytes up to the one \<^verbatim>\<open>tp\<close> points at; an outer \<open>None\<close> is a write
  behind its end, an inner \<open>None\<close> a return of 0.
\<close>

section \<open>IPv4\<close>

definition digit_val :: "byte \<Rightarrow> nat" where
  "digit_val c = unat c - 48"

fun pton4_loop :: "cstring \<Rightarrow> bool \<Rightarrow> nat \<Rightarrow> nat list \<Rightarrow> (nat \<times> nat list) option option" where
  "pton4_loop [] saw_digit octets tmp = Some (Some (octets, tmp))"
| "pton4_loop (ch # src) saw_digit octets tmp =
     (if isdigit ch then
        let newVal = last tmp * 10 + digit_val ch in
        if newVal > 255 then Some None
        else
          let tmp = butlast tmp @ [newVal] in
          if \<not> saw_digit then
            if Suc octets > 4 then Some None else pton4_loop src True (Suc octets) tmp
          else pton4_loop src saw_digit octets tmp
      else if ch = DOT \<and> saw_digit then
        if octets = 4 then Some None
        else if length tmp < 4 then pton4_loop src False octets (tmp @ [0])
        else None
      else Some None)"

definition inet_pton4 :: "cstring \<Rightarrow> byte list option option" where
  "inet_pton4 src = do {
     r \<leftarrow> pton4_loop src False 0 [0];
     Some (case r of None \<Rightarrow> None
           | Some (octets, tmp) \<Rightarrow> if octets < 4 then None else Some (map word_of_nat tmp)) }"

section \<open>IPv6\<close>

definition xdigit_val :: "byte \<Rightarrow> nat option" where
  "xdigit_val c =
     (if isdigit c then Some (unat c - 48)
      else if 0x61 \<le> c \<and> c \<le> 0x66 then Some (unat c - 87)
      else if 0x41 \<le> c \<and> c \<le> 0x46 then Some (unat c - 55)
      else None)"

definition put_group :: "nat \<Rightarrow> byte list \<Rightarrow> byte list option" where
  "put_group val tmp =
     (if length tmp + 2 > 16 then None
      else Some (tmp @ [word_of_nat (val div 256), word_of_nat val]))"

text \<open>The result is \<^verbatim>\<open>tmp\<close>, \<^verbatim>\<open>colonp\<close>, \<^verbatim>\<open>saw_xdigit\<close> and \<^verbatim>\<open>val\<close> behind the loop.\<close>

fun pton6_loop ::
  "cstring \<Rightarrow> cstring \<Rightarrow> bool \<Rightarrow> nat \<Rightarrow> byte list \<Rightarrow> nat option
   \<Rightarrow> (byte list \<times> nat option \<times> bool \<times> nat) option option" where
  "pton6_loop [] curtok saw val tmp colonp = Some (Some (tmp, colonp, saw, val))"
| "pton6_loop (ch # src) curtok saw val tmp colonp =
     (case xdigit_val ch of
        Some d \<Rightarrow>
          let val = val * 16 + d in
          if val > 65535 then Some None else pton6_loop src curtok True val tmp colonp
      | None \<Rightarrow>
          if ch = COLON then
            if \<not> saw then
              if colonp \<noteq> None then Some None
              else pton6_loop src src saw val tmp (Some (length tmp))
            else
              (case put_group val tmp of
                 None \<Rightarrow> Some None
               | Some tmp \<Rightarrow> pton6_loop src src False 0 tmp colonp)
          else if ch = DOT \<and> length tmp + 4 \<le> 16 then
            (case inet_pton4 curtok of
               None \<Rightarrow> None
             | Some None \<Rightarrow> Some None
             | Some (Some quad) \<Rightarrow> Some (Some (tmp @ quad, colonp, False, val)))
          else Some None)"

text \<open>The shift by hand: \<^verbatim>\<open>endp[-i] = colonp[n - i]; colonp[n - i] = 0;\<close>\<close>

definition shift_right :: "nat \<Rightarrow> byte list \<Rightarrow> byte list" where
  "shift_right colonp tmp =
     (let n = length tmp - colonp in
      fold (\<lambda>i arr. arr[16 - i := arr ! (colonp + n - i), colonp + n - i := 0]) [1..<Suc n]
        (tmp @ replicate (16 - length tmp) 0))"

definition inet_pton6 :: "cstring \<Rightarrow> byte list option option" where
  "inet_pton6 src0 =
     (let start = (case src0 of
            c # src \<Rightarrow> if c = COLON then (if src \<noteq> [] \<and> hd src = COLON then Some src else None)
                       else Some src0
          | [] \<Rightarrow> Some src0)
      in case start of None \<Rightarrow> Some None
      | Some src \<Rightarrow> do {
          r \<leftarrow> pton6_loop src src False 0 [] None;
          case r of None \<Rightarrow> Some None
          | Some (tmp, colonp, saw, val) \<Rightarrow>
              (case (if saw then put_group val tmp else Some tmp) of
                 None \<Rightarrow> Some None
               | Some tmp \<Rightarrow>
                   (case colonp of
                      Some c \<Rightarrow> Some (Some (shift_right c tmp))
                    | None \<Rightarrow> if length tmp \<noteq> 16 then Some None else Some (Some tmp))) })"

section \<open>Lemmas on IPv4\<close>

text \<open>\<^verbatim>\<open>tp\<close> stays inside \<^verbatim>\<open>tmp\<close>: it points at the octet being read.\<close>

definition pton4_inv :: "bool \<Rightarrow> nat \<Rightarrow> nat list \<Rightarrow> bool" where
  "pton4_inv saw octets tmp \<longleftrightarrow> octets \<le> 4 \<and>
     (if saw then length tmp = octets \<and> 0 < octets else length tmp = Suc octets \<and> octets < 4) \<and>
     list_all (\<lambda>v. v \<le> 255) tmp"

lemma pton4_loop_total:
  assumes "pton4_inv saw octets tmp"
  shows "\<exists>r. pton4_loop src saw octets tmp = Some r \<and>
    (case r of None \<Rightarrow> True | Some (octets', tmp') \<Rightarrow> \<exists>saw'. pton4_inv saw' octets' tmp')"
  using assms
proof (induction src saw octets tmp rule: pton4_loop.induct)
  case (2 ch src saw octets tmp)
  have ne: "tmp \<noteq> []" using "2.prems" by (auto simp: pton4_inv_def split: if_splits)
  have lb: "list_all (\<lambda>v. v \<le> 255) (butlast tmp)"
    using "2.prems" by (auto simp: pton4_inv_def list_all_iff dest: in_set_butlastD)
  show ?case
  proof (cases "isdigit ch")
    case True
    let ?v = "last tmp * 10 + digit_val ch"
    show ?thesis
    proof (cases "?v > 255")
      case False
      have "pton4_inv True (if saw then octets else Suc octets) (butlast tmp @ [?v])"
        using "2.prems" ne lb False by (auto simp: pton4_inv_def split: if_splits)
      then show ?thesis using "2.IH"(1,2) [OF True refl False refl] True False "2.prems"
        by (cases saw) (auto simp: Let_def pton4_inv_def)
    qed (use True in \<open>simp add: Let_def\<close>)
  next
    case False
    then show ?thesis
      using "2.prems" "2.IH"(3) [OF False]
      by (auto simp: pton4_inv_def split: if_splits)
  qed
qed auto

lemma inet_pton4_total: "\<exists>r. inet_pton4 src = Some r \<and> (\<forall>bs. r = Some bs \<longrightarrow> length bs = 4)"
proof -
  have "pton4_inv False 0 [0]" by (simp add: pton4_inv_def)
  from pton4_loop_total [OF this, of src] obtain r where r: "pton4_loop src False 0 [0] = Some r"
    "case r of None \<Rightarrow> True | Some (octets', tmp') \<Rightarrow> \<exists>saw'. pton4_inv saw' octets' tmp'" by blast
  then show ?thesis
    by (auto simp: inet_pton4_def pton4_inv_def split: option.splits if_splits)
qed

subsection \<open>Reference: four decimal numbers separated by dots\<close>

fun split_dots :: "cstring \<Rightarrow> cstring list" where
  "split_dots [] = [[]]"
| "split_dots (c # s) =
     (if c = DOT then [] # split_dots s else (c # hd (split_dots s)) # tl (split_dots s))"

fun dec_val :: "nat \<Rightarrow> cstring \<Rightarrow> nat option" where
  "dec_val v [] = Some v"
| "dec_val v (c # s) =
     (if isdigit c \<and> v * 10 + digit_val c \<le> 255 then dec_val (v * 10 + digit_val c) s else None)"

definition octet_of :: "cstring \<Rightarrow> nat option" where
  "octet_of s = (if s = [] then None else dec_val 0 s)"

definition dotted_quad_val :: "cstring \<Rightarrow> byte list option" where
  "dotted_quad_val s =
     (if length (split_dots s) = 4 then map_option (map word_of_nat) (those (map octet_of (split_dots s)))
      else None)"

lemma split_dots_ne [simp]: "split_dots s \<noteq> []"
  by (cases s) auto

definition pton4_run :: "cstring \<Rightarrow> bool \<Rightarrow> nat \<Rightarrow> nat list \<Rightarrow> nat list option" where
  "pton4_run src saw octets tmp =
     (case pton4_loop src saw octets tmp of
        Some (Some (o', t)) \<Rightarrow> if o' < 4 then None else Some t
      | _ \<Rightarrow> None)"

definition rest_quad :: "nat \<Rightarrow> nat list \<Rightarrow> nat option \<Rightarrow> cstring list \<Rightarrow> nat list option" where
  "rest_quad octets pre v ps =
     (if octets + length ps = 4 then
        (case (v, those (map octet_of ps)) of (Some v, Some vs) \<Rightarrow> Some (pre @ v # vs) | _ \<Rightarrow> None)
      else None)"

lemma pton4_run_step:
  "isdigit ch \<Longrightarrow> pton4_run (ch # src) saw octets tmp =
     (if last tmp * 10 + digit_val ch > 255 \<or> (\<not> saw \<and> Suc octets > 4) then None
      else pton4_run src True (if saw then octets else Suc octets) (butlast tmp @ [last tmp * 10 + digit_val ch]))"
  "\<not> isdigit DOT" "pton4_run (DOT # src) True octets tmp =
     (if octets = 4 \<or> length tmp \<ge> 4 then None else pton4_run src False octets (tmp @ [0]))"
  "\<not> isdigit ch \<Longrightarrow> ch \<noteq> DOT \<or> \<not> saw \<Longrightarrow> pton4_run (ch # src) saw octets tmp = None"
  by (auto simp: pton4_run_def Let_def isdigit_def)

lemma pton4_run_eq:
  assumes "pton4_inv saw octets tmp" "\<not> saw \<longrightarrow> last tmp = 0"
  shows "pton4_run src saw octets tmp =
    (if saw then rest_quad octets (butlast tmp) (dec_val (last tmp) (hd (split_dots src))) (tl (split_dots src))
     else rest_quad (Suc octets) (butlast tmp) (octet_of (hd (split_dots src))) (tl (split_dots src)))"
  using assms
proof (induction src arbitrary: saw octets tmp)
  case Nil
  have ne: "tmp \<noteq> []" using Nil.prems by (auto simp: pton4_inv_def split: if_splits)
  show ?case using Nil.prems ne
    by (auto simp: pton4_run_def rest_quad_def octet_of_def pton4_inv_def split: if_splits)
next
  case (Cons ch src)
  have ne: "tmp \<noteq> []" using Cons.prems by (auto simp: pton4_inv_def split: if_splits)
  have lb: "list_all (\<lambda>v. v \<le> 255) (butlast tmp)"
    using Cons.prems by (auto simp: pton4_inv_def list_all_iff dest: in_set_butlastD)
  show ?case
  proof (cases "isdigit ch")
    case True
    let ?v = "last tmp * 10 + digit_val ch"
    have nd: "ch \<noteq> DOT" using True pton4_run_step(2) by auto
    show ?thesis
    proof (cases "?v > 255")
      case False
      have "pton4_inv True (if saw then octets else Suc octets) (butlast tmp @ [?v])"
        using Cons.prems ne lb False by (auto simp: pton4_inv_def split: if_splits)
      from Cons.IH [OF this] show ?thesis
        using True False nd Cons.prems pton4_run_step(1) [OF True, of src saw octets tmp]
        by (auto simp: octet_of_def pton4_inv_def)
    next
      case big: True
      then have "\<not> saw \<longrightarrow> dec_val 0 (ch # hd (split_dots src)) = None" using Cons.prems(2) by auto
      then show ?thesis using True big nd pton4_run_step(1) [OF True, of src saw octets tmp]
        by (auto simp: rest_quad_def octet_of_def)
    qed
  next
    case False
    show ?thesis
    proof (cases "ch = DOT \<and> saw")
      case True
      have s4: "length tmp = octets" using True Cons.prems(1) by (simp add: pton4_inv_def)
      have len: "octets + length (split_dots src) \<noteq> 4" if "octets = 4"
        using that split_dots_ne [of src] by simp
      show ?thesis
      proof (cases "octets = 4")
        case True
        then show ?thesis using \<open>ch = DOT \<and> saw\<close> pton4_run_step(3) [of src octets tmp] len
          by (simp add: rest_quad_def)
      next
        case False
        then have lt: "octets < 4" using Cons.prems(1) by (simp add: pton4_inv_def)
        have "pton4_inv False octets (tmp @ [0])"
          using Cons.prems(1) True lt s4 by (simp add: pton4_inv_def)
        from Cons.IH [OF this] have "pton4_run (ch # src) saw octets tmp =
            rest_quad (Suc octets) tmp (octet_of (hd (split_dots src))) (tl (split_dots src))"
          using True lt s4 pton4_run_step(3) [of src octets tmp] by simp
        also have "\<dots> = rest_quad octets (butlast tmp) (Some (last tmp)) (split_dots src)"
        proof -
          obtain p ps where ps: "split_dots src = p # ps" by (metis list.exhaust split_dots_ne)
          have "butlast tmp @ last tmp # xs = tmp @ xs" for xs
            by (metis append.assoc append_Cons append_Nil append_butlast_last_id ne)
          then show ?thesis by (simp add: ps rest_quad_def split: option.splits)
        qed
        finally show ?thesis using True by simp
      qed
    next
      case nd: False
      then show ?thesis using False pton4_run_step(4) [OF False, of saw src octets tmp]
        by (auto simp: rest_quad_def octet_of_def)
    qed
  qed
qed

lemma inet_pton4_eq: "inet_pton4 s = Some (dotted_quad_val s)"
proof -
  have inv: "pton4_inv False 0 [0]" by (simp add: pton4_inv_def)
  obtain r where r: "pton4_loop s False 0 [0] = Some r" using pton4_loop_total [OF inv] by blast
  then have "inet_pton4 s = Some (map_option (map word_of_nat) (pton4_run s False 0 [0]))"
    by (auto simp: inet_pton4_def pton4_run_def split: option.splits)
  moreover have "pton4_run s False 0 [0] =
      (if length (split_dots s) = 4 then those (map octet_of (split_dots s)) else None)"
  proof -
    obtain p ps where ps: "split_dots s = p # ps" by (metis list.exhaust split_dots_ne)
    then show ?thesis using pton4_run_eq [OF inv, of s]
      by (auto simp: rest_quad_def split: option.splits)
  qed
  ultimately show ?thesis by (simp add: dotted_quad_val_def)
qed

subsection \<open>Reading back what \<^verbatim>\<open>sprintf\<close> printed\<close>

definition print_quad :: "byte list \<Rightarrow> cstring" where
  "print_quad bs = decimal (unat (bs ! 0)) @ DOT # decimal (unat (bs ! 1)) @ DOT #
     decimal (unat (bs ! 2)) @ DOT # decimal (unat (bs ! 3))"

lemma digit_char:
  assumes "d < 10"
  shows "isdigit (word_of_nat (48 + d))" "digit_val (word_of_nat (48 + d)) = d"
    "(word_of_nat (48 + d) :: byte) \<noteq> DOT"
proof -
  have u: "unat (word_of_nat (48 + d) :: byte) = 48 + d"
    using assms by (subst unsigned_of_nat) (simp add: take_bit_nat_eq_self)
  then show "digit_val (word_of_nat (48 + d)) = d" by (simp add: digit_val_def)
  show i: "isdigit (word_of_nat (48 + d))"
    unfolding isdigit_def word_le_nat_alt using u assms by simp
  then show "(word_of_nat (48 + d) :: byte) \<noteq> DOT" using pton4_run_step(2) by metis
qed

lemma dec_val_decimal:
  assumes "v \<le> 255" shows "octet_of (decimal v) = Some v"
proof -
  have a: "v div 100 < 10" "v div 10 mod 10 < 10" "v mod 10 < 10" using assms by auto
  have "v div 100 = v div 10 div 10" by (simp flip: div_mult2_eq)
  then have c: "(v div 100 * 10 + v div 10 mod 10) * 10 + v mod 10 = v"
    using div_mult_mod_eq [of v 10] div_mult_mod_eq [of "v div 10" 10] by simp
  then have le: "v div 100 * 10 + v div 10 mod 10 \<le> 255" using assms by linarith
  have c2: "v div 10 mod 10 * 10 + v mod 10 = v" if "v < 100" using c that by simp
  consider "v < 10" | "10 \<le> v" "v < 100" | "100 \<le> v" by linarith
  then show ?thesis
  proof cases
    case 1
    then show ?thesis using digit_char [OF a(3)] assms by (simp add: decimal_def octet_of_def)
  next
    case 2
    then show ?thesis using digit_char [OF a(3)] digit_char [OF a(2)] c2 assms
      by (simp add: decimal_def octet_of_def)
  next
    case 3
    then show ?thesis using digit_char [OF a(1)] digit_char [OF a(2)] digit_char [OF a(3)] c le assms
      by (simp add: decimal_def octet_of_def)
  qed
qed

lemma split_dots_append:
  "DOT \<notin> set a \<Longrightarrow> split_dots (a @ DOT # s) = a # split_dots s"
  "DOT \<notin> set a \<Longrightarrow> split_dots a = [a]"
  by (induction a) auto

lemma decimal_no_dot: "v \<le> 255 \<Longrightarrow> DOT \<notin> set (decimal v)"
  using digit_char(3) [of "v div 100"] digit_char(3) [of "v div 10 mod 10"] digit_char(3) [of "v mod 10"]
  by (auto simp: decimal_def)

lemma inet_pton4_print:
  assumes "length bs = 4" shows "inet_pton4 (print_quad bs) = Some (Some bs)"
proof -
  obtain a b c d where bs: "bs = [a, b, c, d]"
    using assms by (auto simp: numeral_eq_Suc length_Suc_conv)
  have le: "unat (x :: byte) \<le> 255" for x using unat_byte_less [of x] by simp
  have "split_dots (print_quad bs) = map (\<lambda>x. decimal (unat x)) bs"
    by (simp add: print_quad_def bs split_dots_append decimal_no_dot le)
  then show ?thesis by (simp add: inet_pton4_eq dotted_quad_val_def bs dec_val_decimal le)
qed

section \<open>Lemmas on IPv6\<close>

lemma put_group_length: "put_group v tmp = Some tmp' \<Longrightarrow> length tmp' = length tmp + 2 \<and> length tmp' \<le> 16"
  by (auto simp: put_group_def split: if_splits)

lemma pton6_loop_total:
  assumes "length tmp \<le> 16" "case colonp of None \<Rightarrow> True | Some c \<Rightarrow> c \<le> length tmp"
  shows "\<exists>r. pton6_loop src curtok saw val tmp colonp = Some r \<and>
    (case r of None \<Rightarrow> True | Some (tmp', colonp', saw', val') \<Rightarrow> length tmp' \<le> 16 \<and>
       (case colonp' of None \<Rightarrow> True | Some c \<Rightarrow> c \<le> length tmp'))"
  using assms
proof (induction src curtok saw val tmp colonp rule: pton6_loop.induct)
  case (2 ch src curtok saw val tmp colonp)
  obtain q where q: "inet_pton4 curtok = Some q" "\<forall>bs. q = Some bs \<longrightarrow> length bs = 4"
    using inet_pton4_total by blast
  show ?case
  proof (cases "xdigit_val ch")
    case (Some d)
    then show ?thesis using "2.IH"(3) [OF Some refl] "2.prems" by (simp add: Let_def)
  next
    case None
    show ?thesis
    proof (cases "ch = COLON")
      case True
      show ?thesis
      proof (cases saw)
        case saw: True
        show ?thesis
        proof (cases "put_group val tmp")
          case (Some tmp')
          have "length tmp \<le> length tmp'" "length tmp' \<le> 16" using put_group_length [OF Some] by auto
          then have "case colonp of None \<Rightarrow> True | Some c \<Rightarrow> c \<le> length tmp'"
            using "2.prems"(2) by (cases colonp) auto
          then show ?thesis
            using "2.IH"(2) [OF None True _ Some] saw None True Some \<open>length tmp' \<le> 16\<close> by simp
        qed (use None True saw in simp)
      next
        case False
        then show ?thesis using "2.IH"(1) [OF None True False] None True "2.prems" by (cases colonp) simp_all
      qed
    next
      case False
      then show ?thesis using None q "2.prems"
        by (cases q) (auto split: option.splits)
    qed
  qed
qed auto

lemma length_shift_right: "length tmp \<le> 16 \<Longrightarrow> length (shift_right c tmp) = 16"
proof -
  have "length (fold (\<lambda>i arr. arr[f i := g i arr, h i := 0]) is xs) = length xs"
    for f h :: "nat \<Rightarrow> nat" and g :: "nat \<Rightarrow> byte list \<Rightarrow> byte" and "is" xs
    by (induction "is" arbitrary: xs) auto
  from this [of "\<lambda>i. 16 - i" "\<lambda>i arr. arr ! (c + (length tmp - c) - i)"]
  show "length tmp \<le> 16 \<Longrightarrow> length (shift_right c tmp) = 16"
    by (simp add: shift_right_def Let_def)
qed

lemma inet_pton6_total: "\<exists>r. inet_pton6 src = Some r \<and> (\<forall>bs. r = Some bs \<longrightarrow> length bs = 16)"
proof -
  have p: "\<exists>r. pton6_loop s s False 0 [] None = Some r \<and>
      (case r of None \<Rightarrow> True | Some (tmp', colonp', saw', val') \<Rightarrow> length tmp' \<le> 16)" for s
    using pton6_loop_total [of "[]" None s s False 0] by (fastforce split: option.splits)
  show ?thesis
  proof (cases "case src of c # s \<Rightarrow> if c = COLON then (if s \<noteq> [] \<and> hd s = COLON then Some s else None)
      else Some src | [] \<Rightarrow> Some src")
    case None
    then show ?thesis by (simp add: inet_pton6_def Let_def)
  next
    case (Some s)
    obtain r where r: "pton6_loop s s False 0 [] None = Some r"
      "case r of None \<Rightarrow> True | Some (tmp', colonp', saw', val') \<Rightarrow> length tmp' \<le> 16" using p by blast
    show ?thesis
    proof (cases r)
      case None
      then show ?thesis using Some r by (simp add: inet_pton6_def Let_def)
    next
      case (Some x)
      obtain tmp colonp saw val where x: "x = (tmp, colonp, saw, val)" by (metis prod_cases4)
      have l: "length tmp \<le> 16" using r Some x by simp
      then show ?thesis
        using \<open>_ = Some s\<close> r(1) Some x put_group_length [of val tmp] length_shift_right
        by (cases "if saw then put_group val tmp else Some tmp"; cases colonp)
           (auto simp: inet_pton6_def Let_def split: if_splits)
    qed
  qed
qed

section \<open>Properties\<close>

text \<open>\<^verbatim>\<open>inet_pton4\<close> accepts exactly four decimal numbers from 0 to 255 separated by dots and
  returns their bytes; it never writes outside its buffer of four bytes.\<close>

theorem inet_pton4_exact: "inet_pton4 s = Some (dotted_quad_val s)"
  by (rule inet_pton4_eq)

text \<open>Reading back a printed IPv4 address gives the address.\<close>

theorem inet_pton4_roundtrip:
  assumes "length bs = 4" shows "inet_pton4 (print_quad bs) = Some (Some bs)"
  by (rule inet_pton4_print [OF assms])

theorem inet_pton4_roundtrip_witness:
  "inet_pton4 (print_quad [192, 168, 0, 255]) = Some (Some [192, 168, 0, 255])"
  using inet_pton4_roundtrip [of "[192, 168, 0, 255]"] by simp

text \<open>\<^verbatim>\<open>inet_pton6\<close> is safe on any string: it returns, never touches memory outside its buffer of
  sixteen bytes, also when it shifts the bytes behind a double colon, and an address has sixteen
  bytes.\<close>

theorem inet_pton6_safe: "\<exists>r. inet_pton6 src = Some r \<and> (case r of None \<Rightarrow> True | Some bs \<Rightarrow> length bs = 16)"
  using inet_pton6_total [of src] by (auto split: option.splits)

text \<open>\<^verbatim>\<open>inet_pton6\<close> differs from what its comment says: a double colon in an address that is
  already complete is not ignored. The groups behind it are shifted onto themselves and zeroed, so
  \<^verbatim>\<open>1:2:3:4::5:6:7:8\<close> is accepted and read as \<^verbatim>\<open>1:2:3:4:0:0:0:0\<close>.\<close>

theorem inet_pton6_full_double_colon:
  "inet_pton6 (str ''1:2:3:4:5:6:7:8'') = Some (Some [0, 1, 0, 2, 0, 3, 0, 4, 0, 5, 0, 6, 0, 7, 0, 8]) \<and>
   inet_pton6 (str ''1:2:3:4::5:6:7:8'') = Some (Some [0, 1, 0, 2, 0, 3, 0, 4, 0, 0, 0, 0, 0, 0, 0, 0])"
  by (simp add: inet_pton6_def str_def xdigit_val_def isdigit_def put_group_def shift_right_def
      upt_rec_numeral)

end
