(* ===== verification/MkQuery.thy ===== *)
theory MkQuery
  imports DnsName
begin

text \<open>
  \<^verbatim>\<open>ares_mkquery.c\<close>: encoding of a query packet. The lemmas show that the
  buffer computed from \<^verbatim>\<open>strlen(name)\<close> is never overrun, what the packet
  holds, and that \<open>ares_expand_name\<close> reads the labels back.
\<close>

section \<open>The code\<close>

text \<open>\<^verbatim>\<open>for (p = name; *p && *p != '.'; p++) { if (*p == '\\' && *(p + 1) != 0) p++; len++; }\<close>\<close>

fun label_count :: "cstring \<Rightarrow> nat" where
  "label_count [] = 0"
| "label_count (c # p) =
     (if c = DOT then 0
      else if c = BACKSLASH \<and> p \<noteq> [] then Suc (label_count (tl p))
      else Suc (label_count p))"

text \<open>The copying loop; it returns \<^verbatim>\<open>p\<close> at the dot or at the end of the name.\<close>

fun label_copy :: "nat \<Rightarrow> cstring \<Rightarrow> byte list \<Rightarrow> (cstring \<times> byte list) option" where
  "label_copy cap [] q = Some ([], q)"
| "label_copy cap (c # p) q =
     (if c = DOT then Some (c # p, q)
      else if c = BACKSLASH \<and> p \<noteq> [] then do { q \<leftarrow> push cap q (hd p); label_copy cap (tl p) q }
      else do { q \<leftarrow> push cap q c; label_copy cap p q })"

lemma label_copy_length: "label_copy cap p q = Some (p', q') \<Longrightarrow> length p' \<le> length p"
  by (induction cap p q rule: label_copy.induct) (auto simp: bind_eq_Some_conv split: if_splits)

function (sequential) mkquery_loop ::
  "nat \<Rightarrow> cstring \<Rightarrow> byte list \<Rightarrow> (ares_status + byte list) option" where
  "mkquery_loop cap [] q = Some (Inr q)"
| "mkquery_loop cap (c # name) q =
     (if c = DOT then Some (Inl ARES_EBADNAME)
      else if label_count (c # name) > MAXLABEL then Some (Inl ARES_EBADNAME)
      else do {
        q \<leftarrow> push cap q (word_of_nat (label_count (c # name)));
        (p, q) \<leftarrow> label_copy cap (c # name) q;
        case p of [] \<Rightarrow> Some (Inr q) | _ # name' \<Rightarrow> mkquery_loop cap name' q })"
  by pat_completeness auto
termination
  by (relation "measure (\<lambda>(cap, name, q). length name)")
     (auto simp del: label_copy.simps label_count.simps dest!: label_copy_length)

definition query_header :: "16 word \<Rightarrow> bool \<Rightarrow> byte list" where
  "query_header qid recurse =
     DNS_HEADER_SET_QDCOUNT
       (DNS_HEADER_SET_RD
         (DNS_HEADER_SET_OPCODE (DNS_HEADER_SET_QID (replicate HFIXEDSZ 0) (uint qid)) 0)
         (if recurse then 1 else 0)) 1"

definition ares_mkquery ::
  "bool \<Rightarrow> cstring \<Rightarrow> int \<Rightarrow> int \<Rightarrow> 16 word \<Rightarrow> bool \<Rightarrow> (ares_status + byte list) option" where
  "ares_mkquery malloc_ok name dnsclass type qid recurse =
     (let buflen = length name + 2 + HFIXEDSZ + QFIXEDSZ in
      if \<not> malloc_ok then Some (Inl ARES_ENOMEM)
      else do {
        let name = (if name = [DOT] then [] else name);
        q \<leftarrow> push_all buflen [] (query_header qid recurse);
        r \<leftarrow> mkquery_loop buflen name q;
        case r of Inl e \<Rightarrow> Some (Inl e)
        | Inr q \<Rightarrow> do {
            q \<leftarrow> push buflen q 0;
            q \<leftarrow> push_all buflen q (DNS__SET16BIT type);
            q \<leftarrow> push_all buflen q (DNS__SET16BIT dnsclass);
            if length q > MAXCDNAME + HFIXEDSZ + QFIXEDSZ then Some (Inl ARES_EBADNAME)
            else Some (Inr q) } })"

section \<open>Specification: the labels of a name and their encoding\<close>

text \<open>The first label of a printed name with its escapes removed, and what follows it.\<close>

fun first_label :: "cstring \<Rightarrow> cstring" where
  "first_label [] = []"
| "first_label (c # p) =
     (if c = DOT then []
      else if c = BACKSLASH \<and> p \<noteq> [] then hd p # first_label (tl p)
      else c # first_label p)"

fun after_label :: "cstring \<Rightarrow> cstring" where
  "after_label [] = []"
| "after_label (c # p) =
     (if c = DOT then c # p
      else if c = BACKSLASH \<and> p \<noteq> [] then after_label (tl p)
      else after_label p)"

lemma after_label_length: "length (after_label p) \<le> length p"
  by (induction p rule: after_label.induct) (auto split: if_splits)

function (sequential) split_labels :: "cstring \<Rightarrow> cstring list" where
  "split_labels [] = []"
| "split_labels (c # n) =
     first_label (c # n) #
       (case after_label (c # n) of [] \<Rightarrow> [] | _ # n' \<Rightarrow> split_labels n')"
  by pat_completeness auto
termination
proof (relation "measure length")
  fix c n x n'
  assume "after_label (c # n) = x # n'"
  then show "(n', c # n) \<in> measure length"
    using after_label_length [of "c # n"] by simp
qed simp

definition encode_labels :: "cstring list \<Rightarrow> byte list" where
  "encode_labels ls = concat (map (\<lambda>l. word_of_nat (length l) # l) ls)"

definition ok_label :: "cstring \<Rightarrow> bool" where
  "ok_label l \<longleftrightarrow> l \<noteq> [] \<and> length l \<le> MAXLABEL"

section \<open>Lemmas\<close>

lemma label_count_eq: "label_count p = length (first_label p)"
  by (induction p rule: label_count.induct) auto

lemma first_after_length:
  "length (first_label p) + length (after_label p) \<le> length p"
  by (induction p rule: first_label.induct) (auto split: if_splits)

lemma label_copy_Some:
  "length q + length (first_label p) \<le> cap \<Longrightarrow>
   label_copy cap p q = Some (after_label p, q @ first_label p)"
  by (induction cap p q rule: label_copy.induct) (auto simp: push_def split: if_splits)

lemma after_label_cases: "after_label p = [] \<or> (\<exists>p'. after_label p = DOT # p')"
  by (induction p rule: after_label.induct) auto

lemma first_label_empty: "first_label (c # p) = [] \<longleftrightarrow> c = DOT"
  by simp

lemma encode_labels_simps [simp]:
  "encode_labels [] = []"
  "encode_labels (l # ls) = word_of_nat (length l) # l @ encode_labels ls"
  by (simp_all add: encode_labels_def)

lemma mkquery_loop_eq:
  "length q + length name + 1 \<le> cap \<Longrightarrow>
   mkquery_loop cap name q =
     Some (if list_all ok_label (split_labels name)
           then Inr (q @ encode_labels (split_labels name)) else Inl ARES_EBADNAME)"
proof (induction cap name q rule: mkquery_loop.induct)
  case (2 cap c name q)
  let ?n = "c # name" and ?l = "first_label (c # name)"
  show ?case
  proof (cases "c = DOT \<or> label_count ?n > MAXLABEL")
    case True
    then have "\<not> ok_label ?l"
      by (auto simp: ok_label_def label_count_eq simp del: label_count.simps)
    with True show ?thesis by (auto simp del: label_count.simps first_label.simps)
  next
    case False
    then have ok: "ok_label ?l"
      using first_label_empty [of c name]
      by (auto simp: ok_label_def label_count_eq simp del: label_count.simps first_label.simps)
    have len: "length ?l + length (after_label ?n) \<le> length ?n" by (rule first_after_length)
    have p1: "push cap q (word_of_nat (label_count ?n)) = Some (q @ [word_of_nat (length ?l)])"
      using "2.prems" by (simp add: push_def label_count_eq del: label_count.simps first_label.simps)
    have p2: "label_copy cap ?n (q @ [word_of_nat (length ?l)]) =
        Some (after_label ?n, q @ word_of_nat (length ?l) # ?l)"
      using "2.prems" len by (subst label_copy_Some) (auto simp del: first_label.simps after_label.simps)
    show ?thesis
    proof (cases "after_label ?n")
      case Nil
      with False ok p1 p2 show ?thesis
        by (simp del: label_count.simps first_label.simps after_label.simps label_copy.simps)
    next
      case (Cons d n')
      have "length (q @ word_of_nat (length ?l) # ?l) + length n' + 1 \<le> cap"
        using "2.prems" len Cons by (simp del: first_label.simps after_label.simps)
      with "2.IH" [OF _ _ p1 p2 refl Cons] False ok p1 p2 Cons show ?thesis
        by (simp del: label_count.simps first_label.simps after_label.simps label_copy.simps)
    qed
  qed
qed simp

lemma length_query_header [simp]: "length (query_header qid recurse) = 12"
  by (simp add: query_header_def DNS_HEADER_SET_QID_def DNS_HEADER_SET_OPCODE_def
      DNS_HEADER_SET_RD_def DNS_HEADER_SET_QDCOUNT_def HFIXEDSZ_def)

definition query_labels :: "cstring \<Rightarrow> cstring list" where
  "query_labels name = (if name = [DOT] then [] else split_labels name)"

definition query_packet :: "cstring list \<Rightarrow> int \<Rightarrow> int \<Rightarrow> 16 word \<Rightarrow> bool \<Rightarrow> byte list" where
  "query_packet ls dnsclass type qid recurse =
     query_header qid recurse @ encode_labels ls @ 0 # DNS__SET16BIT type @ DNS__SET16BIT dnsclass"

definition ok_labels :: "cstring list \<Rightarrow> bool" where
  "ok_labels ls \<longleftrightarrow> list_all ok_label ls \<and> length (encode_labels ls) + 1 \<le> MAXCDNAME"

lemma query_labels_eq: "query_labels name = split_labels (if name = [DOT] then [] else name)"
  by (simp add: query_labels_def)

lemma length_encode_split:
  "length (encode_labels (split_labels name)) \<le> length name + 1"
proof (induction name rule: split_labels.induct)
  case (2 c n)
  have "length (first_label (c # n)) + length (after_label (c # n)) \<le> length (c # n)"
    by (rule first_after_length)
  then show ?case
    using "2.IH" by (cases "after_label (c # n)") (fastforce simp del: first_label.simps after_label.simps)+
qed simp

lemma ares_mkquery_eq:
  "ares_mkquery True name dnsclass type qid recurse =
     Some (if ok_labels (query_labels name)
           then Inr (query_packet (query_labels name) dnsclass type qid recurse)
           else Inl ARES_EBADNAME)"
proof -
  let ?cap = "length name + 2 + HFIXEDSZ + QFIXEDSZ"
  let ?n = "if name = [DOT] then [] else name" and ?h = "query_header qid recurse"
  let ?ls = "split_labels ?n"
  have h: "push_all ?cap [] ?h = Some ?h" by (simp add: push_all_Some wire_consts)
  have l: "mkquery_loop ?cap ?n ?h =
      Some (if list_all ok_label ?ls then Inr (?h @ encode_labels ?ls) else Inl ARES_EBADNAME)"
    by (rule mkquery_loop_eq) (simp add: wire_consts)
  have fits: "length (?h @ encode_labels ?ls) + 5 \<le> ?cap"
    using length_encode_split [of ?n] by (simp add: wire_consts split: if_splits)
  show ?thesis
  proof (cases "list_all ok_label ?ls")
    case True
    with h l fits show ?thesis
      by (auto simp: ares_mkquery_def Let_def query_labels_eq query_packet_def ok_labels_def
          push_Some push_all_Some wire_consts)
  next
    case False
    with h l show ?thesis
      by (auto simp: ares_mkquery_def Let_def query_labels_eq ok_labels_def)
  qed
qed

section \<open>Decoding what was encoded\<close>

lemma small_not_indir: "n \<le> 63 \<Longrightarrow> \<not> is_indir (word_of_nat n)"
proof
  assume n: "n \<le> 63" and i: "is_indir (word_of_nat n)"
  then have "unat (word_of_nat n AND INDIR_MASK) = unat INDIR_MASK" by (simp add: is_indir_def)
  moreover have "unat (word_of_nat n :: byte) = n" using n by (simp add: unsigned_of_nat take_bit_nat_eq_self)
  ultimately have "n AND 192 = 192" by (simp add: unsigned_and_eq INDIR_MASK_def)
  moreover have "n AND 192 = 0"
    using and_shifted_mask [of n 6 2] n
    by (simp add: mask_eq_exp_minus_1 push_bit_eq_mult drop_bit_eq_div)
  ultimately show False by simp
qed

lemma unat_label_length: "ok_label l \<Longrightarrow> unat (word_of_nat (length l) :: byte) = length l"
  by (simp add: ok_label_def MAXLABEL_def unsigned_of_nat take_bit_nat_eq_self)

lemma label_byte:
  assumes "ok_label l"
  shows "(word_of_nat (length l) :: byte) \<noteq> 0" "\<not> is_indir (word_of_nat (length l))"
proof -
  show "(word_of_nat (length l) :: byte) \<noteq> 0"
    using unat_label_length [OF assms] assms by (auto simp: ok_label_def)
  show "\<not> is_indir (word_of_nat (length l))"
    using assms by (intro small_not_indir) (simp add: ok_label_def MAXLABEL_def)
qed

lemma name_at_encoded:
  assumes "list_all ok_label ls" "length pre + length (encode_labels ls) < alen"
  shows "name_at (pre @ encode_labels ls @ 0 # post) alen (length pre) ls (length ls)
         \<and> enc_size (pre @ encode_labels ls @ 0 # post) (length pre) (length (encode_labels ls) + 1)"
  using assms
proof (induction ls arbitrary: pre)
  case Nil
  then show ?case
    using enc_size.zero [of "pre @ 0 # post" "length pre"] by (simp add: name_at.root nth_append)
next
  case (Cons l ls)
  let ?buf = "pre @ encode_labels (l # ls) @ 0 # post" and ?p = "length pre"
  let ?pre' = "pre @ word_of_nat (length l) # l"
  have ok: "ok_label l" using Cons.prems by simp
  have buf: "?buf = ?pre' @ encode_labels ls @ 0 # post" by simp
  have b: "?buf ! ?p = word_of_nat (length l)" by (simp add: nth_append)
  have u: "unat (?buf ! ?p) = length l" unfolding b by (rule unat_label_length [OF ok])
  have next_pos: "?p + unat (?buf ! ?p) + 1 = length ?pre'" unfolding u by simp
  have l: "take (unat (?buf ! ?p)) (drop (?p + 1) ?buf) = l" unfolding u by simp
  have len: "length ?pre' + length (encode_labels ls) < alen" using Cons.prems by simp
  have nz: "?buf ! ?p \<noteq> 0" "\<not> is_indir (?buf ! ?p)"
    unfolding b using label_byte [OF ok] by simp_all
  from Cons.IH [of ?pre'] Cons.prems(1) len
  have IH: "name_at ?buf alen (length ?pre') ls (length ls)"
    "enc_size ?buf (length ?pre') (length (encode_labels ls) + 1)"
    by simp_all
  have "name_at ?buf alen ?p (l # ls) (Suc (length ls))"
    using name_at.label [OF nz, of alen ls "length ls"] IH(1) len unfolding next_pos l by simp
  moreover have "enc_size ?buf ?p (unat (?buf ! ?p) + 1 + (length (encode_labels ls) + 1))"
    by (rule enc_size.label [OF nz]) (use IH(2) next_pos in simp)
  ultimately show ?case unfolding u by (simp add: ac_simps)
qed

lemma query_packet_name:
  assumes "ok_labels ls" "buf = query_packet ls dnsclass type qid recurse"
  shows "ares_expand_name True buf (length buf) HFIXEDSZ =
           Some (Inr (print_name ls, length (encode_labels ls) + 1))"
proof -
  let ?post = "DNS__SET16BIT type @ DNS__SET16BIT dnsclass"
  have buf: "buf = query_header qid recurse @ encode_labels ls @ 0 # ?post"
    by (simp add: assms(2) query_packet_def)
  have "name_at buf (length buf) 12 ls (length ls) \<and> enc_size buf 12 (length (encode_labels ls) + 1)"
    using name_at_encoded [of ls "query_header qid recurse" "length buf" ?post] assms(1)
    unfolding buf ok_labels_def by simp
  then show ?thesis
    unfolding HFIXEDSZ_def by (blast intro: expand_name_complete)
qed

text \<open>Printing the labels of a name that uses no escapes gives the name back, less a final dot.\<close>

definition plain_name :: "cstring \<Rightarrow> bool" where
  "plain_name name \<longleftrightarrow> BACKSLASH \<notin> set name"

lemma plain_first_label:
  "plain_name n \<Longrightarrow> first_label n = takeWhile (\<lambda>c. c \<noteq> DOT) n
                 \<and> after_label n = dropWhile (\<lambda>c. c \<noteq> DOT) n"
  by (induction n rule: first_label.induct) (auto simp: plain_name_def)

lemma escape_plain: "(\<And>c. c \<in> set l \<Longrightarrow> \<not> needs_escape c) \<Longrightarrow> escape_label l = l"
  by (induction l) auto

lemma dot_split_cases:
  assumes "n \<noteq> []"
  obtains "takeWhile (\<lambda>c. c \<noteq> DOT) n = n" "dropWhile (\<lambda>c. c \<noteq> DOT) n = []" "last n \<noteq> DOT"
  | n' where "dropWhile (\<lambda>c. c \<noteq> DOT) n = DOT # n'" "n = takeWhile (\<lambda>c. c \<noteq> DOT) n @ DOT # n'"
proof (cases "DOT \<in> set n")
  case False
  then have "takeWhile (\<lambda>c. c \<noteq> DOT) n = n" "dropWhile (\<lambda>c. c \<noteq> DOT) n = []"
    by (auto simp: takeWhile_eq_all_conv)
  moreover have "last n \<noteq> DOT" using False assms last_in_set by metis
  ultimately show ?thesis by (rule that(1))
next
  case True
  then obtain ys zs where n: "n = ys @ DOT # zs" "DOT \<notin> set ys"
    by (meson split_list_first)
  then have "\<forall>y\<in>set ys. y \<noteq> DOT" by metis
  then have "takeWhile (\<lambda>c. c \<noteq> DOT) n = ys" "dropWhile (\<lambda>c. c \<noteq> DOT) n = DOT # zs"
    by (simp_all add: n(1) takeWhile_append dropWhile_append)
  then show ?thesis using that(2) n(1) by simp
qed

lemma dotted_split_plain:
  assumes "plain_name n" "n \<noteq> []"
  shows "dotted (split_labels n) = (if last n = DOT then n else n @ [DOT])"
  using assms
proof (induction n rule: split_labels.induct)
  case (2 c m)
  define n l where "n = c # m" and "l = takeWhile (\<lambda>c. c \<noteq> DOT) n"
  have pn: "plain_name n" using "2.prems"(1) by (simp add: n_def)
  have fl: "first_label n = l" "after_label n = dropWhile (\<lambda>c. c \<noteq> DOT) n"
    using plain_first_label [OF pn] by (simp_all only: l_def)
  have unf: "split_labels n = l # (case after_label n of [] \<Rightarrow> [] | _ # n' \<Rightarrow> split_labels n')"
    using split_labels.simps(2) [of c m] fl(1) unfolding n_def by simp
  have esc: "escape_label l = l"
    using pn unfolding l_def
    by (intro escape_plain) (auto simp: needs_escape_def plain_name_def dest: set_takeWhileD)
  have "n \<noteq> []" by (simp add: n_def)
  then have "dotted (split_labels n) = (if last n = DOT then n else n @ [DOT])"
  proof (cases rule: dot_split_cases)
    case 1
    then have "after_label n = []" and l: "l = n" using fl(2) by (simp_all only: l_def)
    then show ?thesis using 1(3) esc unfolding unf l by simp
  next
    case (2 n')
    then have n: "n = l @ DOT # n'" by (simp add: l_def)
    have al: "after_label (c # m) = DOT # n'" using fl(2) 2(1) by (simp only: n_def)
    have "plain_name n'" using pn n unfolding plain_name_def by simp
    then have "n' \<noteq> [] \<longrightarrow> dotted (split_labels n') = (if last n' = DOT then n' else n' @ [DOT])"
      using "2.IH" [of DOT n'] al by blast
    moreover have "dotted (split_labels n) = l @ DOT # dotted (split_labels n')"
      unfolding unf fl(2) 2(1) by (simp add: esc)
    moreover have "last n = (if n' = [] then DOT else last n')" by (simp add: n)
    ultimately show ?thesis using n by (cases "n' = []") auto
  qed
  then show ?case by (simp add: n_def)
qed simp

lemma print_split_plain:
  assumes "plain_name n" "n \<noteq> []" "last n \<noteq> DOT"
  shows "print_name (split_labels n) = n"
  using dotted_split_plain [OF assms(1,2)] assms(3) by (simp add: print_name_def)

section \<open>Properties\<close>

text \<open>\<^verbatim>\<open>ares_mkquery\<close> builds exactly the query packet of RFC 1035 for the labels of the name
  (header with the id, one question, the recursion bit as asked), and refuses exactly the names with an
  empty label, a label of more than 63 bytes or an encoding of more than 255 bytes. The buffer it
  computes beforehand is always large enough.\<close>

theorem mkquery_exact:
  "ares_mkquery True name dnsclass type qid recurse =
     Some (if ok_labels (query_labels name)
           then Inr (query_packet (query_labels name) dnsclass type qid recurse)
           else Inl ARES_EBADNAME)"
  by (rule ares_mkquery_eq)

text \<open>C34: The question name survives the round trip: expanding the name in the packet
  \<^verbatim>\<open>ares_mkquery\<close> builds for a name without escapes gives that name back.\<close>

theorem mkquery_expand_roundtrip:
  assumes "plain_name name" "name \<noteq> []" "last name \<noteq> DOT"
    and "ares_mkquery True name dnsclass type qid recurse = Some (Inr buf)"
  shows "\<exists>k. ares_expand_name True buf (length buf) HFIXEDSZ = Some (Inr (name, k))"
proof -
  have "name \<noteq> [DOT]" using assms(3) by auto
  then have "query_labels name = split_labels name" by (simp add: query_labels_def)
  moreover have "ok_labels (query_labels name)"
      "buf = query_packet (query_labels name) dnsclass type qid recurse"
    using assms(4) by (auto simp: ares_mkquery_eq split: if_splits)
  ultimately show ?thesis
    using query_packet_name print_split_plain [OF assms(1-3)] by fastforce
qed

theorem mkquery_expand_roundtrip_witness:
  "let name = str ''www.example'' in
   \<exists>k. ares_expand_name True (query_packet [str ''www'', str ''example''] 1 1 7 True)
         (length (query_packet [str ''www'', str ''example''] 1 1 7 True)) HFIXEDSZ = Some (Inr (name, k))"
proof -
  have l: "query_labels (str ''www.example'') = [str ''www'', str ''example'']"
    by (simp add: query_labels_def str_def)
  have "ok_labels [str ''www'', str ''example'']"
    by (simp add: ok_labels_def ok_label_def str_def wire_consts)
  then have "ares_mkquery True (str ''www.example'') 1 1 7 True =
      Some (Inr (query_packet [str ''www'', str ''example''] 1 1 7 True))"
    by (simp add: ares_mkquery_eq l)
  then show ?thesis
    using mkquery_expand_roundtrip [of "str ''www.example''" 1 1 7 True]
    by (simp add: plain_name_def str_def Let_def)
qed

end
