(* ===== verification/SameQuestions.thy ===== *)
theory SameQuestions
  imports MkQuery
begin

text \<open>
  \<^verbatim>\<open>same_questions\<close> of \<^verbatim>\<open>ares_process.c\<close>: does the question section of a reply
  hold every question of the query? The argument \<open>m i j\<close> gives the outcome of the
  allocation for the name of question \<open>i\<close> of the query (\<open>j = 0\<close>) or of question
  \<open>j - 1\<close> of the answer while question \<open>i\<close> is searched.
\<close>

text \<open>A question read at \<open>p\<close>: name, type, class and the offset behind it; \<open>None\<close> inside is
  \<^verbatim>\<open>return 0\<close>, \<open>None\<close> outside an access out of bounds.\<close>

definition read_question ::
  "bool \<Rightarrow> byte list \<Rightarrow> nat \<Rightarrow> nat \<Rightarrow> (cstring \<times> nat \<times> nat \<times> nat) option option" where
  "read_question m buf len p = do {
     r \<leftarrow> ares_expand_name m buf len p;
     case r of Inl _ \<Rightarrow> Some None
     | Inr (name, namelen) \<Rightarrow>
         let p = p + namelen in
         if p + QFIXEDSZ > len then Some None
         else do {
           type \<leftarrow> DNS_QUESTION_TYPE buf p;
           dnsclass \<leftarrow> DNS_QUESTION_CLASS buf p;
           Some (Some (name, type, dnsclass, p + QFIXEDSZ)) } }"

text \<open>The search in the answer: \<open>Some None\<close> is \<^verbatim>\<open>return 0\<close>, otherwise whether it was found.\<close>

fun find_question ::
  "(nat \<Rightarrow> bool) \<Rightarrow> byte list \<Rightarrow> nat \<Rightarrow> nat \<Rightarrow> nat \<Rightarrow> nat \<Rightarrow> cstring \<times> nat \<times> nat \<Rightarrow> bool option option" where
  "find_question m abuf alen p j 0 q = Some (Some False)"
| "find_question m abuf alen p j (Suc n) q = do {
     a \<leftarrow> read_question (m (Suc j)) abuf alen p;
     case a of None \<Rightarrow> Some None
     | Some (name, type, dnsclass, p') \<Rightarrow>
         if strcaseeq (fst q) name \<and> fst (snd q) = type \<and> snd (snd q) = dnsclass
         then Some (Some True)
         else find_question m abuf alen p' (Suc j) n q }"

fun match_questions ::
  "(nat \<Rightarrow> nat \<Rightarrow> bool) \<Rightarrow> byte list \<Rightarrow> nat \<Rightarrow> byte list \<Rightarrow> nat \<Rightarrow> nat \<Rightarrow> nat \<Rightarrow> nat \<Rightarrow> nat \<Rightarrow> bool option"
where
  "match_questions m qbuf qlen abuf alen acount p i 0 = Some True"
| "match_questions m qbuf qlen abuf alen acount p i (Suc n) = do {
     q \<leftarrow> read_question (m i 0) qbuf qlen p;
     case q of None \<Rightarrow> Some False
     | Some (name, type, dnsclass, p') \<Rightarrow> do {
         f \<leftarrow> find_question (m i) abuf alen HFIXEDSZ 0 acount (name, type, dnsclass);
         case f of None \<Rightarrow> Some False
         | Some False \<Rightarrow> Some False
         | Some True \<Rightarrow> match_questions m qbuf qlen abuf alen acount p' (Suc i) n } }"

definition same_questions ::
  "(nat \<Rightarrow> nat \<Rightarrow> bool) \<Rightarrow> byte list \<Rightarrow> nat \<Rightarrow> byte list \<Rightarrow> nat \<Rightarrow> bool option" where
  "same_questions m qbuf qlen abuf alen =
     (if qlen < HFIXEDSZ \<or> alen < HFIXEDSZ then Some False
      else do {
        qcount \<leftarrow> DNS_HEADER_QDCOUNT qbuf;
        acount \<leftarrow> DNS_HEADER_QDCOUNT abuf;
        if qcount \<noteq> acount then Some False
        else match_questions m qbuf qlen abuf alen acount HFIXEDSZ 0 qcount })"

section \<open>Lemmas\<close>

lemma read_question_cases:
  assumes "len \<le> length buf" "p \<le> len"
  obtains "read_question m buf len p = Some None"
  | name type dnsclass p' where "read_question m buf len p = Some (Some (name, type, dnsclass, p'))"
      "p' \<le> len"
  using assms
proof (cases rule: expand_name_cases [where m = m])
  case nomem
  then show ?thesis using that(1) by (simp add: read_question_def)
next
  case bad
  then show ?thesis using that(1) by (simp add: read_question_def)
next
  case (good ls h k)
  show ?thesis
  proof (cases "p + k + 4 > len")
    case True
    then show ?thesis using that(1) good(1) by (simp add: read_question_def QFIXEDSZ_def Let_def)
  next
    case False
    then show ?thesis using that(2) good(1) assms
      by (simp add: read_question_def QFIXEDSZ_def Let_def dns_accessors buf_simps)
  qed
qed

lemma find_question_total:
  assumes "alen \<le> length abuf" "p \<le> alen"
  shows "\<exists>r. find_question m abuf alen p j n q = Some r"
  using assms
proof (induction n arbitrary: p j)
  case (Suc n)
  from Suc.prems show ?case
  proof (cases rule: read_question_cases [where m = "m (Suc j)"])
    case (2 name type dnsclass p')
    then show ?thesis using Suc.IH [OF Suc.prems(1) 2(2)] by auto
  qed auto
qed auto

lemma match_questions_total:
  assumes "qlen \<le> length qbuf" "alen \<le> length abuf" "p \<le> qlen" "HFIXEDSZ \<le> alen"
  shows "\<exists>r. match_questions m qbuf qlen abuf alen acount p i n = Some r"
  using assms
proof (induction n arbitrary: p i)
  case (Suc n)
  from Suc.prems(1,3) show ?case
  proof (cases rule: read_question_cases [where m = "m i 0"])
    case (2 name type dnsclass p')
    obtain f where "find_question (m i) abuf alen HFIXEDSZ 0 acount (name, type, dnsclass) = Some f"
      using find_question_total [OF Suc.prems(2,4)] by blast
    then show ?thesis using 2 Suc.IH [OF Suc.prems(1,2) 2(2) Suc.prems(4)]
      by (auto split: option.split bool.split)
  qed auto
qed auto

text \<open>The comparison stays inside both messages.\<close>

lemma same_questions_total:
  assumes "qlen \<le> length qbuf" "alen \<le> length abuf"
  shows "\<exists>r. same_questions m qbuf qlen abuf alen = Some r"
proof (cases "qlen < 12 \<or> alen < 12")
  case True
  then show ?thesis by (auto simp: same_questions_def HFIXEDSZ_def)
next
  case False
  then show ?thesis
    using assms match_questions_total [OF assms, of 12 m]
    by (auto simp: same_questions_def HFIXEDSZ_def dns_accessors buf_simps)
qed

text \<open>A reply that repeats the question of a query \<open>ares_mkquery\<close> built is recognised.\<close>

lemma read_question_packet:
  assumes "ok_labels ls" "0 \<le> ty" "ty < 65536" "0 \<le> cl" "cl < 65536"
    and "buf = query_packet ls cl ty qid recurse @ more"
  shows "read_question True buf (length buf) HFIXEDSZ =
    Some (Some (print_name ls, nat ty, nat cl, 12 + length (encode_labels ls) + 1 + 4))"
proof -
  let ?h = "query_header qid recurse" and ?e = "encode_labels ls"
  let ?p = "12 + length ?e + 1"
  let ?post = "DNS__SET16BIT ty @ DNS__SET16BIT cl @ more"
  have buf: "buf = ?h @ ?e @ 0 # ?post" by (simp add: assms(6) query_packet_def)
  have "name_at buf (length buf) 12 ls (length ls) \<and> enc_size buf 12 (length ?e + 1)"
    using name_at_encoded [of ls ?h "length buf" ?post] assms(1) unfolding buf ok_labels_def by simp
  then have e: "ares_expand_name True buf (length buf) HFIXEDSZ = Some (Inr (print_name ls, length ?e + 1))"
    unfolding HFIXEDSZ_def by (blast intro: expand_name_complete)
  have t: "DNS__16BIT buf ?p = Some (nat ty)"
    using DNS__16BIT_SET16BIT [OF assms(2,3), of "?h @ ?e @ [0]" "DNS__SET16BIT cl @ more"]
    unfolding buf by simp
  have c: "DNS__16BIT buf (?p + 2) = Some (nat cl)"
    using DNS__16BIT_SET16BIT [OF assms(4,5), of "?h @ ?e @ 0 # DNS__SET16BIT ty" more]
    unfolding buf by simp
  have "\<not> 12 + (length ?e + 1) + 4 > length buf" unfolding buf by simp
  then show ?thesis
    using e t c by (simp add: read_question_def Let_def wire_consts dns_accessors)
qed

lemma query_header_qdcount: "query_header qid recurse ! 4 = 0" "query_header qid recurse ! 5 = 1"
  by (simp_all add: query_header_def DNS_HEADER_SET_QID_def DNS_HEADER_SET_OPCODE_def
      DNS_HEADER_SET_RD_def DNS_HEADER_SET_QDCOUNT_def HFIXEDSZ_def)

lemma DNS_HEADER_QDCOUNT_packet:
  "DNS_HEADER_QDCOUNT (query_packet ls cl ty qid recurse @ more) = Some (Suc 0)"
  by (simp add: DNS_HEADER_QDCOUNT_def query_packet_def DNS__16BIT_def rd_def
      get16_eq nth_append query_header_qdcount)

lemma HFIXEDSZ_le_packet: "HFIXEDSZ \<le> length (query_packet ls cl ty qid recurse @ more)"
  by (simp add: HFIXEDSZ_def query_packet_def)

lemma same_questions_packets:
  assumes "ok_labels ls" "ok_labels ls'"
    and "0 \<le> ty" "ty < 65536" "0 \<le> cl" "cl < 65536"
    and "0 \<le> ty'" "ty' < 65536" "0 \<le> cl'" "cl' < 65536"
    and q: "q = query_packet ls cl ty qid recurse @ more"
    and a: "a = query_packet ls' cl' ty' qid' recurse' @ more'"
  shows "same_questions (\<lambda>_ _. True) q (length q) a (length a) =
    Some (strcaseeq (print_name ls) (print_name ls') \<and> ty = ty' \<and> cl = cl')"
proof -
  have "nat ty = nat ty' \<longleftrightarrow> ty = ty'" "nat cl = nat cl' \<longleftrightarrow> cl = cl'"
    using assms by auto
  moreover have "DNS_HEADER_QDCOUNT q = Some (Suc 0)" "DNS_HEADER_QDCOUNT a = Some (Suc 0)"
    using DNS_HEADER_QDCOUNT_packet unfolding q a by simp_all
  moreover have "HFIXEDSZ \<le> length q" "HFIXEDSZ \<le> length a"
    unfolding q a by (rule HFIXEDSZ_le_packet)+
  ultimately show ?thesis
    using read_question_packet [OF assms(1,3-6) q] read_question_packet [OF assms(2,7-10) a]
    by (simp add: same_questions_def not_less)
qed

section \<open>Properties\<close>



text \<open>\<^verbatim>\<open>same_questions\<close> is safe on any two messages: it returns and never reads outside them,
  whichever allocations fail.\<close>

theorem same_questions_safe: "same_questions m q (length q) a (length a) \<noteq> None"
  using same_questions_total [of "length q" q "length a" a m] by force

end
