(* ===== verification/ChannelState.thy ===== *)
theory ChannelState
  imports SameQuestions "HOL-Library.Multiset"
begin

text \<open>
  The state of a resolver channel (\<^verbatim>\<open>ares_private.h\<close>) and of its surroundings, and the
  operations on sockets of \<^verbatim>\<open>ares_process.c\<close> and \<^verbatim>\<open>ares__close_sockets.c\<close>.

  A query is a heap object: its address is the number \<open>q_handle\<close>, taken from
  \<open>ch_next_handle\<close> when \<^verbatim>\<open>ares_send\<close> links it into the channel, so an address is never
  used twice. The fields \<^verbatim>\<open>qbuf\<close>, \<^verbatim>\<open>qlen\<close> and \<^verbatim>\<open>tcplen\<close> are derived from \<^verbatim>\<open>tcpbuf\<close>. A
  queued send request points into the \<^verbatim>\<open>tcpbuf\<close> of its query, so it carries the address of
  that query beside the bytes. The two read buffers of a server hold the bytes read so far; their
  lengths are \<^verbatim>\<open>tcp_lenbuf_pos\<close> and \<^verbatim>\<open>tcp_buffer_pos\<close>.

  The world around the channel: \<open>w_sys\<close> gives the results of the system calls in the order
  they are made and \<open>w_alloc\<close> the outcomes of the allocations; \<open>w_log\<close> records, newest first, what
  the channel and the application did to the outside; \<open>w_ub\<close> is set when the C code would run into undefined
  behaviour (a dangling pointer, an index out of range, a signed overflow).
  The build modelled is the POSIX one with \<^verbatim>\<open>USE_IPV6\<close>.
\<close>

section \<open>Data\<close>

datatype sock_addr = AddrV4 "32 word" | AddrV6 "byte list"

datatype poll_action = POLLACTION_OPEN | POLLACTION_CLOSE | POLLACTION_WRITEON | POLLACTION_WRITEOFF

record send_request =
  sr_owner :: nat
  sr_data :: "byte list"

record server_state =
  s_addr :: sock_addr
  s_physical_addr :: "byte list"
  s_default_localhost :: bool
  s_udp_socket :: int
  s_tcp_socket :: int
  s_tcp_lenbuf :: "byte list"
  s_tcp_length :: nat
  s_tcp_buffer :: "byte list option"
  s_queue :: "send_request list"

record 'cb query =
  q_handle :: nat
  q_qid :: nat
  q_timeout :: int
  q_tcpbuf :: "byte list"
  q_callback :: 'cb
  q_itry :: nat
  q_server :: nat
  q_skip_server :: "bool list"
  q_using_tcp :: bool
  q_error_status :: ares_status

record apattern =
  pat_addr :: "32 word"
  pat_mask :: "32 word"

record 'cb channel =
  ch_flags :: "32 word"
  ch_timeout :: int
  ch_tries :: int
  ch_ndots :: int
  ch_udp_port :: int
  ch_tcp_port :: int
  ch_domains :: "cstring list"
  ch_sortlist :: "apattern list"
  ch_lookups :: cstring
  ch_servers :: "server_state list"
  ch_next_id :: "16 word"
  ch_queries :: "'cb query list"
  ch_socket_function :: bool
  ch_poll_cb :: bool
  ch_next_handle :: nat

datatype event =
    EvPoll nat int bool poll_action
  | EvConnect int sock_addr int
  | EvSocketFunction int
  | EvSend nat int "byte list"
  | EvWrite nat int "byte list"
  | EvClose int
  | EvCallback nat ares_status "byte list option"
  | EvOutput cstring

record sysres =
  sys_ret :: int
  sys_errno :: int
  sys_data :: "byte list"

record 'cb world =
  w_chan :: "'cb channel"
  w_sys :: "nat \<Rightarrow> sysres"
  w_spos :: nat
  w_alloc :: "nat \<Rightarrow> bool"
  w_apos :: nat
  w_log :: "event list"
  w_ub :: bool

text \<open>A callback with its \<^verbatim>\<open>void *arg\<close>, as the effect of its call on the world.\<close>

type_synonym 'cb callback_fn = "'cb \<Rightarrow> ares_status \<Rightarrow> byte list option \<Rightarrow> 'cb world \<Rightarrow> 'cb world"

definition EINPROGRESS :: int where "EINPROGRESS = 115"

definition ARES_FLAG_USEVC :: "32 word" where "ARES_FLAG_USEVC = push_bit 0 1"
definition ARES_FLAG_PRIMARY :: "32 word" where "ARES_FLAG_PRIMARY = push_bit 1 1"
definition ARES_FLAG_IGNTC :: "32 word" where "ARES_FLAG_IGNTC = push_bit 2 1"
definition ARES_FLAG_NORECURSE :: "32 word" where "ARES_FLAG_NORECURSE = push_bit 3 1"
definition ARES_FLAG_STAYOPEN :: "32 word" where "ARES_FLAG_STAYOPEN = push_bit 4 1"
definition ARES_FLAG_NOSEARCH :: "32 word" where "ARES_FLAG_NOSEARCH = push_bit 5 1"
definition ARES_FLAG_NOALIASES :: "32 word" where "ARES_FLAG_NOALIASES = push_bit 6 1"
definition ARES_FLAG_NOCHECKRESP :: "32 word" where "ARES_FLAG_NOCHECKRESP = push_bit 7 1"
definition ARES_FLAG_TRY_NEXT_SERVER_ON_RCODE3 :: "32 word" where
  "ARES_FLAG_TRY_NEXT_SERVER_ON_RCODE3 = push_bit 8 1"

lemmas ares_flags = ARES_FLAG_USEVC_def ARES_FLAG_PRIMARY_def ARES_FLAG_IGNTC_def
  ARES_FLAG_NORECURSE_def ARES_FLAG_STAYOPEN_def ARES_FLAG_NOSEARCH_def ARES_FLAG_NOALIASES_def
  ARES_FLAG_NOCHECKRESP_def ARES_FLAG_TRY_NEXT_SERVER_ON_RCODE3_def

section \<open>Access to the world\<close>

abbreviation w_queries :: "'cb world \<Rightarrow> 'cb query list" where
  "w_queries w \<equiv> ch_queries (w_chan w)"

abbreviation w_servers :: "'cb world \<Rightarrow> server_state list" where
  "w_servers w \<equiv> ch_servers (w_chan w)"

abbreviation nservers :: "'cb world \<Rightarrow> nat" where
  "nservers w \<equiv> length (w_servers w)"

definition flag_set :: "'cb world \<Rightarrow> 32 word \<Rightarrow> bool" where
  "flag_set w f \<longleftrightarrow> ch_flags (w_chan w) AND f \<noteq> 0"

definition set_queries :: "'cb query list \<Rightarrow> 'cb world \<Rightarrow> 'cb world" where
  "set_queries qs w = w\<lparr>w_chan := (w_chan w)\<lparr>ch_queries := qs\<rparr>\<rparr>"

definition upd_server :: "nat \<Rightarrow> (server_state \<Rightarrow> server_state) \<Rightarrow> 'cb world \<Rightarrow> 'cb world" where
  "upd_server i f w =
     w\<lparr>w_chan := (w_chan w)\<lparr>ch_servers := (w_servers w)[i := f (w_servers w ! i)]\<rparr>\<rparr>"

text \<open>The stores to the fields of \<^verbatim>\<open>*query\<close>, written back into the list that holds it.\<close>

definition put_query :: "'cb query \<Rightarrow> 'cb world \<Rightarrow> 'cb world" where
  "put_query q w =
     set_queries (map (\<lambda>x. if q_handle x = q_handle q then q else x) (w_queries w)) w"

definition log_event :: "event \<Rightarrow> 'cb world \<Rightarrow> 'cb world" where
  "log_event e w = w\<lparr>w_log := e # w_log w\<rparr>"

definition undefined_behaviour :: "'cb world \<Rightarrow> 'cb world" where
  "undefined_behaviour w = w\<lparr>w_ub := True\<rparr>"

definition syscall :: "'cb world \<Rightarrow> sysres \<times> 'cb world" where
  "syscall w = (w_sys w (w_spos w), w\<lparr>w_spos := Suc (w_spos w)\<rparr>)"

definition malloc :: "'cb world \<Rightarrow> bool \<times> 'cb world" where
  "malloc w = (w_alloc w (w_apos w), w\<lparr>w_apos := Suc (w_apos w)\<rparr>)"

text \<open>\<^verbatim>\<open>read\<close> and \<^verbatim>\<open>recv\<close> of at most \<open>n\<close> bytes (\<open>None\<close> is -1), \<^verbatim>\<open>write\<close> of \<open>n\<close> bytes.\<close>

definition sys_read :: "nat \<Rightarrow> 'cb world \<Rightarrow> byte list option \<times> 'cb world" where
  "sys_read n w = (case syscall w of (r, w) \<Rightarrow>
     (if sys_ret r < 0 then None else Some (take n (sys_data r)), w))"

definition sys_write :: "nat \<Rightarrow> 'cb world \<Rightarrow> nat option \<times> 'cb world" where
  "sys_write n w = (case syscall w of (r, w) \<Rightarrow>
     (if sys_ret r < 0 then None else Some (min (nat (sys_ret r)) n), w))"

text \<open>\<^verbatim>\<open>(*channel->poll_cb_func)(...)\<close>, when one is installed.\<close>

definition poll_cb :: "nat \<Rightarrow> int \<Rightarrow> bool \<Rightarrow> poll_action \<Rightarrow> 'cb world \<Rightarrow> 'cb world" where
  "poll_cb i fd tcp act w = (if ch_poll_cb (w_chan w) then log_event (EvPoll i fd tcp act) w else w)"

section \<open>Sockets\<close>

definition ares__kill_socket :: "int \<Rightarrow> 'cb world \<Rightarrow> 'cb world" where
  "ares__kill_socket s w = log_event (EvClose s) w"

text \<open>\<open>True\<close> is a return of 0.\<close>

definition make_socket_non_blocking :: "'cb world \<Rightarrow> bool \<times> 'cb world" where
  "make_socket_non_blocking w = (case syscall w of (flags, w) \<Rightarrow>
     if sys_ret flags = -1 then (False, w)
     else case syscall w of (r, w) \<Rightarrow> (sys_ret r \<noteq> -1, w))"

definition open_tcp_socket :: "nat \<Rightarrow> 'cb world \<Rightarrow> bool \<times> 'cb world" where
  "open_tcp_socket i w = (case syscall w of (r, w) \<Rightarrow>
     let s = sys_ret r in
     if s = -1 then (False, w)
     else case make_socket_non_blocking w of (ok, w) \<Rightarrow>
     if \<not> ok then (False, ares__kill_socket s w)
     else let w = log_event (EvConnect s (s_addr (w_servers w ! i)) (ch_tcp_port (w_chan w))) w in
     case syscall w of (c, w) \<Rightarrow>
     if sys_ret c = -1 \<and> sys_errno c \<noteq> EINPROGRESS then (False, ares__kill_socket s w)
     else (True, upd_server i (\<lambda>x. x\<lparr>s_tcp_socket := s\<rparr>) w))"

definition connect_udp :: "int \<Rightarrow> nat \<Rightarrow> 'cb world \<Rightarrow> bool \<times> 'cb world" where
  "connect_udp s i w =
     (let w = log_event (EvConnect s (s_addr (w_servers w ! i)) (ch_udp_port (w_chan w))) w in
      case syscall w of (c, w) \<Rightarrow>
      if sys_ret c = -1 then (False, ares__kill_socket s w) else (True, w))"

definition open_udp_socket :: "nat \<Rightarrow> 'cb world \<Rightarrow> bool \<times> 'cb world" where
  "open_udp_socket i w = (case syscall w of (r, w) \<Rightarrow>
     let s = sys_ret r in
     if s = -1 then (False, w)
     else case make_socket_non_blocking w of (ok, w) \<Rightarrow>
     if \<not> ok then (False, ares__kill_socket s w)
     else case connect_udp s i w of (ok, w) \<Rightarrow>
     if \<not> ok then (False, w)
     else
       let w = (if ch_socket_function (w_chan w) then log_event (EvSocketFunction s) w else w) in
       (True, upd_server i (\<lambda>x. x\<lparr>s_udp_socket := s\<rparr>) w))"

definition ares__close_poll :: "nat \<Rightarrow> 'cb world \<Rightarrow> 'cb world" where
  "ares__close_poll i w =
     (let s = w_servers w ! i;
          w = (if s_udp_socket s \<noteq> -1 then poll_cb i (s_udp_socket s) False POLLACTION_CLOSE w else w)
      in if s_tcp_socket s \<noteq> -1 then poll_cb i (s_tcp_socket s) True POLLACTION_CLOSE w else w)"

definition reset_server :: "server_state \<Rightarrow> server_state" where
  "reset_server s = s\<lparr>s_queue := [], s_tcp_buffer := None, s_tcp_lenbuf := [],
     s_tcp_socket := -1, s_udp_socket := -1\<rparr>"

definition ares__close_sockets :: "nat \<Rightarrow> 'cb world \<Rightarrow> 'cb world" where
  "ares__close_sockets i w =
     (let s = w_servers w ! i;
          w = (if s_tcp_socket s \<noteq> -1 then ares__kill_socket (s_tcp_socket s) w else w);
          w = (if s_udp_socket s \<noteq> -1 then ares__kill_socket (s_udp_socket s) w else w)
      in upd_server i reset_server w)"

text \<open>The loop of \<^verbatim>\<open>end_query\<close> and \<^verbatim>\<open>ares_destroy_internal\<close> over all servers.\<close>

definition close_all :: "'cb world \<Rightarrow> 'cb world" where
  "close_all w = fold (\<lambda>i w. ares__close_sockets i (ares__close_poll i w)) [0..<nservers w] w"

section \<open>What socket operations leave alone\<close>

fun completions :: "event list \<Rightarrow> nat list" where
  "completions [] = []"
| "completions (EvCallback h st ab # es) = h # completions es"
| "completions (_ # es) = completions es"

definition same_config :: "'cb world \<Rightarrow> 'cb world \<Rightarrow> bool" where
  "same_config w w' \<longleftrightarrow>
     ch_flags (w_chan w') = ch_flags (w_chan w) \<and> ch_timeout (w_chan w') = ch_timeout (w_chan w) \<and>
     ch_tries (w_chan w') = ch_tries (w_chan w) \<and> nservers w' = nservers w \<and>
     ch_domains (w_chan w') = ch_domains (w_chan w) \<and> w_alloc w' = w_alloc w"

text \<open>The reading side of a server: a complete length word comes with a buffer that the message
  fits into.\<close>

definition frame_ok :: "server_state \<Rightarrow> bool" where
  "frame_ok s \<longleftrightarrow> length (s_tcp_lenbuf s) \<le> 2 \<and>
     (length (s_tcp_lenbuf s) = 2 \<longrightarrow>
       s_tcp_length s = get16 (s_tcp_lenbuf s ! 0) (s_tcp_lenbuf s ! 1) \<and>
       (case s_tcp_buffer s of None \<Rightarrow> False | Some b \<Rightarrow> length b \<le> s_tcp_length s))"

definition servers_ok :: "'cb world \<Rightarrow> bool" where
  "servers_ok w \<longleftrightarrow> (\<forall>s \<in> set (w_servers w). frame_ok s)"

text \<open>Nothing but servers, sockets, the log and the positions in the environment changed.\<close>

definition quiet :: "'cb world \<Rightarrow> 'cb world \<Rightarrow> bool" where
  "quiet w w' \<longleftrightarrow> same_config w w' \<and> w_queries w' = w_queries w \<and>
     ch_next_handle (w_chan w') = ch_next_handle (w_chan w) \<and>
     completions (w_log w') = completions (w_log w) \<and> w_ub w' = w_ub w \<and>
     (servers_ok w \<longrightarrow> servers_ok w')"

named_theorems quiet_intros \<open>operations that touch sockets only\<close>

lemmas world_defs = set_queries_def upd_server_def put_query_def log_event_def
  undefined_behaviour_def syscall_def malloc_def

lemma same_config_refl [simp]: "same_config w w"
  by (simp add: same_config_def)

lemma same_config_trans [trans]: "same_config u v \<Longrightarrow> same_config v w \<Longrightarrow> same_config u w"
  by (simp add: same_config_def)

lemma quiet_refl [simp, quiet_intros]: "quiet w w"
  by (simp add: quiet_def)

lemma quiet_trans [trans]: "quiet u v \<Longrightarrow> quiet v w \<Longrightarrow> quiet u w"
  by (auto simp: quiet_def intro: same_config_trans)

lemma quiet_log [quiet_intros]:
  "(\<And>h st ab. e \<noteq> EvCallback h st ab) \<Longrightarrow> quiet w (log_event e w)"
  by (cases e) (auto simp: quiet_def log_event_def same_config_def servers_ok_def)

lemma quiet_syscall [quiet_intros]: "syscall w = (r, w') \<Longrightarrow> quiet w w'"
  by (auto simp: quiet_def syscall_def same_config_def servers_ok_def)

lemma quiet_malloc [quiet_intros]: "malloc w = (r, w') \<Longrightarrow> quiet w w'"
  by (auto simp: quiet_def malloc_def same_config_def servers_ok_def)

lemma servers_ok_upd:
  assumes "servers_ok w" "\<And>s. frame_ok s \<Longrightarrow> frame_ok (f s)" shows "servers_ok (upd_server i f w)"
proof (cases "i < nservers w")
  case True
  then have "frame_ok (f (w_servers w ! i))" using assms by (simp add: servers_ok_def)
  then show ?thesis
    using assms(1) set_update_subset_insert [of "w_servers w" i "f (w_servers w ! i)"]
    by (auto simp: servers_ok_def upd_server_def)
next
  case False
  then show ?thesis using assms(1) by (simp add: servers_ok_def upd_server_def list_update_beyond)
qed

lemma quiet_upd_server [quiet_intros]:
  "(\<And>s. frame_ok s \<Longrightarrow> frame_ok (f s)) \<Longrightarrow> quiet w (upd_server i f w)"
  using servers_ok_upd [of w f i] by (auto simp: quiet_def upd_server_def same_config_def)

lemma frame_ok_simps [simp]:
  "frame_ok (s\<lparr>s_tcp_socket := t\<rparr>) = frame_ok s" "frame_ok (s\<lparr>s_udp_socket := t\<rparr>) = frame_ok s"
  "frame_ok (s\<lparr>s_queue := rs\<rparr>) = frame_ok s" "frame_ok (reset_server s)"
  by (auto simp: frame_ok_def reset_server_def split: option.splits)

lemma quiet_poll_cb [quiet_intros]: "quiet w (poll_cb i fd tcp act w)"
  by (simp add: poll_cb_def quiet_log)

lemma quiet_kill [quiet_intros]: "quiet w (ares__kill_socket s w)"
  by (simp add: ares__kill_socket_def quiet_log)

lemma quiet_sys_read [quiet_intros]: "sys_read n w = (r, w') \<Longrightarrow> quiet w w'"
  by (auto simp: sys_read_def split: prod.splits intro: quiet_syscall)

lemma quiet_sys_write [quiet_intros]: "sys_write n w = (r, w') \<Longrightarrow> quiet w w'"
  by (auto simp: sys_write_def split: prod.splits intro: quiet_syscall)

lemma quiet_non_blocking [quiet_intros]:
  "make_socket_non_blocking w = (r, w') \<Longrightarrow> quiet w w'"
  by (auto simp: make_socket_non_blocking_def split: prod.splits if_splits
      intro: quiet_syscall quiet_trans)

lemma quiet_connect_udp [quiet_intros]: "connect_udp s i w = (r, w') \<Longrightarrow> quiet w w'"
  by (auto simp: connect_udp_def Let_def split: prod.splits if_splits
      intro: quiet_trans [OF quiet_log] quiet_trans [OF quiet_trans [OF quiet_log quiet_syscall] quiet_kill]
        quiet_syscall)

lemma quiet_open_tcp [quiet_intros]:
  assumes "open_tcp_socket i w = (r, w')"
  shows "quiet w w'"
proof -
  obtain r1 w1 where 1: "syscall w = (r1, w1)" by fastforce
  obtain ok w2 where 2: "make_socket_non_blocking w1 = (ok, w2)" by fastforce
  define w3 where "w3 = log_event (EvConnect (sys_ret r1) (s_addr (w_servers w2 ! i)) (ch_tcp_port (w_chan w2))) w2"
  obtain c w4 where 4: "syscall w3 = (c, w4)" by fastforce
  have "quiet w w1" "quiet w1 w2" "quiet w2 w3" "quiet w3 w4"
    using 1 2 4 by (auto simp: w3_def intro: quiet_intros)
  then have "quiet w w1" "quiet w w2" "quiet w w4" by (blast intro: quiet_trans)+
  then show ?thesis
    using assms 1 2 4 by (auto simp: open_tcp_socket_def Let_def w3_def split: if_splits
        intro: quiet_trans [OF _ quiet_kill] quiet_trans [OF _ quiet_upd_server])
qed

lemma quiet_open_udp [quiet_intros]:
  assumes "open_udp_socket i w = (r, w')"
  shows "quiet w w'"
proof -
  obtain r1 w1 where 1: "syscall w = (r1, w1)" by fastforce
  obtain ok w2 where 2: "make_socket_non_blocking w1 = (ok, w2)" by fastforce
  obtain c w3 where 3: "connect_udp (sys_ret r1) i w2 = (c, w3)" by fastforce
  have "quiet w w1" "quiet w1 w2" "quiet w2 w3" using 1 2 3 by (auto intro: quiet_intros)
  then have "quiet w w1" "quiet w w2" "quiet w w3" by (blast intro: quiet_trans)+
  then show ?thesis
    using assms 1 2 3 by (auto simp: open_udp_socket_def Let_def split: if_splits
        intro: quiet_trans [OF _ quiet_kill] quiet_trans [OF _ quiet_upd_server]
          quiet_trans [OF quiet_trans [OF _ quiet_log] quiet_upd_server])
qed

lemma quiet_close_poll [quiet_intros]: "quiet w (ares__close_poll i w)"
  by (auto simp: ares__close_poll_def Let_def intro: quiet_poll_cb quiet_trans [OF quiet_poll_cb])

lemma quiet_close_sockets [quiet_intros]: "quiet w (ares__close_sockets i w)"
  by (auto simp: ares__close_sockets_def Let_def
      intro: quiet_upd_server quiet_trans [OF quiet_kill quiet_upd_server]
        quiet_trans [OF quiet_trans [OF quiet_kill quiet_kill] quiet_upd_server])

lemma quiet_fold: "(\<And>i w. quiet w (f i w)) \<Longrightarrow> quiet w (fold f is w)"
  by (induction "is" arbitrary: w) (auto intro: quiet_trans)

lemma quiet_close_all [quiet_intros]: "quiet w (close_all w)"
  unfolding close_all_def by (rule quiet_fold) (blast intro: quiet_intros quiet_trans)

section \<open>Closing all sockets\<close>

lemma servers_close_one:
  "w_servers (ares__close_sockets i (ares__close_poll i w)) =
     (w_servers w)[i := reset_server (w_servers w ! i)]"
  by (simp add: ares__close_sockets_def ares__close_poll_def ares__kill_socket_def poll_cb_def Let_def
      log_event_def upd_server_def)

lemma fold_close:
  "n \<le> nservers w \<Longrightarrow>
   w_servers (fold (\<lambda>i w. ares__close_sockets i (ares__close_poll i w)) [0..<n] w) =
     map reset_server (take n (w_servers w)) @ drop n (w_servers w)"
proof (induction n)
  case (Suc n)
  let ?xs = "w_servers w"
  have "w_servers (fold (\<lambda>i w. ares__close_sockets i (ares__close_poll i w)) [0..<Suc n] w) =
      (map reset_server (take n ?xs) @ drop n ?xs)[n := reset_server ((map reset_server (take n ?xs) @ drop n ?xs) ! n)]"
    using Suc by (simp add: servers_close_one)
  also have "\<dots> = map reset_server (take n ?xs) @ reset_server (?xs ! n) # drop (Suc n) ?xs"
    using Suc.prems by (simp add: nth_append list_update_append min_absorb2 Suc_le_eq
        flip: Cons_nth_drop_Suc)
  also have "\<dots> = map reset_server (take (Suc n) ?xs) @ drop (Suc n) ?xs"
    using Suc.prems by (simp add: take_Suc_conv_app_nth)
  finally show ?case .
qed simp

lemma servers_close_all: "w_servers (close_all w) = map reset_server (w_servers w)"
  using fold_close [of "nservers w" w] by (simp add: close_all_def)

end
