(* ===== verification/SortAddresses.thy ===== *)
theory SortAddresses
  imports HostsFile ChannelState
begin

text \<open>
  \<^verbatim>\<open>sort_addresses\<close> and \<^verbatim>\<open>get_address_index\<close> of \<^verbatim>\<open>ares_gethostbyname.c\<close>: the insertion sort
  of the addresses of a host by the first pattern of the sort list they match. It is compared with
  the stable \<^const>\<open>sort_key\<close> of the library. Addresses are four bytes in network order, as they
  are in a \<^verbatim>\<open>struct hostent\<close>.
\<close>

definition addr_of_bytes :: "byte list \<Rightarrow> in_addr" where
  "addr_of_bytes bs = push_bit 24 (ucast (bs ! 0)) OR push_bit 16 (ucast (bs ! 1)) OR
     push_bit 8 (ucast (bs ! 2)) OR ucast (bs ! 3)"

fun get_address_index :: "in_addr \<Rightarrow> apattern list \<Rightarrow> nat" where
  "get_address_index addr [] = 0"
| "get_address_index addr (p # ps) =
     (if addr AND pat_mask p = pat_addr p then 0 else Suc (get_address_index addr ps))"

text \<open>The inner loop: \<open>j\<close> is \<^verbatim>\<open>i2 + 1\<close>, the slot that is free.\<close>

fun move_back :: "apattern list \<Rightarrow> byte list \<Rightarrow> nat \<Rightarrow> byte list list \<Rightarrow> byte list list" where
  "move_back sortlist a1 0 xs = xs[0 := a1]"
| "move_back sortlist a1 (Suc i2) xs =
     (let a2 = xs ! i2 in
      if get_address_index (addr_of_bytes a2) sortlist \<le> get_address_index (addr_of_bytes a1) sortlist
      then xs[Suc i2 := a1]
      else move_back sortlist a1 i2 (xs[Suc i2 := a2]))"

definition sort_addr_list :: "apattern list \<Rightarrow> byte list list \<Rightarrow> byte list list" where
  "sort_addr_list sortlist xs = fold (\<lambda>i1 xs. move_back sortlist (xs ! i1) i1 xs) [0..<length xs] xs"

definition sort_addresses :: "apattern list \<Rightarrow> hostent \<Rightarrow> hostent" where
  "sort_addresses sortlist host = host\<lparr>h_addr_list := sort_addr_list sortlist (h_addr_list host)\<rparr>"

section \<open>Equivalence with the library's stable sort\<close>

definition rank_of :: "apattern list \<Rightarrow> byte list \<Rightarrow> nat" where
  "rank_of sortlist a = get_address_index (addr_of_bytes a) sortlist"

text \<open>Insertion from the right, behind the elements that are not greater.\<close>

fun insert_right :: "('a \<Rightarrow> nat) \<Rightarrow> 'a \<Rightarrow> 'a list \<Rightarrow> 'a list" where
  "insert_right f a [] = [a]"
| "insert_right f a (x # xs) = (if f a < f x then a # x # xs else x # insert_right f a xs)"

lemma insert_right_append:
  "\<forall>x \<in> set (xs @ [b]). f x \<le> f a \<Longrightarrow> insert_right f a (xs @ b # ys) = xs @ b # insert_right f a ys"
  by (induction xs) auto

lemma move_back_eq:
  assumes "sorted (map (rank_of sl) pre)"
  shows "move_back sl a (length pre) (pre @ c # post) = insert_right (rank_of sl) a pre @ post"
  using assms
proof (induction pre arbitrary: c post rule: rev_induct)
  case (snoc b pre)
  have s: "sorted (map (rank_of sl) pre)" "\<forall>x \<in> set pre. rank_of sl x \<le> rank_of sl b"
    using snoc.prems by (auto simp: sorted_append)
  show ?case
  proof (cases "rank_of sl b \<le> rank_of sl a")
    case True
    then have "insert_right (rank_of sl) a (pre @ [b]) = pre @ [b, a]"
      using s(2) insert_right_append [of pre b "rank_of sl" a "[]"] by fastforce
    then show ?thesis using True by (simp add: nth_append list_update_append flip: rank_of_def)
  next
    case False
    have "insert_right (rank_of sl) a (pre @ [b]) = insert_right (rank_of sl) a pre @ [b]"
    proof -
      have "rank_of sl a < rank_of sl b" using False by simp
      then show ?thesis by (induction pre) auto
    qed
    then show ?thesis
      using False snoc.IH [OF s(1), of b "b # post"]
      by (simp add: nth_append list_update_append flip: rank_of_def)
  qed
qed simp

lemma insert_right_sorted: "sorted (map f xs) \<Longrightarrow> sorted (map f (insert_right f a xs))"
  and insert_right_set: "set (insert_right f a xs) = insert a (set xs)"
  by (induction xs) (auto simp: less_imp_le)

text \<open>The key of equal elements keeps them in order, which makes the result the stable sort.\<close>

lemma insert_right_filter:
  "sorted (map f xs) \<Longrightarrow>
   filter (\<lambda>x. f x = k) (insert_right f a xs) = filter (\<lambda>x. f x = k) (xs @ [a])"
proof (induction xs)
  case (Cons x xs)
  show ?case
  proof (cases "f a < f x")
    case True
    then have "filter (\<lambda>y. f y = f a) xs = []" using Cons.prems by (fastforce simp: filter_empty_conv)
    then show ?thesis using True by auto
  qed (use Cons in auto)
qed simp

lemma insert_right_mset: "mset (insert_right f a xs) = add_mset a (mset xs)"
  by (induction xs) auto

lemma sort_addr_prefix:
  "n \<le> length xs \<Longrightarrow>
   fold (\<lambda>i1 xs. move_back sl (xs ! i1) i1 xs) [0..<n] xs = sort_key (rank_of sl) (take n xs) @ drop n xs"
proof (induction n)
  case (Suc n)
  let ?s = "sort_key (rank_of sl) (take n xs)"
  have l: "length ?s = n" using Suc.prems by simp
  have d: "drop n xs = xs ! n # drop (Suc n) xs" using Suc.prems by (simp add: Cons_nth_drop_Suc)
  have "fold (\<lambda>i1 xs. move_back sl (xs ! i1) i1 xs) [0..<Suc n] xs =
      move_back sl (xs ! n) n (?s @ xs ! n # drop (Suc n) xs)"
    using Suc d l by (simp add: nth_append)
  also have "\<dots> = insert_right (rank_of sl) (xs ! n) ?s @ drop (Suc n) xs"
    using move_back_eq [of sl ?s "xs ! n" "xs ! n" "drop (Suc n) xs"] l by simp
  also have "insert_right (rank_of sl) (xs ! n) ?s = sort_key (rank_of sl) (take n xs @ [xs ! n])"
  proof (rule properties_for_sort_key [symmetric])
    show "mset (insert_right (rank_of sl) (xs ! n) ?s) = mset (take n xs @ [xs ! n])"
      by (simp add: insert_right_mset)
    show "sorted (map (rank_of sl) (insert_right (rank_of sl) (xs ! n) ?s))"
      by (simp add: insert_right_sorted)
    show "filter (\<lambda>x. rank_of sl k = rank_of sl x) (insert_right (rank_of sl) (xs ! n) ?s) =
        filter (\<lambda>x. rank_of sl k = rank_of sl x) (take n xs @ [xs ! n])" for k
      using insert_right_filter [of "rank_of sl" ?s "rank_of sl k" "xs ! n"]
        sort_key_stable [of "rank_of sl" "rank_of sl k" "take n xs"]
      by (simp add: eq_commute [of "rank_of sl k"])
  qed
  finally show ?case using Suc.prems by (simp add: take_Suc_conv_app_nth)
qed simp

lemma sort_addr_list_eq: "sort_addr_list sl xs = sort_key (rank_of sl) xs"
  using sort_addr_prefix [of "length xs" xs sl] by (simp add: sort_addr_list_def)

lemma get_address_index_le: "get_address_index a ps \<le> length ps"
  by (induction ps) auto

lemma get_address_index_first:
  "get_address_index a ps < length ps \<Longrightarrow>
     a AND pat_mask (ps ! get_address_index a ps) = pat_addr (ps ! get_address_index a ps)"
  by (induction ps) auto

lemma get_address_index_before:
  "i < get_address_index a ps \<Longrightarrow> a AND pat_mask (ps ! i) \<noteq> pat_addr (ps ! i)"
proof (induction ps arbitrary: i)
  case (Cons p ps)
  then show ?case by (cases i) (auto split: if_splits)
qed simp

section \<open>Properties\<close>

text \<open>The insertion sort of \<^verbatim>\<open>sort_addresses\<close> is the stable sort of the addresses by the number
  of the first sort list pattern they match; addresses that match none come last.\<close>

theorem sort_addresses_stable:
  "h_addr_list (sort_addresses sortlist host) =
     sort_key (\<lambda>a. get_address_index (addr_of_bytes a) sortlist) (h_addr_list host)"
  using sort_addr_list_eq [of sortlist "h_addr_list host"]
  by (simp add: sort_addresses_def rank_of_def [abs_def])

text \<open>\<^verbatim>\<open>get_address_index\<close> is the number of the first pattern the address matches, and the
  number of patterns if it matches none.\<close>

theorem address_index_first_match:
  "get_address_index a ps \<le> length ps \<and>
   (\<forall>i < get_address_index a ps. a AND pat_mask (ps ! i) \<noteq> pat_addr (ps ! i)) \<and>
   (get_address_index a ps < length ps \<longrightarrow>
      a AND pat_mask (ps ! get_address_index a ps) = pat_addr (ps ! get_address_index a ps))"
  using get_address_index_le get_address_index_first get_address_index_before by blast

theorem address_index_first_match_witness:
  "let ps = [\<lparr>pat_addr = 0x0a000000, pat_mask = 0xff000000\<rparr>]; a = 0x0a010203 in
   get_address_index a ps = 0 \<and> a AND pat_mask (ps ! 0) = pat_addr (ps ! 0)"
  using address_index_first_match [of "0x0a010203" "[\<lparr>pat_addr = 0x0a000000, pat_mask = 0xff000000\<rparr>]"]
  by (simp add: Let_def)

end
