(* ===== verification/Config.thy ===== *)
theory Config
  imports InetPton SortAddresses
begin

text \<open>
  \<^verbatim>\<open>ares_init.c\<close>: the configuration of a channel from options, environment, \<^verbatim>\<open>resolv.conf\<close>
  and defaults, in this order of precedence (POSIX build; the Windows, Apple and Android ways to find
  name servers are left out). As in the code, -1 is a number that has not been set, and \<open>None\<close> a
  list with a count of -1 or a null pointer. When initialisation fails the channel is freed, so an
  error carries its status only. \<open>m\<close> gives allocation outcomes, \<open>inet_addr\<close> is the libc function,
  ports and addresses are in host byte order.
\<close>

section \<open>Data\<close>

record config =
  cf_flags :: int
  cf_timeout :: int
  cf_tries :: int
  cf_ndots :: int
  cf_udp_port :: int
  cf_tcp_port :: int
  cf_servers :: "server_state list option"
  cf_domains :: "cstring list option"
  cf_sortlist :: "apattern list option"
  cf_lookups :: "cstring option"

record ares_options =
  o_flags :: int
  o_timeout :: int
  o_tries :: int
  o_ndots :: int
  o_udp_port :: "16 word"
  o_tcp_port :: "16 word"
  o_servers :: "sock_addr list"
  o_domains :: "cstring list"
  o_lookups :: cstring

definition ARES_OPT_FLAGS :: "32 word" where "ARES_OPT_FLAGS = push_bit 0 1"
definition ARES_OPT_TIMEOUT :: "32 word" where "ARES_OPT_TIMEOUT = push_bit 1 1"
definition ARES_OPT_TRIES :: "32 word" where "ARES_OPT_TRIES = push_bit 2 1"
definition ARES_OPT_NDOTS :: "32 word" where "ARES_OPT_NDOTS = push_bit 3 1"
definition ARES_OPT_UDP_PORT :: "32 word" where "ARES_OPT_UDP_PORT = push_bit 4 1"
definition ARES_OPT_TCP_PORT :: "32 word" where "ARES_OPT_TCP_PORT = push_bit 5 1"
definition ARES_OPT_SERVERS :: "32 word" where "ARES_OPT_SERVERS = push_bit 6 1"
definition ARES_OPT_DOMAINS :: "32 word" where "ARES_OPT_DOMAINS = push_bit 7 1"
definition ARES_OPT_LOOKUPS :: "32 word" where "ARES_OPT_LOOKUPS = push_bit 8 1"

lemmas ares_opts = ARES_OPT_FLAGS_def ARES_OPT_TIMEOUT_def ARES_OPT_TRIES_def ARES_OPT_NDOTS_def
  ARES_OPT_UDP_PORT_def ARES_OPT_TCP_PORT_def ARES_OPT_SERVERS_def ARES_OPT_DOMAINS_def
  ARES_OPT_LOOKUPS_def

definition DEFAULT_TIMEOUT :: int where "DEFAULT_TIMEOUT = 5"
definition DEFAULT_TRIES :: int where "DEFAULT_TRIES = 4"
definition NAMESERVER_PORT :: int where "NAMESERVER_PORT = 53"
definition INADDR_LOOPBACK :: in_addr where "INADDR_LOOPBACK = 0x7f000001"

text \<open>A zeroed server with an address.\<close>

definition new_server :: "sock_addr \<Rightarrow> server_state" where
  "new_server a = \<lparr>s_addr = a, s_physical_addr = [], s_default_localhost = False, s_udp_socket = 0,
     s_tcp_socket = 0, s_tcp_lenbuf = [], s_tcp_length = 0, s_tcp_buffer = None, s_queue = []\<rparr>"

definition unset_config :: config where
  "unset_config = \<lparr>cf_flags = -1, cf_timeout = -1, cf_tries = -1, cf_ndots = -1, cf_udp_port = -1,
     cf_tcp_port = -1, cf_servers = None, cf_domains = None, cf_sortlist = None, cf_lookups = None\<rparr>"

section \<open>Parsing of values\<close>

text \<open>\<^verbatim>\<open>atoi\<close> of a string without leading blanks.\<close>

definition atoi_digits :: "cstring \<Rightarrow> int" where
  "atoi_digits s = fold (\<lambda>c v. v * 10 + int (digit_val c)) (takeWhile isdigit s) 0"

definition atoi :: "cstring \<Rightarrow> int" where
  "atoi s = (case s of [] \<Rightarrow> 0
     | c # r \<Rightarrow> if c = 0x2d then - atoi_digits r else if c = 0x2b then atoi_digits r else atoi_digits s)"

definition try_config :: "cstring \<Rightarrow> cstring \<Rightarrow> cstring option" where
  "try_config s opt =
     (if has_prefix s opt \<and> length opt < length s \<and> isspace (s ! length opt)
      then Some (skip_space (drop (length opt) s)) else None)"

text \<open>\<open>word\<close> is the text from \<^verbatim>\<open>p\<close> to \<^verbatim>\<open>q\<close>.\<close>

definition try_option :: "cstring \<Rightarrow> cstring \<Rightarrow> cstring option" where
  "try_option word opt =
     (if length word > length opt \<and> has_prefix word opt then Some (drop (length opt) word) else None)"

definition set_option :: "cstring \<Rightarrow> config \<Rightarrow> config" where
  "set_option word cf =
     (let cf = (case try_option word (str ''ndots:'') of
            Some val \<Rightarrow> if cf_ndots cf = -1 then cf\<lparr>cf_ndots := atoi val\<rparr> else cf | None \<Rightarrow> cf);
          cf = (case try_option word (str ''retrans:'') of
            Some val \<Rightarrow> if cf_timeout cf = -1 then cf\<lparr>cf_timeout := atoi val\<rparr> else cf | None \<Rightarrow> cf)
      in case try_option word (str ''retry:'') of
           Some val \<Rightarrow> if cf_tries cf = -1 then cf\<lparr>cf_tries := atoi val\<rparr> else cf | None \<Rightarrow> cf)"

definition set_options :: "cstring \<Rightarrow> config \<Rightarrow> config" where
  "set_options s cf = fold set_option (split_words s) cf"

text \<open>\<^verbatim>\<open>set_search\<close>; allocation 0 is the array, \<open>k + 1\<close> the \<open>k\<close>-th domain.\<close>

definition set_search :: "(nat \<Rightarrow> bool) \<Rightarrow> cstring \<Rightarrow> config \<Rightarrow> ares_status + config" where
  "set_search m s cf =
     (let ds = split_words s in
      if ds \<noteq> [] \<and> \<not> list_all m [0..<Suc (length ds)] then Inl ARES_ENOMEM
      else Inr (cf\<lparr>cf_domains := Some ds\<rparr>))"

definition config_domain :: "(nat \<Rightarrow> bool) \<Rightarrow> cstring \<Rightarrow> config \<Rightarrow> ares_status + config" where
  "config_domain m s cf = set_search m (word_of_line s) cf"

text \<open>\<^verbatim>\<open>config_lookup\<close>: the buffer holds two letters.\<close>

definition lookup_step :: "cstring \<Rightarrow> cstring \<Rightarrow> cstring" where
  "lookup_step word l =
     (if word \<noteq> [] \<and> (hd word = 0x62 \<or> hd word = 0x66) \<and> length l < 2 then l @ [hd word] else l)"

definition config_lookup :: "(nat \<Rightarrow> bool) \<Rightarrow> cstring \<Rightarrow> config \<Rightarrow> ares_status + config" where
  "config_lookup m s cf =
     (if m 0 then Inr (cf\<lparr>cf_lookups := Some (fold lookup_step (split_words s) [])\<rparr>) else Inl ARES_ENOMEM)"

text \<open>\<open>None\<close> is a write out of bounds in the address parsers.\<close>

definition config_nameserver ::
  "(nat \<Rightarrow> bool) \<Rightarrow> cstring \<Rightarrow> server_state list \<Rightarrow> (ares_status + server_state list) option" where
  "config_nameserver m s servers = do {
     v4 \<leftarrow> inet_pton4 s;
     addr \<leftarrow> (case v4 of
        Some bs \<Rightarrow> Some (Some (AddrV4 (addr_of_bytes bs)))
      | None \<Rightarrow> do { v6 \<leftarrow> inet_pton6 s; Some (map_option AddrV6 v6) });
     Some (case addr of
        None \<Rightarrow> Inr servers
      | Some a \<Rightarrow> if m 0 then Inr (servers @ [new_server a]) else Inl ARES_ENOMEM) }"

definition ip_addr :: "(cstring \<Rightarrow> in_addr) \<Rightarrow> cstring \<Rightarrow> in_addr option" where
  "ip_addr inet_addr s =
     (if length s > 15 then None
      else let a = inet_addr s in
        if a = INADDR_NONE \<and> s \<noteq> str ''255.255.255.255'' then None else Some a)"

definition IN_CLASSA :: "in_addr \<Rightarrow> bool" where "IN_CLASSA a \<longleftrightarrow> a AND 0x80000000 = 0"
definition IN_CLASSB :: "in_addr \<Rightarrow> bool" where "IN_CLASSB a \<longleftrightarrow> a AND 0xc0000000 = 0x80000000"

definition natural_mask :: "in_addr \<Rightarrow> in_addr" where
  "natural_mask a = (if IN_CLASSA a then 0xff000000 else if IN_CLASSB a then 0xffff0000 else 0xffffff00)"

text \<open>One entry of a sort list at \<^verbatim>\<open>str\<close>: the pattern, if there is one, and the text behind it.\<close>

definition sort_entry :: "(cstring \<Rightarrow> in_addr) \<Rightarrow> cstring \<Rightarrow> apattern option \<times> cstring" where
  "sort_entry inet_addr s =
     (let stop1 = (\<lambda>c. c = SLASH \<or> c = SEMICOLON \<or> isspace c); stop2 = (\<lambda>c. c = SEMICOLON \<or> isspace c);
          a = takeWhile (\<lambda>c. \<not> stop1 c) s; q = dropWhile (\<lambda>c. \<not> stop1 c) s;
          q' = dropWhile (\<lambda>c. \<not> stop2 c) q
      in case ip_addr inet_addr a of
           None \<Rightarrow> (None, q')
         | Some addr \<Rightarrow>
             if q \<noteq> [] \<and> hd q = SLASH then
               (case ip_addr inet_addr (takeWhile (\<lambda>c. \<not> stop2 c) (tl q)) of
                  Some mk \<Rightarrow> (Some \<lparr>pat_addr = addr, pat_mask = mk\<rparr>, q')
                | None \<Rightarrow> (Some \<lparr>pat_addr = addr, pat_mask = natural_mask addr\<rparr>, q'))
             else (Some \<lparr>pat_addr = addr, pat_mask = natural_mask addr\<rparr>, q))"

lemma sort_entry_less:
  assumes "s \<noteq> []" "hd s \<noteq> SEMICOLON" "sort_entry inet_addr s = (p, q)"
  shows "length (skip_space q) < length s"
proof -
  obtain c r where s: "s = c # r" using assms(1) by (cases s) auto
  have drop: "length (dropWhile P r) \<le> length r" for P by (rule length_dropWhile_le)
  have drop2: "length (dropWhile Q (dropWhile P r)) \<le> length r" for P Q
    using length_dropWhile_le [of Q "dropWhile P r"] drop [of P] by linarith
  have sk: "length (skip_space x) \<le> length x" for x by simp
  show ?thesis
  proof (cases "isspace c")
    case True
    then have "skip_space s = skip_space r" by (simp add: s skip_space_def)
    moreover have "q = s"
      using assms(3) True by (auto simp: s sort_entry_def Let_def split: option.splits if_splits)
    ultimately show ?thesis using sk [of r] s by (simp add: le_imp_less_Suc)
  next
    case False
    then have "length q \<le> length r"
      using assms(2,3) drop drop2 s
      by (auto simp: sort_entry_def Let_def split: option.splits if_splits)
    then show ?thesis using sk [of q] s by (metis length_Cons le_imp_less_Suc le_trans)
  qed
qed

text \<open>\<^verbatim>\<open>config_sortlist\<close>; \<open>m k\<close> is the outcome of the \<open>k\<close>-th \<^verbatim>\<open>realloc\<close>.\<close>

function config_sortlist ::
  "(nat \<Rightarrow> bool) \<Rightarrow> nat \<Rightarrow> (cstring \<Rightarrow> in_addr) \<Rightarrow> cstring \<Rightarrow> apattern list \<Rightarrow> ares_status + apattern list" where
  "config_sortlist m k inet_addr s sortlist =
     (if s = [] \<or> hd s = SEMICOLON then Inr sortlist
      else case sort_entry inet_addr s of
        (None, q) \<Rightarrow> config_sortlist m k inet_addr (skip_space q) sortlist
      | (Some pat, q) \<Rightarrow>
          if m k then config_sortlist m (Suc k) inet_addr (skip_space q) (sortlist @ [pat])
          else Inl ARES_ENOMEM)"
  by pat_completeness auto
termination
  by (relation "measure (\<lambda>(m, k, inet_addr, s, sortlist). length s)") (auto dest: sort_entry_less [OF _ _ sym])

declare config_sortlist.simps [simp del]

section \<open>The sources of configuration\<close>

definition opt_set :: "32 word \<Rightarrow> 32 word \<Rightarrow> bool" where
  "opt_set optmask f \<longleftrightarrow> optmask AND f \<noteq> 0"

text \<open>\<^verbatim>\<open>init_by_options\<close>. Allocations: 0 the servers, 1 the array of domains, 2 the lookups,
  \<open>k + 3\<close> the \<open>k\<close>-th domain.\<close>

definition option_numbers :: "ares_options \<Rightarrow> 32 word \<Rightarrow> config \<Rightarrow> config" where
  "option_numbers opts optmask cf =
     cf\<lparr>cf_flags := (if opt_set optmask ARES_OPT_FLAGS \<and> cf_flags cf = -1 then o_flags opts else cf_flags cf),
        cf_timeout := (if opt_set optmask ARES_OPT_TIMEOUT \<and> cf_timeout cf = -1 then o_timeout opts else cf_timeout cf),
        cf_tries := (if opt_set optmask ARES_OPT_TRIES \<and> cf_tries cf = -1 then o_tries opts else cf_tries cf),
        cf_ndots := (if opt_set optmask ARES_OPT_NDOTS \<and> cf_ndots cf = -1 then o_ndots opts else cf_ndots cf),
        cf_udp_port := (if opt_set optmask ARES_OPT_UDP_PORT \<and> cf_udp_port cf = -1 then uint (o_udp_port opts) else cf_udp_port cf),
        cf_tcp_port := (if opt_set optmask ARES_OPT_TCP_PORT \<and> cf_tcp_port cf = -1 then uint (o_tcp_port opts) else cf_tcp_port cf)\<rparr>"

definition init_by_options ::
  "(nat \<Rightarrow> bool) \<Rightarrow> ares_options \<Rightarrow> 32 word \<Rightarrow> config \<Rightarrow> ares_status + config" where
  "init_by_options m opts optmask cf =
     (let cf = option_numbers opts optmask cf;
          servers = (opt_set optmask ARES_OPT_SERVERS \<and> cf_servers cf = None \<and> o_servers opts \<noteq> []);
          domains = (opt_set optmask ARES_OPT_DOMAINS \<and> cf_domains cf = None);
          lookups = (opt_set optmask ARES_OPT_LOOKUPS \<and> cf_lookups cf = None)
      in if servers \<and> \<not> m 0 then Inl ARES_ENOMEM
         else if domains \<and> o_domains opts \<noteq> [] \<and>
                 (\<not> m 1 \<or> \<not> list_all (\<lambda>k. m (k + 3)) [0..<length (o_domains opts)]) then Inl ARES_ENOMEM
         else if lookups \<and> \<not> m 2 then Inl ARES_ENOMEM
         else Inr (cf\<lparr>cf_servers := (if servers then Some (map new_server (o_servers opts)) else cf_servers cf),
                      cf_domains := (if domains then Some (o_domains opts) else cf_domains cf),
                      cf_lookups := (if lookups then Some (o_lookups opts) else cf_lookups cf)\<rparr>))"

definition init_by_environment ::
  "(nat \<Rightarrow> bool) \<Rightarrow> cstring option \<Rightarrow> cstring option \<Rightarrow> config \<Rightarrow> ares_status + config" where
  "init_by_environment m localdomain res_options cf =
     (case (case localdomain of
              Some d \<Rightarrow> if cf_domains cf = None then set_search m d cf else Inr cf
            | None \<Rightarrow> Inr cf) of
        Inl e \<Rightarrow> Inl e
      | Inr cf \<Rightarrow> Inr (case res_options of None \<Rightarrow> cf | Some s \<Rightarrow> set_options s cf))"

text \<open>One line of \<^verbatim>\<open>resolv.conf\<close>; servers and sort list are collected beside the channel.\<close>

type_synonym resolv_state = "config \<times> server_state list \<times> apattern list"

definition resolv_line ::
  "(nat \<Rightarrow> bool) \<Rightarrow> (cstring \<Rightarrow> in_addr) \<Rightarrow> cstring \<Rightarrow> resolv_state \<Rightarrow> (ares_status + resolv_state) option" where
  "resolv_line m inet_addr line st =
     (case st of (cf, servers, sortlist) \<Rightarrow>
      let keep = (\<lambda>r. case r of Inl e \<Rightarrow> Inl e | Inr cf \<Rightarrow> Inr (cf, servers, sortlist)) in
      if try_config line (str ''domain'') \<noteq> None \<and> cf_domains cf = None then
        Some (keep (config_domain m (the (try_config line (str ''domain''))) cf))
      else if try_config line (str ''lookup'') \<noteq> None \<and> cf_lookups cf = None then
        Some (keep (config_lookup m (the (try_config line (str ''lookup''))) cf))
      else if try_config line (str ''search'') \<noteq> None \<and> cf_domains cf = None then
        Some (keep (set_search m (the (try_config line (str ''search''))) cf))
      else if try_config line (str ''nameserver'') \<noteq> None \<and> cf_servers cf = None then do {
        r \<leftarrow> config_nameserver m (the (try_config line (str ''nameserver''))) servers;
        Some (case r of Inl e \<Rightarrow> Inl e | Inr servers \<Rightarrow> Inr (cf, servers, sortlist)) }
      else if try_config line (str ''sortlist'') \<noteq> None \<and> cf_sortlist cf = None then
        Some (case config_sortlist m 0 inet_addr (the (try_config line (str ''sortlist''))) sortlist of
          Inl e \<Rightarrow> Inl e | Inr sortlist \<Rightarrow> Inr (cf, servers, sortlist))
      else Some (Inr (case try_config line (str ''options'') of
          None \<Rightarrow> st | Some p \<Rightarrow> (set_options p cf, servers, sortlist))))"

function resolv_loop ::
  "(nat \<Rightarrow> bool \<Rightarrow> nat \<Rightarrow> bool) \<Rightarrow> (cstring \<Rightarrow> in_addr) \<Rightarrow> nat \<Rightarrow> cfile \<Rightarrow> nat option \<Rightarrow> resolv_state \<Rightarrow>
   (ares_status \<times> resolv_state) option" where
  "resolv_loop m inet_addr i fp buf st =
     (case ares__read_line (m i False) fp buf of
        None \<Rightarrow> None
      | Some (status, line, fp', buf') \<Rightarrow>
          if status \<noteq> ARES_SUCCESS then Some (status, st)
          else case resolv_line (m i True) inet_addr line st of
            None \<Rightarrow> None
          | Some (Inl e) \<Rightarrow> Some (e, st)
          | Some (Inr st') \<Rightarrow> resolv_loop m inet_addr (Suc i) fp' buf' st')"
  by pat_completeness auto
termination
  by (relation "measure (\<lambda>(m, inet_addr, i, fp, buf, st). length (f_data fp))") (auto dest: read_line_less)

declare resolv_loop.simps [simp del]

text \<open>\<open>Inl b\<close>: the file cannot be opened; \<open>b\<close> says whether it does not exist.\<close>

definition init_by_resolv_conf ::
  "(nat \<Rightarrow> bool \<Rightarrow> nat \<Rightarrow> bool) \<Rightarrow> (cstring \<Rightarrow> in_addr) \<Rightarrow> bool + cfile \<Rightarrow> config \<Rightarrow> (ares_status + config) option" where
  "init_by_resolv_conf m inet_addr file cf =
     (case file of
        Inl enoent \<Rightarrow> Some (if enoent then Inr cf else Inl ARES_EFILE)
      | Inr fp \<Rightarrow>
          (case resolv_loop m inet_addr 0 fp None (cf, [], []) of
             None \<Rightarrow> None
           | Some (status, cf, servers, sortlist) \<Rightarrow>
               Some (if status \<noteq> ARES_EOF then Inl status
                 else Inr (cf\<lparr>cf_servers := (if servers \<noteq> [] then Some servers else cf_servers cf),
                              cf_sortlist := (if sortlist \<noteq> [] then Some sortlist else cf_sortlist cf)\<rparr>))))"

text \<open>\<^verbatim>\<open>init_by_defaults\<close>; \<open>hostname\<close> is \<open>None\<close> when \<^verbatim>\<open>gethostname\<close> fails. Allocations: 0 the server,
  1 and 2 the domain, 3 the lookups.\<close>

definition default_server :: server_state where
  "default_server = (new_server (AddrV4 INADDR_LOOPBACK))\<lparr>s_default_localhost := True\<rparr>"

definition domain_of_host :: "cstring option \<Rightarrow> cstring list" where
  "domain_of_host hostname =
     (case hostname of None \<Rightarrow> []
      | Some h \<Rightarrow> if DOT \<in> set h then [tl (dropWhile (\<lambda>c. c \<noteq> DOT) h)] else [])"

definition init_by_defaults ::
  "(nat \<Rightarrow> bool) \<Rightarrow> cstring option \<Rightarrow> config \<Rightarrow> ares_status + config" where
  "init_by_defaults m hostname cf =
     (if cf_servers cf = None \<and> \<not> m 0 then Inl ARES_ENOMEM
      else if cf_domains cf = None \<and> domain_of_host hostname \<noteq> [] \<and> (\<not> m 1 \<or> \<not> m 2) then Inl ARES_ENOMEM
      else if cf_lookups cf = None \<and> \<not> m 3 then Inl ARES_ENOMEM
      else Inr \<lparr>
        cf_flags = (if cf_flags cf = -1 then 0 else cf_flags cf),
        cf_timeout = (if cf_timeout cf = -1 then DEFAULT_TIMEOUT else cf_timeout cf),
        cf_tries = (if cf_tries cf = -1 then DEFAULT_TRIES else cf_tries cf),
        cf_ndots = (if cf_ndots cf = -1 then 1 else cf_ndots cf),
        cf_udp_port = (if cf_udp_port cf = -1 then NAMESERVER_PORT else cf_udp_port cf),
        cf_tcp_port = (if cf_tcp_port cf = -1 then NAMESERVER_PORT else cf_tcp_port cf),
        cf_servers = Some (case cf_servers cf of None \<Rightarrow> [default_server] | Some ss \<Rightarrow> ss),
        cf_domains = Some (case cf_domains cf of None \<Rightarrow> domain_of_host hostname | Some ds \<Rightarrow> ds),
        cf_sortlist = Some (case cf_sortlist cf of None \<Rightarrow> [] | Some sl \<Rightarrow> sl),
        cf_lookups = Some (case cf_lookups cf of None \<Rightarrow> str ''bf'' | Some l \<Rightarrow> l)\<rparr>)"

section \<open>Initialisation\<close>

text \<open>The surroundings: the environment variables, the file and the host name.\<close>

record init_env =
  i_alloc :: "nat \<Rightarrow> nat \<Rightarrow> bool"
  i_file_alloc :: "nat \<Rightarrow> bool \<Rightarrow> nat \<Rightarrow> bool"
  i_inet_addr :: "cstring \<Rightarrow> in_addr"
  i_localdomain :: "cstring option"
  i_res_options :: "cstring option"
  i_resolv_conf :: "bool + cfile"
  i_hostname :: "cstring option"

definition config_sources ::
  "init_env \<Rightarrow> ares_options \<Rightarrow> 32 word \<Rightarrow> (ares_status + config) option" where
  "config_sources ie opts optmask =
     (case init_by_options (i_alloc ie 1) opts optmask unset_config of
        Inl e \<Rightarrow> Some (Inl e)
      | Inr cf \<Rightarrow>
          (case init_by_environment (i_alloc ie 2) (i_localdomain ie) (i_res_options ie) cf of
             Inl e \<Rightarrow> Some (Inl e)
           | Inr cf \<Rightarrow>
               (case init_by_resolv_conf (i_file_alloc ie) (i_inet_addr ie) (i_resolv_conf ie) cf of
                  None \<Rightarrow> None
                | Some (Inl e) \<Rightarrow> Some (Inl e)
                | Some (Inr cf) \<Rightarrow> Some (init_by_defaults (i_alloc ie 3) (i_hostname ie) cf))))"

definition init_server :: "server_state \<Rightarrow> server_state" where
  "init_server s = s\<lparr>s_udp_socket := -1, s_tcp_socket := -1, s_tcp_lenbuf := [], s_tcp_buffer := None,
     s_queue := []\<rparr>"

text \<open>\<open>next_id\<close> is the value of the static counter \<^verbatim>\<open>cjNextID\<close>.\<close>

definition channel_of :: "bool \<Rightarrow> 16 word \<Rightarrow> config \<Rightarrow> 'cb channel" where
  "channel_of socketFunc next_id cf =
     (let flags = word_of_int (cf_flags cf); servers = (case cf_servers cf of None \<Rightarrow> [] | Some ss \<Rightarrow> ss);
          servers = (if flags AND ARES_FLAG_PRIMARY \<noteq> 0 \<and> length servers > 1 then take 1 servers else servers)
      in \<lparr>ch_flags = flags, ch_timeout = cf_timeout cf, ch_tries = cf_tries cf, ch_ndots = cf_ndots cf,
          ch_udp_port = cf_udp_port cf, ch_tcp_port = cf_tcp_port cf,
          ch_domains = (case cf_domains cf of None \<Rightarrow> [] | Some ds \<Rightarrow> ds),
          ch_sortlist = (case cf_sortlist cf of None \<Rightarrow> [] | Some sl \<Rightarrow> sl),
          ch_lookups = (case cf_lookups cf of None \<Rightarrow> [] | Some l \<Rightarrow> l),
          ch_servers = map init_server servers, ch_next_id = next_id, ch_queries = [],
          ch_socket_function = socketFunc, ch_poll_cb = False, ch_next_handle = 0\<rparr>)"

definition ares_init_options_with_socket_function ::
  "init_env \<Rightarrow> 16 word \<Rightarrow> ares_options \<Rightarrow> 32 word \<Rightarrow> bool \<Rightarrow> (ares_status + 'cb channel) option" where
  "ares_init_options_with_socket_function ie next_id opts optmask socketFunc =
     (if \<not> i_alloc ie 0 0 then Some (Inl ARES_ENOMEM)
      else map_option (\<lambda>r. case r of Inl e \<Rightarrow> Inl e | Inr cf \<Rightarrow> Inr (channel_of socketFunc next_id cf))
             (config_sources ie opts optmask))"

definition no_options :: ares_options where
  "no_options = \<lparr>o_flags = 0, o_timeout = 0, o_tries = 0, o_ndots = 0, o_udp_port = 0, o_tcp_port = 0,
     o_servers = [], o_domains = [], o_lookups = []\<rparr>"

definition ares_init :: "init_env \<Rightarrow> 16 word \<Rightarrow> (ares_status + 'cb channel) option" where
  "ares_init ie next_id = ares_init_options_with_socket_function ie next_id no_options 0 False"

end
