(* ===== verification/QuerySend.thy ===== *)
theory QuerySend
  imports ChannelState
begin

text \<open>
  Sending queries (\<^verbatim>\<open>ares__send_query\<close>, \<^verbatim>\<open>next_server\<close>, \<^verbatim>\<open>next_server_new_network\<close>,
  \<^verbatim>\<open>end_query\<close> of \<^verbatim>\<open>ares_process.c\<close>, \<^verbatim>\<open>ares_send\<close> of \<^verbatim>\<open>ares_send.c\<close>). The query being worked on is
  passed as a value and stored back into the channel before anything else can look at it: when its
  callback is called and when the function returns. The effect of callbacks is the argument \<open>cbf\<close>.
\<close>

section \<open>Operations\<close>

fun unlink_query :: "nat \<Rightarrow> 'cb query list \<Rightarrow> 'cb query list" where
  "unlink_query h [] = []"
| "unlink_query h (x # xs) = (if q_handle x = h then xs else x # unlink_query h xs)"

text \<open>\<^verbatim>\<open>end_query\<close>: the callback runs while the query is still linked. A query that is no longer in
  the list afterwards has been freed, and reading \<^verbatim>\<open>query->next\<close> is undefined.\<close>

definition end_query ::
  "'cb callback_fn \<Rightarrow> 'cb query \<Rightarrow> ares_status \<Rightarrow> byte list option \<Rightarrow> 'cb world \<Rightarrow> 'cb world" where
  "end_query cbf q status abuf w =
     (let w = log_event (EvCallback (q_handle q) status abuf) (put_query q w);
          w = cbf (q_callback q) status abuf w;
          w = (if q_handle q \<in> q_handle ` set (w_queries w) then w else undefined_behaviour w);
          w = set_queries (unlink_query (q_handle q) (w_queries w)) w
      in if w_queries w = [] \<and> \<not> flag_set w ARES_FLAG_STAYOPEN then close_all w else w)"

text \<open>The two loops of \<^verbatim>\<open>next_server\<close>: the server and try to use next, if there is one. The array
  \<^verbatim>\<open>skip_server\<close> has one entry per server.\<close>

definition find_server_from :: "nat \<Rightarrow> 'cb query \<Rightarrow> nat option" where
  "find_server_from n q =
     find (\<lambda>s. s < length (q_skip_server q) \<and> \<not> q_skip_server q ! s) [q_server q..<n]"

function advance :: "int \<Rightarrow> nat \<Rightarrow> 'cb query \<Rightarrow> bool \<times> 'cb query" where
  "advance tries n q =
     (if int (q_itry q) < tries then
        (case find_server_from n q of
           Some s \<Rightarrow> (True, q\<lparr>q_server := s\<rparr>)
         | None \<Rightarrow>
             if q_using_tcp q then (False, q\<lparr>q_server := 0\<rparr>)
             else advance tries n (q\<lparr>q_server := 0, q_itry := Suc (q_itry q)\<rparr>))
      else (False, q))"
  by pat_completeness auto
termination
  by (relation "measure (\<lambda>(tries, n, q). nat (tries - int (q_itry q)))") auto

declare advance.simps [simp del]

text \<open>\<^verbatim>\<open>(itry == 0) ? timeout : timeout << itry / nservers\<close>; \<open>None\<close> is a signed overflow.\<close>

definition backoff :: "int \<Rightarrow> nat \<Rightarrow> nat \<Rightarrow> int option" where
  "backoff timeout itry n =
     (if itry = 0 then Some timeout
      else let k = itry div n; v = push_bit k timeout in
        if 0 \<le> timeout \<and> k < 32 \<and> v < 2 ^ 31 then Some v else None)"

definition skip_current :: "'cb query \<Rightarrow> 'cb query" where
  "skip_current q = q\<lparr>q_skip_server := (q_skip_server q)[q_server q := True]\<rparr>"

text \<open>Make sure the socket is open.\<close>

definition tcp_ready :: "nat \<Rightarrow> 'cb world \<Rightarrow> bool \<times> 'cb world" where
  "tcp_ready i w =
     (if s_tcp_socket (w_servers w ! i) \<noteq> -1 then (True, w)
      else case open_tcp_socket i w of (ok, w) \<Rightarrow>
        if \<not> ok then (False, w)
        else (True, poll_cb i (s_tcp_socket (w_servers w ! i)) True POLLACTION_OPEN w))"

definition udp_ready :: "nat \<Rightarrow> 'cb world \<Rightarrow> bool \<times> 'cb world" where
  "udp_ready i w =
     (if s_udp_socket (w_servers w ! i) \<noteq> -1 then (True, w)
      else case open_udp_socket i w of (ok, w) \<Rightarrow>
        if \<not> ok then (False, w)
        else (True, poll_cb i (s_udp_socket (w_servers w ! i)) False POLLACTION_OPEN w))"

text \<open>Queue a send request; the first one turns on polling for writability.\<close>

definition enqueue :: "'cb query \<Rightarrow> 'cb world \<Rightarrow> 'cb world" where
  "enqueue q w =
     (let i = q_server q; tryWrite = (s_queue (w_servers w ! i) = []);
          w = upd_server i (\<lambda>s. s\<lparr>s_queue := s_queue s @
                [\<lparr>sr_owner = q_handle q, sr_data = q_tcpbuf q\<rparr>]\<rparr>) w;
          w = put_query (q\<lparr>q_timeout := 0\<rparr>) w
      in if tryWrite then poll_cb i (s_tcp_socket (w_servers w ! i)) True POLLACTION_WRITEON w else w)"

definition udp_send :: "'cb query \<Rightarrow> 'cb world \<Rightarrow> bool \<times> 'cb world" where
  "udp_send q w =
     (let i = q_server q in
      case syscall (log_event (EvSend i (s_udp_socket (w_servers w ! i)) (drop 2 (q_tcpbuf q))) w)
      of (r, w) \<Rightarrow> (sys_ret r \<noteq> -1, w))"

definition start_timer :: "int \<Rightarrow> 'cb query \<Rightarrow> 'cb world \<Rightarrow> 'cb world" where
  "start_timer now q w =
     (case backoff (ch_timeout (w_chan w)) (q_itry q) (nservers w) of
        Some d \<Rightarrow> put_query (q\<lparr>q_timeout := now + d\<rparr>) w
      | None \<Rightarrow> undefined_behaviour (put_query q w))"

definition unskipped :: "'cb query \<Rightarrow> nat" where
  "unskipped q = length (filter Not (q_skip_server q))"

definition on_live_server :: "'cb query \<Rightarrow> bool" where
  "on_live_server q \<longleftrightarrow> q_server q < length (q_skip_server q) \<and> \<not> q_skip_server q ! q_server q"

lemma find_server_from_SomeD:
  "find_server_from n q = Some s \<Longrightarrow>
     q_server q \<le> s \<and> s < n \<and> s < length (q_skip_server q) \<and> \<not> q_skip_server q ! s"
  by (auto simp: find_server_from_def find_Some_iff)

lemma advance_keeps:
  "advance tries n q = (b, q') \<Longrightarrow>
     q_skip_server q' = q_skip_server q \<and> q_handle q' = q_handle q \<and> q_tcpbuf q' = q_tcpbuf q \<and>
     q_using_tcp q' = q_using_tcp q \<and> q_callback q' = q_callback q \<and> q_qid q' = q_qid q \<and>
     q_error_status q' = q_error_status q"
  by (induction tries n q rule: advance.induct)
     (subst (asm) (2) advance.simps, auto split: if_splits option.splits)

lemma advance_live: "advance tries n q = (True, q') \<Longrightarrow> on_live_server q' \<and> q_server q' < n"
  by (induction tries n q rule: advance.induct)
     (subst (asm) (2) advance.simps,
      auto split: if_splits option.splits dest: find_server_from_SomeD simp: on_live_server_def)

lemma unskipped_update:
  "i < length bs \<Longrightarrow> \<not> bs ! i \<Longrightarrow> length (filter Not (bs[i := True])) < length (filter Not bs)"
proof (induction bs arbitrary: i)
  case (Cons b bs)
  then show ?case by (cases i) auto
qed simp

lemma unskipped_update_le: "length (filter Not (bs[i := True])) \<le> length (filter Not bs)"
proof (induction bs arbitrary: i)
  case (Cons b bs)
  then show ?case by (cases i) (auto simp: le_SucI)
qed simp

lemma unskipped_skip_current:
  "unskipped (skip_current q) \<le> unskipped q"
  "on_live_server q \<Longrightarrow> unskipped (skip_current q) < unskipped q"
  by (auto simp: unskipped_def skip_current_def on_live_server_def unskipped_update unskipped_update_le)

lemma skip_current_measure:
  "on_live_server q \<Longrightarrow> Suc (2 * unskipped (skip_current q)) < 2 * unskipped q"
  "2 * unskipped (skip_current q) < Suc (2 * unskipped q)"
  using unskipped_skip_current [of q] by auto

lemma advance_measure:
  assumes "(True, q') = advance tries n (q\<lparr>q_server := s\<rparr>)"
  shows "on_live_server q' \<and> unskipped q' = unskipped q"
  using advance_live [OF assms [symmetric]] advance_keeps [OF assms [symmetric]]
  by (simp add: unskipped_def)

text \<open>\<^verbatim>\<open>next_server\<close> and \<^verbatim>\<open>ares__send_query\<close> call each other; a failed attempt removes a server
  from the candidates. When the allocation of the send request fails the code ends the query and
  goes on to write through the null pointer.\<close>

function (sequential) next_server ::
    "'cb callback_fn \<Rightarrow> int \<Rightarrow> 'cb query \<Rightarrow> 'cb world \<Rightarrow> 'cb world"
  and ares__send_query ::
    "'cb callback_fn \<Rightarrow> int \<Rightarrow> 'cb query \<Rightarrow> 'cb world \<Rightarrow> 'cb world" where
  "next_server cbf now q w =
     (case advance (ch_tries (w_chan w)) (nservers w) (q\<lparr>q_server := Suc (q_server q)\<rparr>) of
        (True, q) \<Rightarrow> ares__send_query cbf now q w
      | (False, q) \<Rightarrow> end_query cbf q (q_error_status q) None w)"
| "ares__send_query cbf now q w =
     (if q_server q \<ge> nservers w then undefined_behaviour w
      else if q_using_tcp q then
        (case tcp_ready (q_server q) w of
           (False, w) \<Rightarrow> next_server cbf now (skip_current q) w
         | (True, w) \<Rightarrow>
             (case malloc w of
                (True, w) \<Rightarrow> enqueue q w
              | (False, w) \<Rightarrow> undefined_behaviour (end_query cbf q ARES_ENOMEM None w)))
      else
        (case udp_ready (q_server q) w of
           (False, w) \<Rightarrow> next_server cbf now (skip_current q) w
         | (True, w) \<Rightarrow>
             (case udp_send q w of
                (False, w) \<Rightarrow> next_server cbf now (skip_current q) w
              | (True, w) \<Rightarrow> start_timer now q w)))"
  by pat_completeness auto
termination
  by (relation "measure (case_sum
        (\<lambda>(cbf, now, q, w). 2 * unskipped q + 1)
        (\<lambda>(cbf, now, q, w). 2 * unskipped q + (if on_live_server q then 0 else 2)))")
     (auto simp: skip_current_measure dest: advance_measure)

declare next_server.simps [simp del] ares__send_query.simps [simp del]

definition new_network_target :: "'cb query \<Rightarrow> 'cb world \<Rightarrow> nat option" where
  "new_network_target q w =
     find (\<lambda>s. s < length (q_skip_server q) \<and> \<not> q_skip_server q ! s \<and>
               s_physical_addr (w_servers w ! s) \<noteq> [] \<and>
               list_all (\<lambda>i. s_physical_addr (w_servers w ! i) \<noteq> s_physical_addr (w_servers w ! s))
                 [0..<s])
       [Suc (q_server q)..<nservers w]"

text \<open>\<open>Inr\<close> is a return of 1, \<open>Inl\<close> a return of 0 with the query as the loop leaves it.\<close>

definition next_server_new_network ::
  "'cb callback_fn \<Rightarrow> int \<Rightarrow> 'cb query \<Rightarrow> 'cb world \<Rightarrow> 'cb query + 'cb world" where
  "next_server_new_network cbf now q w =
     (if int (q_itry q) \<ge> ch_tries (w_chan w) then Inl q
      else case new_network_target q w of
        Some s \<Rightarrow> Inr (ares__send_query cbf now (q\<lparr>q_server := s\<rparr>) w)
      | None \<Rightarrow> Inl (q\<lparr>q_server := max (Suc (q_server q)) (nservers w)\<rparr>))"

definition new_query :: "nat \<Rightarrow> nat \<Rightarrow> nat \<Rightarrow> byte list \<Rightarrow> 'cb \<Rightarrow> bool \<Rightarrow> 'cb query" where
  "new_query h qid n qbuf cb tcp =
     \<lparr>q_handle = h, q_qid = qid, q_timeout = 0,
      q_tcpbuf = DNS__SET16BIT (int (length qbuf)) @ qbuf, q_callback = cb, q_itry = 0,
      q_server = 0, q_skip_server = replicate n False, q_using_tcp = tcp,
      q_error_status = ARES_ECONNREFUSED\<rparr>"

text \<open>\<^verbatim>\<open>ares_send\<close>. A call of the callback for a query that never was linked has no address of its
  own in the log.\<close>

definition ares_send ::
  "'cb callback_fn \<Rightarrow> int \<Rightarrow> byte list \<Rightarrow> 'cb \<Rightarrow> 'cb world \<Rightarrow> 'cb world" where
  "ares_send cbf now qbuf cb w =
     (if length qbuf < HFIXEDSZ \<or> length qbuf \<ge> 2 ^ 16 then cbf cb ARES_EBADQUERY None w
      else case malloc w of (m, w) \<Rightarrow>
      if \<not> m then cbf cb ARES_ENOMEM None w
      else case malloc w of (m, w) \<Rightarrow>
      if \<not> m then cbf cb ARES_ENOMEM None w
      else case (if nservers w \<noteq> 0 then malloc w else (False, w)) of (m, w) \<Rightarrow>
      if \<not> m then cbf cb ARES_ENOMEM None w
      else case DNS_HEADER_QID qbuf of
        None \<Rightarrow> undefined_behaviour w
      | Some qid \<Rightarrow>
        let h = ch_next_handle (w_chan w);
            tcp = (flag_set w ARES_FLAG_USEVC \<or> length qbuf > PACKETSZ);
            q = new_query h qid (nservers w) qbuf cb tcp;
            w = w\<lparr>w_chan := (w_chan w)\<lparr>ch_queries := q # w_queries w, ch_next_handle := Suc h\<rparr>\<rparr>
        in ares__send_query cbf now q w)"

end
