(* ===== verification/QueryInv.thy ===== *)
theory QueryInv
  imports QuerySend
begin

text \<open>
  The bookkeeping of queries: which addresses are pending, which have been completed, and the
  relations between the worlds before and after an operation. \<open>keeps\<close> is the contract of a
  callback: it may start queries but leaves the pending ones alone. \<open>touches h\<close> is what an
  operation on the query at \<open>h\<close> does. The locale \<open>callback_contract\<close> derives from the contract that
  every operation of \<^verbatim>\<open>QuerySend\<close> keeps the books balanced.
\<close>

section \<open>Books\<close>

abbreviation next_handle :: "'cb world \<Rightarrow> nat" where
  "next_handle w \<equiv> ch_next_handle (w_chan w)"

definition pending :: "'cb world \<Rightarrow> nat list" where
  "pending w = map q_handle (w_queries w)"

definition completed :: "'cb world \<Rightarrow> nat list" where
  "completed w = completions (w_log w)"

definition balance :: "'cb world \<Rightarrow> nat multiset" where
  "balance w = mset (pending w) + mset (completed w)"

text \<open>Every query ever linked is either pending or has been completed, and only once.\<close>

definition once :: "'cb world \<Rightarrow> bool" where
  "once w \<longleftrightarrow> balance w = mset [0..<next_handle w]"

text \<open>\<open>G\<close> says which callbacks may be installed. A callback that is told of success gets a message with
  a complete header.\<close>

definition valid_reply :: "ares_status \<Rightarrow> byte list option \<Rightarrow> bool" where
  "valid_reply st ab \<longleftrightarrow> st = ARES_SUCCESS \<longrightarrow> (\<exists>b. ab = Some b \<and> HFIXEDSZ \<le> length b)"

definition query_ok :: "('cb \<Rightarrow> bool) \<Rightarrow> 'cb world \<Rightarrow> 'cb query \<Rightarrow> bool" where
  "query_ok G w q \<longleftrightarrow> G (q_callback q) \<and> q_error_status q \<noteq> ARES_SUCCESS \<and> length (q_skip_server q) = nservers w \<and>
     2 + HFIXEDSZ \<le> length (q_tcpbuf q) \<and> DNS_HEADER_QID (drop 2 (q_tcpbuf q)) = Some (q_qid q)"

definition settled :: "('cb \<Rightarrow> bool) \<Rightarrow> 'cb world \<Rightarrow> 'cb query \<Rightarrow> bool" where
  "settled G w q \<longleftrightarrow> query_ok G w q \<and> q_server q < nservers w \<and>
     (q_itry q = 0 \<or> int (q_itry q) < ch_tries (w_chan w))"

definition wf_world :: "('cb \<Rightarrow> bool) \<Rightarrow> 'cb world \<Rightarrow> bool" where
  "wf_world G w \<longleftrightarrow> distinct (pending w) \<and>
     (\<forall>q \<in> set (w_queries w). q_handle q < next_handle w \<and> query_ok G w q)"

text \<open>Enough memory, and a timeout that can be doubled for every try.\<close>

definition safe :: "'cb world \<Rightarrow> bool" where
  "safe w \<longleftrightarrow> allocs_ok (w_alloc w) \<and> 0 \<le> ch_timeout (w_chan w) \<and> ch_tries (w_chan w) \<le> 32 \<and>
     ch_timeout (w_chan w) * 2 ^ nat (ch_tries (w_chan w)) < 2 ^ 31"

definition fresh_queries :: "('cb \<Rightarrow> bool) \<Rightarrow> 'cb world \<Rightarrow> 'cb world \<Rightarrow> 'cb query list \<Rightarrow> bool" where
  "fresh_queries G w w' new \<longleftrightarrow> distinct (map q_handle new) \<and>
     (\<forall>q \<in> set new. settled G w q \<and> next_handle w \<le> q_handle q \<and> q_handle q < next_handle w')"

definition books :: "'cb world \<Rightarrow> 'cb world \<Rightarrow> bool" where
  "books w w' \<longleftrightarrow> same_config w w' \<and> next_handle w \<le> next_handle w' \<and>
     balance w' = balance w + mset [next_handle w..<next_handle w'] \<and>
     (safe w \<longrightarrow> w_ub w' = w_ub w) \<and> (servers_ok w \<longrightarrow> servers_ok w')"

definition keeps :: "('cb \<Rightarrow> bool) \<Rightarrow> 'cb world \<Rightarrow> 'cb world \<Rightarrow> bool" where
  "keeps G w w' \<longleftrightarrow> books w w' \<and> (\<exists>new. w_queries w' = new @ w_queries w \<and> fresh_queries G w w' new)"

definition touches :: "('cb \<Rightarrow> bool) \<Rightarrow> nat \<Rightarrow> 'cb world \<Rightarrow> 'cb world \<Rightarrow> bool" where
  "touches G h w w' \<longleftrightarrow> books w w' \<and>
     (\<exists>new pre q post mid. w_queries w = pre @ q # post \<and> q_handle q = h \<and>
        w_queries w' = new @ pre @ mid @ post \<and> fresh_queries G w w' new \<and>
        (mid = [] \<or> (\<exists>q'. mid = [q'] \<and> q_handle q' = h \<and> settled G w q')))"

section \<open>Laws\<close>

lemma same_config_settled:
  "same_config w w' \<Longrightarrow> query_ok G w' = query_ok G w \<and> settled G w' = settled G w \<and> safe w' = safe w"
  by (auto simp: same_config_def settled_def query_ok_def safe_def allocs_ok_def fun_eq_iff)

lemma upt_mset_split: "a \<le> b \<Longrightarrow> b \<le> c \<Longrightarrow> mset [a..<c] = mset [a..<b] + mset [b..<c]"
  by (metis le_iff_add mset_append upt_add_eq_append)

lemma books_refl [simp]: "books w w"
  by (simp add: books_def)

lemma books_trans:
  assumes "books u v" "books v w" shows "books u w"
proof -
  have "same_config u w" "safe v = safe u"
    using assms same_config_settled [of u v] by (auto simp: books_def intro: same_config_trans)
  then show ?thesis using assms upt_mset_split [of "next_handle u" "next_handle v" "next_handle w"]
    by (auto simp: books_def)
qed

lemma quiet_books: "quiet w w' \<Longrightarrow> books w w'"
  by (simp add: quiet_def books_def balance_def pending_def completed_def)

lemma fresh_Nil [simp]: "fresh_queries G w w' []"
  by (simp add: fresh_queries_def)

lemma quiet_keeps: "quiet w w' \<Longrightarrow> keeps G w w'"
  by (auto simp: keeps_def quiet_books quiet_def)

lemma keeps_refl [simp]: "keeps G w w"
  by (simp add: quiet_keeps)

lemma fresh_trans:
  assumes "books u v" "books v w" "fresh_queries G u v new" "fresh_queries G v w new'"
  shows "fresh_queries G u w (new' @ new)"
  using assms same_config_settled [of u v]
  by (fastforce simp: fresh_queries_def books_def)

lemma keeps_trans: "keeps G u v \<Longrightarrow> keeps G v w \<Longrightarrow> keeps G u w"
  unfolding keeps_def by (metis append.assoc books_trans fresh_trans)

lemma keeps_wf: assumes "wf_world G w" "keeps G w w'" shows "wf_world G w'"
proof -
  obtain new where n: "w_queries w' = new @ w_queries w" "fresh_queries G w w' new" "books w w'"
    using assms(2) by (auto simp: keeps_def)
  then have s: "same_config w w'" "next_handle w \<le> next_handle w'" by (auto simp: books_def)
  have "\<forall>q \<in> set new. next_handle w \<le> q_handle q" "\<forall>q \<in> set (w_queries w). q_handle q < next_handle w"
    using n(2) assms(1) by (auto simp: fresh_queries_def wf_world_def)
  then have "q_handle ` set new \<inter> q_handle ` set (w_queries w) = {}" by fastforce
  then show ?thesis
    using assms(1) n s same_config_settled [OF s(1)]
    by (auto simp: wf_world_def pending_def fresh_queries_def settled_def)
qed

lemma quiet_wf: "wf_world G w \<Longrightarrow> quiet w w' \<Longrightarrow> wf_world G w'"
  using keeps_wf quiet_keeps by blast

lemma quiet_touches:
  assumes "quiet u v" "touches G h v w" shows "touches G h u w"
proof -
  have "w_queries v = w_queries u" "settled G v = settled G u" "next_handle v = next_handle u"
    using assms(1) same_config_settled [of u v] by (auto simp: quiet_def)
  then show ?thesis
    using assms(2) books_trans [OF quiet_books [OF assms(1)]]
    by (auto simp: touches_def fresh_queries_def)
qed

lemma touches_quiet:
  assumes "touches G h u v" "quiet v w" shows "touches G h u w"
proof -
  have "w_queries w = w_queries v" "next_handle w = next_handle v"
    using assms(2) by (auto simp: quiet_def)
  then show ?thesis
    using assms books_trans [OF _ quiet_books [OF assms(2)], of u]
    by (auto simp: touches_def fresh_queries_def)
qed

lemma handles_disjoint:
  fixes n :: nat
  assumes "\<forall>x \<in> A. n \<le> f x" "\<forall>x \<in> B. f x < n" shows "f ` A \<inter> f ` B = {}"
  using assms by fastforce

lemma wf_split:
  assumes "wf_world G w" "w_queries w = pre @ q # post"
  shows "q_handle q \<notin> q_handle ` set pre" "q_handle q \<notin> q_handle ` set post"
    "q_handle q < next_handle w" "query_ok G w q"
  using assms by (auto simp: wf_world_def pending_def)

lemma map_handle_id: "h \<notin> q_handle ` set qs \<Longrightarrow> map (\<lambda>x. if q_handle x = h then q else x) qs = qs"
  by (induction qs) auto

lemma put_query_split:
  assumes "wf_world G w" "w_queries w = pre @ q0 # post" "q_handle q = q_handle q0"
  shows "w_queries (put_query q w) = pre @ q # post"
  using wf_split [OF assms(1,2)] assms(2,3)
  by (simp add: put_query_def set_queries_def map_handle_id)

lemma pendingE:
  assumes "h \<in> set (pending w)"
  obtains pre q post where "w_queries w = pre @ q # post" "q_handle q = h"
  using assms by (auto simp: pending_def dest!: split_list)

lemma put_query_simps [simp]:
  "pending (put_query q w) = pending w" "completed (put_query q w) = completed w"
  "next_handle (put_query q w) = next_handle w" "same_config w (put_query q w)"
  "w_ub (put_query q w) = w_ub w" "nservers (put_query q w) = nservers w"
  "w_servers (put_query q w) = w_servers w" "w_log (put_query q w) = w_log w"
  "servers_ok (put_query q w) = servers_ok w"
  by (auto simp: servers_ok_def pending_def completed_def put_query_def set_queries_def same_config_def)

lemma books_put_query: "books w (put_query q w)"
  by (simp add: books_def balance_def)

lemma put_query_touches:
  assumes "wf_world G w" "q_handle q \<in> set (pending w)" "settled G w q"
  shows "touches G (q_handle q) w (put_query q w)"
proof -
  obtain pre q0 post where s: "w_queries w = pre @ q0 # post" "q_handle q0 = q_handle q"
    using assms(2) by (rule pendingE)
  then show ?thesis unfolding touches_def
    using put_query_split [OF assms(1) s(1) s(2) [symmetric]] assms(3)
    by (intro conjI exI [of _ "[]"] exI [of _ pre] exI [of _ q0] exI [of _ post] exI [of _ "[q]"])
       (auto simp: books_put_query)
qed

lemma wf_put_query:
  assumes "wf_world G w" "q_handle q \<in> set (pending w)" "query_ok G w q"
  shows "wf_world G (put_query q w)"
proof -
  have "query_ok G (put_query q w) = query_ok G w"
    using same_config_settled [OF put_query_simps(4)] by blast
  moreover have "q_handle q < next_handle w" using assms by (auto simp: wf_world_def pending_def)
  moreover have "w_queries (put_query q w) = map (\<lambda>x. if q_handle x = q_handle q then q else x) (w_queries w)"
    by (simp add: put_query_def set_queries_def)
  ultimately show ?thesis using assms by (auto simp: wf_world_def)
qed

lemma unlink_append:
  "h \<notin> q_handle ` set pre \<Longrightarrow> q_handle q = h \<Longrightarrow> unlink_query h (pre @ q # post) = pre @ post"
  by (induction pre) auto

lemma touches_wf:
  assumes "wf_world G w" "touches G h w w'" shows "wf_world G w'"
proof -
  obtain new pre q post mid where t: "w_queries w = pre @ q # post" "q_handle q = h"
    "w_queries w' = new @ pre @ mid @ post" "fresh_queries G w w' new"
    "mid = [] \<or> (\<exists>q'. mid = [q'] \<and> q_handle q' = h \<and> settled G w q')" "books w w'"
    using assms(2) unfolding touches_def by blast
  have c: "query_ok G w' = query_ok G w" "next_handle w \<le> next_handle w'"
    using t(6) same_config_settled by (auto simp: books_def)
  have old: "\<forall>x \<in> set (pre @ mid @ post). q_handle x < next_handle w \<and> query_ok G w x"
    using assms(1) t by (auto simp: wf_world_def settled_def)
  have "map q_handle mid = [] \<or> map q_handle mid = [h]" using t(5) by auto
  then have d: "distinct (map q_handle (pre @ mid @ post))"
    using assms(1) t(1,2) by (auto simp: wf_world_def pending_def simp flip: set_map)
  have new: "\<forall>x \<in> set new. next_handle w \<le> q_handle x" "distinct (map q_handle new)"
    using t(4) by (auto simp: fresh_queries_def)
  have n: "\<forall>x \<in> set new. q_handle x < next_handle w' \<and> query_ok G w x"
    using t(4) by (auto simp: fresh_queries_def settled_def)
  have "set (map q_handle new) \<inter> set (map q_handle (pre @ mid @ post)) = {}"
    using handles_disjoint [OF new(1), of "set (pre @ mid @ post)"] old by (simp only: set_map) blast
  then have "distinct (map q_handle (new @ pre @ mid @ post))"
    using d new(2) by (simp only: map_append distinct_append)
  moreover have "\<forall>x \<in> set (new @ pre @ mid @ post). q_handle x < next_handle w' \<and> query_ok G w x"
    using old n c(2) by (auto simp del: set_append simp: set_append [of new] intro: less_le_trans)
  ultimately show ?thesis using c(1) t(3) by (simp only: wf_world_def pending_def)
qed

lemma backoff_safe:
  assumes "safe w" "q_itry q = 0 \<or> int (q_itry q) < ch_tries (w_chan w)"
  shows "backoff (ch_timeout (w_chan w)) (q_itry q) n \<noteq> None"
proof (cases "q_itry q = 0")
  case False
  let ?t = "ch_timeout (w_chan w)" and ?k = "q_itry q div n"
  have k: "?k \<le> q_itry q" by simp
  have i: "int (q_itry q) < ch_tries (w_chan w)" using assms(2) False by simp
  have "(2::int) ^ ?k \<le> 2 ^ nat (ch_tries (w_chan w))"
    using k i by (intro power_increasing) linarith+
  then have "?t * 2 ^ ?k \<le> ?t * 2 ^ nat (ch_tries (w_chan w))"
    using assms(1) by (simp add: safe_def mult_left_mono)
  moreover have "?k < 32"
    using k i assms(1) unfolding safe_def by linarith
  ultimately show ?thesis using assms(1) by (auto simp: backoff_def Let_def safe_def push_bit_eq_mult)
qed (simp add: backoff_def)

section \<open>The contract of callbacks and what follows from it\<close>

text \<open>The contract of one callback \<open>cb\<close>, in worlds configured like \<open>w0\<close>.\<close>

locale query_callback =
  fixes cbf :: "'cb callback_fn" and G :: "'cb \<Rightarrow> bool" and cb :: 'cb and w0 :: "'cb world"
  assumes cb_keeps: "same_config w0 w \<Longrightarrow> wf_world G w \<Longrightarrow> valid_reply st ab \<Longrightarrow> keeps G w (cbf cb st ab w)"
begin

lemma end_query_shape:
  assumes "wf_world G w" "w_queries w = pre @ q0 # post" "q_handle q = q_handle q0" "query_ok G w q"
    and cb: "q_callback q = cb" "same_config w0 w" and v: "valid_reply st ab"
  shows "\<exists>new. w_queries (end_query cbf q st ab w) = new @ pre @ post \<and>
    fresh_queries G w (end_query cbf q st ab w) new \<and> books w (end_query cbf q st ab w)"
proof -
  let ?h = "q_handle q"
  define w1 where "w1 = log_event (EvCallback ?h st ab) (put_query q w)"
  define w2 where "w2 = cbf (q_callback q) st ab w1"
  have q1: "w_queries w1 = pre @ q # post"
    using put_query_split [OF assms(1-3)] by (simp add: w1_def log_event_def)
  have "?h \<in> set (pending w)" using assms(2,3) by (simp add: pending_def)
  then have "wf_world G (put_query q w)" using wf_put_query [OF assms(1)] assms(4) by blast
  then have wf1: "wf_world G w1"
    by (simp add: w1_def wf_world_def pending_def log_event_def query_ok_def)
  have c1: "same_config w w1" "next_handle w1 = next_handle w" "w_ub w1 = w_ub w"
    "balance w1 = balance w + {#?h#}"
    "servers_ok w1 = servers_ok w"
    using put_query_simps [where q = q and w = w]
    by (auto simp: w1_def servers_ok_def log_event_def balance_def pending_def completed_def same_config_def)
  from cb_keeps [OF same_config_trans [OF cb(2) c1(1)] wf1 v] obtain new where
    n: "w_queries w2 = new @ pre @ q # post" "fresh_queries G w1 w2 new" "books w1 w2"
    by (auto simp: keeps_def q1 w2_def cb(1))
  have new: "fresh_queries G w w2 new" using n(2) c1(1,2) same_config_settled [OF c1(1)]
    by (simp add: fresh_queries_def)
  have "\<forall>x \<in> set new. next_handle w \<le> q_handle x" using new by (simp add: fresh_queries_def)
  then have notin: "?h \<notin> q_handle ` set (new @ pre)"
    using wf_split(1,3) [OF assms(1,2)] assms(3) by auto
  define w3 where "w3 = set_queries (unlink_query ?h (w_queries w2)) w2"
  have q3: "w_queries w3 = new @ pre @ post"
    using unlink_append [OF notin, of q post] n(1) by (simp add: w3_def set_queries_def)
  have c3: "same_config w2 w3" "next_handle w3 = next_handle w2" "w_ub w3 = w_ub w2"
    "completed w3 = completed w2" "servers_ok w3 = servers_ok w2"
    by (auto simp: w3_def servers_ok_def set_queries_def same_config_def completed_def)
  have b3: "balance w2 = balance w3 + {#?h#}"
    using c3(4) n(1) q3 by (simp add: balance_def pending_def)
  have "safe w1 = safe w" using same_config_settled [OF c1(1)] by simp
  then have b: "books w w3"
    using n(3) c1 c3 b3 by (auto simp: books_def intro: same_config_trans)
  define w4 where "w4 = (if w_queries w3 = [] \<and> \<not> flag_set w3 ARES_FLAG_STAYOPEN then close_all w3 else w3)"
  have q: "quiet w3 w4" by (simp add: w4_def quiet_close_all)
  have "end_query cbf q st ab w = w4"
    by (simp add: end_query_def Let_def n(1) w3_def w4_def flip: w1_def w2_def)
  then show ?thesis using q books_trans [OF b quiet_books [OF q]] new q3 c3(2)
    by (auto simp: quiet_def fresh_queries_def)
qed

lemma end_query_touches:
  assumes "wf_world G w" "q_handle q \<in> set (pending w)" "query_ok G w q"
    and cb: "q_callback q = cb" "same_config w0 w" and v: "valid_reply st ab"
  shows "touches G (q_handle q) w (end_query cbf q st ab w)"
proof -
  obtain pre q0 post where s: "w_queries w = pre @ q0 # post" "q_handle q0 = q_handle q"
    using assms(2) by (rule pendingE)
  show ?thesis
    using end_query_shape [OF assms(1) s(1) s(2) [symmetric] assms(3) cb v] s unfolding touches_def
    by (metis append.left_neutral)
qed

lemma end_query_gone:
  assumes "wf_world G w" "q_handle q \<in> set (pending w)" "query_ok G w q"
    and cb: "q_callback q = cb" "same_config w0 w" and v: "valid_reply st ab"
  shows "q_handle q \<notin> set (pending (end_query cbf q st ab w))"
proof -
  obtain pre q0 post where s: "w_queries w = pre @ q0 # post" "q_handle q0 = q_handle q"
    using assms(2) by (rule pendingE)
  show ?thesis
    using end_query_shape [OF assms(1) s(1) s(2) [symmetric] assms(3) cb v]
      wf_split [OF assms(1) s(1)] s(2)
    by (fastforce simp: pending_def fresh_queries_def)
qed

end

lemma tcp_ready_quiet: "tcp_ready i w = (b, w') \<Longrightarrow> quiet w w'"
  by (auto simp: tcp_ready_def split: if_splits prod.splits
      intro: quiet_open_tcp quiet_trans [OF quiet_open_tcp quiet_poll_cb])

lemma udp_ready_quiet: "udp_ready i w = (b, w') \<Longrightarrow> quiet w w'"
  by (auto simp: udp_ready_def split: if_splits prod.splits
      intro: quiet_open_udp quiet_trans [OF quiet_open_udp quiet_poll_cb])

lemma udp_send_quiet: "udp_send q w = (b, w') \<Longrightarrow> quiet w w'"
  by (auto simp: udp_send_def Let_def split: prod.splits
      intro: quiet_trans [OF quiet_log quiet_syscall])

lemma enqueue_touches:
  assumes "wf_world G w" "q_handle q \<in> set (pending w)" "settled G w q"
  shows "touches G (q_handle q) w (enqueue q w)"
proof -
  define w1 where "w1 = upd_server (q_server q) (\<lambda>s. s\<lparr>s_queue := s_queue s @
    [\<lparr>sr_owner = q_handle q, sr_data = q_tcpbuf q\<rparr>]\<rparr>) w"
  have 1: "quiet w w1" by (simp add: w1_def quiet_upd_server)
  then have e: "wf_world G w1" "settled G w1 = settled G w" "pending w1 = pending w"
    using quiet_wf [OF assms(1)] same_config_settled [of w w1] by (auto simp: quiet_def pending_def)
  have "touches G (q_handle q) w1 (put_query (q\<lparr>q_timeout := 0\<rparr>) w1)"
    using put_query_touches [of G w1 "q\<lparr>q_timeout := 0\<rparr>"] e assms(2,3)
    by (simp add: settled_def query_ok_def)
  then have "touches G (q_handle q) w (put_query (q\<lparr>q_timeout := 0\<rparr>) w1)"
    by (rule quiet_touches [OF 1])
  then show ?thesis
    by (auto simp: enqueue_def Let_def simp flip: w1_def intro: touches_quiet quiet_poll_cb)
qed

lemma ub_touches: "\<not> safe w \<Longrightarrow> touches G h w w' \<Longrightarrow> touches G h w (undefined_behaviour w')"
  by (simp add: touches_def books_def fresh_queries_def undefined_behaviour_def same_config_def
      servers_ok_def balance_def pending_def completed_def)

lemma start_timer_touches:
  assumes "wf_world G w" "q_handle q \<in> set (pending w)" "settled G w q"
  shows "touches G (q_handle q) w (start_timer now q w)"
proof (cases "backoff (ch_timeout (w_chan w)) (q_itry q) (nservers w)")
  case None
  then have "\<not> safe w" using backoff_safe assms(3) unfolding settled_def by blast
  then show ?thesis using None put_query_touches [OF assms]
    by (simp add: start_timer_def ub_touches)
next
  case (Some d)
  then show ?thesis
    using put_query_touches [of G w "q\<lparr>q_timeout := now + d\<rparr>"] assms
    by (simp add: start_timer_def settled_def query_ok_def)
qed

lemma query_ok_skip [simp]: "query_ok G w (skip_current q) = query_ok G w q"
  by (simp add: query_ok_def skip_current_def)

lemma skip_current_simps [simp]:
  "q_handle (skip_current q) = q_handle q" "q_callback (skip_current q) = q_callback q"
  by (simp_all add: skip_current_def)

lemma advance_itry: "advance tries n q = (True, q') \<Longrightarrow> int (q_itry q') < tries"
  by (induction tries n q rule: advance.induct)
     (subst (asm) (2) advance.simps, auto split: if_splits option.splits)

lemma quiet_carry:
  assumes "quiet w w'" "wf_world G w"
  shows "wf_world G w'" "pending w' = pending w" "query_ok G w' = query_ok G w" "settled G w' = settled G w" "safe w' = safe w"
  using quiet_wf [OF assms(2,1)] same_config_settled [of w w'] assms(1)
  by (auto simp: quiet_def pending_def)

text \<open>The four ways \<^verbatim>\<open>ares__send_query\<close> goes.\<close>

lemma send_query_cases:
  assumes "q_server q < nservers w"
  obtains (retry) w1 where "quiet w w1"
      "ares__send_query c now q w = next_server c now (skip_current q) w1"
  | (queued) w1 where "quiet w w1" "q_using_tcp q" "ares__send_query c now q w = enqueue q w1"
  | (nomem) w1 where "quiet w w1" "\<not> allocs_ok (w_alloc w)"
      "ares__send_query c now q w = undefined_behaviour (end_query c q ARES_ENOMEM None w1)"
  | (sent) w1 where "quiet w w1" "\<not> q_using_tcp q" "ares__send_query c now q w = start_timer now q w1"
proof (cases "q_using_tcp q")
  case True
  obtain b w1 where r: "tcp_ready (q_server q) w = (b, w1)" by fastforce
  obtain m w2 where m: "malloc w1 = (m, w2)" by fastforce
  have 1: "quiet w w1" by (rule tcp_ready_quiet [OF r])
  then have 2: "quiet w w2" using quiet_malloc [OF m] by (rule quiet_trans)
  have a: "m \<or> \<not> allocs_ok (w_alloc w)"
    using m 1 by (auto simp: malloc_def allocs_ok_def quiet_def same_config_def)
  show ?thesis
    using assms True r m a retry [OF 1] queued [OF 2] nomem [OF 2]
    by (cases b; cases m) (simp_all add: ares__send_query.simps)
next
  case False
  obtain b w1 where r: "udp_ready (q_server q) w = (b, w1)" by fastforce
  obtain m w2 where m: "udp_send q w1 = (m, w2)" by fastforce
  have 1: "quiet w w1" by (rule udp_ready_quiet [OF r])
  then have 2: "quiet w w2" using udp_send_quiet [OF m] by (rule quiet_trans)
  show ?thesis
    using assms False r m retry [OF 1] retry [OF 2] sent [OF 2]
    by (cases b; cases m) (simp_all add: ares__send_query.simps)
qed

text \<open>The two ways \<^verbatim>\<open>next_server\<close> goes.\<close>

lemma next_server_cases:
  assumes "query_ok G w q"
  obtains (send) q' where "query_ok G w q'" "q_handle q' = q_handle q" "settled G w q'"
      "q_callback q' = q_callback q"
      "unskipped q' = unskipped q" "on_live_server q'"
      "next_server c now q w = ares__send_query c now q' w"
  | (finish) q' where "query_ok G w q'" "q_handle q' = q_handle q" "q_callback q' = q_callback q"
      "next_server c now q w = end_query c q' (q_error_status q) None w" "valid_reply (q_error_status q) None"
proof -
  let ?q = "q\<lparr>q_server := Suc (q_server q)\<rparr>"
  obtain b q' where a: "advance (ch_tries (w_chan w)) (nservers w) ?q = (b, q')" by fastforce
  have q': "query_ok G w q'" "q_handle q' = q_handle q" "q_error_status q' = q_error_status q"
    "unskipped q' = unskipped q" "q_callback q' = q_callback q"
    using advance_keeps [OF a] assms by (auto simp: query_ok_def unskipped_def)
  show ?thesis
  proof (cases b)
    case True
    then have "settled G w q'" "on_live_server q'"
      using advance_live [of _ _ ?q q'] advance_itry [of _ _ ?q q'] a q' by (auto simp: settled_def)
    then show ?thesis using send a q' True by (simp add: next_server.simps)
  next
    case False
    moreover have "valid_reply (q_error_status q) None" using assms by (simp add: valid_reply_def query_ok_def)
    ultimately show ?thesis using finish a q' by (simp add: next_server.simps)
  qed
qed

context query_callback
begin

lemma send_query_step:
  assumes "wf_world G w" "q_handle q \<in> set (pending w)" "settled G w q"
    and cb: "q_callback q = cb" "same_config w0 w"
    and retry: "\<And>w1. quiet w w1 \<Longrightarrow> touches G (q_handle q) w1 (next_server cbf now (skip_current q) w1)"
  shows "touches G (q_handle q) w (ares__send_query cbf now q w)"
proof -
  have q: "q_server q < nservers w" "query_ok G w q" using assms(3) by (auto simp: settled_def)
  from q(1) show ?thesis
  proof (cases rule: send_query_cases [where c = cbf and now = now])
    case (retry w1)
    then show ?thesis using assms(6) [OF retry(1)] quiet_touches [OF retry(1)] by simp
  next
    case (queued w1)
    then show ?thesis using quiet_carry [OF queued(1) assms(1)] assms(2,3)
      by (simp add: quiet_touches [OF _ enqueue_touches])
  next
    case (nomem w1)
    note c = quiet_carry [OF nomem(1) assms(1)]
    have "same_config w0 w1" using cb(2) nomem(1) by (auto simp: quiet_def intro: same_config_trans)
    moreover have "\<not> safe w1" using nomem(2) c(5) by (simp add: safe_def)
    ultimately have "touches G (q_handle q) w1 (undefined_behaviour (end_query cbf q ARES_ENOMEM None w1))"
      using c assms(2) cb(1) q by (simp add: ub_touches end_query_touches valid_reply_def)
    then show ?thesis using nomem by (simp add: quiet_touches)
  next
    case (sent w1)
    then show ?thesis using quiet_carry [OF sent(1) assms(1)] assms(2,3)
      by (simp add: quiet_touches [OF _ start_timer_touches])
  qed
qed

lemma next_server_touches:
  assumes "wf_world G w" "q_handle q \<in> set (pending w)" "query_ok G w q" "q_callback q = cb" "same_config w0 w"
  shows "touches G (q_handle q) w (next_server cbf now q w)"
  using assms
proof (induction "unskipped q" arbitrary: q w rule: less_induct)
  case less
  from less.prems(3) show ?case
  proof (cases rule: next_server_cases [where c = cbf and now = now])
    case (send q')
    have "touches G (q_handle q') w (ares__send_query cbf now q' w)"
    proof (rule send_query_step)
      fix w1 assume "quiet w w1"
      note c = quiet_carry [OF this less.prems(1)]
      have "same_config w0 w1"
        using less.prems(5) \<open>quiet w w1\<close> by (auto simp: quiet_def intro: same_config_trans)
      then show "touches G (q_handle q') w1 (next_server cbf now (skip_current q') w1)"
        using less.hyps [of "skip_current q'" w1] unskipped_skip_current(2) [OF send(6)] c send less.prems
        by simp
    qed (use less.prems send in simp_all)
    then show ?thesis using send by simp
  next
    case (finish q')
    then show ?thesis using end_query_touches [of w q'] less.prems by simp
  qed
qed

lemma send_query_touches:
  assumes "wf_world G w" "q_handle q \<in> set (pending w)" "settled G w q" "q_callback q = cb" "same_config w0 w"
  shows "touches G (q_handle q) w (ares__send_query cbf now q w)"
proof (rule send_query_step [OF assms])
  fix w1 assume q: "quiet w w1"
  then have "same_config w0 w1" using assms(5) by (auto simp: quiet_def intro: same_config_trans)
  with quiet_carry [OF q assms(1)] assms
  show "touches G (q_handle q) w1 (next_server cbf now (skip_current q) w1)"
    using next_server_touches [of w1 "skip_current q"] by (simp add: settled_def)
qed

end

text \<open>Linking a new query.\<close>

definition link_query :: "'cb query \<Rightarrow> 'cb world \<Rightarrow> 'cb world" where
  "link_query q w = w\<lparr>w_chan := (w_chan w)\<lparr>ch_queries := q # w_queries w,
     ch_next_handle := Suc (next_handle w)\<rparr>\<rparr>"

lemma new_query_settled:
  assumes "HFIXEDSZ \<le> length qbuf" "DNS_HEADER_QID qbuf = Some qid" "nservers w \<noteq> 0" "G cb"
  shows "settled G w (new_query h qid (nservers w) qbuf cb tcp)"
  using assms by (simp add: settled_def query_ok_def new_query_def)

lemma link_query_wf:
  assumes "wf_world G w" "settled G w q" "q_handle q = next_handle w"
  shows "wf_world G (link_query q w)" "settled G (link_query q w) = settled G w"
    "same_config w (link_query q w)" "balance (link_query q w) = balance w + {#q_handle q#}"
    "w_queries (link_query q w) = q # w_queries w" "w_ub (link_query q w) = w_ub w"
    "next_handle (link_query q w) = Suc (next_handle w)"
    "servers_ok (link_query q w) = servers_ok w"
proof -
  show c: "same_config w (link_query q w)"
    and ok: "settled G (link_query q w) = settled G w"
    using same_config_settled [of w "link_query q w"] by (auto simp: link_query_def same_config_def)
  show "wf_world G (link_query q w)"
    using assms same_config_settled [OF c]
    by (fastforce simp: wf_world_def link_query_def pending_def settled_def)
qed (auto simp: link_query_def servers_ok_def balance_def pending_def completed_def)

lemma touches_link_keeps:
  assumes "wf_world G w" "settled G w q" "q_handle q = next_handle w"
    and t: "touches G (q_handle q) (link_query q w) w'"
  shows "keeps G w w'"
proof -
  let ?w = "link_query q w"
  note l = link_query_wf [OF assms(1-3)]
  obtain new pre q0 post mid where d: "w_queries ?w = pre @ q0 # post" "q_handle q0 = q_handle q"
    "w_queries w' = new @ pre @ mid @ post" "fresh_queries G ?w w' new"
    "mid = [] \<or> (\<exists>q'. mid = [q'] \<and> q_handle q' = q_handle q \<and> settled G ?w q')" "books ?w w'"
    using t unfolding touches_def by blast
  have "pre = []" using wf_split [OF l(1) d(1)] d(1,2) l(5) by (cases pre) auto
  then have qs: "w_queries w' = (new @ mid) @ w_queries w" using d(1,3) l(5) by simp
  have "next_handle w \<notin> q_handle ` set new" using d(4) l(7) by (auto simp: fresh_queries_def)
  then have f: "fresh_queries G w w' (new @ mid)"
    using d(4,5,6) l(2,7) assms(3) by (fastforce simp: fresh_queries_def books_def)
  have "safe ?w = safe w" using same_config_settled [OF l(3)] by simp
  moreover have "next_handle w \<le> next_handle w'" using d(6) l(7) by (simp add: books_def)
  moreover have "mset [next_handle w..<next_handle w'] = {#q_handle q#} + mset [next_handle ?w..<next_handle w']"
    using d(6) l(7) assms(3) by (simp add: books_def upt_rec [of "next_handle w"])
  ultimately have "books w w'"
    using d(6) l by (auto simp: books_def intro: same_config_trans)
  then show ?thesis using qs f by (auto simp: keeps_def)
qed

context query_callback
begin

lemma cb_after_quiet:
  assumes "wf_world G w" "quiet w w1" "same_config w0 w" "valid_reply st ab"
  shows "keeps G w (cbf cb st ab w1)"
proof -
  have "same_config w0 w1" using assms(2,3) by (auto simp: quiet_def intro: same_config_trans)
  then show ?thesis
    using keeps_trans [OF quiet_keeps [OF assms(2)] cb_keeps] quiet_wf [OF assms(1,2)] assms(4) by blast
qed

lemma ares_send_linked_keeps:
  assumes "wf_world G w" "HFIXEDSZ \<le> length qbuf" "nservers w \<noteq> 0" "DNS_HEADER_QID qbuf = Some qid"
    and "q = new_query (next_handle w) qid (nservers w) qbuf cb tcp" "same_config w0 w" "G cb"
  shows "keeps G w (ares__send_query cbf now q (link_query q w))"
proof -
  have q: "settled G w q" "q_handle q = next_handle w" and cb: "q_callback q = cb"
    using new_query_settled [where G = G, OF assms(2,4,3,7)] assms(5) by (auto simp: new_query_def)
  note l = link_query_wf [OF assms(1) q]
  have "q_handle q \<in> set (pending (link_query q w))" by (simp add: pending_def l(5))
  then show ?thesis
    using send_query_touches [OF l(1) _ _ cb same_config_trans [OF assms(6) l(3)]]
      touches_link_keeps [OF assms(1) q] l(2) q(1) by simp
qed

text \<open>\<^verbatim>\<open>ares_send\<close> itself meets the contract of a callback.\<close>

lemma ares_send_keeps:
  assumes "wf_world G w" and cfg: "same_config w0 w" and G: "G cb"
  shows "keeps G w (ares_send cbf now qbuf cb w)"
proof -
  obtain m1 w1 where 1: "malloc w = (m1, w1)" by fastforce
  obtain m2 w2 where 2: "malloc w1 = (m2, w2)" by fastforce
  obtain m3 w3 where 3: "(if nservers w2 \<noteq> 0 then malloc w2 else (False, w2)) = (m3, w3)" by fastforce
  have q1: "quiet w w1" using 1 by (rule quiet_malloc)
  then have q2: "quiet w w2" using quiet_malloc [OF 2] by (rule quiet_trans)
  have "quiet w2 w3" using 3 by (auto split: if_splits intro: quiet_malloc)
  with q2 have q3: "quiet w w3" by (rule quiet_trans)
  have cfg3: "same_config w0 w3" using cfg q3 by (auto simp: quiet_def intro: same_config_trans)
  note wf3 = quiet_wf [OF assms(1) q3]
  show ?thesis
  proof (cases "length qbuf < HFIXEDSZ \<or> length qbuf \<ge> 2 ^ 16 \<or> \<not> m1 \<or> \<not> m2 \<or> \<not> m3")
    case True
    then show ?thesis using 1 2 3 cb_after_quiet [OF assms(1) _ cfg] q1 q2 q3 cb_keeps [OF cfg assms(1)]
      by (auto simp: ares_send_def valid_reply_def)
  next
    case False
    then have n: "nservers w3 \<noteq> 0" using 3 \<open>quiet w2 w3\<close>
      by (auto simp: quiet_def same_config_def split: if_splits)
    have len: "HFIXEDSZ \<le> length qbuf" using False by simp
    then obtain qid where id: "DNS_HEADER_QID qbuf = Some qid"
      by (simp add: DNS_HEADER_QID_def HFIXEDSZ_def buf_simps)
    let ?tcp = "flag_set w3 ARES_FLAG_USEVC \<or> length qbuf > PACKETSZ"
    let ?q = "new_query (next_handle w3) qid (nservers w3) qbuf cb ?tcp"
    have "ares_send cbf now qbuf cb w = ares__send_query cbf now ?q (link_query ?q w3)"
      using False 1 2 3 id by (simp add: ares_send_def link_query_def Let_def)
    then show ?thesis
      using ares_send_linked_keeps [OF wf3 len n id refl cfg3 G] keeps_trans [OF quiet_keeps [OF q3]] by simp
  qed
qed

end

text \<open>The contract of all callbacks, and the facts above without the side conditions.\<close>

locale callback_contract =
  fixes cbf :: "'cb callback_fn" and G :: "'cb \<Rightarrow> bool"
  assumes all_keep: "G cb \<Longrightarrow> wf_world G w \<Longrightarrow> valid_reply st ab \<Longrightarrow> keeps G w (cbf cb st ab w)"
begin

lemma one_callback: "G cb \<Longrightarrow> query_callback cbf G cb w0"
  by unfold_locales (rule all_keep)

lemma query_contract: "query_ok G w q \<Longrightarrow> query_callback cbf G (q_callback q) w"
  by (rule one_callback) (simp add: query_ok_def)

lemma end_query_touches:
  "wf_world G w \<Longrightarrow> q_handle q \<in> set (pending w) \<Longrightarrow> query_ok G w q \<Longrightarrow> valid_reply st ab \<Longrightarrow>
    touches G (q_handle q) w (end_query cbf q st ab w)"
  by (rule query_callback.end_query_touches [OF query_contract [where w = w]]) simp_all

lemma end_query_gone:
  "wf_world G w \<Longrightarrow> q_handle q \<in> set (pending w) \<Longrightarrow> query_ok G w q \<Longrightarrow> valid_reply st ab \<Longrightarrow>
    q_handle q \<notin> set (pending (end_query cbf q st ab w))"
  by (rule query_callback.end_query_gone [OF query_contract [where w = w]]) simp_all

lemma next_server_touches:
  "wf_world G w \<Longrightarrow> q_handle q \<in> set (pending w) \<Longrightarrow> query_ok G w q \<Longrightarrow>
    touches G (q_handle q) w (next_server cbf now q w)"
  by (rule query_callback.next_server_touches [OF query_contract [where w = w]]) simp_all

lemma send_query_touches:
  "wf_world G w \<Longrightarrow> q_handle q \<in> set (pending w) \<Longrightarrow> settled G w q \<Longrightarrow>
    touches G (q_handle q) w (ares__send_query cbf now q w)"
  by (rule query_callback.send_query_touches [OF query_contract [where w = w]]) (simp_all add: settled_def)

lemma ares_send_keeps: "wf_world G w \<Longrightarrow> G cb \<Longrightarrow> keeps G w (ares_send cbf now qbuf cb w)"
  by (rule query_callback.ares_send_keeps [OF one_callback [where ?w0.0 = w]]) simp_all

end

end
