(* ===== verification/Lookup.thy ===== *)
theory Lookup
  imports SortAddresses QueryInv
begin

text \<open>
  The functions an application calls: \<^verbatim>\<open>ares_query.c\<close>, \<^verbatim>\<open>ares_search.c\<close>,
  \<^verbatim>\<open>ares_gethostbyname.c\<close> and \<^verbatim>\<open>ares_gethostbyaddr.c\<close>, and the callbacks they hand to
  \<^verbatim>\<open>ares_send\<close>. A callback with its argument is a value of type \<open>cb\<close>: one constructor for
  each callback function of these files, with the fields of the structure its argument points to;
  such a structure is used by the callback alone, so it is copied. A callback of the application is
  \<open>UserCb u\<close>; what it does is the argument \<open>user\<close>. The local pseudo domain
  (\<^verbatim>\<open>ares_local.c\<close>) never handles a request.

  Callbacks start queries whose callbacks run at once when nothing can be sent. \<open>invoke\<close> resolves
  this recursion: every nested call is for a callback with a smaller \<open>depth\<close>.
\<close>

section \<open>Callbacks and the environment\<close>

datatype reply = RawReply ares_status "byte list option" | HostReply ares_status "hostent option"

datatype 'u cb =
    UserCb 'u
  | QCallback "'u cb"
  | SearchCallback (sq_name: cstring) (sq_dnsclass: int) (sq_type: int) (sq_callback: "'u cb")
      (sq_status_as_is: "ares_status option") (sq_next_domain: nat) (sq_trying_as_is: bool)
  | HostCallback (hq_name: cstring) (hq_user: 'u) (hq_remaining_lookups: cstring)
  | AddrCallback (aq_addr: in_addr) (aq_user: 'u) (aq_remaining_lookups: cstring)

type_synonym 'u user_fn = "'u \<Rightarrow> reply \<Rightarrow> 'u cb world \<Rightarrow> 'u cb world"

text \<open>The clock, the libc resolver of dotted quads, the hosts file (\<open>None\<close> if it cannot be opened),
  the file named by \<^verbatim>\<open>HOSTALIASES\<close> (\<open>None\<close> if the variable is not set) and the outcomes of the
  allocations made inside the file readers and the reply parsers.\<close>

record env =
  e_now :: int
  e_inet_addr :: "cstring \<Rightarrow> in_addr"
  e_hosts :: "cfile option"
  e_hostaliases :: "cfile option option"
  e_hosts_alloc :: "nat \<Rightarrow> nat \<Rightarrow> bool \<Rightarrow> nat \<Rightarrow> bool"
  e_alias_alloc :: "nat \<Rightarrow> nat \<Rightarrow> bool"
  e_parse_alloc :: "nat \<Rightarrow> bool"

abbreviation ndomains :: "'cb world \<Rightarrow> nat" where
  "ndomains w \<equiv> length (ch_domains (w_chan w))"

section \<open>ares\_query.c\<close>

definition ares_query ::
  "env \<Rightarrow> 'u cb callback_fn \<Rightarrow> cstring \<Rightarrow> int \<Rightarrow> int \<Rightarrow> 'u cb \<Rightarrow> 'u cb world \<Rightarrow> 'u cb world" where
  "ares_query env cbf name dnsclass type cb w =
     (case malloc w of (m, w) \<Rightarrow>
      let next_id = ch_next_id (w_chan w);
          r = ares_mkquery m name dnsclass type next_id (\<not> flag_set w ARES_FLAG_NORECURSE);
          w = w\<lparr>w_chan := (w_chan w)\<lparr>ch_next_id := next_id + 1\<rparr>\<rparr>
      in case r of
        None \<Rightarrow> undefined_behaviour w
      | Some (Inl status) \<Rightarrow> cbf cb status None w
      | Some (Inr qbuf) \<Rightarrow>
          (case malloc w of
             (False, w) \<Rightarrow> cbf cb ARES_ENOMEM None w
           | (True, w) \<Rightarrow> ares_send cbf (e_now env) qbuf (QCallback cb) w))"

definition convert_rcode :: "nat \<Rightarrow> nat \<Rightarrow> ares_status" where
  "convert_rcode rcode ancount =
     (case rcode_of rcode of
        NOERROR \<Rightarrow> if ancount > 0 then ARES_SUCCESS else ARES_ENODATA
      | FORMERR \<Rightarrow> ARES_EFORMERR
      | SERVFAIL \<Rightarrow> ARES_ESERVFAIL
      | NXDOMAIN \<Rightarrow> ARES_ENOTFOUND
      | NOTIMP \<Rightarrow> ARES_ENOTIMP
      | REFUSED \<Rightarrow> ARES_EREFUSED
      | OtherRcode _ \<Rightarrow> ARES_SUCCESS)"

definition qcallback ::
  "'u cb callback_fn \<Rightarrow> 'u cb \<Rightarrow> ares_status \<Rightarrow> byte list option \<Rightarrow> 'u cb world \<Rightarrow> 'u cb world" where
  "qcallback cbf cb status abuf w =
     (if status \<noteq> ARES_SUCCESS then cbf cb status abuf w
      else case abuf of
        None \<Rightarrow> undefined_behaviour w
      | Some buf \<Rightarrow>
          (case (DNS_HEADER_RCODE buf, DNS_HEADER_ANCOUNT buf) of
             (Some rcode, Some ancount) \<Rightarrow> cbf cb (convert_rcode rcode ancount) abuf w
           | _ \<Rightarrow> undefined_behaviour w))"

section \<open>ares\_search.c\<close>

definition cat_domain :: "cstring \<Rightarrow> cstring \<Rightarrow> 'cb world \<Rightarrow> (ares_status + cstring) \<times> 'cb world" where
  "cat_domain name domain w =
     (case malloc w of (m, w) \<Rightarrow> (if m then Inr (name @ DOT # domain) else Inl ARES_ENOMEM, w))"

text \<open>The loop over the lines of the alias file; \<open>Inl\<close> is the status it ends with, \<open>Inr\<close> the name a
  matching line gives. \<open>None\<close> is undefined behaviour of \<^verbatim>\<open>ares__read_line\<close>.\<close>

function alias_loop ::
  "(nat \<Rightarrow> nat \<Rightarrow> bool) \<Rightarrow> cstring \<Rightarrow> nat \<Rightarrow> cfile \<Rightarrow> nat option \<Rightarrow> (ares_status + cstring) option" where
  "alias_loop m name i fp buf =
     (case ares__read_line (m i) fp buf of
        None \<Rightarrow> None
      | Some (status, line, fp', buf') \<Rightarrow>
          if status \<noteq> ARES_SUCCESS then Some (Inl status)
          else
            let p = skip_space (drop (length name) line) in
            if has_prefix_nocase line name \<and> length name < length line \<and>
               isspace (line ! length name) \<and> p \<noteq> []
            then Some (Inr (word_of_line p))
            else alias_loop m name (Suc i) fp' buf')"
  by pat_completeness auto
termination
  by (relation "measure (\<lambda>(m, name, i, fp, buf). length (f_data fp))") (auto dest: read_line_less)

declare alias_loop.simps [simp del]

definition strdup :: "cstring \<Rightarrow> 'cb world \<Rightarrow> cstring option \<times> 'cb world" where
  "strdup s w = (case malloc w of (m, w) \<Rightarrow> (if m then Some s else None, w))"

definition strdup_or_nomem ::
  "cstring \<Rightarrow> 'cb world \<Rightarrow> (ares_status + cstring option) option \<times> 'cb world" where
  "strdup_or_nomem s w =
     (case strdup s w of (Some s, w) \<Rightarrow> (Some (Inr (Some s)), w)
      | (None, w) \<Rightarrow> (Some (Inl ARES_ENOMEM), w))"

text \<open>\<^verbatim>\<open>single_domain\<close>: an error, or the one name to query if there is only one. \<open>None\<close> is undefined:
  an empty name makes the code read \<^verbatim>\<open>name[-1]\<close>.\<close>

definition single_domain ::
  "env \<Rightarrow> cstring \<Rightarrow> 'cb world \<Rightarrow> (ares_status + cstring option) option \<times> 'cb world" where
  "single_domain env name w =
     (if name = [] then (None, w)
      else if last name = DOT then strdup_or_nomem name w
      else
        let plain = (if flag_set w ARES_FLAG_NOSEARCH \<or> ndomains w = 0 then strdup_or_nomem name w
                     else (Some (Inr None), w)) in
        if \<not> flag_set w ARES_FLAG_NOALIASES \<and> DOT \<notin> set name then
          (case e_hostaliases env of
             Some (Some fp) \<Rightarrow>
               (case alias_loop (e_alias_alloc env) name 0 fp None of
                  None \<Rightarrow> (None, w)
                | Some (Inl status) \<Rightarrow> (Some (Inl status), w)
                | Some (Inr s) \<Rightarrow> strdup_or_nomem s w)
           | _ \<Rightarrow> plain)
        else plain)"

definition count_dots :: "cstring \<Rightarrow> nat" where
  "count_dots name = length (filter (\<lambda>c. c = DOT) name)"

definition ares_search ::
  "env \<Rightarrow> 'u cb callback_fn \<Rightarrow> cstring \<Rightarrow> int \<Rightarrow> int \<Rightarrow> 'u cb \<Rightarrow> 'u cb world \<Rightarrow> 'u cb world" where
  "ares_search env cbf name dnsclass type cb w =
     (case single_domain env name w of
        (None, w) \<Rightarrow> undefined_behaviour w
      | (Some (Inl status), w) \<Rightarrow> cbf cb status None w
      | (Some (Inr (Some s)), w) \<Rightarrow> ares_query env cbf s dnsclass type cb w
      | (Some (Inr None), w) \<Rightarrow>
          (case malloc w of
             (False, w) \<Rightarrow> cbf cb ARES_ENOMEM None w
           | (True, w) \<Rightarrow>
               (case strdup name w of
                  (None, w) \<Rightarrow> cbf cb ARES_ENOMEM None w
                | (Some sname, w) \<Rightarrow>
                    if int (count_dots name) \<ge> ch_ndots (w_chan w) then
                      ares_query env cbf name dnsclass type
                        (SearchCallback sname dnsclass type cb None 0 True) w
                    else
                      (case ch_domains (w_chan w) of
                         [] \<Rightarrow> undefined_behaviour w
                       | domain # _ \<Rightarrow>
                           (case cat_domain name domain w of
                              (Inr s, w) \<Rightarrow>
                                ares_query env cbf s dnsclass type
                                  (SearchCallback sname dnsclass type cb None 1 False) w
                            | (Inl status, w) \<Rightarrow> cbf cb status None w)))))"

text \<open>\<^verbatim>\<open>search_callback\<close>; \<open>end_squery\<close> is the call of the saved callback.\<close>

definition search_callback ::
  "env \<Rightarrow> 'u cb callback_fn \<Rightarrow> cstring \<Rightarrow> int \<Rightarrow> int \<Rightarrow> 'u cb \<Rightarrow> ares_status option \<Rightarrow> nat \<Rightarrow> bool \<Rightarrow>
   ares_status \<Rightarrow> byte list option \<Rightarrow> 'u cb world \<Rightarrow> 'u cb world" where
  "search_callback env cbf name dnsclass type cb status_as_is next_domain trying_as_is status abuf w =
     (if status \<noteq> ARES_ENODATA \<and> status \<noteq> ARES_ESERVFAIL \<and> status \<noteq> ARES_ENOTFOUND
      then cbf cb status abuf w
      else
        let status_as_is = (if trying_as_is then Some status else status_as_is) in
        if next_domain < ndomains w then
          (case cat_domain name (ch_domains (w_chan w) ! next_domain) w of
             (Inl status, w) \<Rightarrow> cbf cb status None w
           | (Inr s, w) \<Rightarrow>
               ares_query env cbf s dnsclass type
                 (SearchCallback name dnsclass type cb status_as_is (Suc next_domain) False) w)
        else case status_as_is of
          None \<Rightarrow> ares_query env cbf name dnsclass type
                    (SearchCallback name dnsclass type cb status_as_is next_domain True) w
        | Some st \<Rightarrow> cbf cb st None w)"

section \<open>ares\_gethostbyname.c\<close>

text \<open>\<open>end_hquery\<close> and \<open>end_aquery\<close> are the calls of \<open>user\<close>.\<close>

fun next_lookup_name ::
  "env \<Rightarrow> 'u user_fn \<Rightarrow> 'u cb callback_fn \<Rightarrow> cstring \<Rightarrow> 'u \<Rightarrow> cstring \<Rightarrow> 'u cb world \<Rightarrow> 'u cb world" where
  "next_lookup_name env user cbf name u [] w = user u (HostReply ARES_ENOTFOUND None) w"
| "next_lookup_name env user cbf name u (c # p) w =
     (if c = 0x62 then
        ares_search env cbf name (int C_IN) (int T_A) (HostCallback name u p) w
      else if c = 0x66 then
        (case file_lookup_name (e_inet_addr env) (e_hosts_alloc env) (e_hosts env) name of
           None \<Rightarrow> undefined_behaviour w
         | Some (Inr host) \<Rightarrow> user u (HostReply ARES_SUCCESS (Some host)) w
         | Some (Inl status) \<Rightarrow>
             if status \<noteq> ARES_ENOTFOUND then user u (HostReply status None) w
             else next_lookup_name env user cbf name u p w)
      else next_lookup_name env user cbf name u p w)"

definition host_callback ::
  "env \<Rightarrow> 'u user_fn \<Rightarrow> 'u cb callback_fn \<Rightarrow> cstring \<Rightarrow> 'u \<Rightarrow> cstring \<Rightarrow>
   ares_status \<Rightarrow> byte list option \<Rightarrow> 'u cb world \<Rightarrow> 'u cb world" where
  "host_callback env user cbf name u remaining status abuf w =
     (if status = ARES_SUCCESS then
        (case abuf of
           None \<Rightarrow> undefined_behaviour w
         | Some buf \<Rightarrow>
             (case ares_parse_a_reply (e_parse_alloc env) buf (length buf) of
                None \<Rightarrow> undefined_behaviour w
              | Some (Inl st) \<Rightarrow> user u (HostReply st None) w
              | Some (Inr host) \<Rightarrow>
                  let host = (if ch_sortlist (w_chan w) \<noteq> []
                              then sort_addresses (ch_sortlist (w_chan w)) host else host) in
                  user u (HostReply ARES_SUCCESS (Some host)) w))
      else if status = ARES_EDESTRUCTION then user u (HostReply status None) w
      else next_lookup_name env user cbf name u remaining w)"

text \<open>\<^verbatim>\<open>fake_hostent\<close>: \<open>None\<close> is a return of 0.\<close>

definition fake_hostent :: "env \<Rightarrow> cstring \<Rightarrow> 'cb world \<Rightarrow> reply option \<times> 'cb world" where
  "fake_hostent env name w =
     (if \<not> list_all (\<lambda>c. isdigit c \<or> c = DOT) name \<or> name = [] \<or> last name = DOT then (None, w)
      else
        let addr = e_inet_addr env name in
        if addr = INADDR_NONE then (Some (HostReply ARES_EBADNAME None), w)
        else case strdup name w of
          (None, w) \<Rightarrow> (Some (HostReply ARES_ENOMEM None), w)
        | (Some nm, w) \<Rightarrow>
            (Some (HostReply ARES_SUCCESS (Some \<lparr>h_name = nm, h_aliases = [], h_addrtype = AF_INET,
                h_length = 4, h_addr_list = [bytes_of_addr addr]\<rparr>)), w))"

definition ares_gethostbyname ::
  "env \<Rightarrow> 'u user_fn \<Rightarrow> 'u cb callback_fn \<Rightarrow> cstring \<Rightarrow> nat \<Rightarrow> 'u \<Rightarrow> 'u cb world \<Rightarrow> 'u cb world" where
  "ares_gethostbyname env user cbf name family u w =
     (if family \<noteq> AF_INET then user u (HostReply ARES_ENOTIMP None) w
      else case fake_hostent env name w of
        (Some r, w) \<Rightarrow> user u r w
      | (None, w) \<Rightarrow>
          (case malloc w of
             (False, w) \<Rightarrow> user u (HostReply ARES_ENOMEM None) w
           | (True, w) \<Rightarrow>
               (case strdup name w of
                  (None, w) \<Rightarrow> user u (HostReply ARES_ENOMEM None) w
                | (Some nm, w) \<Rightarrow>
                    next_lookup_name env user cbf nm u (ch_lookups (w_chan w)) w)))"

section \<open>ares\_gethostbyaddr.c\<close>

definition octet :: "nat \<Rightarrow> in_addr \<Rightarrow> nat" where
  "octet k a = unat (drop_bit k a AND 0xff)"

definition ptr_name :: "in_addr \<Rightarrow> cstring" where
  "ptr_name a = decimal (octet 0 a) @ DOT # decimal (octet 8 a) @ DOT # decimal (octet 16 a) @ DOT #
     decimal (octet 24 a) @ str ''.in-addr.arpa''"

fun next_lookup_addr ::
  "env \<Rightarrow> 'u user_fn \<Rightarrow> 'u cb callback_fn \<Rightarrow> in_addr \<Rightarrow> 'u \<Rightarrow> cstring \<Rightarrow> 'u cb world \<Rightarrow> 'u cb world" where
  "next_lookup_addr env user cbf addr u [] w = user u (HostReply ARES_ENOTFOUND None) w"
| "next_lookup_addr env user cbf addr u (c # p) w =
     (if c = 0x62 then
        ares_query env cbf (ptr_name addr) (int C_IN) (int T_PTR) (AddrCallback addr u p) w
      else if c = 0x66 then
        (case file_lookup_addr (e_inet_addr env) (e_hosts_alloc env) (e_hosts env) addr of
           None \<Rightarrow> undefined_behaviour w
         | Some (Inr host) \<Rightarrow> user u (HostReply ARES_SUCCESS (Some host)) w
         | Some (Inl status) \<Rightarrow>
             if status \<noteq> ARES_ENOTFOUND then user u (HostReply status None) w
             else next_lookup_addr env user cbf addr u p w)
      else next_lookup_addr env user cbf addr u p w)"

definition addr_callback ::
  "env \<Rightarrow> 'u user_fn \<Rightarrow> 'u cb callback_fn \<Rightarrow> in_addr \<Rightarrow> 'u \<Rightarrow> cstring \<Rightarrow>
   ares_status \<Rightarrow> byte list option \<Rightarrow> 'u cb world \<Rightarrow> 'u cb world" where
  "addr_callback env user cbf addr u remaining status abuf w =
     (if status = ARES_SUCCESS then
        (case abuf of
           None \<Rightarrow> undefined_behaviour w
         | Some buf \<Rightarrow>
             (case ares_parse_ptr_reply (e_parse_alloc env) buf (length buf) (bytes_of_addr addr) AF_INET of
                None \<Rightarrow> undefined_behaviour w
              | Some (Inl st) \<Rightarrow> user u (HostReply st None) w
              | Some (Inr host) \<Rightarrow> user u (HostReply ARES_SUCCESS (Some host)) w))
      else if status = ARES_EDESTRUCTION then user u (HostReply status None) w
      else next_lookup_addr env user cbf addr u remaining w)"

definition ares_gethostbyaddr ::
  "env \<Rightarrow> 'u user_fn \<Rightarrow> 'u cb callback_fn \<Rightarrow> byte list \<Rightarrow> nat \<Rightarrow> 'u \<Rightarrow> 'u cb world \<Rightarrow> 'u cb world" where
  "ares_gethostbyaddr env user cbf addr family u w =
     (if family \<noteq> AF_INET \<or> length addr \<noteq> 4 then user u (HostReply ARES_ENOTIMP None) w
      else case malloc w of
        (False, w) \<Rightarrow> user u (HostReply ARES_ENOMEM None) w
      | (True, w) \<Rightarrow>
          next_lookup_addr env user cbf (addr_of_bytes addr) u (ch_lookups (w_chan w)) w)"

section \<open>Calling a callback\<close>

fun depth :: "nat \<Rightarrow> 'u cb \<Rightarrow> nat" where
  "depth n (UserCb u) = 0"
| "depth n (QCallback cb) = Suc (depth n cb)"
| "depth n (SearchCallback name dnsclass type cb as_is next_domain trying) =
     Suc (depth n cb + 2 * (n - next_domain + (if as_is = None \<and> \<not> trying then 1 else 0)))"
| "depth n (HostCallback name u rem) = length rem * (2 * n + 6)"
| "depth n (AddrCallback addr u rem) = length rem * (2 * n + 6)"

definition callback_step ::
  "env \<Rightarrow> 'u user_fn \<Rightarrow> 'u cb callback_fn \<Rightarrow> 'u cb callback_fn" where
  "callback_step env user cbf cb status abuf w =
     (case cb of
        UserCb u \<Rightarrow> user u (RawReply status abuf) w
      | QCallback cb \<Rightarrow> qcallback cbf cb status abuf w
      | SearchCallback name dnsclass type cb as_is next_domain trying \<Rightarrow>
          search_callback env cbf name dnsclass type cb as_is next_domain trying status abuf w
      | HostCallback name u rem \<Rightarrow> host_callback env user cbf name u rem status abuf w
      | AddrCallback addr u rem \<Rightarrow> addr_callback env user cbf addr u rem status abuf w)"

function invoke :: "env \<Rightarrow> 'u user_fn \<Rightarrow> 'u cb callback_fn" where
  "invoke env user cb status abuf w =
     callback_step env user
       (\<lambda>cb' status' abuf' w'.
          if depth (ndomains w') cb' < depth (ndomains w) cb then invoke env user cb' status' abuf' w'
          else undefined_behaviour w')
       cb status abuf w"
  by pat_completeness auto
termination
  by (relation "measure (\<lambda>(env, user, cb, status, abuf, w). depth (ndomains w) cb)") auto

declare invoke.simps [simp del]

end
