(* ===== verification/LookupInv.thy ===== *)
theory LookupInv
  imports Lookup
begin

text \<open>
  The callbacks of the lookup functions meet the contract of \<^verbatim>\<open>QueryInv\<close>: whatever a query
  ends with, \<open>invoke\<close> leaves the other queries alone, and it always finds the nested callbacks smaller.
  The host alias file is compared with a reference over its lines.
\<close>

section \<open>The host alias file\<close>

definition alias_of :: "cstring \<Rightarrow> cstring \<Rightarrow> cstring option" where
  "alias_of name line =
     (let p = skip_space (drop (length name) line) in
      if has_prefix_nocase line name \<and> length name < length line \<and>
         isspace (line ! length name) \<and> p \<noteq> []
      then Some (word_of_line p) else None)"

fun first_alias :: "cstring \<Rightarrow> cstring list \<Rightarrow> cstring option" where
  "first_alias name [] = None"
| "first_alias name (l # ls) = (case alias_of name l of None \<Rightarrow> first_alias name ls | Some s \<Rightarrow> Some s)"

lemma alias_loop_correct:
  assumes "no_nul (f_data fp)" "big_enough buf" "\<forall>i. allocs_ok (m i)"
  shows "alias_loop m name i fp buf =
    Some (case first_alias name (file_lines (f_data fp)) of
            Some s \<Rightarrow> Inr s
          | None \<Rightarrow> Inl (if f_error fp then ARES_EFILE else ARES_EOF))"
  using assms
proof (induction m name i fp buf rule: alias_loop.induct)
  case (1 m name i fp buf)
  let ?d = "f_data fp"
  have m: "allocs_ok (m i)" using "1.prems"(3) by simp
  show ?case
  proof (cases "?d = []")
    case True
    then show ?thesis using read_line_eof [OF m True "1.prems"(2)]
      by (subst alias_loop.simps) (auto simp: file_lines.simps)
  next
    case False
    obtain sz where r: "ares__read_line (m i) fp buf =
        Some (ARES_SUCCESS, line_of ?d, fp\<lparr>f_data := rest_of ?d\<rparr>, Some sz)" "2 \<le> sz"
      using read_line_correct [OF "1.prems"(1) m False "1.prems"(2)] by blast
    have l: "file_lines ?d = line_of ?d # file_lines (rest_of ?d)"
      using False by (subst file_lines.simps) simp
    show ?thesis
    proof (cases "alias_of name (line_of ?d)")
      case (Some s)
      then show ?thesis using r l
        by (subst alias_loop.simps) (auto simp: alias_of_def Let_def split: if_splits)
    next
      case None
      have "alias_loop m name (Suc i) (fp\<lparr>f_data := rest_of ?d\<rparr>) (Some sz) =
          Some (case first_alias name (file_lines (rest_of ?d)) of
            Some s \<Rightarrow> Inr s | None \<Rightarrow> Inl (if f_error fp then ARES_EFILE else ARES_EOF))"
        using "1.IH" [OF r(1) refl refl refl _ refl] None r "1.prems"
        by (auto simp: alias_of_def Let_def no_nul_rest big_enough_def split: if_splits)
      then show ?thesis using r l None
        by (subst alias_loop.simps) (auto simp: alias_of_def Let_def split: if_splits)
    qed
  qed
qed

section \<open>Well-behaved callbacks and environments\<close>

fun cb_ok :: "'u cb \<Rightarrow> bool" where
  "cb_ok (UserCb u) = True"
| "cb_ok (QCallback cb) = cb_ok cb"
| "cb_ok (SearchCallback name dnsclass type cb as_is next_domain trying) =
     (cb_ok cb \<and> as_is \<noteq> Some ARES_SUCCESS)"
| "cb_ok (HostCallback name u rem) = (name \<noteq> [])"
| "cb_ok (AddrCallback addr u rem) = True"

definition env_ok :: "env \<Rightarrow> bool" where
  "env_ok env \<longleftrightarrow> (case e_hosts env of None \<Rightarrow> True | Some fp \<Rightarrow> no_nul (f_data fp)) \<and>
     (case e_hostaliases env of Some (Some fp) \<Rightarrow> no_nul (f_data fp) | _ \<Rightarrow> True) \<and>
     (\<forall>j i b. allocs_ok (e_hosts_alloc env j i b)) \<and> (\<forall>i. allocs_ok (e_alias_alloc env i))"

lemma mkquery_total: "\<exists>r. ares_mkquery m name dnsclass type qid recurse = Some r"
  by (cases m) (simp_all add: ares_mkquery_eq, simp add: ares_mkquery_def Let_def)

lemma file_lookup_total:
  assumes "env_ok env"
  shows "\<exists>r. file_lookup_name (e_inet_addr env) (e_hosts_alloc env) (e_hosts env) name = Some r"
    "\<exists>r. file_lookup_addr (e_inet_addr env) (e_hosts_alloc env) (e_hosts env) addr = Some r"
  using assms lookup_loop_correct
  by (auto simp: env_ok_def file_lookup_name_def file_lookup_addr_def split: option.splits)

lemma alias_loop_total:
  assumes "env_ok env" "e_hostaliases env = Some (Some fp)"
  shows "\<exists>r. alias_loop (e_alias_alloc env) name 0 fp None = Some r"
  using assms alias_loop_correct [of fp None "e_alias_alloc env" name 0]
  by (simp add: env_ok_def big_enough_def)

lemma quiet_next_id: "quiet w (w\<lparr>w_chan := (w_chan w)\<lparr>ch_next_id := n\<rparr>\<rparr>)"
  by (simp add: quiet_def same_config_def servers_ok_def)

lemma quiet_strdup: "strdup s w = (r, w') \<Longrightarrow> quiet w w'"
  by (auto simp: strdup_def split: prod.splits intro: quiet_malloc)

lemma quiet_strdup_or_nomem: "strdup_or_nomem s w = (r, w') \<Longrightarrow> quiet w w'"
  by (auto simp: strdup_or_nomem_def split: prod.splits option.splits intro: quiet_strdup)

lemma quiet_cat_domain: "cat_domain a b w = (r, w') \<Longrightarrow> quiet w w'"
  by (auto simp: cat_domain_def split: prod.splits intro: quiet_malloc)

lemma quiet_single_domain: "single_domain env name w = (r, w') \<Longrightarrow> quiet w w'"
  by (auto simp: single_domain_def Let_def split: if_splits option.splits sum.splits
      intro: quiet_strdup_or_nomem)

lemma single_domain_total:
  assumes "env_ok env" "name \<noteq> []" shows "fst (single_domain env name w) \<noteq> None"
proof -
  have s: "fst (strdup_or_nomem s w) \<noteq> None" for s
    by (auto simp: strdup_or_nomem_def split: prod.splits option.splits)
  show ?thesis
    using assms s alias_loop_total [OF assms(1), of _ name]
    by (fastforce simp: single_domain_def Let_def split: option.splits sum.splits)
qed

lemma quiet_fake_hostent: "fake_hostent env name w = (r, w') \<Longrightarrow> quiet w w'"
  by (auto simp: fake_hostent_def Let_def split: if_splits prod.splits option.splits intro: quiet_strdup)

section \<open>The contract\<close>

text \<open>\<open>admits g w0 cb\<close>: a query may be started with callback \<open>cb\<close>, directly or through \<^verbatim>\<open>qcallback\<close>.\<close>

definition admits :: "'u cb callback_fn \<Rightarrow> 'u cb world \<Rightarrow> 'u cb \<Rightarrow> bool" where
  "admits g w0 cb \<longleftrightarrow> cb_ok cb \<and> query_callback g cb_ok cb w0 \<and> query_callback g cb_ok (QCallback cb) w0"

lemma admits_after_quiet:
  assumes "query_callback g cb_ok cb w0" "same_config w0 w" "wf_world cb_ok w" "quiet w w1" "valid_reply st ab"
  shows "keeps cb_ok w (g cb st ab w1)"
  using query_callback.cb_after_quiet [OF assms(1,3,4,2,5)] .

lemma error_reply [simp]: "st \<noteq> ARES_SUCCESS \<Longrightarrow> valid_reply st ab"
  by (simp add: valid_reply_def)

lemma ares_mkquery_error: "ares_mkquery m name dnsclass type qid recurse = Some (Inl st) \<Longrightarrow> st \<noteq> ARES_SUCCESS"
proof (cases m)
  case False
  then show "ares_mkquery m name dnsclass type qid recurse = Some (Inl st) \<Longrightarrow> st \<noteq> ARES_SUCCESS"
    by (auto simp: ares_mkquery_def Let_def)
qed (auto simp: ares_mkquery_eq split: if_splits)

lemma ares_query_keeps:
  assumes a: "admits g w0 cb" and cfg: "same_config w0 w" and wf: "wf_world cb_ok w"
  shows "keeps cb_ok w (ares_query env g name dnsclass type cb w)"
proof -
  obtain m w1 where 1: "malloc w = (m, w1)" by fastforce
  let ?id = "ch_next_id (w_chan w1)"
  define w2 where "w2 = w1\<lparr>w_chan := (w_chan w1)\<lparr>ch_next_id := ?id + 1\<rparr>\<rparr>"
  obtain r where r: "ares_mkquery m name dnsclass type ?id (\<not> flag_set w1 ARES_FLAG_NORECURSE) = Some r"
    using mkquery_total by blast
  obtain m3 w3 where 3: "malloc w2 = (m3, w3)" by fastforce
  have q2: "quiet w w2" unfolding w2_def by (rule quiet_trans [OF quiet_malloc [OF 1] quiet_next_id])
  have q3: "quiet w w3" by (rule quiet_trans [OF q2 quiet_malloc [OF 3]])
  have c3: "same_config w0 w3" "wf_world cb_ok w3"
    using cfg q3 quiet_wf [OF wf q3] by (auto simp: quiet_def intro: same_config_trans)
  note cb = admits_after_quiet [OF _ cfg wf, of g cb] and a' = a [unfolded admits_def]
  have "keeps cb_ok w3 (ares_send g (e_now env) qbuf (QCallback cb) w3)" for qbuf
    by (rule query_callback.ares_send_keeps [OF _ c3(2,1)]) (use a' in simp_all)
  then have snd: "keeps cb_ok w (ares_send g (e_now env) qbuf (QCallback cb) w3)" for qbuf
    using keeps_trans [OF quiet_keeps [OF q3]] by blast
  show ?thesis
  proof (cases r)
    case (Inl st)
    then show ?thesis using 1 r cb [OF _ q2] a' ares_mkquery_error [of m name dnsclass type ?id _ st]
      by (simp add: ares_query_def Let_def w2_def)
  next
    case (Inr qbuf)
    then show ?thesis using 1 r 3 cb [OF _ q3] a' snd
      by (cases m3) (simp_all add: ares_query_def Let_def w2_def)
  qed
qed

lemma keeps_after_quiet:
  "quiet w w1 \<Longrightarrow> keeps G w1 w2 \<Longrightarrow> keeps G w w2"
  by (rule keeps_trans [OF quiet_keeps])

lemma cat_domain_error: "cat_domain a b w = (Inl st, w') \<Longrightarrow> st \<noteq> ARES_SUCCESS"
  by (auto simp: cat_domain_def split: prod.splits if_splits)

lemma quiet_config:
  "same_config w0 w \<Longrightarrow> quiet w w1 \<Longrightarrow> same_config w0 w1"
  by (auto simp: quiet_def intro: same_config_trans)

lemma search_callback_keeps:
  assumes cfg: "same_config w0 w" and wf: "wf_world cb_ok w" and v: "valid_reply st ab"
    and cb: "query_callback g cb_ok cb w0" and sa0: "as_is0 \<noteq> Some ARES_SUCCESS"
    and next_dom: "\<And>as_is. next_domain < ndomains w \<Longrightarrow> (trying \<longrightarrow> as_is \<noteq> None) \<Longrightarrow> (\<not> trying \<longrightarrow> as_is = as_is0) \<Longrightarrow>
      as_is \<noteq> Some ARES_SUCCESS \<Longrightarrow> admits g w0 (SearchCallback name dnsclass type cb as_is (Suc next_domain) False)"
    and as_is: "\<not> trying \<Longrightarrow> as_is0 = None \<Longrightarrow> admits g w0 (SearchCallback name dnsclass type cb None next_domain True)"
  shows "keeps cb_ok w (search_callback env g name dnsclass type cb as_is0 next_domain trying st ab w)"
proof -
  note kcb = admits_after_quiet [OF cb cfg wf]
  have sa: "(if trying then Some st else as_is0) \<noteq> Some ARES_SUCCESS"
    if "st \<in> {ARES_ENODATA, ARES_ESERVFAIL, ARES_ENOTFOUND}" using that sa0 by auto
  let ?sa = "if trying then Some st else as_is0"
  show ?thesis
  proof (cases "st \<in> {ARES_ENODATA, ARES_ESERVFAIL, ARES_ENOTFOUND}")
    case False
    then show ?thesis using kcb [OF quiet_refl v] by (simp add: search_callback_def)
  next
    case True
    show ?thesis
    proof (cases "next_domain < ndomains w")
      case lt: True
      obtain r w1 where c: "cat_domain name (ch_domains (w_chan w) ! next_domain) w = (r, w1)" by fastforce
      note q = quiet_cat_domain [OF c]
      have "keeps cb_ok w (ares_query env g s dnsclass type
          (SearchCallback name dnsclass type cb ?sa (Suc next_domain) False) w1)" for s
        using ares_query_keeps [OF next_dom [OF lt _ _ sa [OF True]] quiet_config [OF cfg q] quiet_wf [OF wf q]]
        by (simp add: keeps_after_quiet [OF q])
      then show ?thesis
        using True lt c kcb [OF q] cat_domain_error [of name _ w _ w1]
        by (cases r) (auto simp: search_callback_def Let_def)
    next
      case False
      show ?thesis
      proof (cases ?sa)
        case None
        then show ?thesis using True False ares_query_keeps [OF as_is cfg wf]
          by (auto simp: search_callback_def Let_def split: if_splits)
      next
        case (Some st')
        then have "valid_reply st' None" using sa [OF True] by auto
        then show ?thesis using True False Some kcb [OF quiet_refl, of st' None]
          by (auto simp: search_callback_def Let_def split: if_splits)
      qed
    qed
  qed
qed

lemma qcallback_keeps:
  assumes cfg: "same_config w0 w" and wf: "wf_world cb_ok w" and v: "valid_reply st ab"
    and cb: "query_callback g cb_ok cb w0"
  shows "keeps cb_ok w (qcallback g cb st ab w)"
proof (cases "st = ARES_SUCCESS")
  case True
  then obtain b where b: "ab = Some b" "HFIXEDSZ \<le> length b" using v by (auto simp: valid_reply_def)
  then obtain rc an where h: "DNS_HEADER_RCODE b = Some rc" "DNS_HEADER_ANCOUNT b = Some an"
    by (simp add: dns_accessors HFIXEDSZ_def buf_simps)
  have "valid_reply st' ab" for st' using b by (simp add: valid_reply_def)
  from admits_after_quiet [OF cb cfg wf quiet_refl this] show ?thesis
    using True b h by (simp add: qcallback_def)
next
  case False
  then show ?thesis using admits_after_quiet [OF cb cfg wf quiet_refl v] by (simp add: qcallback_def)
qed

lemma single_domain_error:
  assumes "env_ok env" "single_domain env name w = (Some (Inl st), w')" shows "st \<noteq> ARES_SUCCESS"
proof -
  have d: "strdup_or_nomem s w = (Some (Inl st), w') \<Longrightarrow> st \<noteq> ARES_SUCCESS" for s
    by (auto simp: strdup_or_nomem_def split: prod.splits option.splits)
  have l: "alias_loop (e_alias_alloc env) name 0 fp None = Some (Inl st) \<Longrightarrow> st \<noteq> ARES_SUCCESS"
    if "e_hostaliases env = Some (Some fp)" for fp
    using assms(1) that alias_loop_correct [of fp None "e_alias_alloc env" name 0]
    by (auto simp: env_ok_def big_enough_def split: option.splits if_splits)
  show ?thesis
    using assms(2) d l by (auto simp: single_domain_def Let_def split: if_splits option.splits sum.splits)
qed

lemma ares_search_keeps:
  assumes env: "env_ok env" "name \<noteq> []" and cfg: "same_config w0 w" and wf: "wf_world cb_ok w"
    and a: "admits g w0 cb"
    and as_is: "admits g w0 (SearchCallback name dnsclass type cb None 0 True)"
    and dom: "0 < ndomains w \<Longrightarrow> admits g w0 (SearchCallback name dnsclass type cb None 1 False)"
  shows "keeps cb_ok w (ares_search env g name dnsclass type cb w)"
proof -
  obtain r w1 where 1: "single_domain env name w = (r, w1)" by fastforce
  note q1 = quiet_single_domain [OF 1]
  have some: "r \<noteq> None" using single_domain_total [OF env, of w] 1 by simp
  have cb: "query_callback g cb_ok cb w0" using a by (simp add: admits_def)
  note kcb = admits_after_quiet [OF cb cfg wf]
  obtain m w2 where 2: "malloc w1 = (m, w2)" by fastforce
  have q2: "quiet w w2" by (rule quiet_trans [OF q1 quiet_malloc [OF 2]])
  obtain d w3 where 3: "strdup name w2 = (d, w3)" by fastforce
  have q3: "quiet w w3" by (rule quiet_trans [OF q2 quiet_strdup [OF 3]])
  have d: "d = None \<or> d = Some name" using 3 by (auto simp: strdup_def split: prod.splits if_splits)
  have doms: "ch_domains (w_chan w3) = ch_domains (w_chan w)" "ch_domains (w_chan w1) = ch_domains (w_chan w)"
    using q3 q1 by (auto simp: quiet_def same_config_def)
  have ne: "ndomains w \<noteq> 0" if "r = Some (Inr None)"
    using 1 that by (auto simp: single_domain_def strdup_or_nomem_def Let_def
        split: if_splits option.splits sum.splits prod.splits)
  have q: "keeps cb_ok w (ares_query env g s dnsclass type c w')" if "admits g w0 c" "quiet w w'" for s c w'
    using ares_query_keeps [OF that(1) quiet_config [OF cfg that(2)] quiet_wf [OF wf that(2)]]
    by (simp add: keeps_after_quiet [OF that(2)])
  have multi: "keeps cb_ok w (ares_search env g name dnsclass type cb w)" if r: "r = Some (Inr None)"
  proof -
    obtain domain ds where ds: "ch_domains (w_chan w3) = domain # ds"
      using ne [OF r] doms(1) by (metis length_0_conv list.exhaust)
    obtain c w4 where 4: "cat_domain name domain w3 = (c, w4)" by fastforce
    have q4: "quiet w w4" by (rule quiet_trans [OF q3 quiet_cat_domain [OF 4]])
    have "keeps cb_ok w (ares_query env g s dnsclass type (SearchCallback name dnsclass type cb None 1 False) w4)" for s
      using q [OF dom q4] ne [OF r] by simp
    moreover have "valid_reply st None" if "c = Inl st" for st
      using error_reply [OF cat_domain_error [OF 4 [unfolded that]]] .
    ultimately show ?thesis
      using 1 2 3 4 r d ds kcb [OF q2] kcb [OF q3] kcb [OF q4] q [OF as_is q3]
      by (cases m; cases c) (auto simp: ares_search_def)
  qed
  show ?thesis
  proof (cases r)
    case (Some x)
    show ?thesis
    proof (cases x)
      case (Inl st)
      then have "valid_reply st None" using Some 1 single_domain_error [OF env(1)] by (intro error_reply) blast
      then show ?thesis using Some Inl 1 kcb [OF q1] by (simp add: ares_search_def)
    next
      case (Inr s)
      then show ?thesis using Some 1 q [OF a q1] multi by (cases s) (simp_all add: ares_search_def)
    qed
  qed (use some in simp)
qed

text \<open>The contract of the application's own callbacks.\<close>

text \<open>What an application is told: a message that has a header, a host that has addresses of four
  bytes, or an error.\<close>

definition host_ok :: "hostent \<Rightarrow> bool" where
  "host_ok h \<longleftrightarrow> h_addr_list h \<noteq> [] \<and> (\<forall>a \<in> set (h_addr_list h). length a = 4)"

fun reply_ok :: "reply \<Rightarrow> bool" where
  "reply_ok (RawReply st ab) = valid_reply st ab"
| "reply_ok (HostReply st h) = (if st = ARES_SUCCESS then (case h of None \<Rightarrow> False | Some x \<Rightarrow> host_ok x) else h = None)"

lemma parse_host_line_addr:
  "parse_host_line inet_addr m line = Some (Inr h) \<Longrightarrow> \<exists>a. h_addr_list h = [bytes_of_addr a]"
  by (simp only: parse_host_line_def Let_def split: if_split_asm) auto

lemma length_bytes_of_addr [simp]: "length (bytes_of_addr a) = 4"
  by (simp add: bytes_of_addr_def)

lemma entry_host_ok:
  assumes "h \<in> set (file_entries inet_addr d)" shows "host_ok h"
proof -
  obtain l where "entry_of inet_addr l = Some h"
    using assms by (auto simp: file_entries_def map_filter_def)
  then have "parse_host_line inet_addr (\<lambda>_. True) l = Some (Inr h)"
    by (simp add: entry_of_def split: option.splits sum.splits)
  then show ?thesis using parse_host_line_addr by (fastforce simp: host_ok_def)
qed

lemma lookup_loop_reply:
  assumes "no_nul (f_data fp)" "\<forall>j i b. allocs_ok (m j i b)" "lookup_loop hit inet_addr m j fp = Some r"
  shows "case r of Inl st \<Rightarrow> st \<noteq> ARES_SUCCESS | Inr h \<Rightarrow> host_ok h"
proof (cases "find hit (file_entries inet_addr (f_data fp))")
  case None
  then show ?thesis using lookup_loop_correct [OF assms(1,2), of hit inet_addr j] assms(3) by auto
next
  case (Some h)
  then have "h \<in> set (file_entries inet_addr (f_data fp))" by (auto simp: find_Some_iff)
  then show ?thesis
    using lookup_loop_correct [OF assms(1,2), of hit inet_addr j] assms(3) Some entry_host_ok by auto
qed

lemma file_lookup_reply:
  assumes "env_ok env"
  shows "file_lookup_name (e_inet_addr env) (e_hosts_alloc env) (e_hosts env) name = Some r \<Longrightarrow>
      (case r of Inl st \<Rightarrow> st \<noteq> ARES_SUCCESS | Inr h \<Rightarrow> host_ok h)"
    "file_lookup_addr (e_inet_addr env) (e_hosts_alloc env) (e_hosts env) addr = Some r \<Longrightarrow>
      (case r of Inl st \<Rightarrow> st \<noteq> ARES_SUCCESS | Inr h \<Rightarrow> host_ok h)"
  using assms lookup_loop_reply
  by (auto simp: env_ok_def file_lookup_name_def file_lookup_addr_def split: option.splits)

lemma parse_a_reply_ok:
  assumes "ares_parse_a_reply m buf (length buf) = Some r"
  shows "case r of Inl st \<Rightarrow> st \<noteq> ARES_SUCCESS | Inr h \<Rightarrow> host_ok h"
proof -
  have "length buf \<le> length buf" by simp
  then show ?thesis
    by (rule parse_a_reply_cases [where m = m])
       (use assms in \<open>auto simp: host_ok_def dest: a_chain_addresses\<close>)
qed

lemma parse_ptr_reply_ok:
  assumes "ares_parse_ptr_reply m buf (length buf) addr family = Some r" "length addr = 4"
  shows "case r of Inl st \<Rightarrow> st \<noteq> ARES_SUCCESS | Inr h \<Rightarrow> host_ok h"
proof -
  have "length buf \<le> length buf" by simp
  then show ?thesis
    by (rule parse_ptr_reply_cases [where m = m and addr = addr and family = family])
       (use assms in \<open>auto simp: host_ok_def\<close>)
qed

lemma host_ok_sort [simp]: "host_ok (sort_addresses sl h) = host_ok h"
  by (simp add: host_ok_def sort_addresses_def sort_addr_list_eq flip: length_greater_0_conv)

locale user_contract =
  fixes user :: "'u user_fn" and env :: env
  assumes user_keeps: "wf_world cb_ok w \<Longrightarrow> reply_ok r \<Longrightarrow> keeps cb_ok w (user u r w)"
    and env: "env_ok env"
begin

lemma user_after_quiet: "wf_world cb_ok w \<Longrightarrow> quiet w w1 \<Longrightarrow> reply_ok r \<Longrightarrow> keeps cb_ok w (user u r w1)"
  using keeps_after_quiet user_keeps quiet_wf by blast

lemma next_lookup_name_keeps:
  assumes "name \<noteq> []" "same_config w0 w" "wf_world cb_ok w"
    and "\<And>p. length p < length rem \<Longrightarrow> admits g w0 (HostCallback name u p) \<and>
      admits g w0 (SearchCallback name (int C_IN) (int T_A) (HostCallback name u p) None 0 True) \<and>
      (0 < ndomains w \<longrightarrow> admits g w0 (SearchCallback name (int C_IN) (int T_A) (HostCallback name u p) None 1 False))"
  shows "keeps cb_ok w (next_lookup_name env user g name u rem w)"
  using assms(4)
proof (induction rem)
  case Nil
  then show ?case using user_keeps [OF assms(3)] by simp
next
  case (Cons c p)
  have IH: "keeps cb_ok w (next_lookup_name env user g name u p w)"
    by (rule Cons.IH) (use Cons.prems in simp)
  have "keeps cb_ok w (ares_search env g name (int C_IN) (int T_A) (HostCallback name u p) w)"
    using ares_search_keeps [OF env assms(1-3), of g "HostCallback name u p"] Cons.prems [of p] by simp
  moreover obtain r where r: "file_lookup_name (e_inet_addr env) (e_hosts_alloc env) (e_hosts env) name = Some r"
    using file_lookup_total(1) [OF env] by blast
  ultimately show ?case using IH user_keeps [OF assms(3)] file_lookup_reply(1) [OF env r]
    by (cases r) auto
qed

lemma next_lookup_addr_keeps:
  assumes "same_config w0 w" "wf_world cb_ok w"
    and "\<And>p. length p < length rem \<Longrightarrow> admits g w0 (AddrCallback addr u p)"
  shows "keeps cb_ok w (next_lookup_addr env user g addr u rem w)"
  using assms(3)
proof (induction rem)
  case Nil
  then show ?case using user_keeps [OF assms(2)] by simp
next
  case (Cons c p)
  have IH: "keeps cb_ok w (next_lookup_addr env user g addr u p w)"
    by (rule Cons.IH) (use Cons.prems in simp)
  have "keeps cb_ok w (ares_query env g (ptr_name addr) (int C_IN) (int T_PTR) (AddrCallback addr u p) w)"
    using ares_query_keeps [OF _ assms(1,2)] Cons.prems [of p] by simp
  moreover obtain r where r: "file_lookup_addr (e_inet_addr env) (e_hosts_alloc env) (e_hosts env) addr = Some r"
    using file_lookup_total(2) [OF env] by blast
  ultimately show ?case using IH user_keeps [OF assms(2)] file_lookup_reply(2) [OF env r]
    by (cases r) auto
qed

lemma host_callback_keeps:
  assumes wf: "wf_world cb_ok w" and v: "valid_reply st ab"
    and next_l: "keeps cb_ok w (next_lookup_name env user g name u rem w)"
  shows "keeps cb_ok w (host_callback env user g name u rem st ab w)"
proof (cases "st = ARES_SUCCESS")
  case True
  then obtain b where b: "ab = Some b" using v by (auto simp: valid_reply_def)
  obtain r where r: "ares_parse_a_reply (e_parse_alloc env) b (length b) = Some r"
    using parse_a_reply_cases [of "length b" b "e_parse_alloc env"] by (metis order_refl)
  then show ?thesis using True b user_keeps [OF wf] parse_a_reply_ok [OF r]
    by (auto simp: host_callback_def Let_def split: sum.splits)
qed (use next_l user_keeps [OF wf] in \<open>simp add: host_callback_def\<close>)

lemma addr_callback_keeps:
  assumes wf: "wf_world cb_ok w" and v: "valid_reply st ab"
    and next_l: "keeps cb_ok w (next_lookup_addr env user g addr u rem w)"
  shows "keeps cb_ok w (addr_callback env user g addr u rem st ab w)"
proof (cases "st = ARES_SUCCESS")
  case True
  then obtain b where b: "ab = Some b" using v by (auto simp: valid_reply_def)
  obtain r where r: "ares_parse_ptr_reply (e_parse_alloc env) b (length b) (bytes_of_addr addr) AF_INET = Some r"
    using parse_ptr_reply_cases [of "length b" b "e_parse_alloc env" "bytes_of_addr addr" AF_INET] by (metis order_refl)
  then show ?thesis using True b user_keeps [OF wf] parse_ptr_reply_ok [OF r length_bytes_of_addr]
    by (auto simp: addr_callback_def split: sum.splits)
qed (use next_l user_keeps [OF wf] in \<open>simp add: addr_callback_def\<close>)

text \<open>Smaller callbacks are admitted inside \<open>invoke\<close>.\<close>

definition guarded :: "nat \<Rightarrow> 'u cb callback_fn" where
  "guarded d = (\<lambda>cb st ab w. if depth (ndomains w) cb < d then invoke env user cb st ab w
     else undefined_behaviour w)"

lemma guarded_contract:
  assumes IH: "\<And>cb st ab w'. depth (ndomains w') cb < d \<Longrightarrow> ndomains w' = n \<Longrightarrow> cb_ok cb \<Longrightarrow>
      wf_world cb_ok w' \<Longrightarrow> valid_reply st ab \<Longrightarrow> keeps cb_ok w' (invoke env user cb st ab w')"
    and n: "ndomains w0 = n" and "cb_ok cb" "depth n cb < d"
  shows "query_callback (guarded d) cb_ok cb w0"
proof
  fix w st ab assume a: "same_config w0 w" "wf_world cb_ok w" "valid_reply st ab"
  then have "ndomains w = n" using n by (simp add: same_config_def)
  then show "keeps cb_ok w (guarded d cb st ab w)"
    using assms a by (simp add: guarded_def)
qed

lemma guarded_admits:
  assumes IH: "\<And>cb st ab w'. depth (ndomains w') cb < d \<Longrightarrow> ndomains w' = n \<Longrightarrow> cb_ok cb \<Longrightarrow>
      wf_world cb_ok w' \<Longrightarrow> valid_reply st ab \<Longrightarrow> keeps cb_ok w' (invoke env user cb st ab w')"
    and "ndomains w0 = n" "cb_ok cb" "Suc (depth n cb) < d"
  shows "admits (guarded d) w0 cb"
  using assms guarded_contract [OF IH assms(2), where cb = cb]
    guarded_contract [OF IH assms(2), where cb = "QCallback cb"]
  by (simp add: admits_def)

lemma lookup_depth:
  assumes "length p < length rem"
  shows "length p * (2 * n + 6) + (2 * n + 5) < length rem * (2 * n + 6)"
proof -
  have "Suc (length p) * (2 * n + 6) \<le> length rem * (2 * n + 6)"
    using assms by (intro mult_le_mono1) simp
  then show ?thesis by simp
qed

lemma invoke_keeps:
  assumes "cb_ok cb" "wf_world cb_ok w" "valid_reply st ab"
  shows "keeps cb_ok w (invoke env user cb st ab w)"
  using assms
proof (induction "depth (ndomains w) cb" arbitrary: cb st ab w rule: less_induct)
  case less
  define d n where "d = depth (ndomains w) cb" and "n = ndomains w"
  have i: "invoke env user cb st ab w = callback_step env user (guarded d) cb st ab w"
    by (subst invoke.simps) (simp add: guarded_def d_def)
  have IH: "keeps cb_ok w' (invoke env user c st' ab' w')"
    if "depth (ndomains w') c < d" "ndomains w' = n" "cb_ok c" "wf_world cb_ok w'" "valid_reply st' ab'"
    for c st' ab' w' using less.hyps that unfolding d_def by blast
  note gc = guarded_contract [OF IH n_def [symmetric]]
    and ga = guarded_admits [OF IH n_def [symmetric]]
  show ?case
  proof (cases cb)
    case (UserCb u)
    then show ?thesis using i user_keeps [OF less.prems(2)] less.prems(3) by (simp add: callback_step_def)
  next
    case (QCallback c)
    then have "query_callback (guarded d) cb_ok c w"
      using less.prems(1) by (intro gc) (simp_all add: d_def n_def)
    then show ?thesis
      using i qcallback_keeps [OF same_config_refl less.prems(2,3)] QCallback by (simp add: callback_step_def)
  next
    case (SearchCallback name cl ty c sa nd tr)
    have ok: "cb_ok c" "sa \<noteq> Some ARES_SUCCESS" using less.prems(1) SearchCallback by simp_all
    have c: "query_callback (guarded d) cb_ok c w"
      by (rule gc) (use ok SearchCallback in \<open>simp_all add: d_def n_def\<close>)
    have next_dom: "admits (guarded d) w (SearchCallback name cl ty c as_is (Suc nd) False)"
      if "nd < ndomains w" "tr \<longrightarrow> as_is \<noteq> None" "\<not> tr \<longrightarrow> as_is = sa" "as_is \<noteq> Some ARES_SUCCESS" for as_is
      by (rule ga) (use that ok SearchCallback in \<open>auto simp: d_def n_def\<close>)
    have last: "admits (guarded d) w (SearchCallback name cl ty c None nd True)" if "\<not> tr" "sa = None"
      by (rule ga) (use that ok SearchCallback in \<open>auto simp: d_def n_def\<close>)
    have "keeps cb_ok w (search_callback env (guarded d) name cl ty c sa nd tr st ab w)"
      by (rule search_callback_keeps [OF same_config_refl less.prems(2,3) c ok(2)])
         (rule next_dom, assumption+, rule last, assumption+)
    then show ?thesis using i SearchCallback by (simp add: callback_step_def)
  next
    case (HostCallback name u rem)
    have "keeps cb_ok w (next_lookup_name env user (guarded d) name u rem w)"
    proof (rule next_lookup_name_keeps [OF _ same_config_refl less.prems(2)])
      fix p :: cstring assume "length p < length rem"
      from lookup_depth [OF this, of n] have "length p * (2 * n + 6) + (2 * n + 5) < d"
        using HostCallback by (simp add: d_def n_def)
      then show "admits (guarded d) w (HostCallback name u p) \<and>
          admits (guarded d) w (SearchCallback name (int C_IN) (int T_A) (HostCallback name u p) None 0 True) \<and>
          (0 < ndomains w \<longrightarrow> admits (guarded d) w (SearchCallback name (int C_IN) (int T_A) (HostCallback name u p) None 1 False))"
        using less.prems(1) HostCallback by (auto intro!: ga simp: n_def [symmetric])
    qed (use less.prems(1) HostCallback in simp)
    then show ?thesis using i HostCallback host_callback_keeps [OF less.prems(2,3)]
      by (simp add: callback_step_def)
  next
    case (AddrCallback addr u rem)
    have "keeps cb_ok w (next_lookup_addr env user (guarded d) addr u rem w)"
    proof (rule next_lookup_addr_keeps [OF same_config_refl less.prems(2)])
      fix p :: cstring assume "length p < length rem"
      from lookup_depth [OF this, of n] have "length p * (2 * n + 6) + (2 * n + 5) < d"
        using AddrCallback by (simp add: d_def n_def)
      then show "admits (guarded d) w (AddrCallback addr u p)" by (auto intro!: ga)
    qed
    then show ?thesis using i AddrCallback addr_callback_keeps [OF less.prems(2,3)]
      by (simp add: callback_step_def)
  qed
qed

sublocale calls: callback_contract "invoke env user" cb_ok
  by unfold_locales (rule invoke_keeps)

text \<open>The two entry points.\<close>

lemma invoke_admits: "cb_ok cb \<Longrightarrow> admits (invoke env user) w0 cb"
  using calls.one_callback [of cb w0] calls.one_callback [of "QCallback cb" w0] by (simp add: admits_def)

lemma fake_hostent_reply: "fake_hostent env name w = (Some r, w') \<Longrightarrow> reply_ok r"
  by (auto simp: fake_hostent_def Let_def host_ok_def bytes_of_addr_def
      split: if_splits prod.splits option.splits)

lemma gethostbyname_keeps:
  assumes "wf_world cb_ok w" "name \<noteq> []"
  shows "keeps cb_ok w (ares_gethostbyname env user (invoke env user) name family u w)"
proof -
  obtain r w1 where r: "fake_hostent env name w = (r, w1)" by fastforce
  obtain m w2 where m: "malloc w1 = (m, w2)" by fastforce
  obtain d w3 where d: "strdup name w2 = (d, w3)" by fastforce
  have q1: "quiet w w1" using r by (rule quiet_fake_hostent)
  then have q2: "quiet w w2" using quiet_malloc [OF m] by (rule quiet_trans)
  then have q3: "quiet w w3" using quiet_strdup [OF d] by (rule quiet_trans)
  have "keeps cb_ok w3 (next_lookup_name env user (invoke env user) name u (ch_lookups (w_chan w3)) w3)"
    using assms(2) quiet_wf [OF assms(1) q3]
    by (intro next_lookup_name_keeps [where ?w0.0 = w3]) (simp_all add: invoke_admits)
  then have k: "keeps cb_ok w (next_lookup_name env user (invoke env user) name u (ch_lookups (w_chan w3)) w3)"
    using keeps_trans [OF quiet_keeps [OF q3]] by blast
  have "d = Some name \<or> d = None" using d by (auto simp: strdup_def split: prod.splits if_splits)
  then show ?thesis
    using r m d k fake_hostent_reply [of name w] user_keeps [OF assms(1)]
      user_after_quiet [OF assms(1) q1] user_after_quiet [OF assms(1) q2] user_after_quiet [OF assms(1) q3]
    by (cases r; cases m) (auto simp: ares_gethostbyname_def)
qed

lemma gethostbyaddr_keeps:
  assumes "wf_world cb_ok w"
  shows "keeps cb_ok w (ares_gethostbyaddr env user (invoke env user) addr family u w)"
proof -
  obtain m w1 where m: "malloc w = (m, w1)" by fastforce
  have q1: "quiet w w1" using m by (rule quiet_malloc)
  have "keeps cb_ok w1 (next_lookup_addr env user (invoke env user) (addr_of_bytes addr) u (ch_lookups (w_chan w1)) w1)"
    using quiet_wf [OF assms(1) q1]
    by (intro next_lookup_addr_keeps [where ?w0.0 = w1]) (simp_all add: invoke_admits)
  then have "keeps cb_ok w (next_lookup_addr env user (invoke env user) (addr_of_bytes addr) u (ch_lookups (w_chan w1)) w1)"
    using keeps_trans [OF quiet_keeps [OF q1]] by blast
  then show ?thesis
    using m user_keeps [OF assms(1)] user_after_quiet [OF assms(1) q1]
    by (cases m) (auto simp: ares_gethostbyaddr_def)
qed

end

section \<open>Properties\<close>

text \<open>The alias file is searched line by line: the alias of a name is the second word of the first
  line that starts with the name, up to case, followed by white space and another word.\<close>

theorem alias_first_match:
  assumes "no_nul (f_data fp)" "\<forall>i. allocs_ok (m i)"
  shows "alias_loop m name 0 fp None =
    Some (case first_alias name (file_lines (f_data fp)) of
            Some s \<Rightarrow> Inr s
          | None \<Rightarrow> Inl (if f_error fp then ARES_EFILE else ARES_EOF))"
  using alias_loop_correct [OF assms(1) _ assms(2)] by (simp add: big_enough_def)

theorem alias_first_match_witness:
  "alias_loop (\<lambda>_ _. True) (str ''h'') 0 \<lparr>f_data = str ''hx y'' @ [10] @ str ''H z.w v'', f_error = False\<rparr> None =
     Some (Inr (str ''z.w''))"
proof -
  have "first_alias (str ''h'') (file_lines (str ''hx y'' @ [10] @ str ''H z.w v'')) = Some (str ''z.w'')"
    by code_simp
  then show ?thesis
    using alias_first_match [of "\<lparr>f_data = str ''hx y'' @ [10] @ str ''H z.w v'', f_error = False\<rparr>" "\<lambda>_ _. True" "str ''h''"]
    by (simp add: no_nul_def str_def)
qed

end
