(* ===== verification/Process.thy ===== *)
theory Process
  imports QueryInv
begin

text \<open>
  What the channel does when sockets become ready or time passes (\<^verbatim>\<open>ares_process.c\<close>), the
  descriptors and the timeout it reports (\<^verbatim>\<open>ares_fds.c\<close>, \<^verbatim>\<open>ares_timeout.c\<close>) and its
  destruction (\<^verbatim>\<open>ares_destroy.c\<close>). An \<^verbatim>\<open>fd_set *\<close> is an optional predicate on descriptors.
\<close>

section \<open>Errors and answers\<close>

definition handle_error :: "nat \<Rightarrow> 'cb world \<Rightarrow> 'cb world" where
  "handle_error i w =
     (let w = ares__close_sockets i (ares__close_poll i w) in
      set_queries (map (\<lambda>q. if q_server q = i then skip_current q else q) (w_queries w)) w)"

text \<open>The allocations of \<^verbatim>\<open>same_questions\<close> for question \<open>i\<close> of the query and \<open>j - 1\<close> of the
  answer; both counts are below 65536.\<close>

definition question_allocs :: "'cb world \<Rightarrow> nat \<Rightarrow> nat \<Rightarrow> bool" where
  "question_allocs w i j = w_alloc w (w_apos w + (i * 65537 + j))"

definition same_questions_w :: "'cb query \<Rightarrow> byte list \<Rightarrow> nat \<Rightarrow> 'cb world \<Rightarrow> bool option" where
  "same_questions_w q abuf alen w =
     same_questions (question_allocs w) (drop 2 (q_tcpbuf q)) (length (q_tcpbuf q) - 2) abuf alen"

definition rcode3_retry :: "'cb callback_fn \<Rightarrow> int \<Rightarrow> nat \<Rightarrow> 'cb query \<Rightarrow> nat \<Rightarrow> 'cb world \<Rightarrow> 'cb query + 'cb world"
where
  "rcode3_retry cbf now i q rcode w =
     (if flag_set w ARES_FLAG_TRY_NEXT_SERVER_ON_RCODE3 \<and> rcode_of rcode = NXDOMAIN \<and> q_server q = i
      then next_server_new_network cbf now q w else Inl q)"

definition accept_answer ::
  "'cb callback_fn \<Rightarrow> int \<Rightarrow> nat \<Rightarrow> bool \<Rightarrow> byte list \<Rightarrow> nat \<Rightarrow> nat \<Rightarrow> 'cb query \<Rightarrow> 'cb world \<Rightarrow> 'cb world"
where
  "accept_answer cbf now i tcp abuf alen rcode q w =
     (if flag_set w ARES_FLAG_NOCHECKRESP then end_query cbf q ARES_SUCCESS (Some (take alen abuf)) w
      else if rcode_of rcode \<in> {SERVFAIL, NOTIMP, REFUSED} then
        let q = q\<lparr>q_skip_server := (q_skip_server q)[i := True]\<rparr> in
        if q_server q = i then next_server cbf now q w else put_query q w
      else case same_questions_w q abuf alen w of
        None \<Rightarrow> undefined_behaviour w
      | Some False \<Rightarrow> if q_server q = i then next_server cbf now q w else w
      | Some True \<Rightarrow>
          (case rcode3_retry cbf now i q rcode w of
             Inr w \<Rightarrow> w
           | Inl q \<Rightarrow> end_query cbf q ARES_SUCCESS (Some (take alen abuf)) w))"

text \<open>\<open>i\<close> is \<^verbatim>\<open>whichserver\<close>.\<close>

definition process_answer ::
  "'cb callback_fn \<Rightarrow> int \<Rightarrow> byte list \<Rightarrow> nat \<Rightarrow> bool \<Rightarrow> 'cb world \<Rightarrow> 'cb world" where
  "process_answer cbf now abuf i tcp w =
     (if length abuf < HFIXEDSZ then w
      else case (DNS_HEADER_QID abuf, DNS_HEADER_TC abuf, DNS_HEADER_RCODE abuf) of
        (Some qid, Some tc, Some rcode) \<Rightarrow>
          (case find (\<lambda>q. q_qid q = qid) (w_queries w) of
             None \<Rightarrow> w
           | Some q \<Rightarrow>
               if (tc \<noteq> 0 \<or> length abuf > PACKETSZ) \<and> \<not> tcp \<and> \<not> flag_set w ARES_FLAG_IGNTC then
                 (if \<not> q_using_tcp q then ares__send_query cbf now (q\<lparr>q_using_tcp := True\<rparr>) w else w)
               else
                 let alen = (if length abuf > PACKETSZ \<and> \<not> tcp then PACKETSZ else length abuf) in
                 accept_answer cbf now i tcp abuf alen rcode q w)
      | _ \<Rightarrow> undefined_behaviour w)"

section \<open>TCP output\<close>

text \<open>The loop that advances the send queue by \<open>cnt\<close> bytes.\<close>

fun advance_queue :: "nat \<Rightarrow> send_request list \<Rightarrow> send_request list" where
  "advance_queue 0 rs = rs"
| "advance_queue cnt [] = []"
| "advance_queue cnt (r # rs) =
     (if cnt \<ge> length (sr_data r) then
        (if rs = [] then [] else advance_queue (cnt - length (sr_data r)) rs)
      else r\<lparr>sr_data := drop cnt (sr_data r)\<rparr> # rs)"

text \<open>The branch without memory for the vector: only the first request was written.\<close>

fun advance_first :: "nat \<Rightarrow> send_request list \<Rightarrow> send_request list" where
  "advance_first cnt [] = []"
| "advance_first cnt (r # rs) =
     (if cnt = length (sr_data r) then rs else r\<lparr>sr_data := drop cnt (sr_data r)\<rparr> # rs)"

definition queue_bytes :: "send_request list \<Rightarrow> byte list" where
  "queue_bytes rs = concat (map sr_data rs)"

text \<open>The requests whose bytes are still there: the query that owns them has not been freed.\<close>

definition owned :: "'cb world \<Rightarrow> send_request list \<Rightarrow> bool" where
  "owned w rs \<longleftrightarrow> list_all (\<lambda>r. sr_owner r \<in> set (pending w)) rs"

text \<open>Write the requests \<open>rs\<close>, the first ones of the queue, and drop what was written by \<open>adv\<close>.\<close>

definition write_requests ::
  "nat \<Rightarrow> send_request list \<Rightarrow> (nat \<Rightarrow> send_request list \<Rightarrow> send_request list) \<Rightarrow> 'cb world \<Rightarrow> 'cb world"
where
  "write_requests i rs adv w =
     (let fd = s_tcp_socket (w_servers w ! i);
          w = (if owned w rs then w else undefined_behaviour w)
      in case sys_write (length (queue_bytes rs)) w of
        (None, w) \<Rightarrow> handle_error i w
      | (Some cnt, w) \<Rightarrow>
          let w = log_event (EvWrite i fd (take cnt (queue_bytes rs))) w;
              w = upd_server i (\<lambda>s. s\<lparr>s_queue := adv cnt (s_queue s)\<rparr>) w
          in if s_queue (w_servers w ! i) = [] then poll_cb i fd True POLLACTION_WRITEOFF w else w)"

definition write_tcp_data_core :: "nat \<Rightarrow> 'cb world \<Rightarrow> 'cb world" where
  "write_tcp_data_core i w =
     (let s = w_servers w ! i in
      if s_queue s = [] \<or> s_tcp_socket s = -1 then w
      else case malloc w of
        (True, w) \<Rightarrow> write_requests i (s_queue s) advance_queue w
      | (False, w) \<Rightarrow> write_requests i [hd (s_queue s)] advance_first w)"

definition selected :: "(int \<Rightarrow> bool) option \<Rightarrow> int \<Rightarrow> bool" where
  "selected fds fd = (case fds of None \<Rightarrow> True | Some f \<Rightarrow> f fd)"

definition write_tcp_data :: "(int \<Rightarrow> bool) option \<Rightarrow> 'cb world \<Rightarrow> 'cb world" where
  "write_tcp_data write_fds w =
     fold (\<lambda>i w. let s = w_servers w ! i in
             if s_queue s = [] \<or> s_tcp_socket s = -1 \<or> \<not> selected write_fds (s_tcp_socket s) then w
             else write_tcp_data_core i w)
       [0..<nservers w] w"

section \<open>TCP and UDP input\<close>

text \<open>The position in the length word is reset by \<^verbatim>\<open>handle_error\<close>, so it is only stored when the
  buffer could be allocated.\<close>

definition read_tcp_length :: "nat \<Rightarrow> 'cb world \<Rightarrow> 'cb world" where
  "read_tcp_length i w =
     (case sys_read (2 - length (s_tcp_lenbuf (w_servers w ! i))) w of
        (None, w) \<Rightarrow> handle_error i w
      | (Some [], w) \<Rightarrow> handle_error i w
      | (Some bs, w) \<Rightarrow>
          let lenbuf = s_tcp_lenbuf (w_servers w ! i) @ bs in
          if length lenbuf = 2 then
            let len = get16 (lenbuf ! 0) (lenbuf ! 1) in
            (case malloc w of
               (True, w) \<Rightarrow> upd_server i (\<lambda>s. s\<lparr>s_tcp_lenbuf := lenbuf, s_tcp_length := len,
                                               s_tcp_buffer := Some []\<rparr>) w
             | (False, w) \<Rightarrow> handle_error i (upd_server i (\<lambda>s. s\<lparr>s_tcp_lenbuf := [], s_tcp_length := len,
                                               s_tcp_buffer := None\<rparr>) w))
          else upd_server i (\<lambda>s. s\<lparr>s_tcp_lenbuf := lenbuf\<rparr>) w)"

definition read_tcp_body :: "'cb callback_fn \<Rightarrow> int \<Rightarrow> nat \<Rightarrow> byte list \<Rightarrow> 'cb world \<Rightarrow> 'cb world" where
  "read_tcp_body cbf now i buf w =
     (case sys_read (s_tcp_length (w_servers w ! i) - length buf) w of
        (None, w) \<Rightarrow> handle_error i w
      | (Some [], w) \<Rightarrow> handle_error i w
      | (Some bs, w) \<Rightarrow>
          let w = upd_server i (\<lambda>s. s\<lparr>s_tcp_buffer := Some (buf @ bs)\<rparr>) w in
          if length (buf @ bs) = s_tcp_length (w_servers w ! i) then
            upd_server i (\<lambda>s. s\<lparr>s_tcp_buffer := None, s_tcp_lenbuf := []\<rparr>)
              (process_answer cbf now (buf @ bs) i True w)
          else w)"

definition read_tcp_server :: "'cb callback_fn \<Rightarrow> int \<Rightarrow> nat \<Rightarrow> 'cb world \<Rightarrow> 'cb world" where
  "read_tcp_server cbf now i w =
     (let s = w_servers w ! i in
      if length (s_tcp_lenbuf s) \<noteq> 2 then read_tcp_length i w
      else case s_tcp_buffer s of
        None \<Rightarrow> undefined_behaviour w
      | Some buf \<Rightarrow> read_tcp_body cbf now i buf w)"

text \<open>\<open>idx = None\<close> is \<^verbatim>\<open>server_idx == -1\<close>: all servers.\<close>

definition read_tcp_data ::
  "'cb callback_fn \<Rightarrow> int \<Rightarrow> nat option \<Rightarrow> (int \<Rightarrow> bool) option \<Rightarrow> 'cb world \<Rightarrow> 'cb world" where
  "read_tcp_data cbf now idx read_fds w =
     fold (\<lambda>i w. let s = w_servers w ! i in
             if idx \<notin> {None, Some i} \<or> s_tcp_socket s = -1 \<or> \<not> selected read_fds (s_tcp_socket s)
             then w else read_tcp_server cbf now i w)
       [0..<nservers w] w"

definition read_udp_server :: "'cb callback_fn \<Rightarrow> int \<Rightarrow> nat \<Rightarrow> 'cb world \<Rightarrow> 'cb world" where
  "read_udp_server cbf now i w =
     (case sys_read (PACKETSZ + 1) w of
        (None, w) \<Rightarrow> handle_error i w
      | (Some [], w) \<Rightarrow> handle_error i w
      | (Some bs, w) \<Rightarrow> process_answer cbf now bs i False w)"

definition read_udp_packets ::
  "'cb callback_fn \<Rightarrow> int \<Rightarrow> nat option \<Rightarrow> (int \<Rightarrow> bool) option \<Rightarrow> 'cb world \<Rightarrow> 'cb world" where
  "read_udp_packets cbf now idx read_fds w =
     fold (\<lambda>i w. let s = w_servers w ! i in
             if idx \<notin> {None, Some i} \<or> s_udp_socket s = -1 \<or> \<not> selected read_fds (s_udp_socket s)
             then w else read_udp_server cbf now i w)
       [0..<nservers w] w"

section \<open>Timeouts\<close>

fun next_query :: "nat \<Rightarrow> 'cb query list \<Rightarrow> nat option" where
  "next_query h [] = None"
| "next_query h (q # qs) =
     (if q_handle q = h then (case qs of [] \<Rightarrow> None | q' # _ \<Rightarrow> Some (q_handle q'))
      else next_query h qs)"

text \<open>The walk along the list by the \<^verbatim>\<open>next\<close> pointers, read before \<^verbatim>\<open>next_server\<close> is called; a
  pointer to a query that is not in the list is dangling.\<close>

partial_function (option) timeouts_loop ::
  "'cb callback_fn \<Rightarrow> int \<Rightarrow> nat option \<Rightarrow> 'cb world \<Rightarrow> 'cb world option" where
  "timeouts_loop cbf now p w =
     (case p of None \<Rightarrow> Some w
      | Some h \<Rightarrow>
        (case find (\<lambda>q. q_handle q = h) (w_queries w) of
           None \<Rightarrow> Some (undefined_behaviour w)
         | Some q \<Rightarrow>
             let nxt = next_query h (w_queries w) in
             timeouts_loop cbf now nxt
               (if q_timeout q \<noteq> 0 \<and> now \<ge> q_timeout q
                then next_server cbf now (q\<lparr>q_error_status := ARES_ETIMEOUT\<rparr>) w else w)))"

declare timeouts_loop.simps [code]

definition process_timeouts :: "'cb callback_fn \<Rightarrow> int \<Rightarrow> 'cb world \<Rightarrow> 'cb world option" where
  "process_timeouts cbf now w =
     timeouts_loop cbf now (case w_queries w of [] \<Rightarrow> None | q # _ \<Rightarrow> Some (q_handle q)) w"

section \<open>The entry points\<close>

definition ares_process ::
  "'cb callback_fn \<Rightarrow> int \<Rightarrow> (int \<Rightarrow> bool) option \<Rightarrow> (int \<Rightarrow> bool) option \<Rightarrow> 'cb world \<Rightarrow> 'cb world option"
where
  "ares_process cbf now read_fds write_fds w =
     process_timeouts cbf now
       (read_udp_packets cbf now None read_fds
         (read_tcp_data cbf now None read_fds (write_tcp_data write_fds w)))"

text \<open>\<open>idx = None\<close> is a \<^verbatim>\<open>server_idx\<close> of -1; the result is \<open>None\<close> when the assertion fails.\<close>

definition ares_process_poll ::
  "'cb callback_fn \<Rightarrow> nat option \<Rightarrow> int \<Rightarrow> int \<Rightarrow> int \<Rightarrow> 'cb world \<Rightarrow> 'cb world option" where
  "ares_process_poll cbf idx rdFd wrFd now w =
     (case idx of
        None \<Rightarrow> process_timeouts cbf now w
      | Some i \<Rightarrow>
          if rdFd = -1 \<and> wrFd = -1 then None
          else if i \<ge> nservers w then Some (undefined_behaviour w)
          else
            let w = (if wrFd \<noteq> -1 \<and> s_tcp_socket (w_servers w ! i) = wrFd
                     then write_tcp_data_core i w else w);
                w = (if rdFd \<noteq> -1 \<and> s_tcp_socket (w_servers w ! i) = rdFd
                     then read_tcp_data cbf now (Some i) None w else w);
                w = (if rdFd \<noteq> -1 \<and> s_udp_socket (w_servers w ! i) = rdFd
                     then read_udp_packets cbf now (Some i) None w else w)
            in Some w)"

definition ares_process_set_poll_cb :: "bool \<Rightarrow> 'cb world \<Rightarrow> 'cb world" where
  "ares_process_set_poll_cb installed w = w\<lparr>w_chan := (w_chan w)\<lparr>ch_poll_cb := installed\<rparr>\<rparr>"

text \<open>\<^verbatim>\<open>ares_timeout\<close>: a \<^verbatim>\<open>struct timeval *\<close> is an optional pair of seconds and microseconds.\<close>

definition min_offset_step :: "int \<Rightarrow> 'cb query \<Rightarrow> int \<Rightarrow> int" where
  "min_offset_step now q min_offset =
     (if q_timeout q = 0 then min_offset
      else let offset = (if q_timeout q - now < 0 then 0 else q_timeout q - now) in
        if min_offset = -1 \<or> offset < min_offset then offset else min_offset)"

definition ares_timeout :: "int \<Rightarrow> (int \<times> int) option \<Rightarrow> 'cb world \<Rightarrow> (int \<times> int) option" where
  "ares_timeout now maxtv w =
     (if w_queries w = [] then maxtv
      else let min_offset = fold (min_offset_step now) (w_queries w) (-1) in
        if min_offset \<noteq> -1 \<and> (case maxtv of None \<Rightarrow> True | Some (sec, usec) \<Rightarrow> min_offset \<le> sec)
        then Some (min_offset, 0) else maxtv)"

text \<open>\<^verbatim>\<open>ares_fds\<close>: the descriptors set in \<^verbatim>\<open>read_fds\<close>, those set in \<^verbatim>\<open>write_fds\<close>, and the result.\<close>

definition fds_step :: "server_state \<Rightarrow> int list \<times> int list \<times> int \<Rightarrow> int list \<times> int list \<times> int" where
  "fds_step s st =
     (case st of (rds, wrs, nfds) \<Rightarrow>
      let (rds, nfds) = (if s_udp_socket s \<noteq> -1
            then (s_udp_socket s # rds, if s_udp_socket s \<ge> nfds then s_udp_socket s + 1 else nfds)
            else (rds, nfds))
      in if s_tcp_socket s \<noteq> -1
         then (s_tcp_socket s # rds, if s_queue s \<noteq> [] then s_tcp_socket s # wrs else wrs,
               if s_tcp_socket s \<ge> nfds then s_tcp_socket s + 1 else nfds)
         else (rds, wrs, nfds))"

definition ares_fds :: "'cb world \<Rightarrow> int list \<times> int list \<times> int" where
  "ares_fds w = (if w_queries w = [] then ([], [], 0) else fold fds_step (w_servers w) ([], [], 0))"

text \<open>\<^verbatim>\<open>ares_destroy_internal\<close>. The servers, domains, sort list and lookups are freed before the
  callbacks run; a callback that uses the channel then is undefined.\<close>

fun destroy_loop :: "'cb callback_fn \<Rightarrow> bool \<Rightarrow> 'cb query list \<Rightarrow> 'cb world \<Rightarrow> 'cb world" where
  "destroy_loop cbf suppress [] w = w"
| "destroy_loop cbf suppress (q # qs) w =
     (let w = set_queries qs w;
          w = (if suppress then w
               else cbf (q_callback q) ARES_EDESTRUCTION None
                      (log_event (EvCallback (q_handle q) ARES_EDESTRUCTION None) w))
      in if map q_handle (w_queries w) = map q_handle qs then destroy_loop cbf suppress qs w
         else undefined_behaviour w)"

definition ares_destroy_internal :: "'cb callback_fn \<Rightarrow> bool \<Rightarrow> 'cb world \<Rightarrow> 'cb world" where
  "ares_destroy_internal cbf suppress w =
     (let w = close_all w;
          w = w\<lparr>w_chan := (w_chan w)\<lparr>ch_servers := [], ch_domains := [], ch_sortlist := [], ch_lookups := []\<rparr>\<rparr>
      in destroy_loop cbf suppress (w_queries w) w)"

definition ares_destroy :: "'cb callback_fn \<Rightarrow> 'cb world \<Rightarrow> 'cb world" where
  "ares_destroy cbf w = ares_destroy_internal cbf False w"

definition ares_destroy_suppress_callbacks :: "'cb callback_fn \<Rightarrow> 'cb world \<Rightarrow> 'cb world" where
  "ares_destroy_suppress_callbacks cbf w = ares_destroy_internal cbf True w"

end
