(* ===== verification/ProcessInv.thy ===== *)
theory ProcessInv
  imports Process
begin

text \<open>
  The operations of \<^verbatim>\<open>Process\<close> keep the channel stable and its books balanced: \<open>stable\<close> is
  the invariant, \<open>runs\<close> what an operation does to it. Everything follows, in the locale
  \<open>callback_contract\<close>, from the contract of the callbacks.
\<close>

section \<open>The invariant\<close>

definition stable :: "('cb \<Rightarrow> bool) \<Rightarrow> 'cb world \<Rightarrow> bool" where
  "stable G w \<longleftrightarrow> wf_world G w \<and> servers_ok w \<and> (\<forall>q \<in> set (w_queries w). settled G w q)"

definition runs :: "('cb \<Rightarrow> bool) \<Rightarrow> 'cb world \<Rightarrow> 'cb world \<Rightarrow> bool" where
  "runs G w w' \<longleftrightarrow> books w w' \<and> stable G w'"

lemma runs_refl: "stable G w \<Longrightarrow> runs G w w"
  by (simp add: runs_def)

lemma runs_trans: "runs G u v \<Longrightarrow> runs G v w \<Longrightarrow> runs G u w"
  by (auto simp: runs_def intro: books_trans)

lemma runs_stable: "runs G u v \<Longrightarrow> stable G v"
  by (simp add: runs_def)

lemma runs_nservers: "runs G u v \<Longrightarrow> nservers v = nservers u"
  by (simp add: runs_def books_def same_config_def)

lemma stable_wf: "stable G w \<Longrightarrow> wf_world G w"
  by (simp add: stable_def)

lemma keeps_runs:
  assumes "stable G w" "keeps G w w'" shows "runs G w w'"
proof -
  have b: "books w w'" using assms(2) by (simp add: keeps_def)
  then have s: "settled G w' = settled G w" using same_config_settled by (auto simp: books_def)
  show ?thesis
    using assms b s keeps_wf [OF stable_wf]
    by (auto simp: runs_def stable_def keeps_def books_def fresh_queries_def)
qed

lemma quiet_runs: "stable G w \<Longrightarrow> quiet w w' \<Longrightarrow> runs G w w'"
  by (blast intro: keeps_runs quiet_keeps)

lemma touches_runs:
  assumes "stable G w" "touches G h w w'" shows "runs G w w'"
proof -
  have b: "books w w'" using assms(2) by (simp add: touches_def)
  then have s: "settled G w' = settled G w" using same_config_settled by (auto simp: books_def)
  obtain new pre q post mid where d: "w_queries w = pre @ q # post"
    "w_queries w' = new @ pre @ mid @ post" "fresh_queries G w w' new"
    "mid = [] \<or> (\<exists>q'. mid = [q'] \<and> q_handle q' = h \<and> settled G w q')"
    using assms(2) unfolding touches_def by blast
  have "\<forall>x \<in> set (w_queries w'). settled G w x"
    using d assms(1) by (auto simp: stable_def fresh_queries_def)
  then show ?thesis
    using assms b s touches_wf [OF stable_wf [OF assms(1)] assms(2)]
    by (auto simp: runs_def stable_def books_def)
qed

lemma stable_query:
  assumes "stable G w" "q \<in> set (w_queries w)"
  shows "q_handle q \<in> set (pending w)" "settled G w q" "query_ok G w q"
  using assms by (auto simp: stable_def pending_def settled_def)

lemma handle_error_runs:
  assumes "stable G w" shows "runs G w (handle_error i w)"
proof -
  define w1 where "w1 = ares__close_sockets i (ares__close_poll i w)"
  let ?f = "\<lambda>q. if q_server q = i then skip_current q else q"
  have 1: "runs G w w1" unfolding w1_def
    by (rule quiet_runs [OF assms]) (blast intro: quiet_trans quiet_intros)
  define w2 where "w2 = set_queries (map ?f (w_queries w1)) w1"
  have c: "same_config w1 w2" "w_queries w2 = map ?f (w_queries w1)" "w_ub w2 = w_ub w1"
    "next_handle w2 = next_handle w1" "completed w2 = completed w1" "servers_ok w2 = servers_ok w1"
    by (auto simp: w2_def set_queries_def same_config_def completed_def servers_ok_def)
  have p: "pending w2 = pending w1" by (simp add: pending_def c(2))
  have s: "settled G w1 (?f q) = settled G w1 q" for q
    by (simp add: settled_def query_ok_def skip_current_def)
  have st: "stable G w1" using 1 by (rule runs_stable)
  then have "\<forall>q \<in> set (w_queries w1). q_handle (?f q) < next_handle w1 \<and> settled G w1 (?f q)"
    unfolding s by (simp add: stable_def wf_world_def)
  then have "\<forall>q \<in> set (w_queries w2). q_handle q < next_handle w2 \<and> settled G w2 q"
    unfolding c(2,4) using same_config_settled [OF c(1)] by (simp only: set_map ball_simps)
  then have "stable G w2"
    using st c(6) p by (simp add: stable_def wf_world_def settled_def)
  moreover have "books w1 w2" using c p by (simp add: books_def balance_def)
  ultimately have "runs G w1 w2" by (simp add: runs_def)
  then show ?thesis using 1 runs_trans by (auto simp: handle_error_def Let_def w1_def w2_def)
qed

lemma same_questions_w_total:
  assumes "query_ok G w q" "alen \<le> length abuf" shows "\<exists>r. same_questions_w q abuf alen w = Some r"
  unfolding same_questions_w_def by (rule same_questions_total) (use assms in simp_all)

lemma fold_runs:
  assumes "stable G w" "\<And>i w'. i \<in> set is \<Longrightarrow> stable G w' \<Longrightarrow> nservers w' = nservers w \<Longrightarrow> runs G w' (f i w')"
  shows "runs G w (fold f is w)"
  using assms
proof (induction "is" arbitrary: w)
  case (Cons i "is")
  have 1: "runs G w (f i w)" using Cons.prems by simp
  have "runs G (f i w) (fold f is (f i w))"
    using Cons.prems(2) runs_nservers [OF 1] by (intro Cons.IH runs_stable [OF 1]) auto
  then show ?case using 1 by (auto intro: runs_trans)
qed (simp add: runs_refl)

lemma upd_server_runs:
  assumes "stable G w" "i < nservers w" "frame_ok (w_servers w ! i) \<Longrightarrow> frame_ok (f (w_servers w ! i))"
  shows "runs G w (upd_server i f w)"
proof (rule quiet_runs [OF assms(1)])
  let ?g = "\<lambda>s. if s = w_servers w ! i then f s else reset_server s"
  have "upd_server i f w = upd_server i ?g w" by (simp add: upd_server_def)
  moreover have "quiet w (upd_server i ?g w)" using assms(3) by (intro quiet_upd_server) auto
  ultimately show "quiet w (upd_server i f w)" by simp
qed

lemma sys_read_runs: "stable G w \<Longrightarrow> sys_read n w = (r, w') \<Longrightarrow> runs G w w' \<and> w_servers w' = w_servers w"
  using quiet_runs quiet_sys_read by (fastforce simp: sys_read_def syscall_def)

lemma sys_read_length: "sys_read n w = (Some bs, w') \<Longrightarrow> length bs \<le> n"
  by (auto simp: sys_read_def split: prod.splits if_splits)

lemma malloc_runs: "stable G w \<Longrightarrow> malloc w = (r, w') \<Longrightarrow> runs G w w' \<and> w_servers w' = w_servers w"
  using quiet_runs quiet_malloc by (fastforce simp: malloc_def)

lemma read_tcp_length_runs:
  assumes "stable G w" "i < nservers w" "length (s_tcp_lenbuf (w_servers w ! i)) \<noteq> 2"
  shows "runs G w (read_tcp_length i w)"
proof -
  let ?s = "w_servers w ! i"
  obtain r w1 where r: "sys_read (2 - length (s_tcp_lenbuf ?s)) w = (r, w1)" by fastforce
  obtain m w2 where m: "malloc w1 = (m, w2)" by fastforce
  have 1: "runs G w w1" "w_servers w1 = w_servers w" using sys_read_runs [OF assms(1) r] by auto
  have 2: "runs G w1 w2" "w_servers w2 = w_servers w" using malloc_runs [OF runs_stable m] 1 by auto
  note err = runs_trans [OF _ handle_error_runs]
  have st: "stable G w1" "stable G w2" using 1 2 runs_stable by blast+
  have f: "length (s_tcp_lenbuf ?s) \<le> 2"
    using assms(1,2) by (auto simp: stable_def servers_ok_def frame_ok_def)
  show ?thesis
  proof (cases "r = None \<or> r = Some []")
    case True
    then show ?thesis using r err [OF 1(1) st(1)] by (auto simp: read_tcp_length_def)
  next
    case False
    then obtain b bs where bs: "r = Some (b # bs)" by (metis list.exhaust option.exhaust)
    let ?l = "s_tcp_lenbuf ?s @ b # bs"
    have l2: "length ?l \<le> 2" using sys_read_length [OF r [unfolded bs]] assms(3) f by auto
    have "frame_ok (?s\<lparr>s_tcp_lenbuf := ?l\<rparr>)" if "length ?l \<noteq> 2"
      using that l2 by (auto simp: frame_ok_def)
    then have u1: "runs G w (upd_server i (\<lambda>s. s\<lparr>s_tcp_lenbuf := ?l\<rparr>) w1)" if "length ?l \<noteq> 2"
      using that upd_server_runs [OF st(1)] assms(2) 1 by (auto intro: runs_trans)
    have u2: "runs G w (upd_server i (\<lambda>s. s\<lparr>s_tcp_lenbuf := ?l, s_tcp_length := get16 (?l ! 0) (?l ! 1),
        s_tcp_buffer := Some []\<rparr>) w2)"
      using l2 assms(2) 1 2 by (intro runs_trans [OF runs_trans [OF 1(1) 2(1)] upd_server_runs [OF st(2)]])
        (auto simp: frame_ok_def)
    have "runs G w (upd_server i (\<lambda>s. s\<lparr>s_tcp_lenbuf := [], s_tcp_length := n, s_tcp_buffer := None\<rparr>) w2)" for n
      using assms(2) 1 2 by (intro runs_trans [OF runs_trans [OF 1(1) 2(1)] upd_server_runs [OF st(2)]])
        (auto simp: frame_ok_def)
    then have u3: "runs G w (handle_error i (upd_server i (\<lambda>s. s\<lparr>s_tcp_lenbuf := [], s_tcp_length := n, s_tcp_buffer := None\<rparr>) w2))" for n
      using err runs_stable by blast
    show ?thesis using r bs m u1 u2 u3 1(2)
      by (cases m) (simp_all add: read_tcp_length_def Let_def)
  qed
qed

context callback_contract
begin

lemma send_query_runs:
  assumes "stable G w" "q_handle q \<in> set (pending w)" "settled G w q"
  shows "runs G w (ares__send_query cbf now q w)"
  using assms touches_runs send_query_touches stable_wf by blast

lemma new_network_runs:
  assumes "stable G w" "q \<in> set (w_queries w)"
  shows "case next_server_new_network cbf now q w of Inr w' \<Rightarrow> runs G w w'
    | Inl q' \<Rightarrow> query_ok G w q' \<and> q_handle q' = q_handle q"
proof -
  note q = stable_query [OF assms]
  have "runs G w (ares__send_query cbf now (q\<lparr>q_server := s\<rparr>) w)"
    if "new_network_target q w = Some s" "int (q_itry q) < ch_tries (w_chan w)" for s
  proof -
    have "s < nservers w" using that(1) by (auto simp: new_network_target_def find_Some_iff)
    then have "settled G w (q\<lparr>q_server := s\<rparr>)" using q that(2) by (simp add: settled_def query_ok_def)
    then show ?thesis
      using send_query_runs [OF assms(1), of "q\<lparr>q_server := s\<rparr>"] q by simp
  qed
  then show ?thesis
    using q by (auto simp: next_server_new_network_def query_ok_def split: option.splits)
qed

lemma end_query_runs:
  assumes "stable G w" "q_handle q \<in> set (pending w)" "query_ok G w q" "valid_reply st ab"
  shows "runs G w (end_query cbf q st ab w)"
  using assms touches_runs end_query_touches stable_wf by blast

lemma next_server_runs:
  assumes "stable G w" "q_handle q \<in> set (pending w)" "query_ok G w q"
  shows "runs G w (next_server cbf now q w)"
  using assms touches_runs next_server_touches stable_wf by blast

lemma accept_answer_runs:
  assumes "stable G w" "q \<in> set (w_queries w)" "alen \<le> length abuf" "HFIXEDSZ \<le> alen"
  shows "runs G w (accept_answer cbf now i tcp abuf alen rcode q w)"
proof -
  note q = stable_query [OF assms(1,2)]
  let ?q = "q\<lparr>q_skip_server := (q_skip_server q)[i := True]\<rparr>"
  have "settled G w ?q" "query_ok G w ?q" using q by (simp_all add: settled_def query_ok_def)
  then have skip: "runs G w (next_server cbf now ?q w)" "runs G w (put_query ?q w)"
    using q(1) next_server_runs [OF assms(1), of ?q] put_query_touches [OF stable_wf [OF assms(1)], of ?q]
      touches_runs [OF assms(1)] by simp_all
  have v: "valid_reply ARES_SUCCESS (Some (take alen abuf))"
    using assms(3,4) by (simp add: valid_reply_def)
  have r: "runs G w (case rcode3_retry cbf now i q rcode w of Inr w \<Rightarrow> w
      | Inl q \<Rightarrow> end_query cbf q ARES_SUCCESS (Some (take alen abuf)) w)"
    using new_network_runs [OF assms(1,2), of now] end_query_runs [OF assms(1) _ _ v] q
    by (auto simp: rcode3_retry_def split: sum.splits)
  obtain b where "same_questions_w q abuf alen w = Some b"
    using same_questions_w_total [OF q(3) assms(3)] by blast
  then show ?thesis
    using skip r end_query_runs [OF assms(1) q(1,3) v] next_server_runs [OF assms(1) q(1,3)]
      runs_refl [OF assms(1)]
    by (cases b) (simp_all add: accept_answer_def Let_def)
qed

lemma process_answer_runs:
  assumes "stable G w" shows "runs G w (process_answer cbf now abuf i tcp w)"
proof (cases "length abuf < HFIXEDSZ")
  case False
  then obtain qid tc rcode where h: "DNS_HEADER_QID abuf = Some qid" "DNS_HEADER_TC abuf = Some tc"
    "DNS_HEADER_RCODE abuf = Some rcode"
    by (simp add: dns_accessors HFIXEDSZ_def buf_simps)
  show ?thesis
  proof (cases "find (\<lambda>q. q_qid q = qid) (w_queries w)")
    case None
    then show ?thesis using False h runs_refl [OF assms] by (simp add: process_answer_def)
  next
    case (Some q)
    then have m: "q \<in> set (w_queries w)" by (auto simp: find_Some_iff)
    note q = stable_query [OF assms m]
    have "settled G w (q\<lparr>q_using_tcp := True\<rparr>)" using q by (simp add: settled_def query_ok_def)
    then have "runs G w (ares__send_query cbf now (q\<lparr>q_using_tcp := True\<rparr>) w)"
      using send_query_runs [OF assms, of "q\<lparr>q_using_tcp := True\<rparr>"] q(1) by simp
    then show ?thesis
      using False h Some accept_answer_runs [OF assms m] runs_refl [OF assms]
      by (simp add: process_answer_def Let_def wire_consts)
  qed
qed (simp add: process_answer_def runs_refl [OF assms])

lemma read_tcp_body_runs:
  assumes "stable G w" "i < nservers w" "s_tcp_buffer (w_servers w ! i) = Some buf"
    and "length buf \<le> s_tcp_length (w_servers w ! i)"
  shows "runs G w (read_tcp_body cbf now i buf w)"
proof -
  let ?s = "w_servers w ! i"
  obtain r w1 where r: "sys_read (s_tcp_length ?s - length buf) w = (r, w1)" by fastforce
  have 1: "runs G w w1" "w_servers w1 = w_servers w" using sys_read_runs [OF assms(1) r] by auto
  have st: "stable G w1" using 1 runs_stable by blast
  show ?thesis
  proof (cases "r = None \<or> r = Some []")
    case True
    then show ?thesis using r runs_trans [OF 1(1) handle_error_runs [OF st]]
      by (auto simp: read_tcp_body_def)
  next
    case False
    then obtain b bs where bs: "r = Some (b # bs)" by (metis list.exhaust option.exhaust)
    define w2 where "w2 = upd_server i (\<lambda>s. s\<lparr>s_tcp_buffer := Some (buf @ b # bs)\<rparr>) w1"
    have "frame_ok (?s\<lparr>s_tcp_buffer := Some (buf @ b # bs)\<rparr>)" if "frame_ok ?s"
      using that sys_read_length [OF r [unfolded bs]] assms(4) by (auto simp: frame_ok_def)
    then have 2: "runs G w w2"
      unfolding w2_def using assms(2) 1 by (intro runs_trans [OF 1(1) upd_server_runs [OF st]]) auto
    define w3 where "w3 = process_answer cbf now (buf @ b # bs) i True w2"
    have 3: "runs G w w3" unfolding w3_def
      using 2 process_answer_runs [OF runs_stable [OF 2]] by (rule runs_trans)
    have 4: "runs G w (upd_server i (\<lambda>s. s\<lparr>s_tcp_buffer := None, s_tcp_lenbuf := []\<rparr>) w3)"
      using 3 assms(2) runs_nservers [OF 3]
      by (intro runs_trans [OF 3 upd_server_runs [OF runs_stable [OF 3]]]) (auto simp: frame_ok_def)
    show ?thesis using r bs 2 4 by (simp add: read_tcp_body_def Let_def w2_def w3_def)
  qed
qed

lemma read_tcp_server_runs:
  assumes "stable G w" "i < nservers w"
  shows "runs G w (read_tcp_server cbf now i w)"
proof -
  have "frame_ok (w_servers w ! i)" using assms by (simp add: stable_def servers_ok_def)
  then show ?thesis
    using read_tcp_length_runs [OF assms] read_tcp_body_runs [OF assms]
    by (auto simp: read_tcp_server_def Let_def frame_ok_def split: option.splits)
qed

lemma read_udp_server_runs:
  assumes "stable G w" shows "runs G w (read_udp_server cbf now i w)"
proof -
  obtain r w1 where r: "sys_read (PACKETSZ + 1) w = (r, w1)" by fastforce
  have 1: "runs G w w1" using sys_read_runs [OF assms r] by auto
  have "runs G w (handle_error i w1)" "runs G w (process_answer cbf now b i False w1)" for b
    using 1 handle_error_runs process_answer_runs runs_stable runs_trans by blast+
  then show ?thesis using r by (auto simp: read_udp_server_def split: option.splits list.splits)
qed

lemma read_tcp_data_runs: "stable G w \<Longrightarrow> runs G w (read_tcp_data cbf now idx fds w)"
  unfolding read_tcp_data_def
  by (rule fold_runs) (auto simp: Let_def intro: runs_refl read_tcp_server_runs)

lemma read_udp_packets_runs: "stable G w \<Longrightarrow> runs G w (read_udp_packets cbf now idx fds w)"
  unfolding read_udp_packets_def
  by (rule fold_runs) (auto simp: Let_def intro: runs_refl read_udp_server_runs)

end

end
