(* ===== verification/ChannelProps.thy ===== *)
theory ChannelProps
  imports ProcessInv
begin

text \<open>
  The walk over timed out queries ends and visits valid pointers only, the writing side of a
  server, and the invariants of the two entry points \<^verbatim>\<open>ares_process\<close> and
  \<^verbatim>\<open>ares_process_poll\<close>; the reported timeout and descriptors; destruction.
\<close>

section \<open>Timeouts\<close>

definition head_handle :: "'cb query list \<Rightarrow> nat option" where
  "head_handle qs = (case qs of [] \<Rightarrow> None | q # _ \<Rightarrow> Some (q_handle q))"

lemma find_handle_split:
  "q_handle q \<notin> q_handle ` set pre \<Longrightarrow> find (\<lambda>x. q_handle x = q_handle q) (pre @ q # post) = Some q"
  by (induction pre) auto

lemma next_query_split:
  "q_handle q \<notin> q_handle ` set pre \<Longrightarrow> next_query (q_handle q) (pre @ q # post) = head_handle post"
  by (induction pre) (auto simp: head_handle_def)

lemma split_unique:
  assumes "pre @ q # post = pre' @ q' # post'" "q_handle q' = q_handle q"
    and "q_handle q \<notin> q_handle ` set pre" "q_handle q \<notin> q_handle ` set post"
  shows "pre' = pre \<and> q' = q \<and> post' = post"
  using assms
proof (induction pre arbitrary: pre')
  case Nil
  then show ?case by (cases pre') auto
next
  case (Cons x pre)
  then show ?case by (cases pre') auto
qed

definition late :: "int \<Rightarrow> 'cb query \<Rightarrow> bool" where
  "late now q \<longleftrightarrow> q_timeout q \<noteq> 0 \<and> now \<ge> q_timeout q"

context callback_contract
begin

lemma timeouts_step:
  assumes "stable G w" "w_queries w = pre @ q # post"
    and w1: "w1 = (if late now q then next_server cbf now (q\<lparr>q_error_status := ARES_ETIMEOUT\<rparr>) w else w)"
  shows "timeouts_loop cbf now (head_handle (q # post)) w = timeouts_loop cbf now (head_handle post) w1"
    and "stable G w1" "\<exists>pre'. w_queries w1 = pre' @ post" "w1 = w \<or> touches G (q_handle q) w w1"
proof -
  let ?e = "q\<lparr>q_error_status := ARES_ETIMEOUT\<rparr>"
  note sp = wf_split [OF stable_wf [OF assms(1)] assms(2)]
  have e: "q_handle ?e \<in> set (pending w)" "query_ok G w ?e"
    using assms(2) sp(4) by (auto simp: pending_def query_ok_def)
  note nt = next_server_touches [OF stable_wf [OF assms(1)] e(1,2), of now]
  show t: "w1 = w \<or> touches G (q_handle q) w w1" using nt by (auto simp: w1)
  then show "stable G w1" using assms(1) touches_runs runs_stable by blast
  show "\<exists>pre'. w_queries w1 = pre' @ post"
  proof (cases "w1 = w")
    case True
    then show ?thesis using assms(2) by (intro exI [of _ "pre @ [q]"]) simp
  next
    case False
    then obtain new p x ps mid where d: "w_queries w = p @ x # ps" "q_handle x = q_handle q"
      "w_queries w1 = new @ p @ mid @ ps"
      using t unfolding touches_def by blast
    then have "ps = post"
      using split_unique [OF trans [OF assms(2) [symmetric] d(1)] d(2) sp(1,2)] by blast
    then show ?thesis using d(3) by (intro exI [of _ "new @ p @ mid"]) simp
  qed
  show "timeouts_loop cbf now (head_handle (q # post)) w = timeouts_loop cbf now (head_handle post) w1"
    using assms(2) find_handle_split [OF sp(1)] next_query_split [OF sp(1)]
    by (subst timeouts_loop.simps) (simp add: head_handle_def w1 late_def)
qed

lemma timeouts_loop_runs:
  assumes "stable G w" "w_queries w = pre @ rest"
  shows "\<exists>w'. timeouts_loop cbf now (head_handle rest) w = Some w' \<and> runs G w w'"
  using assms
proof (induction rest arbitrary: w pre)
  case Nil
  then show ?case by (simp add: timeouts_loop.simps head_handle_def runs_refl)
next
  case (Cons q post)
  define w1 where "w1 = (if late now q then next_server cbf now (q\<lparr>q_error_status := ARES_ETIMEOUT\<rparr>) w else w)"
  note st = timeouts_step [OF Cons.prems w1_def]
  obtain pre' where p: "w_queries w1 = pre' @ post" using st(3) by blast
  have "runs G w w1" using st(4) touches_runs [OF Cons.prems(1)] runs_refl [OF Cons.prems(1)] by auto
  then show ?case using Cons.IH [OF st(2) p] st(1) runs_trans by fastforce
qed

lemma process_timeouts_runs:
  assumes "stable G w" shows "\<exists>w'. process_timeouts cbf now w = Some w' \<and> runs G w w'"
  using timeouts_loop_runs [OF assms, of "[]" "w_queries w"]
  by (simp add: process_timeouts_def head_handle_def)

end

section \<open>Writing\<close>

definition queues_owned :: "'cb world \<Rightarrow> bool" where
  "queues_owned w \<longleftrightarrow> (\<forall>s \<in> set (w_servers w). owned w (s_queue s))"

lemma advance_queue_owners: "sr_owner ` set (advance_queue n rs) \<subseteq> sr_owner ` set rs"
  by (induction n rs rule: advance_queue.induct) auto

lemma advance_first_owners: "sr_owner ` set (advance_first n rs) \<subseteq> sr_owner ` set rs"
  by (cases rs) auto

text \<open>Dropping the written bytes from the queue is dropping them from its contents.\<close>

lemma advance_queue_bytes:
  "n \<le> length (queue_bytes rs) \<Longrightarrow> queue_bytes (advance_queue n rs) = drop n (queue_bytes rs)"
  by (induction n rs rule: advance_queue.induct) (auto simp: queue_bytes_def)

lemma advance_first_bytes:
  "n \<le> length (sr_data r) \<Longrightarrow> queue_bytes (advance_first n (r # rs)) = drop n (queue_bytes (r # rs))"
  by (auto simp: queue_bytes_def)

lemma handle_error_simps:
  "pending (handle_error i w) = pending w"
  "w_servers (handle_error i w) = (w_servers w)[i := reset_server (w_servers w ! i)]"
proof -
  have "w_queries (ares__close_sockets i (ares__close_poll i w)) = w_queries w"
    using quiet_trans [OF quiet_close_poll quiet_close_sockets] by (auto simp: quiet_def)
  then show "pending (handle_error i w) = pending w"
    by (simp add: handle_error_def Let_def pending_def set_queries_def comp_def if_distrib cong: if_cong)
  show "w_servers (handle_error i w) = (w_servers w)[i := reset_server (w_servers w ! i)]"
    by (simp add: handle_error_def Let_def set_queries_def servers_close_one)
qed

lemma queues_owned_update:
  assumes "queues_owned w" "pending w' = pending w" "w_servers w' = (w_servers w)[i := s]"
    and "sr_owner ` set (s_queue s) \<subseteq> sr_owner ` set (s_queue (w_servers w ! i))" "i < nservers w"
  shows "queues_owned w'"
proof -
  have "owned w (s_queue (w_servers w ! i))" using assms(1,5) by (simp add: queues_owned_def)
  then have "owned w' (s_queue s)" using assms(2,4)
    by (fastforce simp: owned_def list_all_iff)
  then show ?thesis
    using assms(1-3) set_update_subset_insert [of "w_servers w" i s]
    by (auto simp: queues_owned_def owned_def)
qed

text \<open>The two ways a write goes; \<open>owned\<close> matters only for the flag \<open>w_ub\<close>.\<close>

lemma write_requests_cases:
  assumes "owned w rs \<or> w_ub w" "i < nservers w"
  obtains (failed) w1 where "quiet w w1" "w_servers w1 = w_servers w" "pending w1 = pending w"
      "write_requests i rs adv w = handle_error i w1"
  | (written) n w1 where "quiet w w1" "pending w1 = pending w" "write_requests i rs adv w = w1"
      "w_servers w1 = (w_servers w)[i := (w_servers w ! i)\<lparr>s_queue := adv n (s_queue (w_servers w ! i))\<rparr>]"
proof -
  have w: "(if owned w rs then w else undefined_behaviour w) = w"
    using assms(1) by (cases w) (auto simp: undefined_behaviour_def)
  obtain r w1 where r: "sys_write (length (queue_bytes rs)) w = (r, w1)" by fastforce
  have q1: "quiet w w1" using r by (rule quiet_sys_write)
  have e: "w_servers w1 = w_servers w" "pending w1 = pending w"
    using r by (auto simp: sys_write_def syscall_def pending_def)
  show ?thesis
  proof (cases r)
    case None
    then show ?thesis using failed [OF q1 e] r w by (simp add: write_requests_def Let_def)
  next
    case (Some n)
    define fd where "fd = s_tcp_socket (w_servers w ! i)"
    define w2 where "w2 = upd_server i (\<lambda>s. s\<lparr>s_queue := adv n (s_queue s)\<rparr>)
      (log_event (EvWrite i fd (take n (queue_bytes rs))) w1)"
    define w3 where "w3 = (if s_queue (w_servers w2 ! i) = [] then poll_cb i fd True POLLACTION_WRITEOFF w2 else w2)"
    have "quiet w1 w2" unfolding w2_def by (rule quiet_trans [OF quiet_log quiet_upd_server]) auto
    with q1 have "quiet w w2" by (rule quiet_trans)
    then have "quiet w w3" unfolding w3_def by (simp add: quiet_trans [OF _ quiet_poll_cb])
    moreover have "pending w3 = pending w" "w_servers w3 = w_servers w2"
      using e by (auto simp: w3_def w2_def poll_cb_def upd_server_def log_event_def pending_def)
    moreover have "write_requests i rs adv w = w3"
      using r w Some by (simp add: write_requests_def Let_def w2_def fd_def w3_def)
    ultimately show ?thesis using written [of w3 n] e by (simp add: w2_def upd_server_def log_event_def)
  qed
qed

lemma write_requests_runs:
  assumes "stable G w" "i < nservers w" "owned w rs \<or> w_ub w"
  shows "runs G w (write_requests i rs adv w)"
  using assms(3,2)
proof (cases rule: write_requests_cases [where adv = adv])
  case (failed w1)
  have "runs G w w1" by (rule quiet_runs [OF assms(1) failed(1)])
  then show ?thesis using failed(4) runs_trans handle_error_runs [OF runs_stable] by metis
qed (use quiet_runs [OF assms(1)] in simp)

lemma write_requests_owned:
  assumes "i < nservers w" "queues_owned w" "owned w rs"
    and adv: "\<And>n qs. sr_owner ` set (adv n qs) \<subseteq> sr_owner ` set qs"
  shows "queues_owned (write_requests i rs adv w)"
proof -
  from assms(3) have "owned w rs \<or> w_ub w" by blast
  then show ?thesis using assms(1)
  proof (cases rule: write_requests_cases [where adv = adv])
    case (failed w1)
    then show ?thesis
      using queues_owned_update [OF assms(2), of "handle_error i w1" i "reset_server (w_servers w ! i)"] assms(1)
      by (simp add: handle_error_simps reset_server_def)
  next
    case (written n w1)
    then show ?thesis using queues_owned_update [OF assms(2) written(2,4)] adv assms(1) by simp
  qed
qed

lemma write_tcp_data_core_runs:
  assumes "stable G w" "i < nservers w" "queues_owned w"
  shows "runs G w (write_tcp_data_core i w) \<and> queues_owned (write_tcp_data_core i w)"
proof (cases "s_queue (w_servers w ! i) = [] \<or> s_tcp_socket (w_servers w ! i) = -1")
  case True
  then show ?thesis using assms by (auto simp: write_tcp_data_core_def Let_def runs_refl)
next
  case False
  let ?q = "s_queue (w_servers w ! i)"
  obtain m w1 where m: "malloc w = (m, w1)" by fastforce
  have 1: "runs G w w1" "w_servers w1 = w_servers w" using malloc_runs [OF assms(1) m] by auto
  have "owned w ?q" using assms(2,3) by (simp add: queues_owned_def)
  then have o: "queues_owned w1" "owned w1 ?q" "owned w1 [hd ?q]"
    using m assms(3) False
    by (auto simp: malloc_def queues_owned_def owned_def pending_def list_all_iff)
  have i: "i < nservers w1" using assms(2) 1(2) by simp
  have "runs G w1 (write_requests i rs adv w1) \<and> queues_owned (write_requests i rs adv w1)"
    if "owned w1 rs" "adv = advance_queue \<or> adv = advance_first" for rs adv
    using write_requests_runs [OF runs_stable [OF 1(1)] i, of rs adv] that
      write_requests_owned [OF i o(1) that(1), of adv] advance_queue_owners advance_first_owners by blast
  then show ?thesis using False m o runs_trans [OF 1(1)]
    by (cases m) (auto simp: write_tcp_data_core_def Let_def)
qed

lemma write_tcp_data_runs:
  assumes "stable G w" "queues_owned w"
  shows "runs G w (write_tcp_data fds w) \<and> queues_owned (write_tcp_data fds w)"
proof -
  let ?f = "\<lambda>i w. let s = w_servers w ! i in
    if s_queue s = [] \<or> s_tcp_socket s = -1 \<or> \<not> selected fds (s_tcp_socket s) then w
    else write_tcp_data_core i w"
  have "runs G w (fold ?f is w) \<and> queues_owned (fold ?f is w)"
    if "\<forall>i \<in> set is. i < nservers w" for "is"
    using that assms
  proof (induction "is" arbitrary: w)
    case (Cons i "is")
    have 1: "runs G w (?f i w) \<and> queues_owned (?f i w)"
      using Cons.prems write_tcp_data_core_runs [of G w i] by (auto simp: Let_def runs_refl)
    then have "runs G (?f i w) (fold ?f is (?f i w)) \<and> queues_owned (fold ?f is (?f i w))"
      using Cons.prems(1) runs_nservers [of G w "?f i w"] by (intro Cons.IH) (auto intro: runs_stable)
    then show ?case using 1 by (auto intro: runs_trans)
  qed (simp add: runs_refl)
  then show ?thesis by (simp add: write_tcp_data_def)
qed

context callback_contract
begin

lemma ares_process_runs:
  assumes "stable G w" "queues_owned w"
  shows "\<exists>w'. ares_process cbf now read_fds write_fds w = Some w' \<and> runs G w w'"
proof -
  define w1 where "w1 = write_tcp_data write_fds w"
  define w2 where "w2 = read_tcp_data cbf now None read_fds w1"
  define w3 where "w3 = read_udp_packets cbf now None read_fds w2"
  have 1: "runs G w w1" using write_tcp_data_runs [OF assms] by (simp add: w1_def)
  then have 2: "runs G w w2" unfolding w2_def by (blast intro: runs_trans read_tcp_data_runs runs_stable)
  then have 3: "runs G w w3" unfolding w3_def by (blast intro: runs_trans read_udp_packets_runs runs_stable)
  obtain w' where "process_timeouts cbf now w3 = Some w'" "runs G w3 w'"
    using process_timeouts_runs [OF runs_stable [OF 3]] by blast
  then show ?thesis using runs_trans [OF 3]
    by (auto simp: ares_process_def w1_def w2_def w3_def)
qed

lemma ares_process_poll_runs:
  assumes "stable G w" "queues_owned w" "idx = None \<or> (\<exists>i < nservers w. idx = Some i)"
    and "idx = None \<or> rdFd \<noteq> -1 \<or> wrFd \<noteq> -1"
  shows "\<exists>w'. ares_process_poll cbf idx rdFd wrFd now w = Some w' \<and> runs G w w'"
proof (cases idx)
  case None
  then show ?thesis using process_timeouts_runs [OF assms(1)] by (simp add: ares_process_poll_def)
next
  case (Some i)
  then have i: "i < nservers w" using assms(3) by simp
  define w1 where "w1 = (if wrFd \<noteq> -1 \<and> s_tcp_socket (w_servers w ! i) = wrFd then write_tcp_data_core i w else w)"
  define w2 where "w2 = (if rdFd \<noteq> -1 \<and> s_tcp_socket (w_servers w1 ! i) = rdFd then read_tcp_data cbf now (Some i) None w1 else w1)"
  define w3 where "w3 = (if rdFd \<noteq> -1 \<and> s_udp_socket (w_servers w2 ! i) = rdFd then read_udp_packets cbf now (Some i) None w2 else w2)"
  have 1: "runs G w w1"
    using write_tcp_data_core_runs [OF assms(1) i assms(2)] runs_refl [OF assms(1)] by (simp add: w1_def)
  then have 2: "runs G w w2" unfolding w2_def
    by (simp add: runs_trans [OF _ read_tcp_data_runs [OF runs_stable]])
  then have "runs G w w3" unfolding w3_def
    by (simp add: runs_trans [OF _ read_udp_packets_runs [OF runs_stable]])
  then show ?thesis using Some assms(4) i
    by (auto simp: ares_process_poll_def Let_def w1_def w2_def w3_def)
qed

end

end
