(* ===== verification/Progress.thy ===== *)
theory Progress
  imports ChannelProps
begin

text \<open>
  Retries make progress: every attempt of a query is later in the order of tries and servers than
  the one before, so a query is completed after a bounded number of timeouts. The choice of
  \<^verbatim>\<open>next_server\<close> is compared with a reference list of all attempts.
\<close>

section \<open>The order of attempts\<close>

definition rank :: "nat \<Rightarrow> 'cb query \<Rightarrow> nat" where
  "rank n q = q_itry q * n + q_server q"

text \<open>All attempts still to come, in the order the two loops of \<^verbatim>\<open>next_server\<close> visit them.\<close>

definition attempts :: "int \<Rightarrow> nat \<Rightarrow> 'cb query \<Rightarrow> (nat \<times> nat) list" where
  "attempts tries n q =
     (if int (q_itry q) < tries then
        map (Pair (q_itry q)) [q_server q..<n] @
        (if q_using_tcp q then []
         else concat (map (\<lambda>t. map (Pair t) [0..<n]) [Suc (q_itry q)..<nat tries]))
      else [])"

definition usable :: "'cb query \<Rightarrow> nat \<times> nat \<Rightarrow> bool" where
  "usable q = (\<lambda>(t, s). s < length (q_skip_server q) \<and> \<not> q_skip_server q ! s)"

lemma find_append: "find P (xs @ ys) = (case find P xs of None \<Rightarrow> find P ys | Some x \<Rightarrow> Some x)"
  by (induction xs) auto

lemma find_map_Pair:
  "find (usable q) (map (Pair t) ss) =
     map_option (Pair t) (find (\<lambda>s. s < length (q_skip_server q) \<and> \<not> q_skip_server q ! s) ss)"
  by (induction ss) (auto simp: usable_def)

lemma attempts_next_try:
  assumes "int (q_itry q) < tries" "\<not> q_using_tcp q"
  shows "attempts tries n q = map (Pair (q_itry q)) [q_server q..<n] @
    attempts tries n (q\<lparr>q_server := 0, q_itry := Suc (q_itry q)\<rparr>)"
proof (cases "int (Suc (q_itry q)) < tries")
  case True
  then have "[Suc (q_itry q)..<nat tries] = Suc (q_itry q) # [Suc (Suc (q_itry q))..<nat tries]"
    by (simp add: upt_rec [of "Suc (q_itry q)"] zless_nat_eq_int_zless)
  then show ?thesis using assms True by (simp add: attempts_def)
next
  case False
  then have "[Suc (q_itry q)..<nat tries] = []" by simp
  then show ?thesis using assms False by (simp add: attempts_def)
qed

text \<open>The loops find the first usable attempt.\<close>

lemma advance_find:
  "(case find (usable q) (attempts tries n q) of
      Some (t, s) \<Rightarrow> advance tries n q = (True, q\<lparr>q_itry := t, q_server := s\<rparr>)
    | None \<Rightarrow> fst (advance tries n q) = False)"
proof (induction tries n q rule: advance.induct)
  case (1 tries n q)
  let ?q = "q\<lparr>q_server := 0, q_itry := Suc (q_itry q)\<rparr>"
  show ?case
  proof (cases "int (q_itry q) < tries")
    case lt: True
    show ?thesis
    proof (cases "find_server_from n q")
      case (Some s)
      then have "find (usable q) (map (Pair (q_itry q)) [q_server q..<n]) = Some (q_itry q, s)"
        by (simp add: find_map_Pair find_server_from_def)
      then show ?thesis
        using lt Some by (subst advance.simps) (simp add: attempts_def find_append)
    next
      case None
      then have n: "find (usable q) (map (Pair (q_itry q)) [q_server q..<n]) = None"
        by (simp add: find_map_Pair find_server_from_def)
      show ?thesis
      proof (cases "q_using_tcp q")
        case True
        then show ?thesis using lt None n by (subst advance.simps) (simp add: attempts_def find_append)
      next
        case False
        have "usable ?q = usable q" by (simp add: usable_def)
        moreover have "advance tries n q = advance tries n ?q"
          using lt None False by (subst advance.simps) simp
        ultimately show ?thesis
          using "1.IH" [OF lt None False] n attempts_next_try [OF lt False, of n]
          by (auto simp: find_append split: option.splits)
      qed
    qed
  next
    case False
    then show ?thesis by (subst advance.simps) (simp add: attempts_def)
  qed
qed

lemma attempts_rank:
  assumes "(t, s) \<in> set (attempts tries n q)" "q_server q \<le> n"
  shows "s < n" "int t < tries" "rank n q \<le> t * n + s"
proof -
  have a: "s < n \<and> int t < tries \<and> ((t = q_itry q \<and> q_server q \<le> s) \<or> q_itry q < t)"
    using assms by (auto simp: attempts_def split: if_splits)
  then show "s < n" "int t < tries" by auto
  show "rank n q \<le> t * n + s"
  proof (cases "t = q_itry q")
    case False
    then have "Suc (q_itry q) * n \<le> t * n" using a by (intro mult_le_mono1) auto
    then show ?thesis using assms(2) by (simp add: rank_def)
  qed (use a in \<open>auto simp: rank_def\<close>)
qed

lemma advance_rank:
  assumes "advance tries n (q\<lparr>q_server := Suc (q_server q)\<rparr>) = (True, q')" "q_server q < n"
  shows "rank n q < rank n q'" "rank n q' < nat tries * n"
proof -
  let ?q = "q\<lparr>q_server := Suc (q_server q)\<rparr>"
  obtain t s where f: "find (usable ?q) (attempts tries n ?q) = Some (t, s)"
    "q' = q\<lparr>q_itry := t, q_server := s\<rparr>"
    using advance_find [where q = ?q and tries = tries and n = n] assms(1) by (auto split: option.splits)
  then have "(t, s) \<in> set (attempts tries n ?q)" by (auto simp: find_Some_iff)
  from attempts_rank [OF this] assms(2) have "s < n" "int t < tries" "rank n ?q \<le> t * n + s" by auto
  then show "rank n q < rank n q'" by (simp add: f(2) rank_def)
  have "Suc t * n \<le> nat tries * n" using \<open>int t < tries\<close> by (intro mult_le_mono1) linarith
  then show "rank n q' < nat tries * n" using \<open>s < n\<close> by (simp add: f(2) rank_def)
qed

section \<open>Progress of queries\<close>

definition later :: "nat \<Rightarrow> nat \<Rightarrow> nat \<Rightarrow> 'cb world \<Rightarrow> bool" where
  "later n r h w \<longleftrightarrow> (\<forall>q \<in> set (w_queries w). q_handle q = h \<longrightarrow> r \<le> rank n q)"

lemma later_mono: "r \<le> r' \<Longrightarrow> later n r' h w \<Longrightarrow> later n r h w"
  by (fastforce simp: later_def)

lemma later_gone: "h \<notin> set (pending w) \<Longrightarrow> later n r h w"
  by (auto simp: later_def pending_def)

lemma later_put_query: "later n (rank n q) (q_handle q) (put_query q w)"
  by (auto simp: later_def put_query_def set_queries_def)

lemma later_quiet: "later n r h w \<Longrightarrow> quiet w w' \<Longrightarrow> later n r h w'"
  by (simp add: later_def quiet_def)

lemma later_ub [simp]: "later n r h (undefined_behaviour w) = later n r h w"
  by (simp add: later_def undefined_behaviour_def)

lemma later_enqueue: "later n (rank n q) (q_handle q) (enqueue q w)"
proof -
  let ?w = "upd_server (q_server q) (\<lambda>s. s\<lparr>s_queue := s_queue s @
    [\<lparr>sr_owner = q_handle q, sr_data = q_tcpbuf q\<rparr>]\<rparr>) w"
  have "later n (rank n q) (q_handle q) (put_query (q\<lparr>q_timeout := 0\<rparr>) ?w)"
    using later_put_query [of n "q\<lparr>q_timeout := 0\<rparr>" ?w] by (simp add: rank_def)
  then show ?thesis by (auto simp: enqueue_def Let_def intro: later_quiet quiet_poll_cb)
qed

lemma later_start_timer: "later n (rank n q) (q_handle q) (start_timer now q w)"
  using later_put_query [of n q w] later_put_query [of n "q\<lparr>q_timeout := _\<rparr>" w]
  by (auto simp: start_timer_def rank_def split: option.splits)

lemma rank_skip_current [simp]: "rank n (skip_current q) = rank n q"
  by (simp add: rank_def skip_current_def)

context callback_contract
begin

lemma end_query_later:
  assumes "wf_world G w" "q_handle q \<in> set (pending w)" "query_ok G w q" "valid_reply st ab"
  shows "later n r (q_handle q) (end_query cbf q st ab w)"
  using end_query_gone [OF assms] by (rule later_gone)

lemma send_query_later:
  assumes "wf_world G w" "q_handle q \<in> set (pending w)" "settled G w q"
    and "\<And>w1. quiet w w1 \<Longrightarrow> later n (rank n q) (q_handle q) (next_server cbf now (skip_current q) w1)"
  shows "later n (rank n q) (q_handle q) (ares__send_query cbf now q w)"
proof -
  have q: "q_server q < nservers w" "query_ok G w q" using assms(3) by (auto simp: settled_def)
  from q(1) show ?thesis
  proof (cases rule: send_query_cases [where c = cbf and now = now])
    case (retry w1)
    then show ?thesis using assms(4) by simp
  next
    case (queued w1)
    then show ?thesis by (simp add: later_enqueue)
  next
    case (nomem w1)
    then show ?thesis using quiet_carry [OF nomem(1) assms(1)] assms(2) q(2)
      by (simp add: end_query_later valid_reply_def)
  next
    case (sent w1)
    then show ?thesis by (simp add: later_start_timer)
  qed
qed

lemma next_server_later:
  assumes "wf_world G w" "q_handle q \<in> set (pending w)" "query_ok G w q" "q_server q < nservers w"
  shows "later (nservers w) (Suc (rank (nservers w) q)) (q_handle q) (next_server cbf now q w)"
  using assms
proof (induction "unskipped q" arbitrary: q w rule: less_induct)
  case less
  let ?n = "nservers w"
  obtain b q' where a: "advance (ch_tries (w_chan w)) ?n (q\<lparr>q_server := Suc (q_server q)\<rparr>) = (b, q')"
    by fastforce
  have q': "query_ok G w q'" "q_handle q' = q_handle q" "unskipped q' = unskipped q"
    using advance_keeps [OF a] less.prems(3) by (auto simp: query_ok_def unskipped_def)
  show ?case
  proof (cases b)
    case True
    have live: "on_live_server q'" "q_server q' < ?n"
      using advance_live [of _ _ _ q'] a True by auto
    have rank: "rank ?n q < rank ?n q'" using advance_rank(1) [of _ _ q q'] a True less.prems(4) by auto
    have s: "settled G w q'" using live q' advance_itry a True by (auto simp: settled_def)
    have "later ?n (rank ?n q') (q_handle q') (ares__send_query cbf now q' w)"
    proof (rule send_query_later)
      fix w1 assume "quiet w w1"
      then have n: "nservers w1 = ?n" by (simp add: quiet_def same_config_def)
      note c = quiet_carry [OF \<open>quiet w w1\<close> less.prems(1)]
      have "q_server (skip_current q') < nservers w1" using live n by (simp add: skip_current_def)
      then have "later ?n (Suc (rank ?n q')) (q_handle q') (next_server cbf now (skip_current q') w1)"
        using less.hyps [of "skip_current q'" w1] unskipped_skip_current(2) [OF live(1)] c q' less.prems n
        by simp
      then show "later ?n (rank ?n q') (q_handle q') (next_server cbf now (skip_current q') w1)"
        by (rule later_mono [rotated]) simp
    qed (use less.prems q' s in simp_all)
    then have "later ?n (Suc (rank ?n q)) (q_handle q') (ares__send_query cbf now q' w)"
      using rank by (intro later_mono [of "Suc (rank ?n q)" "rank ?n q'"]) auto
    then show ?thesis using a q' True by (simp add: next_server.simps)
  next
    case False
    moreover have "valid_reply (q_error_status q') None"
      using q'(1) by (simp add: query_ok_def valid_reply_def)
    ultimately show ?thesis using end_query_later [of w q'] less.prems q' a by (simp add: next_server.simps)
  qed
qed

end

lemma touches_later:
  assumes "touches G h' w w1" "h \<noteq> h'" "h < next_handle w" "later n r h w"
  shows "later n r h w1"
proof -
  obtain new pre q post mid where d: "w_queries w = pre @ q # post"
    "w_queries w1 = new @ pre @ mid @ post" "fresh_queries G w w1 new"
    "mid = [] \<or> (\<exists>q'. mid = [q'] \<and> q_handle q' = h' \<and> settled G w q')"
    using assms(1) unfolding touches_def by blast
  have "\<forall>x \<in> set new. q_handle x \<noteq> h" using d(3) assms(3) by (auto simp: fresh_queries_def)
  moreover have "\<forall>x \<in> set mid. q_handle x \<noteq> h" using d(4) assms(2) by auto
  moreover have "\<forall>x \<in> set pre \<union> set post. q_handle x = h \<longrightarrow> r \<le> rank n x"
    using assms(4) d(1) by (auto simp: later_def)
  ultimately show ?thesis unfolding later_def d(2) by auto
qed

context callback_contract
begin

lemma timeouts_step_later:
  assumes "stable G w" "w_queries w = pre @ q # post" "late now q"
  shows "later (nservers w) (Suc (rank (nservers w) q)) (q_handle q)
    (next_server cbf now (q\<lparr>q_error_status := ARES_ETIMEOUT\<rparr>) w)"
proof -
  let ?e = "q\<lparr>q_error_status := ARES_ETIMEOUT\<rparr>"
  have q: "settled G w q" using assms(1,2) by (simp add: stable_def)
  have "q_handle ?e \<in> set (pending w)" "query_ok G w ?e" "q_server ?e < nservers w"
    using assms(2) q by (auto simp: pending_def settled_def query_ok_def)
  from next_server_later [OF stable_wf [OF assms(1)] this, of now] show ?thesis
    by (simp add: rank_def)
qed

lemma timeouts_loop_progress:
  assumes "stable G w" "w_queries w = pre @ rest" "timeouts_loop cbf now (head_handle rest) w = Some w'"
    and "n = nservers w"
  shows "(\<forall>h r. h < next_handle w \<longrightarrow> h \<notin> q_handle ` set rest \<longrightarrow> later n r h w \<longrightarrow> later n r h w') \<and>
    (\<forall>q \<in> set rest. late now q \<longrightarrow> later n (Suc (rank n q)) (q_handle q) w')"
  using assms
proof (induction rest arbitrary: w pre)
  case Nil
  then show ?case by (simp add: timeouts_loop.simps head_handle_def)
next
  case (Cons q post)
  define w1 where "w1 = (if late now q then next_server cbf now (q\<lparr>q_error_status := ARES_ETIMEOUT\<rparr>) w else w)"
  note st = timeouts_step [OF Cons.prems(1,2) w1_def]
  note sp = wf_split [OF stable_wf [OF Cons.prems(1)] Cons.prems(2)]
  obtain pre' where p: "w_queries w1 = pre' @ post" using st(3) by blast
  have m: "next_handle w \<le> next_handle w1" "nservers w1 = nservers w"
    using st(4) by (auto simp: touches_def books_def same_config_def)
  have IH: "(\<forall>h r. h < next_handle w1 \<longrightarrow> h \<notin> q_handle ` set post \<longrightarrow> later n r h w1 \<longrightarrow> later n r h w') \<and>
      (\<forall>q \<in> set post. late now q \<longrightarrow> later n (Suc (rank n q)) (q_handle q) w')"
    by (rule Cons.IH [OF st(2) p]) (use Cons.prems(3,4) st(1) m in simp_all)
  have "later n r h w1" if "h < next_handle w" "h \<notin> q_handle ` set (q # post)" "later n r h w" for h r
    using that st(4) touches_later [of G "q_handle q" w w1 h] by auto
  then have "\<forall>h r. h < next_handle w \<longrightarrow> h \<notin> q_handle ` set (q # post) \<longrightarrow> later n r h w \<longrightarrow> later n r h w'"
    using IH m(1) by (metis (no_types, lifting) image_insert insertCI less_le_trans list.set(2))
  moreover have "late now q \<longrightarrow> later n (Suc (rank n q)) (q_handle q) w'"
    using IH timeouts_step_later [OF Cons.prems(1,2)] sp(2,3) m(1) Cons.prems(4) w1_def
    by (metis less_le_trans)
  ultimately show ?case using IH by simp
qed

lemma process_timeouts_progress:
  assumes "stable G w" "q \<in> set (w_queries w)" "late now q"
  shows "\<exists>w'. process_timeouts cbf now w = Some w' \<and>
    (\<forall>q' \<in> set (w_queries w'). q_handle q' = q_handle q \<longrightarrow>
       rank (nservers w) q < rank (nservers w) q')"
proof -
  obtain w' where w': "process_timeouts cbf now w = Some w'"
    using process_timeouts_runs [OF assms(1)] by blast
  then have "timeouts_loop cbf now (head_handle (w_queries w)) w = Some w'"
    by (simp add: process_timeouts_def head_handle_def)
  then have "later (nservers w) (Suc (rank (nservers w) q)) (q_handle q) w'"
    using timeouts_loop_progress [OF assms(1) append_Nil [symmetric] _ refl] assms(2,3) by blast
  then show ?thesis using w' by (auto simp: later_def)
qed

end

section \<open>Properties\<close>

text \<open>A callback that does nothing, and a channel with one server and one query sent over UDP.\<close>

definition idle :: "'cb callback_fn" where
  "idle cb st ab w = w"

lemma idle_contract: "callback_contract idle G"
  by (simp add: callback_contract_def idle_def)

definition example_query :: "unit query" where
  "example_query = \<lparr>q_handle = 0, q_qid = 7, q_timeout = 5,
     q_tcpbuf = [0, 19, 0, 7, 1, 0, 0, 1, 0, 0, 0, 0, 0, 0, 1, 0x61, 0, 0, 1, 0, 1], q_callback = (), q_itry = 0,
     q_server = 0, q_skip_server = [False], q_using_tcp = False, q_error_status = ARES_ECONNREFUSED\<rparr>"

definition example_server :: server_state where
  "example_server = \<lparr>s_addr = AddrV4 0x7f000001, s_physical_addr = [], s_default_localhost = True,
     s_udp_socket = 3, s_tcp_socket = -1, s_tcp_lenbuf = [], s_tcp_length = 0, s_tcp_buffer = None, s_queue = []\<rparr>"

definition example_world :: "unit world" where
  "example_world = \<lparr>w_chan = \<lparr>ch_flags = 0, ch_timeout = 5, ch_tries = 4, ch_ndots = 1, ch_udp_port = 53,
       ch_tcp_port = 53, ch_domains = [], ch_sortlist = [], ch_lookups = str ''bf'',
       ch_servers = [example_server], ch_next_id = 8, ch_queries = [example_query],
       ch_socket_function = False, ch_poll_cb = False, ch_next_handle = 1\<rparr>,
     w_sys = (\<lambda>_. \<lparr>sys_ret = 4, sys_errno = 0, sys_data = []\<rparr>), w_spos = 0, w_alloc = (\<lambda>_. True), w_apos = 0,
     w_log = [], w_ub = False\<rparr>"

lemmas example_defs = example_world_def example_server_def example_query_def

lemma example_stable: "stable (\<lambda>_. True) example_world"
  by (simp add: stable_def wf_world_def servers_ok_def frame_ok_def settled_def query_ok_def pending_def
      example_defs HFIXEDSZ_def DNS_HEADER_QID_def DNS__16BIT_def rd_def get16_eq)

text \<open>C27: Timeouts make progress: after \<^verbatim>\<open>process_timeouts\<close> a query whose deadline has passed is
  either completed or on a strictly later attempt in the order of tries and servers, which is bounded
  by the number of tries times the number of servers. The walk over the list of queries always ends,
  although callbacks may add queries to it.\<close>

theorem timeouts_progress:
  assumes "callback_contract cbf G" "stable G w" "q \<in> set (w_queries w)" "late now q"
  shows "\<exists>w'. process_timeouts cbf now w = Some w' \<and> stable G w' \<and>
    (\<forall>q' \<in> set (w_queries w'). q_handle q' = q_handle q \<longrightarrow>
       rank (nservers w) q < rank (nservers w) q')"
proof -
  obtain w' where "process_timeouts cbf now w = Some w'" "runs G w w'"
    using callback_contract.process_timeouts_runs [OF assms(1,2)] by blast
  then show ?thesis
    using callback_contract.process_timeouts_progress [OF assms] runs_stable by fastforce
qed

theorem timeouts_progress_witness:
  "\<exists>w'. process_timeouts idle 9 example_world = Some w' \<and> stable (\<lambda>_. True) w' \<and>
    (\<forall>q' \<in> set (w_queries w'). q_handle q' = 0 \<longrightarrow> 0 < rank 1 q')"
  using timeouts_progress [OF idle_contract example_stable, of example_query 9]
  by (simp add: example_defs late_def rank_def)

text \<open>\<^verbatim>\<open>next_server\<close> tries the attempts in a fixed order: of all pairs of try and server behind the
  current one, servers of one try before the next try, it takes the first whose server is not marked
  to be skipped. A query over TCP has no second try.\<close>

theorem next_server_first_usable:
  assumes "q1 = q\<lparr>q_server := Suc (q_server q)\<rparr>"
    and "find (usable q1) (attempts (ch_tries (w_chan w)) (nservers w) q1) = Some (t, s)"
  shows "next_server cbf now q w = ares__send_query cbf now (q\<lparr>q_itry := t, q_server := s\<rparr>) w"
  using advance_find [where q = q1 and tries = "ch_tries (w_chan w)" and n = "nservers w"] assms
  by (simp add: next_server.simps)

theorem next_server_first_usable_witness:
  "next_server idle 9 example_query example_world =
     ares__send_query idle 9 (example_query\<lparr>q_itry := 1, q_server := 0\<rparr>) example_world"
proof (rule next_server_first_usable [OF refl])
  show "find (usable (example_query\<lparr>q_server := Suc (q_server example_query)\<rparr>))
      (attempts (ch_tries (w_chan example_world)) (nservers example_world)
        (example_query\<lparr>q_server := Suc (q_server example_query)\<rparr>)) = Some (1, 0)"
    by (simp add: example_defs attempts_def usable_def upt_rec)
qed

text \<open>When no usable attempt is left, \<^verbatim>\<open>next_server\<close> completes the query with the error status
  recorded for it.\<close>

theorem next_server_gives_up:
  assumes "q1 = q\<lparr>q_server := Suc (q_server q)\<rparr>"
    and "find (usable q1) (attempts (ch_tries (w_chan w)) (nservers w) q1) = None"
  shows "\<exists>q'. q_handle q' = q_handle q \<and>
    next_server cbf now q w = end_query cbf q' (q_error_status q) None w"
proof -
  obtain b q' where a: "advance (ch_tries (w_chan w)) (nservers w) q1 = (b, q')" by fastforce
  moreover have "\<not> b" using advance_find [where q = q1 and tries = "ch_tries (w_chan w)" and n = "nservers w"] assms(2) a by simp
  ultimately show ?thesis using advance_keeps [OF a] assms(1)
    by (intro exI [of _ q']) (simp add: next_server.simps)
qed

theorem next_server_gives_up_witness:
  "\<exists>q'. q_handle q' = 0 \<and> next_server idle 9 (example_query\<lparr>q_skip_server := [True]\<rparr>) example_world =
     end_query idle q' ARES_ECONNREFUSED None example_world"
proof -
  let ?q = "example_query\<lparr>q_skip_server := [True]\<rparr>"
  have "find (usable (?q\<lparr>q_server := Suc (q_server ?q)\<rparr>))
      (attempts (ch_tries (w_chan example_world)) (nservers example_world) (?q\<lparr>q_server := Suc (q_server ?q)\<rparr>)) = None"
    by (simp add: example_defs attempts_def usable_def upt_rec)
  from next_server_gives_up [OF refl this, of idle 9] show ?thesis by (simp add: example_query_def)
qed

end
