(* ===== verification/Answers.thy ===== *)
theory Answers
  imports Progress ParseReply
begin

text \<open>
  Which answers complete a query, how messages are cut out of a TCP stream, what
  \<^verbatim>\<open>ares_timeout\<close> and \<^verbatim>\<open>ares_fds\<close> report, and the end of a channel.
\<close>

section \<open>Accepting answers\<close>

text \<open>The header fields of a message that is long enough.\<close>

lemma header_fields:
  assumes "HFIXEDSZ \<le> length abuf"
  obtains qid tc rcode where "DNS_HEADER_QID abuf = Some qid" "DNS_HEADER_TC abuf = Some tc"
    "DNS_HEADER_RCODE abuf = Some rcode"
  using assms by (simp add: dns_accessors HFIXEDSZ_def buf_simps)

lemma process_answer_unknown:
  assumes "\<forall>q \<in> set (w_queries w). DNS_HEADER_QID abuf \<noteq> Some (q_qid q)"
  shows "process_answer cbf now abuf i tcp w = w"
proof (cases "HFIXEDSZ \<le> length abuf")
  case True
  then obtain qid tc rcode where h: "DNS_HEADER_QID abuf = Some qid" "DNS_HEADER_TC abuf = Some tc"
    "DNS_HEADER_RCODE abuf = Some rcode" by (rule header_fields)
  have "find (\<lambda>q. q_qid q = qid) (w_queries w) = None"
    using assms h(1) by (auto simp: find_None_iff)
  then show ?thesis using h True by (simp add: process_answer_def)
qed (simp add: process_answer_def)

text \<open>The answer that goes through all checks is handed to the callback.\<close>

lemma process_answer_deliver:
  assumes "HFIXEDSZ \<le> length abuf" "DNS_HEADER_QID abuf = Some (q_qid q)" "DNS_HEADER_TC abuf = Some 0"
    and "DNS_HEADER_RCODE abuf = Some rcode" "rcode_of rcode \<notin> {SERVFAIL, NOTIMP, REFUSED}"
    and "length abuf \<le> PACKETSZ \<or> tcp" "find (\<lambda>x. q_qid x = q_qid q) (w_queries w) = Some q"
    and "same_questions_w q abuf (length abuf) w = Some True"
    and "\<not> flag_set w ARES_FLAG_TRY_NEXT_SERVER_ON_RCODE3"
  shows "process_answer cbf now abuf i tcp w = end_query cbf q ARES_SUCCESS (Some abuf) w"
  using assms by (auto simp: process_answer_def accept_answer_def rcode3_retry_def)

text \<open>An answer to another question moves the query on, if it comes from the server in use.\<close>

lemma process_answer_mismatch:
  assumes "HFIXEDSZ \<le> length abuf" "DNS_HEADER_QID abuf = Some (q_qid q)" "DNS_HEADER_TC abuf = Some 0"
    and "DNS_HEADER_RCODE abuf = Some rcode" "rcode_of rcode \<notin> {SERVFAIL, NOTIMP, REFUSED}"
    and "length abuf \<le> PACKETSZ \<or> tcp" "find (\<lambda>x. q_qid x = q_qid q) (w_queries w) = Some q"
    and "same_questions_w q abuf (length abuf) w = Some False"
    and "\<not> flag_set w ARES_FLAG_NOCHECKRESP"
  shows "process_answer cbf now abuf i tcp w = (if q_server q = i then next_server cbf now q w else w)"
  using assms by (auto simp: process_answer_def accept_answer_def)

lemma process_answer_refused:
  assumes "HFIXEDSZ \<le> length abuf" "DNS_HEADER_QID abuf = Some (q_qid q)" "DNS_HEADER_TC abuf = Some 0"
    and "DNS_HEADER_RCODE abuf = Some rcode" "rcode_of rcode \<in> {SERVFAIL, NOTIMP, REFUSED}"
    and "length abuf \<le> PACKETSZ \<or> tcp" "find (\<lambda>x. q_qid x = q_qid q) (w_queries w) = Some q"
    and "\<not> flag_set w ARES_FLAG_NOCHECKRESP"
  shows "process_answer cbf now abuf i tcp w =
    (let q' = q\<lparr>q_skip_server := (q_skip_server q)[i := True]\<rparr> in
     if q_server q = i then next_server cbf now q' w else put_query q' w)"
  using assms by (auto simp: process_answer_def accept_answer_def Let_def)

lemma process_answer_truncated:
  assumes "HFIXEDSZ \<le> length abuf" "DNS_HEADER_QID abuf = Some (q_qid q)" "DNS_HEADER_TC abuf = Some tc"
    and "tc \<noteq> 0 \<or> length abuf > PACKETSZ" "\<not> flag_set w ARES_FLAG_IGNTC"
    and "find (\<lambda>x. q_qid x = q_qid q) (w_queries w) = Some q"
  shows "process_answer cbf now abuf i False w =
    (if q_using_tcp q then w else ares__send_query cbf now (q\<lparr>q_using_tcp := True\<rparr>) w)"
proof -
  obtain rcode where "DNS_HEADER_RCODE abuf = Some rcode" using assms(1) by (rule header_fields)
  then show ?thesis using assms by (auto simp: process_answer_def)
qed

section \<open>The TCP stream\<close>

text \<open>The bytes of the message being received that have arrived, and how many more one read asks
  for.\<close>

definition received :: "server_state \<Rightarrow> byte list" where
  "received s = s_tcp_lenbuf s @
     (if length (s_tcp_lenbuf s) = 2 then (case s_tcp_buffer s of None \<Rightarrow> [] | Some b \<Rightarrow> b) else [])"

definition wanted :: "server_state \<Rightarrow> nat" where
  "wanted s = (if length (s_tcp_lenbuf s) \<noteq> 2 then 2 - length (s_tcp_lenbuf s)
     else s_tcp_length s - (length (received s) - 2))"

text \<open>A message with its length in front, as \<^verbatim>\<open>ares_send\<close> lays it out in \<^verbatim>\<open>tcpbuf\<close>.\<close>

definition framed :: "byte list \<Rightarrow> byte list" where
  "framed msg = DNS__SET16BIT (int (length msg)) @ msg"

lemma two_bytes: "length xs = 2 \<Longrightarrow> xs = [xs ! 0, xs ! 1]"
  by (cases xs; cases "tl xs") auto

lemma set16_get16: "DNS__SET16BIT (int (get16 a b)) = [a, b]"
proof -
  have "get16 a b div 256 = unat a" using unat_byte_less [of b] by (simp add: get16_eq)
  moreover have "drop_bit 8 (int (get16 a b)) = int (get16 a b div 256)"
    by (simp add: drop_bit_eq_div zdiv_int)
  moreover have "(word_of_int (int (get16 a b)) :: byte) = b"
  proof -
    have "(256 :: byte) = 0" by simp
    then have "256 * c = 0" for c :: byte by (metis mult_zero_left)
    then show ?thesis by (simp add: get16_eq)
  qed
  ultimately show ?thesis by (simp add: DNS__SET16BIT_def)
qed

lemma framed_lenbuf:
  assumes "length l = 2" "length msg = get16 (l ! 0) (l ! 1)" shows "framed msg = l @ msg"
  using two_bytes [OF assms(1)] set16_get16 [of "l ! 0" "l ! 1"] assms(2) by (simp add: framed_def)

text \<open>One read either adds what arrived to the message, or completes it: then the message whose
  frame has arrived is processed and the server waits for the next length word.\<close>

lemma read_tcp_step:
  assumes "i < nservers w" "frame_ok s" "s = w_servers w ! i"
    and "bs = take (wanted s) (sys_data (w_sys w (w_spos w)))" "bs \<noteq> []"
    and "0 \<le> sys_ret (w_sys w (w_spos w))" "w_alloc w (w_apos w)"
  shows "(\<exists>msg w1. framed msg = received s @ bs \<and> w_queries w1 = w_queries w \<and>
      read_tcp_server cbf now i w =
        upd_server i (\<lambda>s. s\<lparr>s_tcp_buffer := None, s_tcp_lenbuf := []\<rparr>) (process_answer cbf now msg i True w1))
    \<or> (received (w_servers (read_tcp_server cbf now i w) ! i) = received s @ bs \<and>
       frame_ok (w_servers (read_tcp_server cbf now i w) ! i) \<and>
       w_queries (read_tcp_server cbf now i w) = w_queries w)"
proof (cases "length (s_tcp_lenbuf s) = 2")
  case False
  let ?l = "s_tcp_lenbuf s @ bs"
  have "length bs \<le> 2 - length (s_tcp_lenbuf s)" using assms(4) False by (simp add: wanted_def)
  moreover have "length (s_tcp_lenbuf s) \<le> 2" using assms(2) by (simp add: frame_ok_def)
  ultimately have l: "length ?l \<le> 2" by simp
  obtain c cs where bs: "bs = c # cs" using assms(5) by (cases bs) auto
  have r: "sys_read (2 - length (s_tcp_lenbuf s)) w = (Some (c # cs), w\<lparr>w_spos := Suc (w_spos w)\<rparr>)"
    using assms(4,6) False bs by (simp add: sys_read_def syscall_def wanted_def)
  show ?thesis
  proof (cases "length ?l = 2")
    case True
    then show ?thesis using r assms(1,3,7) False l bs
      by (simp add: read_tcp_server_def read_tcp_length_def Let_def malloc_def upd_server_def
          received_def frame_ok_def)
  next
    case l2: False
    then show ?thesis using r assms(1,3,7) False l bs
      by (simp add: read_tcp_server_def read_tcp_length_def Let_def malloc_def upd_server_def
          received_def frame_ok_def)
  qed
next
  case True
  then obtain b where b: "s_tcp_buffer s = Some b" "length b \<le> s_tcp_length s"
    "s_tcp_length s = get16 (s_tcp_lenbuf s ! 0) (s_tcp_lenbuf s ! 1)"
    using assms(2) by (auto simp: frame_ok_def split: option.splits)
  have rec: "received s = s_tcp_lenbuf s @ b" using True b by (simp add: received_def)
  obtain c cs where bs: "bs = c # cs" using assms(5) by (cases bs) auto
  have "wanted s = s_tcp_length s - length b" using True rec by (simp add: wanted_def)
  then have r: "sys_read (s_tcp_length s - length b) w = (Some (c # cs), w\<lparr>w_spos := Suc (w_spos w)\<rparr>)"
    and lb: "length (b @ bs) \<le> s_tcp_length s"
    using assms(4,6) bs b(2) by (simp_all add: sys_read_def syscall_def)
  show ?thesis
  proof (cases "length (b @ bs) = s_tcp_length s")
    case full: True
    let ?w1 = "upd_server i (\<lambda>s. s\<lparr>s_tcp_buffer := Some (b @ bs)\<rparr>) (w\<lparr>w_spos := Suc (w_spos w)\<rparr>)"
    have "framed (b @ bs) = received s @ bs"
      using framed_lenbuf [OF True, of "b @ bs"] full b(3) rec by simp
    moreover have "w_queries ?w1 = w_queries w" by (simp add: upd_server_def)
    moreover have "read_tcp_server cbf now i w =
        upd_server i (\<lambda>s. s\<lparr>s_tcp_buffer := None, s_tcp_lenbuf := []\<rparr>) (process_answer cbf now (b @ bs) i True ?w1)"
      using r b(1) full assms(1,3) True bs
      by (simp add: read_tcp_server_def read_tcp_body_def Let_def upd_server_def)
    ultimately show ?thesis by blast
  next
    case False
    then show ?thesis using r b(1) lb assms(1,2,3) True bs rec
      by (simp add: read_tcp_server_def read_tcp_body_def Let_def upd_server_def received_def frame_ok_def)
  qed
qed

section \<open>Timeout and descriptors\<close>

text \<open>The waiting times of the queries that have a deadline.\<close>

definition waits :: "int \<Rightarrow> 'cb query list \<Rightarrow> int set" where
  "waits now qs = (\<lambda>q. max 0 (q_timeout q - now)) ` {q \<in> set qs. q_timeout q \<noteq> 0}"

lemma waits_simps:
  "waits now [] = {}"
  "waits now (q # qs) = (if q_timeout q = 0 then waits now qs else insert (max 0 (q_timeout q - now)) (waits now qs))"
  by (auto simp: waits_def)

lemma finite_waits [simp]: "finite (waits now qs)"
  by (simp add: waits_def)

lemma min_offset_fold:
  assumes "m = -1 \<or> 0 \<le> m"
  shows "fold (min_offset_step now) qs m =
    (let S = waits now qs \<union> (if m = -1 then {} else {m}) in if S = {} then -1 else Min S)"
  using assms
proof (induction qs arbitrary: m)
  case Nil
  then show ?case by (simp add: waits_simps)
next
  case (Cons q qs)
  let ?o = "max 0 (q_timeout q - now)" and ?m = "min_offset_step now q m"
  have m: "?m = (if q_timeout q = 0 then m else if m = -1 then ?o else min m ?o)"
    by (auto simp: min_offset_step_def Let_def min_def)
  then have r: "?m = -1 \<or> 0 \<le> ?m" using Cons.prems by auto
  let ?S = "waits now qs"
  have a: "Min (insert (min m ?o) ?S) = Min (insert ?o (insert m ?S))"
    by (cases "?S = {}") (simp_all add: min.commute min.left_commute)
  have "0 \<le> ?o" by simp
  then have "?o \<noteq> -1" by linarith
  then show ?case using Cons.IH [OF r] Cons.prems a m
    by (auto simp: waits_simps Let_def min_def)
qed

lemma ares_timeout_eq:
  "ares_timeout now maxtv w =
     (if waits now (w_queries w) = {} then maxtv
      else let m = Min (waits now (w_queries w)) in
        case maxtv of None \<Rightarrow> Some (m, 0) | Some (sec, usec) \<Rightarrow> if m \<le> sec then Some (m, 0) else maxtv)"
proof -
  have "0 \<le> Min (waits now (w_queries w))" if "waits now (w_queries w) \<noteq> {}"
    using that Min_in [OF finite_waits that] by (auto simp: waits_def)
  then have "Min (waits now (w_queries w)) \<noteq> -1" if "waits now (w_queries w) \<noteq> {}"
    using that by fastforce
  then show ?thesis
    by (auto simp: ares_timeout_def min_offset_fold Let_def waits_simps split: option.splits)
qed

definition open_sockets :: "server_state list \<Rightarrow> int set" where
  "open_sockets ss = {fd. fd \<noteq> -1 \<and> (\<exists>s \<in> set ss. fd = s_udp_socket s \<or> fd = s_tcp_socket s)}"

definition writing_sockets :: "server_state list \<Rightarrow> int set" where
  "writing_sockets ss = {fd. fd \<noteq> -1 \<and> (\<exists>s \<in> set ss. fd = s_tcp_socket s \<and> s_queue s \<noteq> [])}"

lemma open_sockets_Cons: "open_sockets (s # ss) = open_sockets [s] \<union> open_sockets ss"
  and writing_sockets_Cons: "writing_sockets (s # ss) = writing_sockets [s] \<union> writing_sockets ss"
  by (auto simp: open_sockets_def writing_sockets_def)

definition fds_cover :: "server_state list \<Rightarrow> int list \<times> int list \<times> int \<Rightarrow> int list \<times> int list \<times> int \<Rightarrow> bool" where
  "fds_cover ss st st' \<longleftrightarrow> set (fst st') = set (fst st) \<union> open_sockets ss \<and>
     set (fst (snd st')) = set (fst (snd st)) \<union> writing_sockets ss \<and>
     snd (snd st) \<le> snd (snd st') \<and> (\<forall>fd \<in> open_sockets ss. fd < snd (snd st'))"

lemma fds_step_cover: "fds_cover [s] st (fds_step s st)"
proof -
  obtain rds wrs nfds where st: "st = (rds, wrs, nfds)" by (metis prod_cases3)
  show ?thesis
    by (cases "s_udp_socket s = -1"; cases "s_tcp_socket s = -1"; cases "s_queue s = []")
       (auto simp: st fds_cover_def fds_step_def open_sockets_def writing_sockets_def Let_def)
qed

lemma fds_cover_trans:
  "fds_cover [s] u v \<Longrightarrow> fds_cover ss v w \<Longrightarrow> fds_cover (s # ss) u w"
  unfolding fds_cover_def open_sockets_Cons [of s ss] writing_sockets_Cons [of s ss] by auto

lemma fds_fold_cover: "fds_cover ss st (fold fds_step ss st)"
proof (induction ss arbitrary: st)
  case Nil
  show ?case by (simp add: fds_cover_def open_sockets_def writing_sockets_def)
next
  case (Cons s ss)
  show ?case using fds_cover_trans [OF fds_step_cover Cons.IH] by simp
qed

lemma ares_fds_spec:
  assumes "ares_fds w = (rds, wrs, nfds)" "w_queries w \<noteq> []"
  shows "set rds = open_sockets (w_servers w) \<and> set wrs = writing_sockets (w_servers w) \<and>
    (\<forall>fd \<in> set rds. fd < nfds)"
  using fds_fold_cover [of "w_servers w" "([], [], 0)"] assms by (simp add: ares_fds_def fds_cover_def)

section \<open>Destruction\<close>

lemma destroy_loop_all:
  assumes "\<And>cb st ab w. w_queries (cbf cb st ab w) = w_queries w \<and>
      completed (cbf cb st ab w) = completed w \<and> w_ub (cbf cb st ab w) = w_ub w"
  shows "w_queries w = qs \<Longrightarrow>
    completed (destroy_loop cbf suppress qs w) = (if suppress then [] else rev (map q_handle qs)) @ completed w \<and>
    w_queries (destroy_loop cbf suppress qs w) = [] \<and> w_ub (destroy_loop cbf suppress qs w) = w_ub w"
proof (induction qs arbitrary: w)
  case (Cons q qs)
  let ?w = "set_queries qs w"
  define w1 where "w1 = (if suppress then ?w else cbf (q_callback q) ARES_EDESTRUCTION None
    (log_event (EvCallback (q_handle q) ARES_EDESTRUCTION None) ?w))"
  have e: "w_queries w1 = qs" "w_ub w1 = w_ub w" "completed w1 = (if suppress then [] else [q_handle q]) @ completed w"
    using assms by (auto simp: w1_def set_queries_def log_event_def completed_def)
  have "destroy_loop cbf suppress (q # qs) w = destroy_loop cbf suppress qs w1"
    using e(1) by (simp add: w1_def Let_def)
  then show ?case using Cons.IH [OF e(1)] e by auto
qed simp

lemma destroy_complete:
  assumes "\<And>cb st ab w. w_queries (cbf cb st ab w) = w_queries w \<and>
      completed (cbf cb st ab w) = completed w \<and> w_ub (cbf cb st ab w) = w_ub w"
  shows "completed (ares_destroy_internal cbf suppress w) = (if suppress then [] else rev (pending w)) @ completed w"
    "w_queries (ares_destroy_internal cbf suppress w) = []"
    "w_ub (ares_destroy_internal cbf suppress w) = w_ub w"
proof -
  let ?w = "(close_all w)\<lparr>w_chan := (w_chan (close_all w))\<lparr>ch_servers := [], ch_domains := [],
    ch_sortlist := [], ch_lookups := []\<rparr>\<rparr>"
  have q: "quiet w (close_all w)" by (rule quiet_close_all)
  then have "w_queries ?w = w_queries w" "completed ?w = completed w" "w_ub ?w = w_ub w"
    by (auto simp: quiet_def completed_def)
  then show "completed (ares_destroy_internal cbf suppress w) = (if suppress then [] else rev (pending w)) @ completed w"
    "w_queries (ares_destroy_internal cbf suppress w) = []"
    "w_ub (ares_destroy_internal cbf suppress w) = w_ub w"
    using destroy_loop_all [where cbf = cbf and w = ?w and qs = "w_queries w" and suppress = suppress, OF assms]
    by (auto simp: ares_destroy_internal_def Let_def pending_def)
qed

section \<open>Properties\<close>


text \<open>A server's answer to the example query, with one address.\<close>

definition example_answer :: "byte list" where
  "example_answer = a_reply_example"

lemma example_answer_question:
  assumes "w_alloc w = (\<lambda>_. True)"
  shows "same_questions_w example_query example_answer (length example_answer) w = Some True"
proof -
  have "question_allocs w = (\<lambda>_ _. True)" using assms by (simp add: fun_eq_iff question_allocs_def)
  moreover have "same_questions (\<lambda>_ _. True) (drop 2 (q_tcpbuf example_query)) (length (q_tcpbuf example_query) - 2)
      example_answer (length example_answer) = Some True"
    by code_simp
  ultimately show ?thesis by (simp add: same_questions_w_def)
qed

lemma example_answer_deliver:
  assumes "w_alloc w = (\<lambda>_. True)" "w_queries w = [example_query]"
    "\<not> flag_set w ARES_FLAG_TRY_NEXT_SERVER_ON_RCODE3"
  shows "process_answer idle 9 example_answer 0 False w =
    end_query idle example_query ARES_SUCCESS (Some example_answer) w"
  using process_answer_deliver [of example_answer example_query 0 False w idle 9 0]
    example_answer_question [OF assms(1)] assms(2,3)
  by (simp add: example_answer_def a_reply_example_def example_query_def dns_accessors wire_consts rd_def get16_eq
      DNS__16BIT_def)


text \<open>A message whose id belongs to no pending query changes nothing, whatever else it holds, and
  neither does a message without a complete header.\<close>

theorem unknown_answer_ignored:
  assumes "\<forall>q \<in> set (w_queries w). DNS_HEADER_QID abuf \<noteq> Some (q_qid q)"
  shows "process_answer cbf now abuf i tcp w = w"
  using process_answer_unknown [OF assms] .

theorem unknown_answer_ignored_witness:
  "process_answer idle 9 (9 # example_answer) 0 False example_world = example_world"
  by (rule unknown_answer_ignored)
     (simp add: example_defs example_answer_def a_reply_example_def dns_accessors DNS__16BIT_def rd_def get16_eq)

text \<open>A truncated UDP answer is not delivered: the query is sent again over TCP, unless it is
  already on its way there.\<close>

theorem truncated_answer_retried:
  assumes "HFIXEDSZ \<le> length abuf" "DNS_HEADER_QID abuf = Some (q_qid q)" "DNS_HEADER_TC abuf = Some tc"
    and "tc \<noteq> 0 \<or> length abuf > PACKETSZ" "\<not> flag_set w ARES_FLAG_IGNTC"
    and "find (\<lambda>x. q_qid x = q_qid q) (w_queries w) = Some q"
  shows "process_answer cbf now abuf i False w =
    (if q_using_tcp q then w else ares__send_query cbf now (q\<lparr>q_using_tcp := True\<rparr>) w)"
  using process_answer_truncated [OF assms] .

theorem truncated_answer_retried_witness:
  "process_answer idle 9 [0, 7, 0x82, 0, 0, 1, 0, 0, 0, 0, 0, 0] 0 False example_world =
     ares__send_query idle 9 (example_query\<lparr>q_using_tcp := True\<rparr>) example_world"
  using truncated_answer_retried [of "[0, 7, 0x82, 0, 0, 1, 0, 0, 0, 0, 0, 0]" example_query 1 example_world idle 9 0]
  by (simp add: example_defs dns_accessors wire_consts rd_def get16_eq DNS__16BIT_def flag_set_def ares_flags)

text \<open>A server that answers SERVFAIL, NOTIMP or REFUSED is marked to be skipped, and the query moves
  on to the next server if it was waiting for this one.\<close>

theorem failing_server_skipped:
  assumes "HFIXEDSZ \<le> length abuf" "DNS_HEADER_QID abuf = Some (q_qid q)" "DNS_HEADER_TC abuf = Some 0"
    and "DNS_HEADER_RCODE abuf = Some rcode" "rcode_of rcode \<in> {SERVFAIL, NOTIMP, REFUSED}"
    and "length abuf \<le> PACKETSZ \<or> tcp" "find (\<lambda>x. q_qid x = q_qid q) (w_queries w) = Some q"
    and "\<not> flag_set w ARES_FLAG_NOCHECKRESP"
  shows "process_answer cbf now abuf i tcp w =
    (let q' = q\<lparr>q_skip_server := (q_skip_server q)[i := True]\<rparr> in
     if q_server q = i then next_server cbf now q' w else put_query q' w)"
  using process_answer_refused [OF assms] .

theorem failing_server_skipped_witness:
  "process_answer idle 9 [0, 7, 0x80, 2, 0, 1, 0, 0, 0, 0, 0, 0] 0 False example_world =
     next_server idle 9 (example_query\<lparr>q_skip_server := [True]\<rparr>) example_world"
  using failing_server_skipped [of "[0, 7, 0x80, 2, 0, 1, 0, 0, 0, 0, 0, 0]" example_query 2 False example_world idle 9 0]
  by (simp add: example_defs dns_accessors wire_consts rd_def get16_eq DNS__16BIT_def flag_set_def ares_flags)



lemma write_requests_result:
  assumes "i < nservers w" "0 \<le> sys_ret (w_sys w (w_spos w))"
    and "n = min (nat (sys_ret (w_sys w (w_spos w)))) (length (queue_bytes rs))"
  shows "EvWrite i (s_tcp_socket (w_servers w ! i)) (take n (queue_bytes rs)) \<in> set (w_log (write_requests i rs adv w))"
    "s_queue (w_servers (write_requests i rs adv w) ! i) = adv n (s_queue (w_servers w ! i))"
  using assms
  by (simp_all add: write_requests_def sys_write_def syscall_def Let_def upd_server_def log_event_def
      poll_cb_def undefined_behaviour_def)

text \<open>Nothing queued for TCP is lost, repeated or reordered by a partial write: the bytes handed to
  the kernel are the first bytes of the queue, and the queue then holds exactly the rest.\<close>

theorem tcp_write_prefix:
  assumes "i < nservers w" "s = w_servers w ! i" "s_queue s \<noteq> []" "s_tcp_socket s \<noteq> -1"
    and "0 \<le> sys_ret (w_sys w (w_spos w))"
    and "bytes = (if w_alloc w (w_apos w) then queue_bytes (s_queue s) else sr_data (hd (s_queue s)))"
    and "n = min (nat (sys_ret (w_sys w (w_spos w)))) (length bytes)"
  shows "EvWrite i (s_tcp_socket s) (take n bytes) \<in> set (w_log (write_tcp_data_core i w)) \<and>
    queue_bytes (s_queue (w_servers (write_tcp_data_core i w) ! i)) = drop n (queue_bytes (s_queue s)) \<and>
    take n bytes = take n (queue_bytes (s_queue s))"
proof -
  define w1 where "w1 = w\<lparr>w_apos := Suc (w_apos w)\<rparr>"
  define rs adv where "rs = (if w_alloc w (w_apos w) then s_queue s else [hd (s_queue s)])"
    and "adv = (if w_alloc w (w_apos w) then advance_queue else advance_first)"
  have core: "write_tcp_data_core i w = write_requests i rs adv w1"
    using assms(2-4) by (simp add: write_tcp_data_core_def malloc_def Let_def rs_def adv_def w1_def)
  obtain r q where q: "s_queue s = r # q" using assms(3) by (cases "s_queue s") auto
  have rs: "queue_bytes rs = bytes" using assms(6) q by (simp add: rs_def queue_bytes_def)
  have w1: "i < nservers w1" "w_servers w1 ! i = s" "sys_ret (w_sys w1 (w_spos w1)) = sys_ret (w_sys w (w_spos w))"
    using assms(1,2) by (simp_all add: w1_def)
  have "EvWrite i (s_tcp_socket s) (take n bytes) \<in> set (w_log (write_tcp_data_core i w))"
    and "s_queue (w_servers (write_tcp_data_core i w) ! i) = adv n (s_queue s)"
    using write_requests_result [OF w1(1), where rs = rs and adv = adv] assms(5,7) w1 rs core by simp_all
  moreover have "queue_bytes (adv n (s_queue s)) = drop n (queue_bytes (s_queue s))"
  proof (cases "w_alloc w (w_apos w)")
    case True
    then show ?thesis using assms(6,7) advance_queue_bytes [of n "s_queue s"] by (simp add: adv_def)
  next
    case False
    then have "n \<le> length (sr_data r)" using assms(6,7) q by simp
    then show ?thesis using False q advance_first_bytes [of n r q] by (simp add: adv_def del: advance_first.simps)
  qed
  moreover have "take n bytes = take n (queue_bytes (s_queue s))"
    using assms(6,7) q by (simp add: queue_bytes_def)
  ultimately show ?thesis by simp
qed

definition tcp_example :: "unit world" where
  "tcp_example = upd_server 0 (\<lambda>s. s\<lparr>s_tcp_socket := 5, s_queue :=
     [\<lparr>sr_owner = 0, sr_data = [1, 2, 3]\<rparr>, \<lparr>sr_owner = 0, sr_data = [4, 5]\<rparr>]\<rparr>) example_world"

theorem tcp_write_prefix_witness:
  "EvWrite 0 5 [1, 2, 3, 4] \<in> set (w_log (write_tcp_data_core 0 tcp_example)) \<and>
   queue_bytes (s_queue (w_servers (write_tcp_data_core 0 tcp_example) ! 0)) = [5]"
  using tcp_write_prefix [of 0 tcp_example "w_servers tcp_example ! 0" "[1, 2, 3, 4, 5]" 4]
  by (simp add: tcp_example_def upd_server_def example_defs queue_bytes_def)

text \<open>\<^verbatim>\<open>ares_timeout\<close> reports the smallest waiting time of all queries that have a deadline, never a
  negative one, and the maximum passed to it if that is smaller or no query has a deadline.\<close>

theorem ares_timeout_minimum:
  "ares_timeout now maxtv w =
     (if waits now (w_queries w) = {} then maxtv
      else let m = Min (waits now (w_queries w)) in
        case maxtv of None \<Rightarrow> Some (m, 0) | Some (sec, usec) \<Rightarrow> if m \<le> sec then Some (m, 0) else maxtv)"
  by (rule ares_timeout_eq)

text \<open>While queries are pending \<^verbatim>\<open>ares_fds\<close> reports exactly the open sockets for reading, exactly
  the TCP sockets with queued data for writing, and a number above every descriptor.\<close>

theorem ares_fds_exact:
  assumes "ares_fds w = (rds, wrs, nfds)" "w_queries w \<noteq> []"
  shows "set rds = open_sockets (w_servers w) \<and> set wrs = writing_sockets (w_servers w) \<and>
    (\<forall>fd \<in> set rds. fd < nfds)"
  using ares_fds_spec [OF assms] .

theorem ares_fds_exact_witness:
  "ares_fds tcp_example = ([5, 3], [5], 6) \<and>
   {5, 3} = open_sockets (w_servers tcp_example) \<and> {5} = writing_sockets (w_servers tcp_example)"
proof -
  have "ares_fds tcp_example = ([5, 3], [5], 6)" by code_simp
  moreover have "w_queries tcp_example \<noteq> []" by (simp add: tcp_example_def upd_server_def example_defs)
  ultimately show ?thesis using ares_fds_exact [of tcp_example] by simp
qed

text \<open>Destroying a channel completes every pending query exactly once with
  \<^verbatim>\<open>ARES_EDESTRUCTION\<close>, in the order of the list, and leaves none behind; with callbacks suppressed
  it calls none. The callbacks must not touch the channel that is being destroyed.\<close>

theorem destroy_completes_all:
  assumes "\<And>cb st ab w. w_queries (cbf cb st ab w) = w_queries w \<and>
      completed (cbf cb st ab w) = completed w \<and> w_ub (cbf cb st ab w) = w_ub w"
  shows "completed (ares_destroy cbf w) = rev (pending w) @ completed w \<and>
    completed (ares_destroy_suppress_callbacks cbf w) = completed w \<and>
    w_queries (ares_destroy cbf w) = [] \<and> w_ub (ares_destroy cbf w) = w_ub w"
  using destroy_complete [OF assms, where w = w]
  by (simp add: ares_destroy_def ares_destroy_suppress_callbacks_def)

theorem destroy_completes_all_witness:
  "completed (ares_destroy idle example_world) = [0] \<and> w_queries (ares_destroy idle example_world) = [] \<and>
   \<not> w_ub (ares_destroy idle example_world)"
  using destroy_completes_all [of idle example_world]
  by (simp add: idle_def pending_def completed_def example_defs)

definition stayopen_example :: "unit world" where
  "stayopen_example = tcp_example\<lparr>w_chan := (w_chan tcp_example)\<lparr>ch_flags := ARES_FLAG_STAYOPEN\<rparr>\<rparr>"

text \<open>A defect: when a query completes while its request is still queued for TCP, the queue keeps a
  pointer into the freed message. Here a truncated answer has put the query of the example on the TCP
  queue, the full answer then arrives over UDP, and the next write reads freed memory.\<close>

theorem queued_request_dangles:
  "queues_owned stayopen_example \<and> \<not> w_ub stayopen_example \<and>
   w_ub (write_tcp_data_core 0 (process_answer idle 9 example_answer 0 False stayopen_example))"
proof -
  have "w_ub (write_tcp_data_core 0 (end_query idle example_query ARES_SUCCESS (Some example_answer) stayopen_example))"
    by code_simp
  moreover have "queues_owned stayopen_example \<and> \<not> w_ub stayopen_example" by code_simp
  ultimately show ?thesis using example_answer_deliver [of stayopen_example]
    by (simp add: stayopen_example_def tcp_example_def upd_server_def example_world_def flag_set_def ares_flags)
qed

end
