(* ===== verification/Ahost.thy ===== *)
theory Ahost
  imports Config LookupInv Answers Progress
begin

text \<open>
  \<^verbatim>\<open>ahost.c\<close>, the application that comes with the resolver, with \<^verbatim>\<open>ares_strerror.c\<close>: it
  looks up the hosts and addresses of its command line and prints what it is told. What it prints is
  logged; its callback leaves the channel alone, so it meets the contract of application callbacks,
  and the contracts of \<^verbatim>\<open>LookupInv\<close> and \<^verbatim>\<open>QueryInv\<close> are interpreted for it.
\<close>

section \<open>Error texts\<close>

text \<open>\<^verbatim>\<open>ares_strerror\<close>: \<open>None\<close> is a failed assertion.\<close>

definition errtext :: "cstring list" where
  "errtext = map str [''Successful completion'', ''DNS server returned answer with no data'',
     ''DNS server claims query was misformatted'', ''DNS server returned general failure'',
     ''Domain name not found'', ''DNS server does not implement requested operation'',
     ''DNS server refused query'', ''Misformatted DNS query'', ''Misformatted domain name'',
     ''Unsupported address family'', ''Misformatted DNS reply'', ''Could not contact DNS servers'',
     ''Timeout while contacting DNS servers'', ''End of file'', ''Error reading file'',
     ''Out of memory'', ''Destructing'']"

definition ares_strerror :: "int \<Rightarrow> cstring option" where
  "ares_strerror code =
     (if 0 \<le> code \<and> nat code < length errtext then Some (errtext ! nat code) else None)"

lemma status_code_less: "status_code st < 17"
  by (cases st) simp_all

lemma ares_strerror_status:
  "ares_strerror (int (status_code st)) = Some (errtext ! status_code st)"
  using status_code_less [of st] by (simp add: ares_strerror_def errtext_def)

section \<open>The callback\<close>

text \<open>\<^verbatim>\<open>%-32s\<close>\<close>

definition pad_right :: "nat \<Rightarrow> cstring \<Rightarrow> cstring" where
  "pad_right n s = s @ replicate (n - length s) 0x20"

definition ahost_lines :: "cstring \<Rightarrow> ares_status \<Rightarrow> hostent option \<Rightarrow> cstring list option" where
  "ahost_lines arg status host =
     (if status \<noteq> ARES_SUCCESS then
        map_option (\<lambda>t. [arg @ str '': '' @ t @ [NEWLINE]]) (ares_strerror (int (status_code status)))
      else map_option (\<lambda>h. map (\<lambda>a. pad_right 32 (h_name h) @ 0x09 # print_quad a @ [NEWLINE]) (h_addr_list h))
             host)"

text \<open>The argument is the word of the command line. The function is passed to
  \<^verbatim>\<open>ares_gethostbyname\<close> and \<^verbatim>\<open>ares_gethostbyaddr\<close> only, so it gets no raw messages.\<close>

definition ahost_callback :: "cstring user_fn" where
  "ahost_callback arg r w =
     (case r of
        RawReply _ _ \<Rightarrow> w
      | HostReply status host \<Rightarrow>
          (case ahost_lines arg status host of
             None \<Rightarrow> undefined_behaviour w
           | Some ls \<Rightarrow> fold (\<lambda>l. log_event (EvOutput l)) ls w))"

lemma ahost_callback_quiet:
  assumes "reply_ok r" shows "quiet w (ahost_callback arg r w)"
proof -
  have "quiet w (fold (\<lambda>l. log_event (EvOutput l)) ls w)" for ls
    by (rule quiet_fold) (simp add: quiet_log)
  then show ?thesis using assms
    by (cases r) (auto simp: ahost_callback_def ahost_lines_def ares_strerror_status quiet_log split: option.splits if_splits)
qed

text \<open>A machine with a hosts file and an alias file, both text without NUL bytes, and enough
  memory.\<close>

definition text_file :: "cstring \<Rightarrow> cfile" where
  "text_file t = \<lparr>f_data = filter (\<lambda>c. c \<noteq> 0) t, f_error = False\<rparr>"

definition machine :: "int \<Rightarrow> (cstring \<Rightarrow> in_addr) \<Rightarrow> cstring option \<Rightarrow> cstring option \<Rightarrow> env" where
  "machine now inet hosts aliases = \<lparr>e_now = now, e_inet_addr = inet, e_hosts = map_option text_file hosts,
     e_hostaliases = map_option (\<lambda>t. Some (text_file t)) aliases, e_hosts_alloc = (\<lambda>_ _ _ _. True),
     e_alias_alloc = (\<lambda>_ _. True), e_parse_alloc = (\<lambda>_. True)\<rparr>"

lemma machine_ok: "env_ok (machine now inet hosts aliases)"
  by (auto simp: env_ok_def machine_def text_file_def no_nul_def allocs_ok_def split: option.splits)

interpretation ahost: user_contract ahost_callback "machine now inet hosts aliases"
  for now inet hosts aliases
  by unfold_locales (simp_all add: quiet_keeps ahost_callback_quiet machine_ok)

interpretation ahost_host: query_callback "invoke (machine now inet hosts aliases) ahost_callback" cb_ok
    "QCallback (UserCb arg)" w0
  for now inet hosts aliases arg w0
  by (rule ahost.calls.one_callback) simp

section \<open>The main program\<close>

definition start_lookup :: "env \<Rightarrow> cstring \<Rightarrow> cstring cb world \<Rightarrow> cstring cb world" where
  "start_lookup env arg w =
     (let addr = e_inet_addr env arg in
      if addr = INADDR_NONE
      then ares_gethostbyname env ahost_callback (invoke env ahost_callback) arg AF_INET arg w
      else ares_gethostbyaddr env ahost_callback (invoke env ahost_callback) (bytes_of_addr addr) AF_INET arg w)"

definition start_lookups :: "env \<Rightarrow> cstring list \<Rightarrow> cstring cb world \<Rightarrow> cstring cb world" where
  "start_lookups env args w = fold (start_lookup env) args w"

text \<open>The loop that waits for all queries; \<open>sel i\<close> is what the \<open>i\<close>-th \<^verbatim>\<open>select\<close> finds ready
  and the time after it. \<open>None\<close> when it does not end.\<close>

partial_function (option) wait_loop ::
  "env \<Rightarrow> (nat \<Rightarrow> (int \<Rightarrow> bool) \<times> (int \<Rightarrow> bool) \<times> int) \<Rightarrow> nat \<Rightarrow> cstring cb world \<Rightarrow> cstring cb world option"
where
  "wait_loop env sel i w =
     (case ares_fds w of (rds, wrs, nfds) \<Rightarrow>
      if nfds = 0 then Some w
      else case sel i of (rd_ready, wr_ready, now) \<Rightarrow>
        (case ares_process (invoke (env\<lparr>e_now := now\<rparr>) ahost_callback) now
            (Some (\<lambda>fd. fd \<in> set rds \<and> rd_ready fd)) (Some (\<lambda>fd. fd \<in> set wrs \<and> wr_ready fd)) w of
           None \<Rightarrow> None
         | Some w' \<Rightarrow> wait_loop env sel (Suc i) w'))"

declare wait_loop.simps [code]

definition ahost_main ::
  "env \<Rightarrow> (nat \<Rightarrow> (int \<Rightarrow> bool) \<times> (int \<Rightarrow> bool) \<times> int) \<Rightarrow> cstring list \<Rightarrow> cstring cb world \<Rightarrow>
   cstring cb world option" where
  "ahost_main env sel args w =
     map_option (ares_destroy (invoke env ahost_callback)) (wait_loop env sel 0 (start_lookups env args w))"

lemma start_lookups_keeps:
  assumes "wf_world cb_ok w" "[] \<notin> set args"
  shows "keeps cb_ok w (start_lookups (machine now inet hosts aliases) args w)"
  using assms
proof (induction args arbitrary: w)
  case (Cons a args)
  let ?e = "machine now inet hosts aliases"
  have "keeps cb_ok w (start_lookup ?e a w)"
    using Cons.prems ahost.gethostbyname_keeps ahost.gethostbyaddr_keeps
    by (auto simp: start_lookup_def Let_def)
  then show ?case using Cons keeps_wf keeps_trans unfolding start_lookups_def
    by (metis fold_simps(2) insert_iff list.set(2))
qed (simp add: start_lookups_def)

end
