(* ===== verification/ConfigProps.thy ===== *)
theory ConfigProps
  imports Config QueryInv
begin

text \<open>
  The order of precedence of the configuration sources, that a configuration is complete, that
  reading a \<^verbatim>\<open>resolv.conf\<close> without NUL bytes is defined, and the state a fresh channel is in.
\<close>

lemma if_Inl_Inr: "((if c then Inl e else x) = Inr y) = (\<not> c \<and> x = Inr y)"
  and if_Some_None: "((if c then Some a else b) = None) = (\<not> c \<and> b = None)"
  by simp_all

section \<open>Precedence\<close>

text \<open>\<open>extends cf cf'\<close>: everything \<open>cf\<close> has set is the same in \<open>cf'\<close>.\<close>

definition extends :: "config \<Rightarrow> config \<Rightarrow> bool" where
  "extends cf cf' \<longleftrightarrow>
     (cf_flags cf \<noteq> -1 \<longrightarrow> cf_flags cf' = cf_flags cf) \<and>
     (cf_timeout cf \<noteq> -1 \<longrightarrow> cf_timeout cf' = cf_timeout cf) \<and>
     (cf_tries cf \<noteq> -1 \<longrightarrow> cf_tries cf' = cf_tries cf) \<and>
     (cf_ndots cf \<noteq> -1 \<longrightarrow> cf_ndots cf' = cf_ndots cf) \<and>
     (cf_udp_port cf \<noteq> -1 \<longrightarrow> cf_udp_port cf' = cf_udp_port cf) \<and>
     (cf_tcp_port cf \<noteq> -1 \<longrightarrow> cf_tcp_port cf' = cf_tcp_port cf) \<and>
     (cf_servers cf \<noteq> None \<longrightarrow> cf_servers cf' = cf_servers cf) \<and>
     (cf_domains cf \<noteq> None \<longrightarrow> cf_domains cf' = cf_domains cf) \<and>
     (cf_sortlist cf \<noteq> None \<longrightarrow> cf_sortlist cf' = cf_sortlist cf) \<and>
     (cf_lookups cf \<noteq> None \<longrightarrow> cf_lookups cf' = cf_lookups cf)"

lemma extends_refl [simp]: "extends cf cf"
  by (simp add: extends_def)

lemma extends_trans: "extends a b \<Longrightarrow> extends b c \<Longrightarrow> extends a c"
  unfolding extends_def by metis

lemma extends_domains: "cf_domains cf = None \<Longrightarrow> extends cf (cf\<lparr>cf_domains := d\<rparr>)"
  and extends_lookups: "cf_lookups cf = None \<Longrightarrow> extends cf (cf\<lparr>cf_lookups := l\<rparr>)"
  and extends_ndots: "cf_ndots cf = -1 \<Longrightarrow> extends cf (cf\<lparr>cf_ndots := n\<rparr>)"
  and extends_timeout: "cf_timeout cf = -1 \<Longrightarrow> extends cf (cf\<lparr>cf_timeout := n\<rparr>)"
  and extends_tries: "cf_tries cf = -1 \<Longrightarrow> extends cf (cf\<lparr>cf_tries := n\<rparr>)"
  by (simp_all add: extends_def)

lemma set_option_extends: "extends cf (set_option word cf)"
proof -
  define cf1 where "cf1 = (case try_option word (str ''ndots:'') of
    Some val \<Rightarrow> if cf_ndots cf = -1 then cf\<lparr>cf_ndots := atoi val\<rparr> else cf | None \<Rightarrow> cf)"
  define cf2 where "cf2 = (case try_option word (str ''retrans:'') of
    Some val \<Rightarrow> if cf_timeout cf1 = -1 then cf1\<lparr>cf_timeout := atoi val\<rparr> else cf1 | None \<Rightarrow> cf1)"
  have "extends cf cf1" by (simp add: cf1_def extends_ndots split: option.split)
  moreover have "extends cf1 cf2" by (simp add: cf2_def extends_timeout split: option.split)
  moreover have "extends cf2 (set_option word cf)"
    by (simp add: set_option_def Let_def extends_tries flip: cf1_def cf2_def split: option.split)
  ultimately show ?thesis by (blast intro: extends_trans)
qed

lemma set_options_extends: "extends cf (set_options s cf)"
proof -
  have "extends cf (fold set_option ws cf)" for ws
    by (induction ws arbitrary: cf) (auto intro: extends_trans set_option_extends)
  then show ?thesis by (simp add: set_options_def)
qed

lemma set_search_extends: "cf_domains cf = None \<Longrightarrow> set_search m s cf = Inr cf' \<Longrightarrow> extends cf cf'"
  by (auto simp: set_search_def Let_def extends_domains split: if_splits)

lemma numbers_extends: "extends cf (option_numbers opts optmask cf)"
  by (simp add: extends_def option_numbers_def)

lemma options_extends:
  assumes "init_by_options m opts optmask cf = Inr cf'" shows "extends cf cf'"
proof -
  define cf1 where "cf1 = option_numbers opts optmask cf"
  have "extends cf1 cf'"
    using assms unfolding init_by_options_def Let_def cf1_def [symmetric] if_Inl_Inr sum.inject
    by (elim conjE, hypsubst) (simp add: extends_def)
  then show ?thesis using numbers_extends extends_trans unfolding cf1_def by blast
qed

lemma environment_extends: "init_by_environment m ld ro cf = Inr cf' \<Longrightarrow> extends cf cf'"
  by (auto simp: init_by_environment_def split: option.splits sum.splits if_splits
      intro: set_search_extends extends_trans [OF _ set_options_extends] set_options_extends)

text \<open>What holds along the lines of \<^verbatim>\<open>resolv.conf\<close>.\<close>

definition resolv_inv :: "config \<Rightarrow> resolv_state \<Rightarrow> bool" where
  "resolv_inv cf0 st \<longleftrightarrow> (case st of (cf, servers, sortlist) \<Rightarrow> extends cf0 cf \<and>
     cf_servers cf = cf_servers cf0 \<and> cf_sortlist cf = cf_sortlist cf0 \<and>
     (servers \<noteq> [] \<longrightarrow> cf_servers cf0 = None) \<and> (sortlist \<noteq> [] \<longrightarrow> cf_sortlist cf0 = None))"

lemma set_options_lists [simp]:
  "cf_servers (set_options s cf) = cf_servers cf" "cf_sortlist (set_options s cf) = cf_sortlist cf"
proof -
  have "cf_servers (set_option w cf) = cf_servers cf \<and> cf_sortlist (set_option w cf) = cf_sortlist cf" for w cf
    by (simp add: set_option_def Let_def split: option.split)
  then have "cf_servers (fold set_option ws cf) = cf_servers cf \<and>
      cf_sortlist (fold set_option ws cf) = cf_sortlist cf" for ws
    by (induction ws arbitrary: cf) auto
  then show "cf_servers (set_options s cf) = cf_servers cf" "cf_sortlist (set_options s cf) = cf_sortlist cf"
    by (simp_all add: set_options_def)
qed

lemma resolv_inv_step:
  assumes "resolv_inv cf0 (cf, servers, sortlist)" "extends cf cf'"
    and "cf_servers cf' = cf_servers cf" "cf_sortlist cf' = cf_sortlist cf"
  shows "resolv_inv cf0 (cf', servers, sortlist)"
  using assms by (auto simp: resolv_inv_def intro: extends_trans)

lemma resolv_line_inv:
  assumes "resolv_inv cf0 st" "resolv_line m inet line st = Some (Inr st')"
  shows "resolv_inv cf0 st'"
proof -
  obtain cf servers sortlist where st: "st = (cf, servers, sortlist)" by (metis prod_cases3)
  note step = resolv_inv_step [OF assms(1) [unfolded st]]
  have dom: "resolv_inv cf0 (cf', servers, sortlist)" if "cf_domains cf = None" "set_search m s cf = Inr cf'" for s cf'
    using that by (intro step set_search_extends) (auto simp: set_search_def Let_def split: if_splits)
  have look: "resolv_inv cf0 (cf', servers, sortlist)" if "cf_lookups cf = None" "config_lookup m s cf = Inr cf'" for s cf'
    using that by (intro step) (auto simp: config_lookup_def extends_lookups split: if_splits)
  have opt: "resolv_inv cf0 (set_options s cf, servers, sortlist)" for s
    by (intro step set_options_extends) simp_all
  let ?key = "\<lambda>k. try_config line (str k)"
  consider (domain) "?key ''domain'' \<noteq> None \<and> cf_domains cf = None"
    | (lookup) "\<not> (?key ''domain'' \<noteq> None \<and> cf_domains cf = None)" "?key ''lookup'' \<noteq> None \<and> cf_lookups cf = None"
    | (rest) "\<not> (?key ''domain'' \<noteq> None \<and> cf_domains cf = None)"
        "\<not> (?key ''lookup'' \<noteq> None \<and> cf_lookups cf = None)" by blast
  then show ?thesis
  proof cases
    case domain
    then show ?thesis using assms(2) dom [of "word_of_line (the (?key ''domain''))"]
      by (auto simp: st resolv_line_def config_domain_def Let_def split: sum.splits)
  next
    case lookup
    then show ?thesis using assms(2) look [of "the (?key ''lookup'')"]
      by (auto simp: st resolv_line_def Let_def split: sum.splits)
  next
    case rest
    note eq = assms(2) [unfolded st resolv_line_def Let_def prod.case if_not_P [OF rest(1)] if_not_P [OF rest(2)]]
    consider (search) "?key ''search'' \<noteq> None \<and> cf_domains cf = None"
      | (server) "\<not> (?key ''search'' \<noteq> None \<and> cf_domains cf = None)" "?key ''nameserver'' \<noteq> None \<and> cf_servers cf = None"
      | (other) "\<not> (?key ''search'' \<noteq> None \<and> cf_domains cf = None)" "\<not> (?key ''nameserver'' \<noteq> None \<and> cf_servers cf = None)"
      by blast
    then show ?thesis
    proof cases
      case search
      then show ?thesis using eq dom [of "the (?key ''search'')"] by (auto split: sum.splits)
    next
      case server
      note eq' = eq [unfolded if_not_P [OF server(1)] if_P [OF server(2)]]
      obtain ss where "st' = (cf, ss, sortlist)" using eq' by (auto split: sum.splits bind_splits)
      then show ?thesis using assms(1) server(2) by (simp add: st resolv_inv_def)
    next
      case other
      note eq' = eq [unfolded if_not_P [OF other(1)] if_not_P [OF other(2)]]
      show ?thesis
      proof (cases "?key ''sortlist'' \<noteq> None \<and> cf_sortlist cf = None")
        case True
        then obtain sl where "st' = (cf, servers, sl)" using eq' by (auto split: sum.splits)
        then show ?thesis using assms(1) True by (simp add: st resolv_inv_def)
      next
        case False
        then show ?thesis using eq' [unfolded if_not_P [OF False]] assms(1) opt
          by (auto simp: st split: option.splits)
      qed
    qed
  qed
qed

lemma resolv_loop_inv:
  assumes "resolv_inv cf0 st" "resolv_loop m inet i fp buf st = Some (status, st')"
  shows "resolv_inv cf0 st'"
  using assms
proof (induction m inet i fp buf st rule: resolv_loop.induct)
  case (1 m inet i fp buf st)
  note eq = "1.prems"(2) [unfolded resolv_loop.simps [of m inet i fp buf st]]
  obtain s line fp' buf' where r: "ares__read_line (m i False) fp buf = Some (s, line, fp', buf')"
    using eq by (auto split: option.splits)
  show ?case
  proof (cases "s = ARES_SUCCESS")
    case True
    then obtain x where x: "resolv_line (m i True) inet line st = Some x"
      using eq r by (auto split: option.splits)
    show ?thesis
    proof (cases x)
      case (Inl e)
      then show ?thesis using eq r True x "1.prems"(1) by simp
    next
      case (Inr st1)
      then show ?thesis
        using eq r True x "1.IH" [OF r refl refl refl _ x [unfolded Inr] refl] resolv_line_inv [OF "1.prems"(1)]
        by simp
    qed
  qed (use eq r "1.prems"(1) in simp)
qed

lemma resolv_conf_extends:
  assumes "init_by_resolv_conf m inet file cf = Some (Inr cf')" shows "extends cf cf'"
proof (cases "file")
  case (Inr fp)
  then obtain status cf1 servers sortlist where
    l: "resolv_loop m inet 0 fp None (cf, [], []) = Some (status, cf1, servers, sortlist)"
      "cf' = cf1\<lparr>cf_servers := (if servers \<noteq> [] then Some servers else cf_servers cf1),
                 cf_sortlist := (if sortlist \<noteq> [] then Some sortlist else cf_sortlist cf1)\<rparr>"
    using assms by (auto simp: init_by_resolv_conf_def split: option.splits if_splits)
  have "resolv_inv cf (cf1, servers, sortlist)"
    using resolv_loop_inv [OF _ l(1), of cf] by (simp add: resolv_inv_def)
  then have "extends cf1 cf'" "extends cf cf1" by (auto simp: l(2) resolv_inv_def extends_def)
  then show ?thesis by (blast intro: extends_trans)
qed (use assms in \<open>auto simp: init_by_resolv_conf_def split: if_splits\<close>)

lemma defaults_extends: "init_by_defaults m hostname cf = Inr cf' \<Longrightarrow> extends cf cf'"
  unfolding init_by_defaults_def if_Inl_Inr sum.inject
  by (elim conjE, hypsubst) (auto simp: extends_def split: option.split)

text \<open>The four sources in a row: what an earlier one sets, no later one changes.\<close>

lemma config_sources_steps:
  assumes "config_sources ie opts optmask = Some (Inr cf)"
  obtains cf1 cf2 cf3 where
    "init_by_options (i_alloc ie 1) opts optmask unset_config = Inr cf1"
    "init_by_environment (i_alloc ie 2) (i_localdomain ie) (i_res_options ie) cf1 = Inr cf2"
    "init_by_resolv_conf (i_file_alloc ie) (i_inet_addr ie) (i_resolv_conf ie) cf2 = Some (Inr cf3)"
    "init_by_defaults (i_alloc ie 3) (i_hostname ie) cf3 = Inr cf"
    "extends cf1 cf2" "extends cf2 cf3" "extends cf3 cf"
proof -
  obtain cf1 cf2 cf3 where s:
    "init_by_options (i_alloc ie 1) opts optmask unset_config = Inr cf1"
    "init_by_environment (i_alloc ie 2) (i_localdomain ie) (i_res_options ie) cf1 = Inr cf2"
    "init_by_resolv_conf (i_file_alloc ie) (i_inet_addr ie) (i_resolv_conf ie) cf2 = Some (Inr cf3)"
    "init_by_defaults (i_alloc ie 3) (i_hostname ie) cf3 = Inr cf"
    using assms by (auto simp: config_sources_def split: sum.splits option.splits)
  then show ?thesis
    using that environment_extends resolv_conf_extends defaults_extends by blast
qed

section \<open>Reading the file is defined\<close>

lemma resolv_line_total: "\<exists>r. resolv_line m inet line st = Some r"
proof -
  have "\<exists>r. config_nameserver m s servers = Some r" for s servers
  proof -
    obtain v4 where "inet_pton4 s = Some v4" using inet_pton4_total by blast
    moreover obtain v6 where "inet_pton6 s = Some v6" using inet_pton6_total by blast
    ultimately show ?thesis by (cases v4) (simp_all add: config_nameserver_def)
  qed
  then obtain f where n: "config_nameserver m s servers = Some (f s servers)" for s servers by metis
  obtain cf servers sortlist where st: "st = (cf, servers, sortlist)" by (metis prod_cases3)
  have "resolv_line m inet line st \<noteq> None"
    unfolding st resolv_line_def Let_def prod.case n bind.bind_lunit if_Some_None by simp
  then show ?thesis by blast
qed

lemma resolv_loop_total:
  assumes "no_nul (f_data fp)" "big_enough buf" "\<forall>i. allocs_ok (m i False)"
  shows "\<exists>r. resolv_loop m inet i fp buf st = Some r"
  using assms
proof (induction m inet i fp buf st rule: resolv_loop.induct)
  case (1 m inet i fp buf st)
  let ?d = "f_data fp"
  have m: "allocs_ok (m i False)" using "1.prems"(3) by simp
  obtain r where r: "resolv_line (m i True) inet (line_of ?d) st = Some r" using resolv_line_total by blast
  obtain cf ss sl where st: "st = (cf, ss, sl)" by (metis prod_cases3)
  show ?case
  proof (cases "?d = []")
    case True
    then show ?thesis using st read_line_eof [OF m True "1.prems"(2)]
      by (subst resolv_loop.simps) (auto split: if_splits)
  next
    case False
    obtain sz where l: "ares__read_line (m i False) fp buf =
        Some (ARES_SUCCESS, line_of ?d, fp\<lparr>f_data := rest_of ?d\<rparr>, Some sz)" "2 \<le> sz"
      using read_line_correct [OF "1.prems"(1) m False "1.prems"(2)] by blast
    show ?thesis
    proof (cases r)
      case (Inl e)
      then show ?thesis using r l st by (subst resolv_loop.simps) simp
    next
      case (Inr st')
      have "\<exists>r. resolv_loop m inet (Suc i) (fp\<lparr>f_data := rest_of ?d\<rparr>) (Some sz) st' = Some r"
        using "1.IH" [OF l(1) refl refl refl] r Inr l(2) "1.prems"
        by (simp add: no_nul_rest big_enough_def)
      then show ?thesis using r l Inr by (subst resolv_loop.simps) simp
    qed
  qed
qed

section \<open>A fresh channel\<close>

lemma set_search_servers: "set_search m s cf = Inr cf' \<Longrightarrow> cf_servers cf' = cf_servers cf"
  by (auto simp: set_search_def Let_def split: if_splits)

lemma environment_servers: "init_by_environment m ld ro cf = Inr cf' \<Longrightarrow> cf_servers cf' = cf_servers cf"
  by (auto simp: init_by_environment_def set_search_servers split: option.splits sum.splits if_splits)

lemma sources_complete:
  assumes "config_sources ie opts optmask = Some (Inr cf)"
  shows "\<exists>s ss. cf_servers cf = Some (s # ss)" "cf_domains cf \<noteq> None" "cf_sortlist cf \<noteq> None" "cf_lookups cf \<noteq> None"
proof -
  obtain cf1 cf2 cf3 where s:
    "init_by_options (i_alloc ie 1) opts optmask unset_config = Inr cf1"
    "init_by_environment (i_alloc ie 2) (i_localdomain ie) (i_res_options ie) cf1 = Inr cf2"
    "init_by_resolv_conf (i_file_alloc ie) (i_inet_addr ie) (i_resolv_conf ie) cf2 = Some (Inr cf3)"
    "init_by_defaults (i_alloc ie 3) (i_hostname ie) cf3 = Inr cf"
    using config_sources_steps [OF assms] .
  have "cf_servers cf1 \<noteq> Some []"
    using s(1) unfolding init_by_options_def Let_def if_Inl_Inr sum.inject
    by (elim conjE, hypsubst) (simp add: option_numbers_def unset_config_def)
  then have 2: "cf_servers cf2 \<noteq> Some []" using environment_servers [OF s(2)] by simp
  have "cf_servers cf3 \<noteq> Some []"
  proof (cases "i_resolv_conf ie")
    case (Inr fp)
    then obtain status cf' servers sortlist where
      l: "resolv_loop (i_file_alloc ie) (i_inet_addr ie) 0 fp None (cf2, [], []) = Some (status, cf', servers, sortlist)"
        "cf_servers cf3 = (if servers \<noteq> [] then Some servers else cf_servers cf')"
      using s(3) by (auto simp: init_by_resolv_conf_def split: option.splits if_splits)
    have "resolv_inv cf2 (cf', servers, sortlist)"
      using resolv_loop_inv [OF _ l(1), of cf2] by (simp add: resolv_inv_def)
    then show ?thesis using 2 l(2) by (simp add: resolv_inv_def)
  qed (use s(3) 2 in \<open>auto simp: init_by_resolv_conf_def split: if_splits\<close>)
  then show "\<exists>s ss. cf_servers cf = Some (s # ss)" using s(4)
    unfolding init_by_defaults_def if_Inl_Inr sum.inject
    by (elim conjE, hypsubst) (auto simp: neq_Nil_conv split: option.splits)
  show "cf_domains cf \<noteq> None" "cf_sortlist cf \<noteq> None" "cf_lookups cf \<noteq> None"
    using s(4) unfolding init_by_defaults_def if_Inl_Inr sum.inject by auto
qed

text \<open>A fresh channel has at least one server, no socket and no query.\<close>

lemma channel_of_fresh:
  assumes "config_sources ie opts optmask = Some (Inr cf)"
  shows "ch_servers (channel_of f n cf) \<noteq> []" "ch_queries (channel_of f n cf) = []"
    "\<forall>s \<in> set (ch_servers (channel_of f n cf)). s_udp_socket s = -1 \<and> s_tcp_socket s = -1 \<and>
       s_queue s = [] \<and> frame_ok s"
  using sources_complete(1) [OF assms]
  by (auto simp: channel_of_def Let_def init_server_def frame_ok_def)

section \<open>Properties\<close>

text \<open>A machine without a \<^verbatim>\<open>resolv.conf\<close>, with a search list in the environment.\<close>

definition example_init :: init_env where
  "example_init = \<lparr>i_alloc = (\<lambda>_ _. True), i_file_alloc = (\<lambda>_ _ _. True), i_inet_addr = (\<lambda>_. INADDR_NONE),
     i_localdomain = Some (str ''a.b c''), i_res_options = Some (str ''ndots:2 retry:7''),
     i_resolv_conf = Inl True, i_hostname = None\<rparr>"

definition example_options :: ares_options where
  "example_options = no_options\<lparr>o_tries := 3\<rparr>"

definition example_config :: config where
  "example_config = \<lparr>cf_flags = 0, cf_timeout = 5, cf_tries = 3, cf_ndots = 2, cf_udp_port = 53, cf_tcp_port = 53,
     cf_servers = Some [default_server], cf_domains = Some [str ''a.b'', str ''c''], cf_sortlist = Some [],
     cf_lookups = Some (str ''bf'')\<rparr>"

lemma example_sources: "config_sources example_init example_options ARES_OPT_TRIES = Some (Inr example_config)"
  by code_simp

text \<open>C39: The sources of configuration are consulted in the order options, environment,
  \<^verbatim>\<open>resolv.conf\<close>, defaults, and whatever an earlier source sets, no later one changes.\<close>

theorem config_precedence:
  assumes "config_sources ie opts optmask = Some (Inr cf)"
  shows "\<exists>cf1 cf2 cf3. init_by_options (i_alloc ie 1) opts optmask unset_config = Inr cf1 \<and>
    init_by_environment (i_alloc ie 2) (i_localdomain ie) (i_res_options ie) cf1 = Inr cf2 \<and>
    init_by_resolv_conf (i_file_alloc ie) (i_inet_addr ie) (i_resolv_conf ie) cf2 = Some (Inr cf3) \<and>
    extends cf1 cf2 \<and> extends cf2 cf3 \<and> extends cf3 cf \<and> extends cf1 cf"
proof -
  obtain cf1 cf2 cf3 where s:
    "init_by_options (i_alloc ie 1) opts optmask unset_config = Inr cf1"
    "init_by_environment (i_alloc ie 2) (i_localdomain ie) (i_res_options ie) cf1 = Inr cf2"
    "init_by_resolv_conf (i_file_alloc ie) (i_inet_addr ie) (i_resolv_conf ie) cf2 = Some (Inr cf3)"
    "extends cf1 cf2" "extends cf2 cf3" "extends cf3 cf"
    using config_sources_steps [OF assms] .
  moreover have "extends cf1 cf" by (rule extends_trans [OF extends_trans [OF s(4,5)] s(6)])
  ultimately show ?thesis by (intro exI conjI)
qed

theorem config_precedence_witness:
  "\<exists>cf1. init_by_options (\<lambda>_. True) example_options ARES_OPT_TRIES unset_config = Inr cf1 \<and>
     extends cf1 example_config"
  using config_precedence [OF example_sources] by (auto simp: example_init_def)

text \<open>A channel that \<^verbatim>\<open>ares_init\<close> returns has at least one server, no query, and no server with an
  open socket, a queued request or a partly read message.\<close>

theorem initialised_channel:
  assumes "ares_init_options_with_socket_function ie next_id opts optmask socketFunc = Some (Inr ch)"
  shows "ch_servers ch \<noteq> [] \<and> ch_queries ch = [] \<and>
    (\<forall>s \<in> set (ch_servers ch). s_udp_socket s = -1 \<and> s_tcp_socket s = -1 \<and> s_queue s = [] \<and>
       s_tcp_lenbuf s = [] \<and> s_tcp_buffer s = None)"
proof -
  obtain z where z: "config_sources ie opts optmask = Some z"
    "(case z of Inl e \<Rightarrow> Inl e | Inr cf \<Rightarrow> Inr (channel_of socketFunc next_id cf)) = Inr ch"
    using assms by (auto simp: ares_init_options_with_socket_function_def split: if_splits)
  then obtain cf where cf: "z = Inr cf" "ch = channel_of socketFunc next_id cf" by (cases z) auto
  have "\<forall>s \<in> set (ch_servers ch). s_tcp_lenbuf s = [] \<and> s_tcp_buffer s = None"
    by (auto simp: cf(2) channel_of_def Let_def init_server_def)
  then show ?thesis using channel_of_fresh [of ie opts optmask cf socketFunc next_id] z(1) cf by auto
qed

theorem initialised_channel_witness:
  "\<exists>ch :: unit channel. ares_init_options_with_socket_function example_init 7 example_options ARES_OPT_TRIES False
       = Some (Inr ch) \<and> ch_servers ch \<noteq> [] \<and> ch_queries ch = []"
proof -
  have "ares_init_options_with_socket_function example_init 7 example_options ARES_OPT_TRIES False =
      Some (Inr (channel_of False 7 example_config :: unit channel))"
    by (simp add: ares_init_options_with_socket_function_def example_sources) (simp add: example_init_def)
  then show ?thesis using initialised_channel by blast
qed

text \<open>Reading \<^verbatim>\<open>resolv.conf\<close> is safe for any contents without NUL bytes: every line is parsed
  without touching memory outside its buffers, and the loop over the lines ends.\<close>

theorem resolv_conf_safe:
  assumes "no_nul (f_data fp)" "\<forall>i. allocs_ok (m i False)"
  shows "init_by_resolv_conf m inet (Inr fp) cf \<noteq> None"
proof -
  obtain r where "resolv_loop m inet 0 fp None (cf, [], []) = Some r"
    using resolv_loop_total [where m = m and fp = fp and buf = None] assms unfolding big_enough_def by force
  then show ?thesis by (cases r) (auto simp: init_by_resolv_conf_def)
qed

theorem resolv_conf_safe_witness:
  "init_by_resolv_conf (\<lambda>_ _ _. True) (\<lambda>_. 0) (Inr \<lparr>f_data = str ''nameserver ::1'' @ [10], f_error = False\<rparr>)
     unset_config \<noteq> None"
  by (rule resolv_conf_safe) (simp_all add: no_nul_def str_def)

end
