(* ===== verification/Resolver.thy ===== *)
theory Resolver
  imports Ahost ConfigProps
begin

text \<open>
  The resolver as a state machine: the states a channel can reach from its initialisation by any
  sequence of the calls an application makes, with any replies of the network and any application
  callback that meets its contract. The invariants hold in all of them.

  The one way a call can run into undefined behaviour although there is enough memory is a queued TCP
  request whose query has been freed. Nothing the channel does depends on \<open>w_ub\<close>, so the invariants
  survive it: \<open>drifts\<close> is \<open>runs\<close> from the world as it is, or with the flag set.
\<close>

section \<open>Steps that may set the flag\<close>

definition drifts :: "('cb \<Rightarrow> bool) \<Rightarrow> 'cb world \<Rightarrow> 'cb world \<Rightarrow> bool" where
  "drifts G w w' \<longleftrightarrow> runs G w w' \<or> runs G (undefined_behaviour w) w'"

lemma ub_simps [simp]:
  "w_chan (undefined_behaviour w) = w_chan w" "w_log (undefined_behaviour w) = w_log w"
  "w_alloc (undefined_behaviour w) = w_alloc w" "w_ub (undefined_behaviour w)"
  "undefined_behaviour (undefined_behaviour w) = undefined_behaviour w"
  by (simp_all add: undefined_behaviour_def)

lemma ub_same_config [simp]:
  "same_config (undefined_behaviour w) w' = same_config w w'"
  "same_config w (undefined_behaviour w') = same_config w w'"
  by (simp_all add: same_config_def)

lemma ub_inv [simp]:
  "balance (undefined_behaviour w) = balance w" "servers_ok (undefined_behaviour w) = servers_ok w"
  "safe (undefined_behaviour w) = safe w" "once (undefined_behaviour w) = once w"
  "pending (undefined_behaviour w) = pending w"
  by (simp_all add: balance_def pending_def completed_def servers_ok_def safe_def once_def)

lemma stable_ub [simp]: "stable G (undefined_behaviour w) = stable G w"
  by (simp add: stable_def wf_world_def query_ok_def settled_def)

lemma runs_ub: "runs G w w' \<Longrightarrow> runs G (undefined_behaviour w) (undefined_behaviour w')"
  by (simp add: runs_def books_def)

lemma runs_drifts: "runs G w w' \<Longrightarrow> drifts G w w'"
  by (simp add: drifts_def)

lemma drifts_trans: "drifts G u v \<Longrightarrow> drifts G v w \<Longrightarrow> drifts G u w"
  unfolding drifts_def using runs_trans runs_ub ub_simps(5) by metis

lemma drifts_stable: "drifts G w w' \<Longrightarrow> stable G w'"
  by (auto simp: drifts_def dest: runs_stable)

lemma drifts_nservers: "drifts G w w' \<Longrightarrow> nservers w' = nservers w"
  by (auto simp: drifts_def dest: runs_nservers)

lemma drifts_once:
  assumes "drifts G w w'" "once w" shows "once w'"
proof -
  obtain u where u: "runs G u w'" "balance u = balance w" "next_handle u = next_handle w"
    using assms(1) unfolding drifts_def by (metis ub_inv(1) ub_simps(1))
  then have "balance w' = mset [0..<next_handle w] + mset [next_handle w..<next_handle w']"
    and "next_handle w \<le> next_handle w'"
    using assms(2) by (auto simp: runs_def books_def once_def)
  then show ?thesis using upt_mset_split [of 0 "next_handle w" "next_handle w'"] by (simp add: once_def)
qed

section \<open>Writing, without a condition on the queues\<close>

lemma write_requests_ub:
  "\<not> owned w rs \<Longrightarrow> write_requests i rs adv w = write_requests i rs adv (undefined_behaviour w)"
  by (simp add: write_requests_def owned_def pending_def)

lemma write_requests_drifts:
  assumes "stable G w" "i < nservers w" shows "drifts G w (write_requests i rs adv w)"
proof (cases "owned w rs")
  case True
  then show ?thesis using write_requests_runs [OF assms, of rs adv] by (simp add: runs_drifts)
next
  case False
  then show ?thesis
    using write_requests_runs [of G "undefined_behaviour w" i rs adv] assms
    by (simp add: drifts_def write_requests_ub)
qed

lemma write_tcp_data_core_drifts:
  assumes "stable G w" "i < nservers w" shows "drifts G w (write_tcp_data_core i w)"
proof (cases "s_queue (w_servers w ! i) = [] \<or> s_tcp_socket (w_servers w ! i) = -1")
  case True
  then show ?thesis using assms by (auto simp: write_tcp_data_core_def Let_def runs_refl runs_drifts)
next
  case False
  obtain m w1 where m: "malloc w = (m, w1)" by fastforce
  have 1: "runs G w w1" "w_servers w1 = w_servers w" using malloc_runs [OF assms(1) m] by auto
  have "drifts G w1 (write_requests i rs adv w1)" for rs adv
    using write_requests_drifts [OF runs_stable [OF 1(1)]] assms(2) 1(2) by simp
  then show ?thesis using False m drifts_trans [OF runs_drifts [OF 1(1)]]
    by (cases m) (auto simp: write_tcp_data_core_def Let_def)
qed

lemma write_tcp_data_drifts:
  assumes "stable G w" shows "drifts G w (write_tcp_data fds w)"
proof -
  let ?f = "\<lambda>i w. let s = w_servers w ! i in
    if s_queue s = [] \<or> s_tcp_socket s = -1 \<or> \<not> selected fds (s_tcp_socket s) then w
    else write_tcp_data_core i w"
  have "drifts G w (fold ?f is w)" if "\<forall>i \<in> set is. i < nservers w" for "is"
    using that assms
  proof (induction "is" arbitrary: w)
    case (Cons i "is")
    have 1: "drifts G w (?f i w)"
      using Cons.prems write_tcp_data_core_drifts [of G w i] by (auto simp: Let_def runs_refl runs_drifts)
    then have "drifts G (?f i w) (fold ?f is (?f i w))"
      using Cons.prems(1) drifts_nservers [OF 1] by (intro Cons.IH) (auto intro: drifts_stable)
    then show ?case using drifts_trans [OF 1] by simp
  qed (simp add: runs_refl runs_drifts)
  then show ?thesis by (simp add: write_tcp_data_def)
qed

context callback_contract
begin

lemma ares_process_drifts:
  assumes "stable G w"
  shows "\<exists>w'. ares_process cbf now read_fds write_fds w = Some w' \<and> drifts G w w'"
proof -
  define w1 where "w1 = write_tcp_data write_fds w"
  define w2 where "w2 = read_tcp_data cbf now None read_fds w1"
  define w3 where "w3 = read_udp_packets cbf now None read_fds w2"
  have 1: "drifts G w w1" using write_tcp_data_drifts [OF assms] by (simp add: w1_def)
  have "runs G w1 w2" unfolding w2_def by (rule read_tcp_data_runs [OF drifts_stable [OF 1]])
  moreover from this have "runs G w2 w3" unfolding w3_def by (rule read_udp_packets_runs [OF runs_stable])
  ultimately have 3: "runs G w1 w3" by (rule runs_trans)
  obtain w' where "process_timeouts cbf now w3 = Some w'" "runs G w3 w'"
    using process_timeouts_runs [OF runs_stable [OF 3]] by blast
  then show ?thesis using drifts_trans [OF 1 runs_drifts [OF runs_trans [OF 3]]]
    by (auto simp: ares_process_def w1_def w2_def w3_def)
qed

lemma ares_process_poll_drifts:
  assumes "stable G w" "idx = None \<or> (\<exists>i < nservers w. idx = Some i)"
    and "ares_process_poll cbf idx rdFd wrFd now w = Some w'"
  shows "drifts G w w'"
proof (cases idx)
  case None
  then show ?thesis using process_timeouts_runs [OF assms(1), of now] assms(3)
    by (force simp: ares_process_poll_def intro: runs_drifts)
next
  case (Some i)
  then have i: "i < nservers w" using assms(2) by simp
  define w1 where "w1 = (if wrFd \<noteq> -1 \<and> s_tcp_socket (w_servers w ! i) = wrFd then write_tcp_data_core i w else w)"
  define w2 where "w2 = (if rdFd \<noteq> -1 \<and> s_tcp_socket (w_servers w1 ! i) = rdFd then read_tcp_data cbf now (Some i) None w1 else w1)"
  define w3 where "w3 = (if rdFd \<noteq> -1 \<and> s_udp_socket (w_servers w2 ! i) = rdFd then read_udp_packets cbf now (Some i) None w2 else w2)"
  have 1: "drifts G w w1"
    using write_tcp_data_core_drifts [OF assms(1) i] runs_drifts [OF runs_refl [OF assms(1)]] by (simp add: w1_def)
  have 2: "runs G w1 w2" unfolding w2_def
    using read_tcp_data_runs [OF drifts_stable [OF 1]] runs_refl [OF drifts_stable [OF 1]] by simp
  have "runs G w2 w3" unfolding w3_def
    using read_udp_packets_runs [OF runs_stable [OF 2]] runs_refl [OF runs_stable [OF 2]] by simp
  moreover have "w' = w3" using Some assms(3) i
    by (auto simp: ares_process_poll_def Let_def w1_def w2_def w3_def split: if_splits)
  ultimately show ?thesis using drifts_trans [OF 1 runs_drifts [OF runs_trans [OF 2]]] by simp
qed

end

section \<open>The state machine\<close>

text \<open>A channel right after its initialisation, in any surroundings.\<close>

definition initial :: "'cb world \<Rightarrow> bool" where
  "initial w \<longleftrightarrow> w_log w = [] \<and> (\<exists>ie next_id opts optmask socketFunc.
     ares_init_options_with_socket_function ie next_id opts optmask socketFunc = Some (Inr (w_chan w)))"

text \<open>The calls of an application: requests for raw messages, by name and by address, the two event
  loop entries and the registration of a poll callback. The environment may be another at each
  call.\<close>

inductive reachable :: "'u user_fn \<Rightarrow> 'u cb world \<Rightarrow> bool" for user :: "'u user_fn" where
  initially: "initial w \<Longrightarrow> reachable user w"
| send: "reachable user w \<Longrightarrow> env_ok env \<Longrightarrow>
    reachable user (ares_send (invoke env user) (e_now env) qbuf (UserCb u) w)"
| query: "reachable user w \<Longrightarrow> env_ok env \<Longrightarrow>
    reachable user (ares_query env (invoke env user) name dnsclass type (UserCb u) w)"
| search: "reachable user w \<Longrightarrow> env_ok env \<Longrightarrow> name \<noteq> [] \<Longrightarrow>
    reachable user (ares_search env (invoke env user) name dnsclass type (UserCb u) w)"
| byname: "reachable user w \<Longrightarrow> env_ok env \<Longrightarrow> name \<noteq> [] \<Longrightarrow>
    reachable user (ares_gethostbyname env user (invoke env user) name family u w)"
| byaddr: "reachable user w \<Longrightarrow> env_ok env \<Longrightarrow>
    reachable user (ares_gethostbyaddr env user (invoke env user) addr family u w)"
| process: "reachable user w \<Longrightarrow> env_ok env \<Longrightarrow>
    ares_process (invoke env user) (e_now env) read_fds write_fds w = Some w' \<Longrightarrow> reachable user w'"
| poll: "reachable user w \<Longrightarrow> env_ok env \<Longrightarrow> idx = None \<or> (\<exists>i < nservers w. idx = Some i) \<Longrightarrow>
    ares_process_poll (invoke env user) idx rdFd wrFd (e_now env) w = Some w' \<Longrightarrow> reachable user w'"
| set_poll_cb: "reachable user w \<Longrightarrow> reachable user (ares_process_set_poll_cb installed w)"

definition channel_inv :: "'u cb world \<Rightarrow> bool" where
  "channel_inv w \<longleftrightarrow> stable cb_ok w \<and> once w \<and> nservers w \<noteq> 0"

lemma initial_inv:
  assumes "initial w" shows "channel_inv w"
proof -
  obtain ie next_id opts optmask f cf where c: "config_sources ie opts optmask = Some (Inr cf)"
    "w_chan w = channel_of f next_id cf"
  proof -
    obtain ie next_id opts optmask f z where z: "config_sources ie opts optmask = Some z"
      "(case z of Inl e \<Rightarrow> Inl e | Inr cf \<Rightarrow> Inr (channel_of f next_id cf)) = Inr (w_chan w)"
      using assms by (auto simp: initial_def ares_init_options_with_socket_function_def split: if_splits)
    then show ?thesis using that by (cases z) (auto, metis)
  qed
  have "w_queries w = []" "w_servers w \<noteq> []" "next_handle w = 0"
    using channel_of_fresh(1,2) [OF c(1)] by (simp_all add: c(2) channel_of_def Let_def)
  moreover have "\<forall>s \<in> set (w_servers w). frame_ok s"
    unfolding c(2) using channel_of_fresh(3) [OF c(1)] by blast
  moreover have "w_log w = []" using assms by (simp add: initial_def)
  ultimately show ?thesis
    by (simp add: channel_inv_def stable_def wf_world_def servers_ok_def once_def balance_def pending_def
        completed_def)
qed

lemma drifts_inv: "channel_inv w \<Longrightarrow> drifts cb_ok w w' \<Longrightarrow> channel_inv w'"
  using drifts_stable drifts_once drifts_nservers by (fastforce simp: channel_inv_def)

lemma keeps_inv: "channel_inv w \<Longrightarrow> keeps cb_ok w w' \<Longrightarrow> channel_inv w'"
  using drifts_inv runs_drifts keeps_runs by (metis channel_inv_def)

lemma channel_inv_wf: "channel_inv w \<Longrightarrow> wf_world cb_ok w"
  by (simp add: channel_inv_def stable_def)

text \<open>The contract of an application callback, for every environment.\<close>

definition well_behaved :: "'u user_fn \<Rightarrow> bool" where
  "well_behaved user \<longleftrightarrow> (\<forall>u r w. wf_world cb_ok w \<longrightarrow> reply_ok r \<longrightarrow> keeps cb_ok w (user u r w))"

lemma user_contract_of: "well_behaved user \<Longrightarrow> env_ok env \<Longrightarrow> user_contract user env"
  by (simp add: user_contract_def well_behaved_def)

lemma ahost_well_behaved: "well_behaved ahost_callback"
  by (simp add: well_behaved_def quiet_keeps ahost_callback_quiet)

lemma contract_of: "well_behaved user \<Longrightarrow> env_ok env \<Longrightarrow> callback_contract (invoke env user) cb_ok"
  by (simp add: callback_contract_def user_contract.invoke_keeps user_contract_of)

lemma reachable_inv:
  assumes "well_behaved user" "reachable user w" shows "channel_inv w"
  using assms(2)
proof (induction rule: reachable.induct)
  case (initially w)
  then show ?case by (rule initial_inv)
next
  case (send w env qbuf u)
  show ?case
    using keeps_inv [OF send.IH] callback_contract.ares_send_keeps [OF contract_of [OF assms(1) send.hyps(2)]]
      channel_inv_wf [OF send.IH] by simp
next
  case (query w env name dnsclass type u)
  show ?case
    using keeps_inv [OF query.IH] ares_query_keeps [where ?w0.0 = w] channel_inv_wf [OF query.IH]
      user_contract.invoke_admits [OF user_contract_of [OF assms(1) query.hyps(2)]] by simp
next
  case (search w env name dnsclass type u)
  show ?case
    using keeps_inv [OF search.IH] ares_search_keeps [OF search.hyps(2,3), where ?w0.0 = w]
      channel_inv_wf [OF search.IH]
      user_contract.invoke_admits [OF user_contract_of [OF assms(1) search.hyps(2)]] by simp
next
  case (byname w env name family u)
  show ?case
    using keeps_inv [OF byname.IH] channel_inv_wf [OF byname.IH] byname.hyps(3)
      user_contract.gethostbyname_keeps [OF user_contract_of [OF assms(1) byname.hyps(2)]] by blast
next
  case (byaddr w env addr family u)
  show ?case
    using keeps_inv [OF byaddr.IH] channel_inv_wf [OF byaddr.IH]
      user_contract.gethostbyaddr_keeps [OF user_contract_of [OF assms(1) byaddr.hyps(2)]] by blast
next
  case (process w env read_fds write_fds w')
  have "stable cb_ok w" using process.IH by (simp add: channel_inv_def)
  from callback_contract.ares_process_drifts [OF contract_of [OF assms(1) process.hyps(2)] this]
  show ?case using process.hyps(3) drifts_inv [OF process.IH] by (metis option.inject)
next
  case (poll w env idx rdFd wrFd w')
  have "stable cb_ok w" using poll.IH by (simp add: channel_inv_def)
  from callback_contract.ares_process_poll_drifts [OF contract_of [OF assms(1) poll.hyps(2)] this poll.hyps(3,4)]
  show ?case by (rule drifts_inv [OF poll.IH])
next
  case (set_poll_cb w installed)
  then show ?case
    by (simp add: channel_inv_def stable_def wf_world_def query_ok_def settled_def servers_ok_def once_def
        balance_def pending_def completed_def ares_process_set_poll_cb_def)
qed

section \<open>Properties\<close>

lemma once_sets:
  assumes "once w"
  shows "distinct (pending w @ completed w)" "set (pending w) \<union> set (completed w) = {0..<next_handle w}"
proof -
  have m: "mset (pending w @ completed w) = mset [0..<next_handle w]"
    using assms by (simp add: once_def balance_def)
  then show "distinct (pending w @ completed w)" using mset_eq_imp_distinct_iff by fastforce
  have "set (pending w @ completed w) = set [0..<next_handle w]" using m by (rule mset_eq_setD)
  then show "set (pending w) \<union> set (completed w) = {0..<next_handle w}" by simp
qed

text \<open>The example machine with the channel it initialises.\<close>

definition start_world :: "cstring cb world" where
  "start_world = \<lparr>w_chan = channel_of False 7 example_config,
     w_sys = (\<lambda>k. \<lparr>sys_ret = int k + 3, sys_errno = 0, sys_data = []\<rparr>), w_spos = 0, w_alloc = (\<lambda>_. True), w_apos = 0,
     w_log = [], w_ub = False\<rparr>"

definition start_env :: env where
  "start_env = machine 100 (\<lambda>_. INADDR_NONE) (Some (str ''1.2.3.4 h'')) None"

definition asked_world :: "cstring cb world" where
  "asked_world = ares_query start_env (invoke start_env ahost_callback) (str ''www'') 1 1 (UserCb (str ''www'')) start_world"

lemma start_initial: "initial start_world"
proof -
  have "ares_init_options_with_socket_function example_init 7 example_options ARES_OPT_TRIES False =
      Some (Inr (channel_of False 7 example_config))"
    by (simp add: ares_init_options_with_socket_function_def example_sources) (simp add: example_init_def)
  then show ?thesis unfolding initial_def start_world_def by force
qed

lemma start_env_ok: "env_ok start_env"
  by (simp add: start_env_def machine_ok)

lemma asked_reachable: "reachable ahost_callback asked_world"
  unfolding asked_world_def by (rule reachable.query [OF reachable.initially [OF start_initial] start_env_ok])

text \<open>C2: Every query is completed exactly once: in every state a channel can reach, by any sequence of
  calls, replies and timeouts, a query that was ever accepted is either pending and has not been
  completed, or is not pending and its callback has been called once.\<close>

theorem exactly_once:
  assumes "well_behaved user" "reachable user w"
  shows "distinct (pending w @ completed w) \<and> set (pending w) \<union> set (completed w) = {0..<next_handle w}"
  using reachable_inv [OF assms] once_sets [of w] by (simp add: channel_inv_def)

theorem exactly_once_witness:
  "distinct (pending asked_world @ completed asked_world) \<and>
   set (pending asked_world) \<union> set (completed asked_world) = {0..<next_handle asked_world}"
  using exactly_once [OF ahost_well_behaved asked_reachable] .

text \<open>C6: The channel invariant holds in every reachable state: queries have distinct addresses, a full
  message with their own id, one skip flag per server and a current server and try in range, and the
  reading side of every server is consistent.\<close>

theorem reachable_invariant:
  assumes "well_behaved user" "reachable user w"
  shows "nservers w \<noteq> 0 \<and> distinct (pending w) \<and> (\<forall>s \<in> set (w_servers w). frame_ok s) \<and>
    (\<forall>q \<in> set (w_queries w). DNS_HEADER_QID (drop 2 (q_tcpbuf q)) = Some (q_qid q) \<and>
       length (q_skip_server q) = nservers w \<and> q_server q < nservers w \<and>
       (q_itry q = 0 \<or> int (q_itry q) < ch_tries (w_chan w)))"
  using reachable_inv [OF assms]
  by (auto simp: channel_inv_def stable_def wf_world_def servers_ok_def settled_def query_ok_def)

theorem reachable_invariant_witness:
  "nservers asked_world \<noteq> 0 \<and> distinct (pending asked_world) \<and>
   list_all (\<lambda>q. q_server q < nservers asked_world) (w_queries asked_world)"
  using reachable_invariant [OF ahost_well_behaved asked_reachable] by (simp add: list_all_iff)

text \<open>C14: \<^verbatim>\<open>ares_process\<close> returns from every reachable state, whatever the sockets deliver: neither the
  retries nor the walk over the timed out queries nor nested lookups started by callbacks run
  forever.\<close>

theorem process_returns:
  assumes "well_behaved user" "reachable user w" "env_ok env"
  shows "\<exists>w'. ares_process (invoke env user) (e_now env) read_fds write_fds w = Some w' \<and> reachable user w'"
proof -
  have "stable cb_ok w" using reachable_inv [OF assms(1,2)] by (simp add: channel_inv_def)
  then obtain w' where "ares_process (invoke env user) (e_now env) read_fds write_fds w = Some w'"
    using callback_contract.ares_process_drifts [OF contract_of [OF assms(1,3)]] by blast
  then show ?thesis using reachable.process [OF assms(2,3)] by blast
qed

theorem process_returns_witness:
  "\<exists>w'. ares_process (invoke start_env ahost_callback) (e_now start_env) None None asked_world = Some w' \<and>
     reachable ahost_callback w'"
  using process_returns [OF ahost_well_behaved asked_reachable start_env_ok] .



text \<open>Looking up the hosts of a command line, by name or by address, keeps the books: each lookup
  that is not answered at once is one pending query more, the earlier ones are left alone, and no
  lookup runs into undefined behaviour when there is enough memory.\<close>

theorem ahost_lookups_keep:
  assumes "wf_world cb_ok w" "[] \<notin> set args"
  shows "keeps cb_ok w (start_lookups (machine now inet hosts aliases) args w)"
  using start_lookups_keeps [OF assms] .

theorem ahost_lookups_keep_witness:
  "keeps cb_ok start_world (start_lookups start_env [str ''www'', str ''h''] start_world)"
proof -
  have "wf_world cb_ok start_world"
    using initial_inv [OF start_initial] by (rule channel_inv_wf)
  then show ?thesis unfolding start_env_def by (rule ahost_lookups_keep) (simp add: str_def)
qed

text \<open>A defect: when the user has an alias file that does not list the name, the end of that file is
  taken for a failure. The search ends with \<^verbatim>\<open>ARES_EOF\<close> and no query is sent.\<close>

theorem unlisted_alias_fails:
  assumes "env_ok env" "e_hostaliases env = Some (Some fp)" "\<not> f_error fp"
    and "first_alias name (file_lines (f_data fp)) = None"
    and "name \<noteq> []" "DOT \<notin> set name" "\<not> flag_set w ARES_FLAG_NOALIASES"
  shows "ares_search env cbf name dnsclass type cb w = cbf cb ARES_EOF None w"
proof -
  have "last name \<noteq> DOT" using assms(5,6) last_in_set by metis
  moreover have "alias_loop (e_alias_alloc env) name 0 fp None = Some (Inl ARES_EOF)"
    using alias_loop_correct [of fp None "e_alias_alloc env" name 0] assms(1-4)
    by (simp add: env_ok_def big_enough_def)
  ultimately show ?thesis using assms(2,5-7) by (simp add: ares_search_def single_domain_def Let_def)
qed

theorem unlisted_alias_fails_witness:
  "ares_search (start_env\<lparr>e_hostaliases := Some (Some \<lparr>f_data = str ''a b.c'', f_error = False\<rparr>)\<rparr>)
     (invoke start_env ahost_callback) (str ''h'') 1 1 (UserCb (str ''h'')) start_world =
   invoke start_env ahost_callback (UserCb (str ''h'')) ARES_EOF None start_world"
proof -
  have "first_alias (str ''h'') (file_lines (str ''a b.c'')) = None" by code_simp
  note a = this [unfolded str_def, simplified]
  show ?thesis
    by (rule unlisted_alias_fails [where fp = "\<lparr>f_data = str ''a b.c'', f_error = False\<rparr>"])
      (simp_all add: a start_env_def machine_def env_ok_def text_file_def no_nul_def allocs_ok_def str_def channel_of_def example_config_def
        flag_set_def start_world_def ares_flags)
qed

end
