(* ===== verification/SipMsg.thy ===== *)
theory SipMsg
  imports Main
begin

text \<open>The data of the SIP transaction layer of \<^verbatim>\<open>resip/stack\<close>: methods, transports, addresses, the parts
  of a \<^verbatim>\<open>SipMessage\<close> that the transaction layer reads and writes, the messages it makes itself
  (\<^verbatim>\<open>Helper.cxx\<close>) and the messages of its input queue.

  A \<^verbatim>\<open>Data\<close> is a \<^typ>\<open>string\<close>. A header that the transaction layer only copies (routes,
  authorizations) is not a field. The header fields \<^verbatim>\<open>From\<close>, \<^verbatim>\<open>To\<close> and \<^verbatim>\<open>Call-ID\<close> carry the result of
  \<^verbatim>\<open>isWellFormed\<close>; the other exceptions of the lazy header parser are not modelled.\<close>

section \<open>Enumerations\<close>

datatype MethodTypes =
    UNKNOWN | ACK | BYE | CANCEL | INVITE | NOTIFY | OPTIONS | REFER | REGISTER | SUBSCRIBE
  | RESPONSE | MESSAGE | INFO | PRACK | PUBLISH | SERVICE | UPDATE

datatype TransportType = UNKNOWN_TRANSPORT | TLS | TCP | UDP | SCTP | DCCP | DTLS | WS | WSS

fun transport_code :: "TransportType \<Rightarrow> nat" where
  "transport_code UNKNOWN_TRANSPORT = 0"
| "transport_code TLS = 1"
| "transport_code TCP = 2"
| "transport_code UDP = 3"
| "transport_code SCTP = 4"
| "transport_code DCCP = 5"
| "transport_code DTLS = 6"
| "transport_code WS = 7"
| "transport_code WSS = 8"

lemma transport_code_inj: "transport_code a = transport_code b \<Longrightarrow> a = b"
  by (cases a; cases b) simp_all

instantiation TransportType :: linorder
begin
definition less_eq_TransportType :: "TransportType \<Rightarrow> TransportType \<Rightarrow> bool" where
  "a \<le> b \<longleftrightarrow> transport_code a \<le> transport_code b"
definition less_TransportType :: "TransportType \<Rightarrow> TransportType \<Rightarrow> bool" where
  "a < b \<longleftrightarrow> transport_code a < transport_code b"
instance
  by standard (auto simp: less_eq_TransportType_def less_TransportType_def intro: transport_code_inj)
end

fun isReliable :: "TransportType \<Rightarrow> bool" where
  "isReliable TLS = True"
| "isReliable TCP = True"
| "isReliable SCTP = True"
| "isReliable WS = True"
| "isReliable WSS = True"
| "isReliable _ = False"

text \<open>\<^verbatim>\<open>TransportFailure::FailureReason\<close>, compared by \<^verbatim>\<open>>\<close> in \<^verbatim>\<open>processTransportFailure\<close>.\<close>

datatype FailureReason =
    NoFailure | TransportNoExistConn | Failure | TransportNoSocket | TransportBadConnect
  | TransportShutdown | ConnectionUnknown | ConnectionException | NoTransport | NoRoute
  | CertNameMismatch | CertValidationFailure

fun reason_code :: "FailureReason \<Rightarrow> nat" where
  "reason_code NoFailure = 0"
| "reason_code TransportNoExistConn = 1"
| "reason_code Failure = 2"
| "reason_code TransportNoSocket = 3"
| "reason_code TransportBadConnect = 4"
| "reason_code TransportShutdown = 5"
| "reason_code ConnectionUnknown = 6"
| "reason_code ConnectionException = 7"
| "reason_code NoTransport = 8"
| "reason_code NoRoute = 9"
| "reason_code CertNameMismatch = 10"
| "reason_code CertValidationFailure = 11"

lemma reason_code_inj: "reason_code a = reason_code b \<Longrightarrow> a = b"
  by (cases a; cases b) simp_all

instantiation FailureReason :: linorder
begin
definition less_eq_FailureReason :: "FailureReason \<Rightarrow> FailureReason \<Rightarrow> bool" where
  "a \<le> b \<longleftrightarrow> reason_code a \<le> reason_code b"
definition less_FailureReason :: "FailureReason \<Rightarrow> FailureReason \<Rightarrow> bool" where
  "a < b \<longleftrightarrow> reason_code a < reason_code b"
instance
  by standard (auto simp: less_eq_FailureReason_def less_FailureReason_def intro: reason_code_inj)
end

text \<open>\<^verbatim>\<open>Timer::Type\<close>, \<^verbatim>\<open>CongestionManager::RejectionBehavior\<close>.\<close>

datatype TimerType =
    TimerA | TimerB | TimerC | TimerD | TimerE1 | TimerE2 | TimerF | TimerG | TimerH | TimerI
  | TimerJ | TimerK | TimerTrying | TimerStaleClient | TimerStaleServer | TimerStateless
  | TimerCleanUp | ApplicationTimer | TcpConnectTimer

datatype RejectionBehavior = NORMAL | REJECTING_NEW_WORK | REJECTING_NON_ESSENTIAL

section \<open>Messages\<close>

record Tuple =
  tp_type :: TransportType
  tp_host :: string
  tp_port :: int
  mFlowKey :: nat
  mTransportKey :: nat
  mTargetDomain :: string

definition no_tuple :: Tuple where
  "no_tuple = \<lparr>tp_type = UNKNOWN_TRANSPORT, tp_host = '''', tp_port = 0, mFlowKey = 0, mTransportKey = 0,
     mTargetDomain = ''''\<rparr>"

record BranchParameter =
  mHasMagicCookie :: bool
  mIsMyBranch :: bool
  mTransactionId :: string
  mTransportSeq :: nat

text \<open>\<open>v_rport\<close> is \<open>None\<close> without the parameter and \<open>Some None\<close> when it has no value.\<close>

record Via =
  v_transport :: TransportType
  v_sentPort :: int
  v_rport :: "int option option"
  v_branch :: "BranchParameter option"

record NameAddr =
  na_ok :: bool
  na_uri :: string
  na_tag :: "string option"

record Uri =
  u_scheme :: string
  u_user :: string
  u_host :: string
  u_port :: int
  u_transport :: "TransportType option"
  u_maddr :: "string option"

datatype StartLine = RequestLine | StatusLine | NoStartLine

text \<open>\<open>sip_hash2543\<close> is what \<^verbatim>\<open>compute2543TransactionHash\<close> gives, \<open>None\<close> if it throws.\<close>

record SipMessage =
  sip_start :: StartLine
  sip_method :: MethodTypes
  sip_methodStr :: string
  sip_code :: int
  sip_reason :: string
  sip_uri :: Uri
  sip_vias :: "Via list"
  sip_hash2543 :: "string option"
  sip_from :: NameAddr
  sip_to :: NameAddr
  sip_callid :: "bool \<times> string"
  sip_cseq :: nat
  sip_contacts :: "NameAddr list"
  sip_retryAfter :: "nat option"
  sip_reasons :: "string list option"
  sip_warnings :: "string list"
  sip_external :: bool
  sip_fromWire :: bool
  sip_invalid :: bool
  sip_tu :: "nat option"
  sip_source :: Tuple
  sip_destination :: Tuple
  sip_forceTarget :: "Uri option"
  sip_badAck200 :: bool

definition isRequest :: "SipMessage \<Rightarrow> bool" where
  "isRequest sip \<longleftrightarrow> sip_start sip = RequestLine"

definition isResponse :: "SipMessage \<Rightarrow> bool" where
  "isResponse sip \<longleftrightarrow> sip_start sip = StatusLine"

text \<open>\<^verbatim>\<open>SipMessage::getTransactionId\<close>; \<open>None\<close> is an exception.\<close>

definition getTransactionId :: "SipMessage \<Rightarrow> string option" where
  "getTransactionId sip =
     (case sip_vias sip of
        [] \<Rightarrow> None
      | v # _ \<Rightarrow>
          (case v_branch v of
             Some b \<Rightarrow> if mHasMagicCookie b \<and> mTransactionId b \<noteq> '''' then Some (mTransactionId b) else sip_hash2543 sip
           | None \<Rightarrow> sip_hash2543 sip))"

definition isClientTransaction_sip :: "SipMessage \<Rightarrow> bool" where
  "isClientTransaction_sip sip \<longleftrightarrow>
     (sip_external sip \<and> isResponse sip) \<or> (\<not> sip_external sip \<and> isRequest sip)"

section \<open>Messages made by the stack\<close>

text \<open>\<^verbatim>\<open>new SipMessage\<close>.\<close>

definition new_sip :: SipMessage where
  "new_sip = \<lparr>sip_start = NoStartLine, sip_method = UNKNOWN, sip_methodStr = '''', sip_code = 0, sip_reason = '''',
     sip_uri = \<lparr>u_scheme = '''', u_user = '''', u_host = '''', u_port = 0, u_transport = None, u_maddr = None\<rparr>, sip_vias = [], sip_hash2543 = None,
     sip_from = \<lparr>na_ok = True, na_uri = '''', na_tag = None\<rparr>, sip_to = \<lparr>na_ok = True, na_uri = '''', na_tag = None\<rparr>,
     sip_callid = (True, ''''), sip_cseq = 0, sip_contacts = [], sip_retryAfter = None, sip_reasons = None,
     sip_warnings = [], sip_external = False, sip_fromWire = False, sip_invalid = False, sip_tu = None,
     sip_source = no_tuple, sip_destination = no_tuple, sip_forceTarget = None, sip_badAck200 = False\<rparr>"

text \<open>\<^verbatim>\<open>Helper::makeResponse\<close>. The tag is random; the texts of \<^verbatim>\<open>getResponseCodeReason\<close> are left out.\<close>

definition makeResponse :: "string \<Rightarrow> SipMessage \<Rightarrow> int \<Rightarrow> string \<Rightarrow> SipMessage" where
  "makeResponse tag request code reason = new_sip\<lparr>
     sip_start := StatusLine, sip_method := sip_method request, sip_methodStr := sip_methodStr request,
     sip_code := code, sip_reason := reason, sip_from := sip_from request,
     sip_to := (if code > 100 \<and> na_ok (sip_to request) \<and> na_tag (sip_to request) = None
                then (sip_to request)\<lparr>na_tag := Some tag\<rparr> else sip_to request),
     sip_callid := sip_callid request, sip_cseq := sip_cseq request, sip_vias := sip_vias request,
     sip_hash2543 := sip_hash2543 request,
     sip_contacts := (if code div 100 = 2 \<and> sip_method request \<noteq> CANCEL
                      then [\<lparr>na_ok = True, na_uri = '''', na_tag = None\<rparr>] else []),
     sip_external := \<not> sip_external request\<rparr>"

text \<open>\<^verbatim>\<open>Helper::makeCancel\<close> and \<^verbatim>\<open>Helper::makeFailureAck\<close>; both hash to the transaction of the request.\<close>

definition makeCancel :: "SipMessage \<Rightarrow> SipMessage" where
  "makeCancel request = new_sip\<lparr>
     sip_start := RequestLine, sip_method := CANCEL, sip_uri := sip_uri request, sip_to := sip_to request,
     sip_from := sip_from request, sip_callid := sip_callid request, sip_cseq := sip_cseq request,
     sip_vias := take 1 (sip_vias request), sip_hash2543 := sip_hash2543 request\<rparr>"

definition makeFailureAck :: "SipMessage \<Rightarrow> SipMessage \<Rightarrow> SipMessage" where
  "makeFailureAck request response = new_sip\<lparr>
     sip_start := RequestLine, sip_method := ACK, sip_uri := sip_uri request, sip_callid := sip_callid request,
     sip_from := sip_from request, sip_to := sip_to response, sip_vias := take 1 (sip_vias request),
     sip_cseq := sip_cseq request, sip_hash2543 := sip_hash2543 request\<rparr>"

text \<open>\<^verbatim>\<open>Helper::getPortForReply\<close>.\<close>

definition DefaultSipPort :: int where "DefaultSipPort = 5060"
definition DefaultSipsPort :: int where "DefaultSipsPort = 5061"

definition getPortForReply :: "SipMessage \<Rightarrow> int" where
  "getPortForReply request =
     (let via = hd (sip_vias request);
          source = tp_port (sip_source request);
          port = (if isReliable (v_transport via) then (if source = 0 then v_sentPort via else source)
                  else if v_rport via \<noteq> None then source else v_sentPort via)
      in if port \<le> 0 \<or> port > 65535
         then (if v_transport via \<in> {TLS, DTLS} then DefaultSipsPort else DefaultSipPort)
         else port)"

text \<open>Numbers as a \<^verbatim>\<open>Data\<close> or a stream prints them.\<close>

fun decimal_text :: "nat \<Rightarrow> string" where
  "decimal_text n = (if n < 10 then [char_of (48 + n)] else decimal_text (n div 10) @ [char_of (48 + n mod 10)])"

declare decimal_text.simps [simp del]

definition int_text :: "int \<Rightarrow> string" where
  "int_text i = (if i < 0 then CHR ''-'' # decimal_text (nat (- i)) else decimal_text (nat i))"

text \<open>\<^verbatim>\<open>simpleTupleForUri\<close>.\<close>

definition simpleTupleForUri :: "Uri \<Rightarrow> Tuple" where
  "simpleTupleForUri uri =
     (let t = (case u_transport uri of Some t \<Rightarrow> t | None \<Rightarrow> UNKNOWN_TRANSPORT);
          t = (if t = UNKNOWN_TRANSPORT then UDP else t);
          port = (if u_port uri = 0 then (if t = TLS then DefaultSipsPort else DefaultSipPort) else u_port uri)
      in no_tuple\<lparr>tp_type := t, tp_host := u_host uri, tp_port := port\<rparr>)"

section \<open>The input queue of the transaction layer\<close>

text \<open>The subclasses of \<^verbatim>\<open>TransactionMessage\<close>.\<close>

datatype TransactionMessage =
    SipMsg SipMessage
  | KeepAliveMessage SipMessage
  | KeepAlivePong Tuple
  | ConnectionTerminated Tuple
  | TerminateFlow Tuple
  | EnableFlowTimer Tuple
  | ZeroOutStatistics
  | PollStatistics
  | AddTransport nat
  | RemoveTransport nat
  | InvokeAfterSocketCreationFunc TransportType
  | TimerMessage string TimerType nat
  | TransportFailure string FailureReason int
  | TcpConnectState string bool
  | DnsResultMessage string bool
  | AbandonServerTransaction string
  | CancelClientInviteTransaction string "string list option"

text \<open>What the transaction layer posts to a transaction user.\<close>

datatype TuMessage =
    TuSip SipMessage
  | TransactionTerminated string bool
  | TuPong Tuple
  | TuConnectionTerminated Tuple
  | TransactionUserRemoved
  | ShutdownMessage

text \<open>\<^verbatim>\<open>TimerMessage::isClientTransaction\<close>; \<open>None\<close> is an assertion failure.\<close>

fun timer_isClient :: "TimerType \<Rightarrow> bool option" where
  "timer_isClient TimerC = None"
| "timer_isClient ApplicationTimer = None"
| "timer_isClient t = Some (t \<notin> {TimerG, TimerH, TimerI, TimerJ, TimerStaleServer, TimerTrying})"

end
