(* ===== verification/DnsIface.thy ===== *)
theory DnsIface
  imports SipMsg
begin

text \<open>What the DNS layer of the SIP stack rests on: the marks on targets (\<^verbatim>\<open>resip/stack/TupleMarkManager.cxx\<close>),
  the transports that the stack supports (\<^verbatim>\<open>DnsInterface.cxx\<close>) and the recognition of numeric addresses
  (\<^verbatim>\<open>rutil/DnsUtil.cxx\<close>).

  The address of a \<^verbatim>\<open>Tuple\<close> is its text; an IPv6 address is one with a colon. The listeners of the mark
  manager are functions that may change the expiry and the mark, each with the number that stands for its pointer;
  what they do when a mark is removed has no effect on the manager. Where \<^verbatim>\<open>getSupportedNaptrType\<close> asserts that the
  transport has a service, the model adds none.\<close>

section \<open>Marks\<close>

datatype MarkType = OK | GREY | BLACK

text \<open>The entries are ordered by address, port, transport and domain; the expiry is part of the key object
  but not of its order.\<close>

type_synonym mark_key = "TransportType \<times> string \<times> int \<times> string"

definition mark_key :: "Tuple \<Rightarrow> mark_key" where
  "mark_key t = (tp_type t, tp_host t, tp_port t, mTargetDomain t)"

record TupleMarkManager =
  mList :: "mark_key \<rightharpoonup> nat \<times> MarkType"
  mListeners :: "(nat \<times> (Tuple \<Rightarrow> nat \<times> MarkType \<Rightarrow> nat \<times> MarkType)) list"

definition notifyListeners :: "Tuple \<Rightarrow> nat \<times> MarkType \<Rightarrow> TupleMarkManager \<Rightarrow> nat \<times> MarkType" where
  "notifyListeners t em mm = fold (\<lambda>(_, l). l t) (mListeners mm) em"

text \<open>The set of listeners, in the order of the pointers.\<close>

fun insert_listener :: "nat \<Rightarrow> 'a \<Rightarrow> (nat \<times> 'a) list \<Rightarrow> (nat \<times> 'a) list" where
  "insert_listener k l [] = [(k, l)]"
| "insert_listener k l ((k', l') # ls) =
     (if k < k' then (k, l) # (k', l') # ls
      else if k = k' then (k', l') # ls
      else (k', l') # insert_listener k l ls)"

definition registerMarkListener ::
  "nat \<Rightarrow> (Tuple \<Rightarrow> nat \<times> MarkType \<Rightarrow> nat \<times> MarkType) \<Rightarrow> TupleMarkManager \<Rightarrow> TupleMarkManager" where
  "registerMarkListener k l mm = mm\<lparr>mListeners := insert_listener k l (mListeners mm)\<rparr>"

definition unregisterMarkListener :: "nat \<Rightarrow> TupleMarkManager \<Rightarrow> TupleMarkManager" where
  "unregisterMarkListener k mm = mm\<lparr>mListeners := filter (\<lambda>(k', _). k' \<noteq> k) (mListeners mm)\<rparr>"

definition removeMark :: "Tuple \<Rightarrow> TupleMarkManager \<Rightarrow> TupleMarkManager" where
  "removeMark t mm = mm\<lparr>mList := (mList mm)(mark_key t := None)\<rparr>"

definition getMarkType :: "nat \<Rightarrow> Tuple \<Rightarrow> TupleMarkManager \<Rightarrow> MarkType \<times> TupleMarkManager" where
  "getMarkType now t mm =
     (case mList mm (mark_key t) of
        None \<Rightarrow> (OK, mm)
      | Some (expiry, m) \<Rightarrow> if expiry > now then (m, mm) else (OK, removeMark t mm))"

text \<open>\<^verbatim>\<open>mList[entry] = mark\<close>: an entry that is there keeps its key object, and with it its expiry.\<close>

definition mark :: "Tuple \<Rightarrow> nat \<Rightarrow> MarkType \<Rightarrow> TupleMarkManager \<Rightarrow> TupleMarkManager" where
  "mark t expiry m mm =
     (case notifyListeners t (expiry, m) mm of (expiry, m) \<Rightarrow>
        mm\<lparr>mList := (mList mm)(mark_key t \<mapsto>
          (case mList mm (mark_key t) of None \<Rightarrow> (expiry, m) | Some (old, _) \<Rightarrow> (old, m)))\<rparr>)"

definition unmark :: "Tuple \<Rightarrow> MarkType \<Rightarrow> TupleMarkManager \<Rightarrow> TupleMarkManager" where
  "unmark t markFilter mm =
     (case mList mm (mark_key t) of
        None \<Rightarrow> mm
      | Some (_, m) \<Rightarrow> if markFilter = BLACK \<or> markFilter = m then removeMark t mm else mm)"

section \<open>Supported transports\<close>

datatype IpVersion = V4 | V6

record DnsInterface =
  mSupportedTransports :: "TransportType \<times> IpVersion \<rightharpoonup> nat"
  mSupportedNaptrs :: "string \<rightharpoonup> nat"
  mUdpOnlyOnNumeric :: bool

definition setUdpOnlyOnNumeric :: "bool \<Rightarrow> DnsInterface \<Rightarrow> DnsInterface" where
  "setUdpOnlyOnNumeric b i = i\<lparr>mUdpOnlyOnNumeric := b\<rparr>"

fun getSupportedNaptrType :: "TransportType \<Rightarrow> string option" where
  "getSupportedNaptrType UDP = Some ''SIP+D2U''"
| "getSupportedNaptrType TCP = Some ''SIP+D2T''"
| "getSupportedNaptrType TLS = Some ''SIPS+D2T''"
| "getSupportedNaptrType DTLS = Some ''SIPS+D2U''"
| "getSupportedNaptrType WS = Some ''SIP+D2W''"
| "getSupportedNaptrType WSS = Some ''SIPS+D2W''"
| "getSupportedNaptrType _ = None"

definition count_up :: "'a \<Rightarrow> ('a \<rightharpoonup> nat) \<Rightarrow> 'a \<rightharpoonup> nat" where
  "count_up k m = m(k \<mapsto> (case m k of None \<Rightarrow> 1 | Some n \<Rightarrow> Suc n))"

definition count_down :: "'a \<Rightarrow> ('a \<rightharpoonup> nat) \<Rightarrow> 'a \<rightharpoonup> nat" where
  "count_down k m =
     (case m k of
        None \<Rightarrow> m
      | Some n \<Rightarrow> if n - 1 = 0 then m(k := None) else m(k \<mapsto> n - 1))"

definition addTransportType :: "TransportType \<Rightarrow> IpVersion \<Rightarrow> DnsInterface \<Rightarrow> DnsInterface" where
  "addTransportType t v i =
     i\<lparr>mSupportedTransports := count_up (t, v) (mSupportedTransports i),
       mSupportedNaptrs := (case getSupportedNaptrType t of
                              None \<Rightarrow> mSupportedNaptrs i
                            | Some n \<Rightarrow> count_up n (mSupportedNaptrs i))\<rparr>"

definition removeTransportType :: "TransportType \<Rightarrow> IpVersion \<Rightarrow> DnsInterface \<Rightarrow> DnsInterface" where
  "removeTransportType t v i =
     i\<lparr>mSupportedTransports := count_down (t, v) (mSupportedTransports i),
       mSupportedNaptrs := (case getSupportedNaptrType t of
                              None \<Rightarrow> mSupportedNaptrs i
                            | Some n \<Rightarrow> count_down n (mSupportedNaptrs i))\<rparr>"

definition isSupported_service :: "string \<Rightarrow> DnsInterface \<Rightarrow> bool" where
  "isSupported_service service i \<longleftrightarrow> mSupportedNaptrs i service \<noteq> None"

definition isSupported :: "TransportType \<Rightarrow> IpVersion \<Rightarrow> DnsInterface \<Rightarrow> bool" where
  "isSupported t v i \<longleftrightarrow> mSupportedTransports i (t, v) \<noteq> None"

definition isSupportedProtocol :: "TransportType \<Rightarrow> DnsInterface \<Rightarrow> bool" where
  "isSupportedProtocol t i \<longleftrightarrow> isSupported t V4 i \<or> isSupported t V6 i"

section \<open>Numeric addresses\<close>

definition is_digit :: "char \<Rightarrow> bool" where
  "is_digit c \<longleftrightarrow> 48 \<le> (of_char c :: nat) \<and> (of_char c :: nat) \<le> 57"

text \<open>The check of one octet of \<open>n\<close> digits, and the loop over the octets that are left.\<close>

definition octet_ok :: "string \<Rightarrow> nat \<Rightarrow> bool" where
  "octet_ok s n \<longleftrightarrow>
     (if n = 1 then True
      else if n = 2 then hd s \<noteq> CHR ''0''
      else if n = 3 then
        hd s = CHR ''1'' \<or>
        (hd s = CHR ''2'' \<and>
         \<not> ((of_char (s ! 1) :: nat) > of_char CHR ''5'' \<or>
            (s ! 1 = CHR ''5'' \<and> (of_char (s ! 2) :: nat) > of_char CHR ''5'')))
      else False)"

fun ip4_loop :: "nat \<Rightarrow> string \<Rightarrow> bool" where
  "ip4_loop 0 s \<longleftrightarrow> s = []"
| "ip4_loop (Suc k) s \<longleftrightarrow>
     (let n = length (takeWhile is_digit (take 4 s)); r = drop n s
      in octet_ok s n \<and>
         (if k = 0 then ip4_loop 0 r
          else r \<noteq> [] \<and> hd r = CHR ''.'' \<and> ip4_loop k (tl r)))"

definition isIpV4Address :: "string \<Rightarrow> bool" where
  "isIpV4Address s = ip4_loop 4 s"

definition is_xdigit :: "char \<Rightarrow> bool" where
  "is_xdigit c \<longleftrightarrow> is_digit c \<or> c \<in> set ''abcdefABCDEF''"

definition isIpV6Address :: "string \<Rightarrow> bool" where
  "isIpV6Address s \<longleftrightarrow> s \<noteq> [] \<and> (is_xdigit (hd s) \<or> hd s = CHR '':'') \<and> length s \<noteq> 1 \<and> CHR '':'' \<in> set (take 5 s)"

definition isIpAddress :: "string \<Rightarrow> bool" where
  "isIpAddress s \<longleftrightarrow> isIpV4Address s \<or> isIpV6Address s"

text \<open>The version of a tuple's address.\<close>

definition isV4 :: "Tuple \<Rightarrow> bool" where
  "isV4 t \<longleftrightarrow> CHR '':'' \<notin> set (tp_host t)"

section \<open>Facts about marks\<close>

lemma getMarkType_after_mark:
  assumes "mListeners mm = []"
  shows "fst (getMarkType now t (mark t expiry m mm)) =
    (case mList mm (mark_key t) of
       None \<Rightarrow> if expiry > now then m else OK
     | Some (old, _) \<Rightarrow> if old > now then m else OK)"
  using assms by (simp add: getMarkType_def mark_def notifyListeners_def split: option.splits)

lemma getMarkType_other:
  "mark_key t \<noteq> mark_key u \<Longrightarrow> fst (getMarkType now t (mark u expiry m mm)) = fst (getMarkType now t mm)"
  by (simp add: getMarkType_def mark_def split: prod.splits option.splits)

lemma getMarkType_unmarked: "fst (getMarkType now t (unmark t BLACK mm)) = OK"
  by (simp add: getMarkType_def unmark_def removeMark_def split: option.splits)

text \<open>A listener that is registered anew is gone after it was unregistered.\<close>

lemma insert_listener_filter: "k \<notin> fst ` set ls \<Longrightarrow> filter (\<lambda>(k', _). k' \<noteq> k) (insert_listener k l ls) = ls"
proof (induction k l ls rule: insert_listener.induct)
  case (2 k l k' l' ls)
  have "k \<notin> fst ` set ls \<Longrightarrow> filter (\<lambda>(k', _). k' \<noteq> k) ls = ls" by (rule filter_True) force
  then show ?case using 2 by auto
qed simp

lemma register_unregister: "k \<notin> fst ` set (mListeners mm) \<Longrightarrow> unregisterMarkListener k (registerMarkListener k l mm) = mm"
  by (simp add: registerMarkListener_def unregisterMarkListener_def insert_listener_filter)

section \<open>Facts about supported transports\<close>

text \<open>Adding a transport and removing it again leaves the interface as it was.\<close>

lemma count_down_up: "m k \<noteq> Some 0 \<Longrightarrow> count_down k (count_up k m) = m"
  by (auto simp: count_down_def count_up_def split: option.splits)

lemma add_remove_transport:
  assumes "\<And>k. mSupportedTransports i k \<noteq> Some 0" "\<And>k. mSupportedNaptrs i k \<noteq> Some 0"
  shows "removeTransportType t v (addTransportType t v i) = i"
  using assms by (simp add: removeTransportType_def addTransportType_def count_down_up split: option.splits)

section \<open>Numeric addresses\<close>

lemma decimal_text_step:
  "decimal_text n = (if n < 10 then [char_of (48 + n)] else decimal_text (n div 10) @ [char_of (48 + n mod 10)])"
  by (rule decimal_text.simps)

lemma digit_code_of:
  assumes "is_digit c" obtains n :: nat where "n < 10" "c = char_of (48 + n)"
  using assms by (intro that [of "of_char c - 48"]) (auto simp: is_digit_def)

lemma is_digit_char: "(n :: nat) < 10 \<Longrightarrow> is_digit (char_of (48 + n))"
  by (simp add: is_digit_def)

lemma char_code: "c = d \<longleftrightarrow> (of_char c :: nat) = of_char d"
  by simp

lemma digit_code: "(n :: nat) < 10 \<Longrightarrow> (of_char (char_of (48 + n) :: char) :: nat) = 48 + n"
  by simp

text \<open>An octet as it is written.\<close>

lemma octet_texts:
  assumes "n < 256"
  shows "decimal_text n =
    (if n < 10 then [char_of (48 + n)]
     else if n < 100 then [char_of (48 + n div 10), char_of (48 + n mod 10)]
     else [char_of (48 + n div 100), char_of (48 + n div 10 mod 10), char_of (48 + n mod 10)])"
  using assms by (auto simp: decimal_text_step [of n] decimal_text_step [of "n div 10"] decimal_text_step [of "n div 10 div 10"] div_mult2_eq)

lemma octet_digits: "n < 256 \<Longrightarrow> list_all is_digit (decimal_text n) \<and> length (decimal_text n) \<le> 3 \<and> decimal_text n \<noteq> []"
  by (auto simp: octet_texts is_digit_char)


lemma three_digits:
  assumes "(b :: nat) < 10" "c < 10"
  shows "(100 * a + 10 * b + c) div 100 = a" "(100 * a + 10 * b + c) div 10 mod 10 = b" "(100 * a + 10 * b + c) mod 10 = c"
proof -
  show "(100 * a + 10 * b + c) div 100 = a" using assms by (intro div_nat_eqI) auto
  have "(100 * a + 10 * b + c) div 10 = 10 * a + b" using assms by (intro div_nat_eqI) auto
  then show "(100 * a + 10 * b + c) div 10 mod 10 = b" using assms by simp
  have "(100 * a + 10 * b + c) mod 10 = (c + 10 * (10 * a + b)) mod 10" by (simp add: algebra_simps)
  then show "(100 * a + 10 * b + c) mod 10 = c" using assms by (simp only: mod_mult_self2 mod_less)
qed

lemma digits_of:
  fixes n :: nat assumes "n < 1000" obtains a b c where "n = 100 * a + 10 * b + c" "a < 10" "b < 10" "c < 10"
proof (rule that [of "n div 100" "n div 10 mod 10" "n mod 10"])
  have "n = 10 * (10 * (n div 10 div 10) + n div 10 mod 10) + n mod 10" by simp
  then show "n = 100 * (n div 100) + 10 * (n div 10 mod 10) + n mod 10" by (simp add: div_mult2_eq [symmetric])
qed (use assms in auto)

lemma octet_ok_text:
  assumes "ds = decimal_text n" "n < 256" shows "octet_ok (ds @ r) (length ds)"
proof (cases "n < 100")
  case True
  then show ?thesis using assms by (auto simp: octet_texts octet_ok_def char_code digit_code)
next
  case False
  obtain a b c where n: "n = 100 * a + 10 * b + c" "a < 10" "b < 10" "c < 10" using digits_of [of n] assms(2) by auto
  then have "a = 1 \<or> a = 2 \<and> (b < 5 \<or> b = 5 \<and> c \<le> 5)" using assms(2) False by linarith
  moreover have "ds = [char_of (48 + a), char_of (48 + b), char_of (48 + c)]"
    using assms False n by (simp add: octet_texts three_digits)
  ultimately show ?thesis using n by (auto simp: octet_ok_def char_code digit_code)
qed

lemma octet_ok_digits:
  assumes "octet_ok (ds @ r) (length ds)" "list_all is_digit ds" shows "\<exists>n<256. ds = decimal_text n"
proof -
  consider a where "ds = [a]" | a b where "ds = [a, b]" | a b c where "ds = [a, b, c]"
    using assms(1) by (auto simp: octet_ok_def length_Suc_conv numeral_2_eq_2 numeral_3_eq_3 split: if_splits)
  then show ?thesis
  proof cases
    case (1 a)
    then obtain x :: nat where "x < 10" "a = char_of (48 + x)" using assms(2) by (auto elim!: digit_code_of)
    then show ?thesis using 1 by (intro exI [of _ x]) (simp add: octet_texts)
  next
    case (2 a b)
    then obtain x y :: nat where xy: "x < 10" "a = char_of (48 + x)" "y < 10" "b = char_of (48 + y)" using assms(2) by (auto elim!: digit_code_of)
    then have "x \<noteq> 0" using assms(1) 2 by (auto simp: octet_ok_def char_code digit_code)
    then show ?thesis using 2 xy by (intro exI [of _ "10 * x + y"]) (auto simp: octet_texts)
  next
    case (3 a b c)
    then obtain x y z :: nat where xyz: "x < 10" "a = char_of (48 + x)" "y < 10" "b = char_of (48 + y)" "z < 10" "c = char_of (48 + z)"
      using assms(2) by (auto elim!: digit_code_of)
    then have "x = 1 \<or> (x = 2 \<and> (y < 5 \<or> (y = 5 \<and> z \<le> 5)))"
      using assms(1) 3 by (auto simp: octet_ok_def char_code digit_code)
    then have "100 * x + 10 * y + z < 256" "\<not> 100 * x + 10 * y + z < 100" using xyz by linarith+
    then show ?thesis using 3 xyz by (intro exI [of _ "100 * x + 10 * y + z"]) (simp add: octet_texts three_digits)
  qed
qed

lemma takeWhile_prefix:
  "list_all is_digit ds \<Longrightarrow> length ds \<le> 3 \<Longrightarrow> r = [] \<or> \<not> is_digit (hd r) \<Longrightarrow> takeWhile is_digit (take 4 (ds @ r)) = ds"
  by (cases r) (auto simp: list_all_iff take_Cons' takeWhile_append2)

text \<open>One turn of the loop.\<close>

lemma ip4_octet:
  "(let n = length (takeWhile is_digit (take 4 s)) in octet_ok s n \<and> (drop n s = [] \<or> \<not> is_digit (hd (drop n s))) \<and> P (drop n s)) \<longleftrightarrow>
   (\<exists>n<256. \<exists>r. s = decimal_text n @ r \<and> (r = [] \<or> \<not> is_digit (hd r)) \<and> P r)"
proof -
  let ?ds = "takeWhile is_digit (take 4 s)" and ?r = "drop (length (takeWhile is_digit (take 4 s))) s"
  have ds: "?ds = take (length ?ds) s" using takeWhile_eq_take [of is_digit "take 4 s"]
    by (metis length_takeWhile_le min.absorb1 take_take length_take min.boundedE min.commute)
  have s: "s = ?ds @ ?r" using append_take_drop_id [of "length ?ds" s] ds by metis
  have d: "list_all is_digit ?ds" using set_takeWhileD by (fastforce simp: list_all_iff)
  show ?thesis
  proof
    assume "let n = length ?ds in octet_ok s n \<and> (drop n s = [] \<or> \<not> is_digit (hd (drop n s))) \<and> P (drop n s)"
    then have a: "octet_ok s (length ?ds)" "?r = [] \<or> \<not> is_digit (hd ?r)" "P ?r" by (simp_all add: Let_def)
    then obtain n where "n < 256" "?ds = decimal_text n" using octet_ok_digits [of ?ds ?r] d s by auto
    then show "\<exists>n<256. \<exists>r. s = decimal_text n @ r \<and> (r = [] \<or> \<not> is_digit (hd r)) \<and> P r" using s a by metis
  next
    assume "\<exists>n<256. \<exists>r. s = decimal_text n @ r \<and> (r = [] \<or> \<not> is_digit (hd r)) \<and> P r"
    then obtain n r where n: "n < 256" "s = decimal_text n @ r" "r = [] \<or> \<not> is_digit (hd r)" "P r" by blast
    then have "?ds = decimal_text n" using octet_digits takeWhile_prefix by blast
    then show "let n = length ?ds in octet_ok s n \<and> (drop n s = [] \<or> \<not> is_digit (hd (drop n s))) \<and> P (drop n s)"
      using n octet_ok_text [OF _ n(1)] by (simp add: Let_def)
  qed
qed

lemma ip4_last: "ip4_loop (Suc 0) s \<longleftrightarrow> (\<exists>n<256. s = decimal_text n)"
  using ip4_octet [of s "\<lambda>r. r = []"] by (auto simp: Let_def)

lemma dot_not_digit: "\<not> is_digit CHR ''.''"
  by (simp add: is_digit_def)

lemma ip4_more:
  "ip4_loop (Suc (Suc k)) s \<longleftrightarrow> (\<exists>n<256. \<exists>r. s = decimal_text n @ CHR ''.'' # r \<and> ip4_loop (Suc k) r)"
proof -
  have "ip4_loop (Suc (Suc k)) s \<longleftrightarrow>
    (\<exists>n<256. \<exists>r. s = decimal_text n @ r \<and> (r = [] \<or> \<not> is_digit (hd r)) \<and> r \<noteq> [] \<and> hd r = CHR ''.'' \<and> ip4_loop (Suc k) (tl r))"
    using ip4_octet [of s "\<lambda>r. r \<noteq> [] \<and> hd r = CHR ''.'' \<and> ip4_loop (Suc k) (tl r)"]
    by (subst ip4_loop.simps(2)) (auto simp: Let_def dot_not_digit simp del: ip4_loop.simps)
  also have "\<dots> \<longleftrightarrow> (\<exists>n<256. \<exists>r. s = decimal_text n @ CHR ''.'' # r \<and> ip4_loop (Suc k) r)"
    by (metis dot_not_digit list.collapse list.distinct(1) list.sel(1,3))
  finally show ?thesis .
qed

end
