(* ===== verification/DnsRes.thy ===== *)
theory DnsRes
  imports DnsIface "HOL-Library.List_Lexorder" "HOL-Library.Char_ord" "HOL-Library.Product_Lexorder"
begin

text \<open>\<^verbatim>\<open>resip/stack/DnsResult.cxx\<close>: the targets of a request by RFC 3263. A lookup goes from ENUM over NAPTR and
  SRV to A and AAAA queries; the targets it finds are handed out one after the other.

  Queries go through the command fifo of \<^verbatim>\<open>DnsStub\<close> and are answered later: \<open>dr_queries\<close> are the ones that are
  under way, \<open>dr_commands\<close> the commands to change the marks. \<open>dr_calls\<close> is what the handler (the transaction) has
  been told, and a handler is always given. The result of an expression in a NAPTR record is a field of the
  record. An answer with \<open>status\<close> 0 is a success. Network namespaces are left out, as is the search for hosts
  with the Windows name service. A failed assertion sets \<open>dr_failed\<close>, \<open>delete this\<close> sets \<open>dr_deleted\<close>.\<close>

section \<open>Data\<close>

datatype RRType = T_A | T_AAAA | T_SRV | T_NAPTR

datatype Type = Available | Pending | Finished | Destroyed

record NAPTR =
  n_key :: string
  n_order :: int
  n_pref :: int
  n_flags :: string
  n_service :: string
  n_regex :: "Uri \<Rightarrow> Uri option"
  n_replacement :: string

record SRV =
  srv_key :: string
  naptrpref :: int
  srv_transport :: TransportType
  srv_priority :: int
  srv_weight :: int
  srv_port :: int
  srv_target :: string

text \<open>The records of an SRV answer.\<close>

record DnsSrvRecord =
  rr_name :: string
  rr_priority :: int
  rr_weight :: int
  rr_port :: int
  rr_target :: string

record Item =
  it_domain :: string
  it_rrType :: RRType
  it_value :: string

datatype DnsQuery =
    LookupQ Uri
  | EnumQ nat string
  | NaptrQ string
  | SrvQ string
  | HostQ string
  | AAAAQ string

datatype DnsCommand =
    WhitelistCommand "Item list" Tuple
  | GreyOrBlacklistCommand Item Tuple nat MarkType

datatype VipCall = Vip string RRType string | RemoveVip string RRType

datatype HandlerCall = Handle | RewriteRequest Uri

record DnsResult =
  mSRVCount :: int
  mInputUri :: Uri
  mDoingEnum :: nat
  mEnumDestinations :: "(nat \<times> Uri) list"
  mSips :: bool
  dr_target :: string
  dr_transport :: TransportType
  dr_port :: int
  mHaveChosenTransport :: bool
  dr_type :: Type
  mPassHostFromAAAAtoA :: string
  mResults :: "Tuple list"
  mGreylistedTuples :: "Tuple list"
  mTopOrderedNAPTRs :: "string \<rightharpoonup> NAPTR"
  mCumulativeWeight :: int
  mSRVResults :: "SRV list"
  mLastReturnedPath :: "Item list"
  mCurrentPath :: "Item list"
  mHaveReturnedResults :: bool
  mLastResult :: Tuple
  dr_iface :: DnsInterface
  dr_marks :: TupleMarkManager
  dr_supportedType :: "RRType \<Rightarrow> bool"
  mEnumSuffixes :: "string list"
  mEnumDomains :: "string list"
  dr_now :: nat
  dr_random :: "nat \<Rightarrow> nat"
  dr_drawn :: nat
  dr_queries :: "DnsQuery list"
  dr_commands :: "DnsCommand list"
  dr_vip :: "VipCall list"
  dr_calls :: "HandlerCall list"
  dr_deleted :: bool
  dr_failed :: bool

definition new_DnsResult ::
  "DnsInterface \<Rightarrow> TupleMarkManager \<Rightarrow> (RRType \<Rightarrow> bool) \<Rightarrow> string list \<Rightarrow> string list \<Rightarrow> nat \<Rightarrow> (nat \<Rightarrow> nat) \<Rightarrow> DnsResult" where
  "new_DnsResult iface marks types suffixes domains now random =
     \<lparr>mSRVCount = 0, mInputUri = sip_uri new_sip, mDoingEnum = 0, mEnumDestinations = [], mSips = False, dr_target = '''',
      dr_transport = UNKNOWN_TRANSPORT, dr_port = -1, mHaveChosenTransport = False, dr_type = Pending,
      mPassHostFromAAAAtoA = '''', mResults = [], mGreylistedTuples = [], mTopOrderedNAPTRs = Map.empty,
      mCumulativeWeight = 0, mSRVResults = [], mLastReturnedPath = [], mCurrentPath = [], mHaveReturnedResults = False,
      mLastResult = no_tuple, dr_iface = iface, dr_marks = marks, dr_supportedType = types, mEnumSuffixes = suffixes,
      mEnumDomains = domains, dr_now = now, dr_random = random, dr_drawn = 0, dr_queries = [], dr_commands = [],
      dr_vip = [], dr_calls = [], dr_deleted = False, dr_failed = False\<rparr>"

section \<open>Basic operations\<close>

definition dr_assert :: "bool \<Rightarrow> DnsResult \<Rightarrow> DnsResult" where
  "dr_assert b d = (if b then d else d\<lparr>dr_failed := True\<rparr>)"

definition ask_dns :: "DnsQuery \<Rightarrow> DnsResult \<Rightarrow> DnsResult" where
  "ask_dns q d = d\<lparr>dr_queries := dr_queries d @ [q]\<rparr>"

definition call_handler :: "DnsResult \<Rightarrow> DnsResult" where
  "call_handler d = d\<lparr>dr_calls := dr_calls d @ [Handle]\<rparr>"

definition transition :: "Type \<Rightarrow> DnsResult \<Rightarrow> DnsResult" where
  "transition t d =
     (dr_assert (\<not> (t \<in> {Pending, Available} \<and> dr_type d \<in> {Finished, Destroyed})) d)\<lparr>dr_type := t\<rparr>"

definition destroy :: "DnsResult \<Rightarrow> DnsResult" where
  "destroy d =
     (if dr_type d = Pending then transition Destroyed d
      else (transition Finished d)\<lparr>dr_deleted := True\<rparr>)"

text \<open>\<^verbatim>\<open>blacklistLast\<close> and \<^verbatim>\<open>greylistLast\<close>.\<close>

definition markLast :: "MarkType \<Rightarrow> nat \<Rightarrow> DnsResult \<Rightarrow> bool \<times> DnsResult" where
  "markLast m expiry d =
     (if mHaveReturnedResults d then
        let d = dr_assert (mLastReturnedPath d \<noteq> [] \<and> length (mLastReturnedPath d) \<le> 3) d
        in (True, d\<lparr>dr_commands := dr_commands d @ [GreyOrBlacklistCommand (last (mLastReturnedPath d)) (mLastResult d) expiry m]\<rparr>)
      else (False, d))"

abbreviation blacklistLast :: "nat \<Rightarrow> DnsResult \<Rightarrow> bool \<times> DnsResult" where
  "blacklistLast \<equiv> markLast BLACK"

abbreviation greylistLast :: "nat \<Rightarrow> DnsResult \<Rightarrow> bool \<times> DnsResult" where
  "greylistLast \<equiv> markLast GREY"

definition whitelistLast :: "DnsResult \<Rightarrow> DnsResult" where
  "whitelistLast d = d\<lparr>dr_commands := dr_commands d @ [WhitelistCommand (mLastReturnedPath d) (mLastResult d)]\<rparr>"

text \<open>The commands, as the DNS thread executes them.\<close>

definition execute_whitelist :: "Item list \<Rightarrow> Tuple \<Rightarrow> DnsResult \<Rightarrow> DnsResult" where
  "execute_whitelist path result d =
     d\<lparr>dr_vip := dr_vip d @ map (\<lambda>i. Vip (it_domain i) (it_rrType i) (it_value i)) path,
       dr_marks := unmark result GREY (dr_marks d)\<rparr>"

definition execute_mark :: "Item \<Rightarrow> Tuple \<Rightarrow> nat \<Rightarrow> MarkType \<Rightarrow> DnsResult \<Rightarrow> DnsResult" where
  "execute_mark item result expiry m d =
     d\<lparr>dr_marks := mark result expiry m (dr_marks d),
       dr_vip := dr_vip d @ [RemoveVip (it_domain item) (it_rrType item)]\<rparr>"

fun execute_command :: "DnsCommand \<Rightarrow> DnsResult \<Rightarrow> DnsResult" where
  "execute_command (WhitelistCommand path result) d = execute_whitelist path result d"
| "execute_command (GreyOrBlacklistCommand item result expiry m) d = execute_mark item result expiry m d"

lemmas execute_defs = execute_whitelist_def execute_mark_def

definition lookup :: "Uri \<Rightarrow> DnsResult \<Rightarrow> DnsResult" where
  "lookup uri d = ask_dns (LookupQ uri) d"

definition clearCurrPath :: "DnsResult \<Rightarrow> DnsResult" where
  "clearCurrPath d = d\<lparr>mCurrentPath := []\<rparr>"

definition SipWsPort :: int where "SipWsPort = 80"
definition SipWssPort :: int where "SipWssPort = 443"

definition getDefaultPort :: "TransportType \<Rightarrow> int \<Rightarrow> DnsResult \<Rightarrow> int" where
  "getDefaultPort transport port d =
     (if port = 0 then
        (case transport of
           UDP \<Rightarrow> DefaultSipPort
         | TCP \<Rightarrow> if mSips d then DefaultSipsPort else DefaultSipPort
         | TLS \<Rightarrow> DefaultSipsPort
         | DTLS \<Rightarrow> DefaultSipsPort
         | WS \<Rightarrow> SipWsPort
         | WSS \<Rightarrow> SipWssPort
         | _ \<Rightarrow> DefaultSipPort)
      else port)"

definition lookupHost :: "string \<Rightarrow> DnsResult \<Rightarrow> DnsResult" where
  "lookupHost target d =
     (if isSupported (dr_transport d) V6 (dr_iface d) then ask_dns (AAAAQ target) (d\<lparr>mPassHostFromAAAAtoA := target\<rparr>)
      else if isSupported (dr_transport d) V4 (dr_iface d) then ask_dns (HostQ target) d
      else dr_assert False d)"

section \<open>SRV records\<close>

text \<open>\<^verbatim>\<open>SRV::operator<\<close>, and the sorting of the records. \<^verbatim>\<open>std::sort\<close> leaves open how records are ordered that
  differ in the key or the port only.\<close>

definition srv_less :: "SRV \<Rightarrow> SRV \<Rightarrow> bool" where
  "srv_less a b \<longleftrightarrow>
     (if naptrpref a < naptrpref b then True
      else if naptrpref a = naptrpref b then
        (if srv_transport a < srv_transport b then True
         else if srv_transport a = srv_transport b then
           (if srv_priority a < srv_priority b then True
            else if srv_priority a = srv_priority b then
              (if srv_weight a < srv_weight b then True
               else if srv_weight a = srv_weight b then srv_target a < srv_target b
               else False)
            else False)
         else False)
      else False)"

fun srv_insert :: "SRV \<Rightarrow> SRV list \<Rightarrow> SRV list" where
  "srv_insert s [] = [s]"
| "srv_insert s (x # xs) = (if srv_less x s then x # srv_insert s xs else s # x # xs)"

definition srv_sort :: "SRV list \<Rightarrow> SRV list" where
  "srv_sort xs = foldr srv_insert xs []"

text \<open>The record in whose interval the random number falls, and the others.\<close>

fun pick_srv :: "int \<Rightarrow> int \<Rightarrow> SRV list \<Rightarrow> (SRV \<times> SRV list) option" where
  "pick_srv selected w [] = None"
| "pick_srv selected w (s # ss) =
     (if w + srv_weight s > selected then Some (s, ss)
      else map_option (\<lambda>(x, xs). (x, s # xs)) (pick_srv selected (w + srv_weight s) ss))"

definition same_group :: "int \<Rightarrow> TransportType \<Rightarrow> SRV \<Rightarrow> bool" where
  "same_group priority transport s \<longleftrightarrow> srv_priority s = priority \<and> srv_transport s = transport"

text \<open>The transport of the leading records, the sum of their weights, and the random number below it.\<close>

definition leading_transport :: "DnsResult \<Rightarrow> TransportType" where
  "leading_transport d = (if mHaveChosenTransport d then dr_transport d else srv_transport (hd (mSRVResults d)))"

definition cumulate :: "DnsResult \<Rightarrow> DnsResult" where
  "cumulate d =
     (let srvs = mSRVResults d;
          d = dr_assert (srvs \<noteq> [] \<and> mSRVCount d = 0) d;
          d = dr_assert (srv_transport (hd srvs) = leading_transport d) d;
          group = takeWhile (same_group (srv_priority (hd srvs)) (leading_transport d)) srvs
      in if mCumulativeWeight d = 0
         then (dr_assert (list_all (\<lambda>s. srv_weight s \<ge> 0) group) d)\<lparr>mCumulativeWeight := sum_list (map srv_weight group)\<rparr>
         else d)"

definition draw :: "DnsResult \<Rightarrow> int \<times> DnsResult" where
  "draw d =
     (if mCumulativeWeight d \<noteq> 0
      then (int (dr_random d (dr_drawn d)) mod mCumulativeWeight d, d\<lparr>dr_drawn := Suc (dr_drawn d)\<rparr>)
      else (-1, d))"

definition retrieveSRV :: "DnsResult \<Rightarrow> SRV \<times> DnsResult" where
  "retrieveSRV d =
     (let srvs = mSRVResults d;
          priority = srv_priority (hd srvs);
          transport = leading_transport d
      in case draw (cumulate d) of (selected, d) \<Rightarrow>
           case pick_srv selected 0 srvs of
             None \<Rightarrow> (hd srvs, dr_assert False d)
           | Some (next, rest) \<Rightarrow>
               (next, d\<lparr>mSRVResults := rest,
                        mCumulativeWeight :=
                          (if rest \<noteq> [] \<and> (srv_priority (hd rest) \<noteq> priority \<or> srv_transport (hd rest) \<noteq> transport) then 0
                           else mCumulativeWeight d - srv_weight next)\<rparr>))"

section \<open>Handing out targets\<close>

definition primeResults :: "DnsResult \<Rightarrow> DnsResult" where
  "primeResults d =
     (let d = dr_assert (mResults d = []) d
      in if mSRVResults d \<noteq> [] then
           (case retrieveSRV d of (next, d) \<Rightarrow>
              let d = (transition Pending d)\<lparr>dr_port := srv_port next, dr_transport := srv_transport next\<rparr>
              in if isSupportedProtocol (srv_transport next) (dr_iface d) then
                   let naptr = (case mTopOrderedNAPTRs d (srv_key next) of
                                  None \<Rightarrow> []
                                | Some n \<Rightarrow> [\<lparr>it_domain = n_key n, it_rrType = T_NAPTR, it_value = n_replacement n\<rparr>]);
                       srv = \<lparr>it_domain = srv_key next, it_rrType = T_SRV,
                              it_value = srv_target next @ '':'' @ int_text (srv_port next)\<rparr>
                   in lookupHost (srv_target next) (d\<lparr>mCurrentPath := naptr @ [srv]\<rparr>)
                 else call_handler (dr_assert False d))
         else if mGreylistedTuples d \<noteq> [] then
           transition Available (d\<lparr>mResults := mResults d @ mGreylistedTuples d, mGreylistedTuples := []\<rparr>)
         else
           let changed = (dr_type d = Pending); d = transition Finished d
           in if changed then call_handler d else d)"

lemma lookupHost_frame: "dr_type (lookupHost h d) = dr_type d" "mResults (lookupHost h d) = mResults d"
  by (simp_all add: lookupHost_def ask_dns_def dr_assert_def)

lemma transition_frame: "dr_type (transition t d) = t" "mResults (transition t d) = mResults d"
  by (simp_all add: transition_def dr_assert_def)

lemma primeResults_done: "\<not> (dr_type (primeResults d) = Available \<and> mResults (primeResults d) = [])"
  by (auto simp: primeResults_def Let_def lookupHost_frame transition_frame call_handler_def dr_assert_def split: prod.splits)

function available :: "DnsResult \<Rightarrow> Type \<times> DnsResult" where
  "available d =
     (let d = dr_assert (dr_type d \<noteq> Destroyed) d
      in if dr_type d = Available \<and> mResults d = [] then available (primeResults d) else (dr_type d, d))"
  by pat_completeness auto
termination
  by (relation "measure (\<lambda>d. if dr_type d = Available \<and> mResults d = [] then 1 else 0)") (use primeResults_done in \<open>auto simp: dr_assert_def split: if_splits\<close>)

declare available.simps [simp del]

definition next_target :: "DnsResult \<Rightarrow> Tuple \<times> DnsResult" where
  "next_target d =
     (case available d of (ty, d) \<Rightarrow>
        let d = dr_assert (ty = Available \<and> length (mCurrentPath d) \<le> 3) d;
            t = hd (mResults d);
            path = (if mCurrentPath d \<noteq> [] \<and> it_rrType (last (mCurrentPath d)) \<in> {T_A, T_AAAA}
                    then butlast (mCurrentPath d) else mCurrentPath d);
            path = path @ [\<lparr>it_domain = mTargetDomain t, it_rrType = (if isV4 t then T_A else T_AAAA), it_value = tp_host t\<rparr>]
        in (t, d\<lparr>mLastResult := t, mResults := tl (mResults d), mCurrentPath := path, mLastReturnedPath := path,
                 mHaveReturnedResults := True\<rparr>))"

section \<open>Starting a lookup\<close>

definition ask_srv :: "string \<Rightarrow> DnsResult \<Rightarrow> DnsResult" where
  "ask_srv name d = ask_dns (SrvQ name) (d\<lparr>mSRVCount := mSRVCount d + 1\<rparr>)"

text \<open>A numeric target with the transport and port of \<open>d\<close>.\<close>

definition numeric_tuple :: "DnsResult \<Rightarrow> Tuple" where
  "numeric_tuple d = no_tuple\<lparr>tp_type := dr_transport d, tp_host := dr_target d, tp_port := dr_port d, mTargetDomain := dr_target d\<rparr>"

definition get_mark :: "Tuple \<Rightarrow> DnsResult \<Rightarrow> MarkType \<times> DnsResult" where
  "get_mark t d = (case getMarkType (dr_now d) t (dr_marks d) of (m, mm) \<Rightarrow> (m, d\<lparr>dr_marks := mm\<rparr>))"

definition no_support :: "DnsResult \<Rightarrow> DnsResult" where
  "no_support d = call_handler (transition Finished d)"

text \<open>The SRV lookup for one transport, or the host lookup when the resolver has no SRV records.\<close>

definition srv_or_host :: "string \<Rightarrow> Uri \<Rightarrow> DnsResult \<Rightarrow> DnsResult" where
  "srv_or_host prefix uri d =
     (if \<not> dr_supportedType d T_SRV
      then lookupHost (dr_target d) (d\<lparr>dr_port := getDefaultPort (dr_transport d) (u_port uri) d\<rparr>)
      else ask_srv (prefix @ dr_target d) d)"

fun srv_prefix :: "TransportType \<Rightarrow> string" where
  "srv_prefix TLS = ''_sips._tcp.''"
| "srv_prefix DTLS = ''_sip._dtls.''"
| "srv_prefix TCP = ''_sip._tcp.''"
| "srv_prefix _ = ''_sip._udp.''"

definition lookup_transport :: "TransportType \<Rightarrow> Uri \<Rightarrow> DnsResult \<Rightarrow> DnsResult" where
  "lookup_transport t uri d =
     (let d = d\<lparr>dr_transport := t, mHaveChosenTransport := True\<rparr>
      in if isIpAddress (dr_target d) then
           let d = d\<lparr>dr_port := getDefaultPort t (u_port uri) d\<rparr>;
               (m, d) = get_mark (numeric_tuple d) d;
               d = (if m \<noteq> BLACK then d\<lparr>mResults := mResults d @ [numeric_tuple d]\<rparr> else d)
           in call_handler (transition Available d)
         else if u_port uri \<noteq> 0 then lookupHost (dr_target d) (d\<lparr>dr_port := u_port uri\<rparr>)
         else if mSips d then
           let t = (if t = UDP then DTLS else TLS); d = d\<lparr>dr_transport := t\<rparr>
           in if \<not> isSupportedProtocol t (dr_iface d) then no_support d
              else srv_or_host (if t = DTLS then ''_sips._udp.'' else ''_sips._tcp.'') uri d
         else if \<not> isSupportedProtocol t (dr_iface d) then no_support d
         else srv_or_host (srv_prefix t) uri d)"

text \<open>One attempt of the numeric case without a transport parameter.\<close>

definition probe :: "TransportType \<Rightarrow> Uri \<Rightarrow> DnsResult \<Rightarrow> Tuple \<times> MarkType \<times> DnsResult" where
  "probe t uri d =
     (let d = d\<lparr>dr_transport := t, dr_port := getDefaultPort t (u_port uri) d\<rparr>; tuple = numeric_tuple d
      in case get_mark tuple d of (m, d) \<Rightarrow> (tuple, m, d))"

definition probe_if :: "TransportType \<Rightarrow> Uri \<Rightarrow> Tuple \<times> MarkType \<times> DnsResult \<Rightarrow> Tuple \<times> MarkType \<times> DnsResult" where
  "probe_if t uri = (\<lambda>(tuple, m, d).
     if m \<noteq> OK \<and> isSupportedProtocol t (dr_iface d) then probe t uri d else (tuple, m, d))"

definition probe_back :: "Uri \<Rightarrow> Tuple \<times> MarkType \<times> DnsResult \<Rightarrow> Tuple \<times> MarkType \<times> DnsResult" where
  "probe_back uri = (\<lambda>(tuple, m, d).
     if m = OK then (tuple, m, d)
     else if isSupportedProtocol UDP (dr_iface d) \<and> dr_transport d \<noteq> UDP then probe UDP uri d
     else if isSupportedProtocol TCP (dr_iface d) \<and> dr_transport d \<noteq> TCP then probe TCP uri d
     else (tuple, m, d))"

definition lookup_numeric :: "Uri \<Rightarrow> DnsResult \<Rightarrow> DnsResult" where
  "lookup_numeric uri d =
     (let s = (no_tuple, BLACK, d);
          s = (if mSips d then probe_if TLS uri s
               else
                 let s = probe_if UDP uri s
                 in if mUdpOnlyOnNumeric (dr_iface d) then s
                    else probe_back uri (probe_if TLS uri (probe_if TCP uri s)))
      in case s of (tuple, m, d) \<Rightarrow>
           let d = (if m \<in> {OK, GREY} then d\<lparr>mHaveChosenTransport := True, mResults := mResults d @ [tuple]\<rparr>
                    else dr_assert (mResults d = []) d)
           in call_handler (transition Available d))"

text \<open>A host name with a port, or a resolver without NAPTR records.\<close>

definition preferred_transport :: "bool \<Rightarrow> DnsInterface \<Rightarrow> TransportType" where
  "preferred_transport sips i =
     (if sips then (if isSupportedProtocol TLS i then TLS else UNKNOWN_TRANSPORT)
      else if isSupportedProtocol UDP i then UDP
      else if isSupportedProtocol TCP i then TCP
      else if isSupportedProtocol TLS i then TLS
      else UNKNOWN_TRANSPORT)"

definition lookup_name :: "Uri \<Rightarrow> DnsResult \<Rightarrow> DnsResult" where
  "lookup_name uri d =
     (let t = preferred_transport (mSips d) (dr_iface d); d = d\<lparr>dr_transport := t\<rparr>
      in if t \<noteq> UNKNOWN_TRANSPORT then lookupHost (dr_target d) (d\<lparr>dr_port := getDefaultPort t (u_port uri) d\<rparr>)
         else call_handler (dr_assert False d))"

definition without_brackets :: "string \<Rightarrow> string" where
  "without_brackets s =
     (if length s \<ge> 2 \<and> hd s = CHR ''['' \<and> last s = CHR '']'' then butlast (tl s) else s)"

definition is_sips :: "Uri \<Rightarrow> bool" where
  "is_sips uri \<longleftrightarrow> u_scheme uri = ''sips''"

definition lookup_target :: "Uri \<Rightarrow> string" where
  "lookup_target uri = without_brackets
     (case u_maddr uri of Some m \<Rightarrow> if is_sips uri then u_host uri else m | None \<Rightarrow> u_host uri)"

definition lookupInternal :: "Uri \<Rightarrow> DnsResult \<Rightarrow> DnsResult" where
  "lookupInternal uri d =
     (let d = d\<lparr>mSips := is_sips uri, dr_target := lookup_target uri\<rparr>
      in case u_transport uri of
           Some t \<Rightarrow> lookup_transport t uri d
         | None \<Rightarrow>
             if isIpAddress (dr_target d) then lookup_numeric uri d
             else if u_port uri \<noteq> 0 \<or> \<not> dr_supportedType d T_NAPTR then lookup_name uri d
             else ask_dns (NaptrQ (dr_target d)) d)"

text \<open>\<^verbatim>\<open>Uri::isEnumSearchable\<close> and \<^verbatim>\<open>Uri::getEnumLookups\<close>.\<close>

definition isEnumSearchable :: "Uri \<Rightarrow> bool" where
  "isEnumSearchable uri \<longleftrightarrow>
     u_scheme uri = ''tel'' \<and> length (u_user uri) \<ge> 4 \<and> hd (u_user uri) = CHR ''+'' \<and>
     list_all (\<lambda>c. is_digit c \<or> c = CHR ''-'') (tl (u_user uri)) \<and> length (filter is_digit (tl (u_user uri))) \<le> 15"

definition getEnumLookups :: "string list \<Rightarrow> Uri \<Rightarrow> string list" where
  "getEnumLookups suffixes uri =
     (if isEnumSearchable uri
      then map (\<lambda>s. concat (map (\<lambda>c. [c, CHR ''.'']) (filter is_digit (rev (tl (u_user uri))))) @ s) suffixes
      else [])"

definition ask_enums :: "string list \<Rightarrow> DnsResult \<Rightarrow> DnsResult" where
  "ask_enums names d = fold (\<lambda>(i, n). ask_dns (EnumQ i n)) (enumerate 0 names) d"

definition lookupInternalWithEnum :: "Uri \<Rightarrow> DnsResult \<Rightarrow> DnsResult" where
  "lookupInternalWithEnum uri d =
     (if dr_type d = Destroyed then destroy d
      else if mEnumSuffixes d \<noteq> [] \<and> isEnumSearchable uri \<and> u_host uri \<in> set (mEnumDomains d) then
        let enums = getEnumLookups (mEnumSuffixes d) uri;
            d = dr_assert (enums \<noteq> []) (d\<lparr>mInputUri := uri\<rparr>)
        in if enums \<noteq> [] then ask_enums enums (d\<lparr>mDoingEnum := length enums\<rparr>)
           else lookupInternal uri (d\<lparr>mDoingEnum := 0\<rparr>)
      else lookupInternal uri (d\<lparr>mDoingEnum := 0\<rparr>))"

section \<open>Answers\<close>

text \<open>The targets of a host answer, sorted by their marks.\<close>

definition add_tuple :: "Tuple \<Rightarrow> DnsResult \<Rightarrow> DnsResult" where
  "add_tuple t d =
     (case get_mark t d of (m, d) \<Rightarrow>
        (case m of
           OK \<Rightarrow> d\<lparr>mResults := mResults d @ [t]\<rparr>
         | GREY \<Rightarrow> d\<lparr>mGreylistedTuples := mGreylistedTuples d @ [t]\<rparr>
         | BLACK \<Rightarrow> d))"

definition host_tuple :: "string \<Rightarrow> DnsResult \<Rightarrow> Tuple" where
  "host_tuple addr d =
     no_tuple\<lparr>tp_type := dr_transport d, tp_host := addr, tp_port := dr_port d, mTargetDomain := dr_target d\<rparr>"

definition add_hosts :: "nat \<Rightarrow> string list \<Rightarrow> DnsResult \<Rightarrow> DnsResult" where
  "add_hosts status addrs d = (if status = 0 then fold (\<lambda>a d. add_tuple (host_tuple a d) d) addrs d else d)"

definition hosts_done :: "DnsResult \<Rightarrow> DnsResult" where
  "hosts_done d =
     (if mResults d = [] \<and> mSRVResults d = [] then
        (if mGreylistedTuples d = [] then clearCurrPath (transition Finished d)
         else transition Available (d\<lparr>mResults := mResults d @ mGreylistedTuples d, mGreylistedTuples := []\<rparr>))
      else transition Available d)"

definition onHostResult :: "nat \<Rightarrow> string list \<Rightarrow> DnsResult \<Rightarrow> DnsResult" where
  "onHostResult status addrs d =
     (if \<not> isSupportedProtocol (dr_transport d) (dr_iface d) then d
      else if dr_type d = Destroyed then destroy d
      else
        let d = add_hosts status addrs d
        in if mSRVCount d = 0 then
             let changed = (dr_type d = Pending);
                 d = hosts_done d
             in if changed then call_handler d else d
           else d)"

definition onAAAAResult :: "nat \<Rightarrow> string list \<Rightarrow> DnsResult \<Rightarrow> DnsResult" where
  "onAAAAResult status addrs d =
     (if \<not> isSupported (dr_transport d) V6 (dr_iface d) then d
      else if dr_type d = Destroyed then destroy d
      else ask_dns (HostQ (mPassHostFromAAAAtoA d)) (add_hosts status addrs d))"

text \<open>The transport of an SRV record is read off its name.\<close>

fun occurs_in :: "string \<Rightarrow> string \<Rightarrow> bool" where
  "occurs_in p [] \<longleftrightarrow> p = []"
| "occurs_in p (c # cs) \<longleftrightarrow> take (length p) (c # cs) = p \<or> occurs_in p cs"

definition transport_of_key :: "string \<Rightarrow> TransportType option" where
  "transport_of_key key =
     (if occurs_in ''_sips._udp'' key then Some DTLS
      else if occurs_in ''_sips._tcp'' key then Some TLS
      else if occurs_in ''_udp'' key then Some UDP
      else if occurs_in ''_dtls'' key then Some DTLS
      else if occurs_in ''_tls'' key then Some TLS
      else if occurs_in ''_tcp'' key then Some TCP
      else None)"

definition add_srv :: "DnsSrvRecord \<Rightarrow> DnsResult \<Rightarrow> DnsResult" where
  "add_srv r d =
     (case transport_of_key (rr_name r) of
        None \<Rightarrow> d
      | Some t \<Rightarrow>
          if \<not> mHaveChosenTransport d \<or> t = dr_transport d then
            d\<lparr>mSRVResults := mSRVResults d @
              [\<lparr>srv_key = rr_name r,
                naptrpref = (case mTopOrderedNAPTRs d (rr_name r) of Some n \<Rightarrow> n_pref n | None \<Rightarrow> 0),
                srv_transport = t, srv_priority = rr_priority r, srv_weight = rr_weight r, srv_port = rr_port r,
                srv_target = rr_target r\<rparr>]\<rparr>
          else d)"

text \<open>The transport and port when there is no SRV record.\<close>

definition fall_back :: "DnsResult \<Rightarrow> DnsResult" where
  "fall_back d =
     (if dr_transport d = UNKNOWN_TRANSPORT then
        (if mSips d then d\<lparr>dr_transport := TLS, mHaveChosenTransport := True, dr_port := DefaultSipsPort\<rparr>
         else
           (if isSupported UDP V4 (dr_iface d) then d\<lparr>dr_transport := UDP, mHaveChosenTransport := True\<rparr>
            else if isSupported TCP V4 (dr_iface d) then d\<lparr>dr_transport := TCP, mHaveChosenTransport := True\<rparr>
            else d)\<lparr>dr_port := DefaultSipPort\<rparr>)
      else d\<lparr>dr_port := getDefaultPort (dr_transport d) 0 d\<rparr>)"

definition onSrvResult :: "nat \<Rightarrow> DnsSrvRecord list \<Rightarrow> DnsResult \<Rightarrow> DnsResult" where
  "onSrvResult status records d =
     (let d = dr_assert (mSRVCount d \<ge> 0) d;
          d = d\<lparr>mSRVCount := mSRVCount d - 1\<rparr>
      in if dr_type d = Destroyed \<and> mSRVCount d = 0 then destroy d
         else
           let d = (if status = 0 then fold add_srv records d else d)
           in if mSRVCount d = 0 then
                (if mSRVResults d = [] then
                   let d = fall_back d
                   in if isSupportedProtocol (dr_transport d) (dr_iface d) then lookupHost (dr_target d) d else primeResults d
                 else primeResults (d\<lparr>mSRVResults := srv_sort (mSRVResults d)\<rparr>))
              else d)"

text \<open>ENUM: the best record for each suffix, and the first suffix that has one.\<close>

definition is_enum_record :: "NAPTR \<Rightarrow> bool" where
  "is_enum_record n \<longleftrightarrow>
     (let s = map (\<lambda>c. if 65 \<le> (of_char c :: nat) \<and> (of_char c :: nat) \<le> 90 then char_of (of_char c + 32 :: nat) else c) (n_service n)
      in s = ''e2u+sip'' \<or> s = ''sip+e2u'') \<and> n_replacement n = ''''"

definition better_enum :: "NAPTR \<Rightarrow> NAPTR option \<Rightarrow> NAPTR option" where
  "better_enum n best =
     (if \<not> is_enum_record n then best
      else case best of
        None \<Rightarrow> Some n
      | Some b \<Rightarrow>
          if n_order n < n_order b \<or> (n_order n = n_order b \<and> n_pref n < n_pref b) then Some n else Some b)"

fun put_destination :: "nat \<Rightarrow> Uri \<Rightarrow> (nat \<times> Uri) list \<Rightarrow> (nat \<times> Uri) list" where
  "put_destination k u [] = [(k, u)]"
| "put_destination k u ((k', u') # es) =
     (if k < k' then (k, u) # (k', u') # es
      else if k = k' then (k, u) # es
      else (k', u') # put_destination k u es)"

definition onEnumResult :: "nat \<Rightarrow> NAPTR list \<Rightarrow> nat \<Rightarrow> DnsResult \<Rightarrow> DnsResult" where
  "onEnumResult status records order d =
     (let d = dr_assert (mDoingEnum d > 0) d;
          d = d\<lparr>mDoingEnum := mDoingEnum d - 1\<rparr>;
          d = (if status = 0 then
                 (case fold better_enum records None of
                    None \<Rightarrow> d
                  | Some best \<Rightarrow>
                      (case n_regex best (mInputUri d) of
                         None \<Rightarrow> d
                       | Some uri \<Rightarrow> d\<lparr>mEnumDestinations := put_destination order uri (mEnumDestinations d)\<rparr>))
               else d)
      in if mDoingEnum d = 0 then
           (case mEnumDestinations d of
              (_, uri) # _ \<Rightarrow> lookupInternal uri (d\<lparr>dr_calls := dr_calls d @ [RewriteRequest uri]\<rparr>)
            | [] \<Rightarrow> lookupInternal (mInputUri d) d)
         else d)"

text \<open>NAPTR: the records of the best order that the stack supports, or SRV lookups for all its transports.\<close>

definition supported_naptr :: "DnsResult \<Rightarrow> NAPTR \<Rightarrow> bool" where
  "supported_naptr d n \<longleftrightarrow> (mSips d \<longrightarrow> take 4 (n_service n) = ''SIPS'') \<and> isSupported_service (n_service n) (dr_iface d)"

definition follow_naptr :: "NAPTR \<Rightarrow> DnsResult \<Rightarrow> DnsResult" where
  "follow_naptr n d =
     ask_srv (n_replacement n) (d\<lparr>mTopOrderedNAPTRs := (mTopOrderedNAPTRs d)(n_replacement n \<mapsto> n)\<rparr>)"

definition ask_srv_if :: "TransportType \<Rightarrow> string \<Rightarrow> DnsResult \<Rightarrow> DnsResult" where
  "ask_srv_if t prefix d = (if isSupportedProtocol t (dr_iface d) then ask_srv (prefix @ dr_target d) d else d)"

definition naptr_failed :: "DnsResult \<Rightarrow> DnsResult" where
  "naptr_failed d =
     (if mSips d then
        (if \<not> isSupportedProtocol TLS (dr_iface d) then no_support d else ask_srv (''_sips._tcp.'' @ dr_target d) d)
      else ask_srv_if UDP ''_sip._udp.'' (ask_srv_if TCP ''_sip._tcp.'' (ask_srv_if DTLS ''_sips._udp.''
             (ask_srv_if TLS ''_sips._tcp.'' d))))"

definition onNaptrResult :: "nat \<Rightarrow> NAPTR list \<Rightarrow> DnsResult \<Rightarrow> DnsResult" where
  "onNaptrResult status records d =
     (if status = 0 then
        let supported = filter (supported_naptr d) records;
            best = fold min (map n_order supported) 65536
        in if supported = [] then naptr_failed d
           else fold follow_naptr (filter (\<lambda>n. n_order n = best) supported) (transition Pending d)
      else naptr_failed d)"

definition onNaptr :: "nat \<Rightarrow> NAPTR list \<Rightarrow> DnsResult \<Rightarrow> DnsResult" where
  "onNaptr status records d = (if dr_type d = Destroyed then destroy d else onNaptrResult status records d)"

text \<open>The answer to a query.\<close>

datatype DnsReply =
    NoReply
  | HostReply nat "string list"
  | SrvReply nat "DnsSrvRecord list"
  | NaptrReply nat "NAPTR list"

fun onReply :: "DnsQuery \<Rightarrow> DnsReply \<Rightarrow> DnsResult \<Rightarrow> DnsResult" where
  "onReply (LookupQ uri) NoReply d = lookupInternalWithEnum uri d"
| "onReply (HostQ _) (HostReply status addrs) d = onHostResult status addrs d"
| "onReply (AAAAQ _) (HostReply status addrs) d = onAAAAResult status addrs d"
| "onReply (SrvQ _) (SrvReply status records) d = onSrvResult status records d"
| "onReply (NaptrQ _) (NaptrReply status records) d = onNaptr status records d"
| "onReply (EnumQ order _) (NaptrReply status records) d = onEnumResult status records order d"
| "onReply _ _ d = d"

fun fits :: "DnsQuery \<Rightarrow> DnsReply \<Rightarrow> bool" where
  "fits (LookupQ _) NoReply = True"
| "fits (HostQ _) (HostReply _ _) = True"
| "fits (AAAAQ _) (HostReply _ _) = True"
| "fits (SrvQ _) (SrvReply _ _) = True"
| "fits (NaptrQ _) (NaptrReply _ _) = True"
| "fits (EnumQ _ _) (NaptrReply _ _) = True"
| "fits _ _ = False"

text \<open>The \<open>i\<close>-th query is answered.\<close>

definition answer :: "nat \<Rightarrow> DnsReply \<Rightarrow> DnsResult \<Rightarrow> DnsResult" where
  "answer i r d = onReply (dr_queries d ! i) r (d\<lparr>dr_queries := take i (dr_queries d) @ drop (Suc i) (dr_queries d)\<rparr>)"

end
