(* ===== verification/DnsResInv.thy ===== *)
theory DnsResInv
  imports DnsRes "HOL-Library.Multiset"
begin

text \<open>The invariant of a DNS lookup, and the choice among SRV records.\<close>

section \<open>Choosing an SRV record\<close>

abbreviation weights :: "SRV list \<Rightarrow> int" where
  "weights ss \<equiv> sum_list (map srv_weight ss)"

text \<open>The chosen record is the one in whose interval of the cumulated weights the number falls.\<close>

lemma pick_srv_Some:
  "pick_srv x w ss = Some (s, rest) \<Longrightarrow> \<forall>s\<in>set ss. srv_weight s \<ge> 0 \<Longrightarrow>
     \<exists>pre post. ss = pre @ s # post \<and> rest = pre @ post \<and> (pre \<noteq> [] \<longrightarrow> w + weights pre \<le> x) \<and> x < w + weights pre + srv_weight s"
proof (induction ss arbitrary: w rest)
  case (Cons a ss)
  show ?case
  proof (cases "w + srv_weight a > x")
    case True
    then show ?thesis using Cons.prems(1) by (intro exI [of _ "[]"] exI [of _ ss]) auto
  next
    case False
    then obtain r where r: "pick_srv x (w + srv_weight a) ss = Some (s, r)" "rest = a # r" using Cons.prems(1) by auto
    then obtain pre post where "ss = pre @ s # post" "r = pre @ post" "pre \<noteq> [] \<longrightarrow> w + srv_weight a + weights pre \<le> x"
      "x < w + srv_weight a + weights pre + srv_weight s" using Cons.IH [OF r(1)] Cons.prems(2) by auto
    then show ?thesis using r False by (intro exI [of _ "a # pre"] exI [of _ post]) (cases "pre = []", auto simp: algebra_simps)
  qed
qed simp

lemma pick_srv_exists: "x < w + weights ss \<Longrightarrow> ss \<noteq> [] \<Longrightarrow> pick_srv x w ss \<noteq> None"
proof (induction ss arbitrary: w)
  case (Cons a ss)
  then show ?case using Cons.IH [of "w + srv_weight a"] by (cases "ss = []") (auto simp: algebra_simps)
qed simp

lemma pick_srv_append: "x < w + weights ss \<Longrightarrow> ss \<noteq> [] \<Longrightarrow>
  pick_srv x w (ss @ ts) = map_option (\<lambda>(s, r). (s, r @ ts)) (pick_srv x w ss)"
proof (induction ss arbitrary: w)
  case (Cons a ss)
  show ?case
  proof (cases "ss = []")
    case True then show ?thesis using Cons.prems by simp
  next
    case False
    then show ?thesis using Cons.IH [of "w + srv_weight a"] Cons.prems
      by (auto simp: algebra_simps option.map_comp comp_def split_beta)
  qed
qed simp

text \<open>The records among which the next one is chosen: those at the head with the same priority and transport.\<close>

definition lead :: "SRV list \<Rightarrow> SRV list" where
  "lead ss = takeWhile (same_group (srv_priority (hd ss)) (srv_transport (hd ss))) ss"

definition srv_good :: "DnsResult \<Rightarrow> SRV \<Rightarrow> bool" where
  "srv_good d s \<longleftrightarrow> srv_weight s \<ge> 0 \<and> isSupportedProtocol (srv_transport s) (dr_iface d) \<and>
     (mHaveChosenTransport d \<longrightarrow> srv_transport s = dr_transport d)"

definition cum_ok :: "SRV list \<Rightarrow> int \<Rightarrow> bool" where
  "cum_ok ss w \<longleftrightarrow> ss = [] \<or> w = 0 \<or> w = weights (lead ss)"

lemma lead_nonempty: "ss \<noteq> [] \<Longrightarrow> lead ss \<noteq> []"
  by (cases ss) (auto simp: lead_def same_group_def)

lemma lead_group: "s \<in> set (lead ss) \<Longrightarrow> same_group (srv_priority (hd ss)) (srv_transport (hd ss)) s"
  unfolding lead_def by (rule set_takeWhileD [THEN conjunct2])

lemma weights_nonneg: "\<forall>s\<in>set ss. srv_weight s \<ge> 0 \<Longrightarrow> weights ss \<ge> 0"
  by (induction ss) auto

text \<open>Taking one record out of the leading group.\<close>

lemma lead_remove:
  assumes "ss = pre @ s # post @ ts" "lead ss = pre @ s # post"
  shows "if pre @ post = [] then ts \<noteq> [] \<longrightarrow> \<not> same_group (srv_priority (hd ss)) (srv_transport (hd ss)) (hd ts)
    else same_group (srv_priority (hd ss)) (srv_transport (hd ss)) (hd (pre @ post)) \<and> lead (pre @ post @ ts) = pre @ post"
proof -
  let ?P = "same_group (srv_priority (hd ss)) (srv_transport (hd ss))"
  have t: "takeWhile ?P ss = pre @ s # post" using assms(2) by (simp add: lead_def)
  have g: "\<forall>x\<in>set (pre @ post). ?P x" using lead_group [of _ ss] assms(2) by auto
  have ts: "ts \<noteq> [] \<longrightarrow> \<not> ?P (hd ts)"
  proof
    assume "ts \<noteq> []"
    moreover have "dropWhile ?P ss = ts" using t assms(1) by (metis append.assoc append_Cons same_append_eq takeWhile_dropWhile_id)
    ultimately show "\<not> ?P (hd ts)" using hd_dropWhile by blast
  qed
  show ?thesis
  proof (cases "pre @ post = []")
    case True then show ?thesis using ts by simp
  next
    case False
    then have h: "?P (hd (pre @ post))" using g hd_in_set by blast
    then have "same_group (srv_priority (hd (pre @ post))) (srv_transport (hd (pre @ post))) = ?P" by (auto simp: same_group_def fun_eq_iff)
    moreover have "hd (pre @ post @ ts) = hd (pre @ post)" using False by (metis append.assoc hd_append2)
    moreover have "takeWhile ?P ((pre @ post) @ ts) = pre @ post" using g ts by (cases ts) (auto simp: takeWhile_append2)
    ultimately have "lead (pre @ post @ ts) = pre @ post" by (simp add: lead_def)
    then show ?thesis using False h by (subst if_not_P) auto
  qed
qed

lemma drawn_commute:
  "d\<lparr>dr_drawn := n, mSRVResults := ss, mCumulativeWeight := w\<rparr> = d\<lparr>mSRVResults := ss, mCumulativeWeight := w, dr_drawn := n\<rparr>"
  by (cases d) simp

lemma retrieveSRV_spec:
  assumes "mSRVResults d \<noteq> []" "mSRVCount d = 0" "\<forall>s\<in>set (mSRVResults d). srv_good d s" "cum_ok (mSRVResults d) (mCumulativeWeight d)"
  obtains pre s post w n where "mSRVResults d = pre @ s # post"
    "retrieveSRV d = (s, d\<lparr>mSRVResults := pre @ post, mCumulativeWeight := w, dr_drawn := n\<rparr>)"
    "set pre \<subseteq> set (lead (mSRVResults d))" "s \<in> set (lead (mSRVResults d))" "cum_ok (pre @ post) w"
    "weights (lead (mSRVResults d)) = 0 \<longrightarrow> pre = []"
    "weights (lead (mSRVResults d)) \<noteq> 0 \<longrightarrow>
       weights pre \<le> int (dr_random d (dr_drawn d)) mod weights (lead (mSRVResults d)) \<and>
       int (dr_random d (dr_drawn d)) mod weights (lead (mSRVResults d)) < weights pre + srv_weight s"
proof -
  let ?ss = "mSRVResults d" let ?t = "weights (lead ?ss)" let ?r = "int (dr_random d (dr_drawn d))"
  let ?x = "if ?t \<noteq> 0 then ?r mod ?t else -1"
  define ts where "ts = drop (length (lead ?ss)) ?ss"
  have ss: "?ss = lead ?ss @ ts" unfolding ts_def lead_def by (metis append_eq_conv_conj takeWhile_dropWhile_id)
  have nn: "\<forall>s\<in>set (lead ?ss). srv_weight s \<ge> 0" using assms(3) ss by (metis Un_iff set_append srv_good_def)
  have t: "?t \<ge> 0" by (rule weights_nonneg [OF nn])
  have x: "?x < 0 + ?t" using t by simp
  have ne: "lead ?ss \<noteq> []" using assms(1) lead_nonempty by blast
  obtain s rest where p: "pick_srv ?x 0 (lead ?ss) = Some (s, rest)" using pick_srv_exists [OF x ne] by (metis not_None_eq prod.exhaust)
  obtain pre post where pp: "lead ?ss = pre @ s # post" "rest = pre @ post" "pre \<noteq> [] \<longrightarrow> 0 + weights pre \<le> ?x"
    "?x < 0 + weights pre + srv_weight s" using pick_srv_Some [OF p nn] by blast
  have pick: "pick_srv ?x 0 ?ss = Some (s, pre @ post @ ts)" using pick_srv_append [OF x ne, of ts] p pp(2) ss by simp
  have hd: "mHaveChosenTransport d \<longrightarrow> dr_transport d = srv_transport (hd ?ss)" using assms(1,3) by (auto simp: srv_good_def)
  let ?w = "if pre @ post @ ts \<noteq> [] \<and> (srv_priority (hd (pre @ post @ ts)) \<noteq> srv_priority (hd ?ss) \<or>
      srv_transport (hd (pre @ post @ ts)) \<noteq> srv_transport (hd ?ss)) then 0 else ?t - srv_weight s"
  have lt: "leading_transport d = srv_transport (hd ?ss)" using hd by (simp add: leading_transport_def)
  have c: "cumulate d = d\<lparr>mCumulativeWeight := ?t\<rparr>"
  proof -
    have "dr_assert (?ss \<noteq> [] \<and> mSRVCount d = 0) d = d" "dr_assert (srv_transport (hd ?ss) = leading_transport d) d = d"
      "dr_assert (list_all (\<lambda>s. srv_weight s \<ge> 0) (lead ?ss)) d = d" using assms(1,2) lt nn by (simp_all add: dr_assert_def list_all_iff)
    moreover have "mCumulativeWeight d \<noteq> 0 \<Longrightarrow> d\<lparr>mCumulativeWeight := ?t\<rparr> = d" using assms(1,4) by (simp add: cum_ok_def)
    ultimately show ?thesis by (simp add: cumulate_def Let_def lt lead_def [symmetric])
  qed
  have "draw (cumulate d) = (?x, d\<lparr>mCumulativeWeight := ?t, dr_drawn := if ?t \<noteq> 0 then Suc (dr_drawn d) else dr_drawn d\<rparr>)"
    by (simp add: draw_def c)
  then have eq: "retrieveSRV d = (s, d\<lparr>mSRVResults := pre @ post @ ts, mCumulativeWeight := ?w,
      dr_drawn := if ?t \<noteq> 0 then Suc (dr_drawn d) else dr_drawn d\<rparr>)"
    using pick by (simp add: retrieveSRV_def Let_def lt drawn_commute split del: if_split cong: if_cong)
  have "?ss = pre @ s # post @ ts" using ss pp(1) by simp
  note lr = lead_remove [OF this pp(1)]
  have cum: "cum_ok (pre @ post @ ts) ?w"
  proof (cases "pre @ post = []")
    case True then show ?thesis using lr by (auto simp: cum_ok_def same_group_def)
  next
    case False
    then have "hd (pre @ post @ ts) = hd (pre @ post)" by (metis append.assoc hd_append2)
    then show ?thesis using lr False pp(1) by (auto simp: cum_ok_def same_group_def)
  qed
  show thesis
  proof (rule that [OF _ eq _ _ cum])
    show "?ss = pre @ s # post @ ts" using ss pp(1) by simp
    show "set pre \<subseteq> set (lead ?ss)" "s \<in> set (lead ?ss)" using pp(1) by auto
    show "?t = 0 \<longrightarrow> pre = []" using pp(3) weights_nonneg [of pre] nn pp(1) by auto
    show "?t \<noteq> 0 \<longrightarrow> weights pre \<le> ?r mod ?t \<and> ?r mod ?t < weights pre + srv_weight s"
      using pp(3,4) t by (cases "pre = []") auto
  qed
qed

section \<open>The invariant\<close>

text \<open>A URI that the lookup can handle: a transport parameter is known and, with a port, supported; without one
  there is a transport for the host.\<close>

definition uri_ok :: "DnsInterface \<Rightarrow> (RRType \<Rightarrow> bool) \<Rightarrow> Uri \<Rightarrow> bool" where
  "uri_ok i types uri \<longleftrightarrow>
     (case u_transport uri of
        Some t \<Rightarrow> t \<noteq> UNKNOWN_TRANSPORT \<and> (isIpAddress (lookup_target uri) \<or> u_port uri = 0 \<or> isSupportedProtocol t i)
      | None \<Rightarrow> isIpAddress (lookup_target uri) \<or> (u_port uri = 0 \<and> types T_NAPTR) \<or>
          preferred_transport (is_sips uri) i \<noteq> UNKNOWN_TRANSPORT)"

definition iface_ok :: "DnsInterface \<Rightarrow> bool" where
  "iface_ok i \<longleftrightarrow> \<not> isSupportedProtocol UNKNOWN_TRANSPORT i \<and> (\<exists>t\<in>{UDP, TCP, TLS, DTLS}. isSupportedProtocol t i)"

definition path_ok :: "Item list \<Rightarrow> bool" where
  "path_ok p \<longleftrightarrow> length p \<le> 3 \<and> (length p = 3 \<longrightarrow> it_rrType (last p) \<in> {T_A, T_AAAA})"

definition tuple_known :: "Tuple \<Rightarrow> bool" where
  "tuple_known t \<longleftrightarrow> tp_type t \<noteq> UNKNOWN_TRANSPORT"

definition base_ok :: "DnsResult \<Rightarrow> bool" where
  "base_ok d \<longleftrightarrow> \<not> dr_failed d \<and> iface_ok (dr_iface d) \<and> (\<forall>t\<in>set (mResults d) \<union> set (mGreylistedTuples d). tuple_known t) \<and>
     (\<forall>s\<in>set (mSRVResults d). srv_good d s) \<and> cum_ok (mSRVResults d) (mCumulativeWeight d) \<and> path_ok (mCurrentPath d) \<and>
     (mHaveReturnedResults d \<longrightarrow> mLastReturnedPath d \<noteq> [] \<and> length (mLastReturnedPath d) \<le> 3)"

text \<open>The phases of a lookup, by the queries that are under way.\<close>

datatype Phase = Idle | Starting | Enums | Naptrs | Srvs | Hosts

definition untouched :: "DnsResult \<Rightarrow> bool" where
  "untouched d \<longleftrightarrow> mSRVCount d = 0 \<and> mResults d = [] \<and> mGreylistedTuples d = [] \<and> mSRVResults d = [] \<and> mCumulativeWeight d = 0"

definition waiting :: "DnsResult \<Rightarrow> bool" where
  "waiting d \<longleftrightarrow> dr_type d \<in> {Pending, Destroyed} \<and> mDoingEnum d = 0"

fun is_enum_query :: "DnsQuery \<Rightarrow> bool" where
  "is_enum_query (EnumQ _ _) = True"
| "is_enum_query _ = False"

fun is_srv_query :: "DnsQuery \<Rightarrow> bool" where
  "is_srv_query (SrvQ _) = True"
| "is_srv_query _ = False"

fun in_phase :: "Phase \<Rightarrow> DnsResult \<Rightarrow> bool" where
  "in_phase Idle d \<longleftrightarrow> dr_queries d = [] \<and> dr_type d \<in> {Available, Finished} \<and> mSRVCount d = 0 \<and> mDoingEnum d = 0"
| "in_phase Starting d \<longleftrightarrow> (\<exists>uri. dr_queries d = [LookupQ uri] \<and> uri_ok (dr_iface d) (dr_supportedType d) uri) \<and> mEnumDestinations d = [] \<and>
     untouched d \<and> waiting d"
| "in_phase Enums d \<longleftrightarrow> dr_queries d \<noteq> [] \<and> list_all is_enum_query (dr_queries d) \<and> mDoingEnum d = length (dr_queries d) \<and>
     untouched d \<and> dr_type d = Pending \<and> uri_ok (dr_iface d) (dr_supportedType d) (mInputUri d) \<and>
     list_all (\<lambda>(k, u). uri_ok (dr_iface d) (dr_supportedType d) u) (mEnumDestinations d)"
| "in_phase Naptrs d \<longleftrightarrow> (\<exists>n. dr_queries d = [NaptrQ n]) \<and> untouched d \<and> waiting d"
| "in_phase Srvs d \<longleftrightarrow> dr_queries d \<noteq> [] \<and> list_all is_srv_query (dr_queries d) \<and> mSRVCount d = int (length (dr_queries d)) \<and>
     mResults d = [] \<and> mGreylistedTuples d = [] \<and> mCumulativeWeight d = 0 \<and> waiting d"
| "in_phase Hosts d \<longleftrightarrow>
     (\<exists>h. dr_queries d = [HostQ h] \<or> dr_queries d = [AAAAQ h] \<and> isSupported (dr_transport d) V6 (dr_iface d) \<and> mResults d = []) \<and>
     isSupportedProtocol (dr_transport d) (dr_iface d) \<and> mSRVCount d = 0 \<and> waiting d"

definition dr_inv :: "DnsResult \<Rightarrow> bool" where
  "dr_inv d \<longleftrightarrow> base_ok d \<and> (\<exists>p. in_phase p d)"

lemma dr_invI: "base_ok d \<Longrightarrow> in_phase p d \<Longrightarrow> dr_inv d"
  by (auto simp: dr_inv_def)

lemma supported_known: "iface_ok i \<Longrightarrow> isSupportedProtocol t i \<Longrightarrow> t \<noteq> UNKNOWN_TRANSPORT"
  by (auto simp: iface_ok_def)

text \<open>Between two queries.\<close>

definition between :: "DnsResult \<Rightarrow> bool" where
  "between d \<longleftrightarrow> base_ok d \<and> dr_queries d = [] \<and> mSRVCount d = 0 \<and> mDoingEnum d = 0 \<and> dr_type d \<in> {Pending, Available}"

lemma transition_live: "dr_type d \<in> {Pending, Available} \<Longrightarrow> transition t d = d\<lparr>dr_type := t\<rparr>"
  by (auto simp: transition_def dr_assert_def)

lemma lookupHost_inv:
  assumes "between d" "dr_type d = Pending" "mResults d = []" "isSupportedProtocol (dr_transport d) (dr_iface d)"
  shows "dr_inv (lookupHost h d)"
  using assms by (intro dr_invI [of _ Hosts])
    (auto simp: lookupHost_def between_def base_ok_def srv_good_def ask_dns_def waiting_def isSupportedProtocol_def)

lemma primeResults_inv:
  assumes "between d" "mResults d = []" shows "dr_inv (primeResults d)"
proof (cases "mSRVResults d = []")
  case True
  then show ?thesis using assms
    by (intro dr_invI [of _ Idle])
      (auto simp: primeResults_def between_def base_ok_def srv_good_def dr_assert_def call_handler_def transition_live Let_def)
next
  case False
  have base: "base_ok d" "mSRVCount d = 0" "dr_type d \<in> {Pending, Available}" using assms(1) by (auto simp: between_def)
  then have good: "\<forall>s\<in>set (mSRVResults d). srv_good d s" "cum_ok (mSRVResults d) (mCumulativeWeight d)" by (auto simp: base_ok_def)
  obtain pre s post w n where r: "mSRVResults d = pre @ s # post"
    "retrieveSRV d = (s, d\<lparr>mSRVResults := pre @ post, mCumulativeWeight := w, dr_drawn := n\<rparr>)" "cum_ok (pre @ post) w"
    using retrieveSRV_spec [OF False base(2) good] by metis
  let ?naptr = "case mTopOrderedNAPTRs d (srv_key s) of None \<Rightarrow> [] | Some n \<Rightarrow> [\<lparr>it_domain = n_key n, it_rrType = T_NAPTR, it_value = n_replacement n\<rparr>]"
  let ?srv = "\<lparr>it_domain = srv_key s, it_rrType = T_SRV, it_value = srv_target s @ '':'' @ int_text (srv_port s)\<rparr>"
  let ?d = "d\<lparr>mSRVResults := pre @ post, mCumulativeWeight := w, dr_drawn := n, dr_type := Pending, dr_port := srv_port s,
    dr_transport := srv_transport s, mCurrentPath := ?naptr @ [?srv]\<rparr>"
  have g: "\<forall>x\<in>set (pre @ post). srv_good ?d x" "isSupportedProtocol (srv_transport s) (dr_iface d)"
    using good(1) r(1) by (auto simp: srv_good_def)
  have "path_ok (?naptr @ [?srv])" by (auto simp: path_ok_def split: option.split)
  then have "between ?d" using assms(1) g(1) r(3) by (auto simp: between_def base_ok_def)
  then have "dr_inv (lookupHost (srv_target s) ?d)" using lookupHost_inv [of ?d] g(2) assms(2) by simp
  moreover have "primeResults d = lookupHost (srv_target s) ?d"
    using False assms(2) r(2) g(2) base(3) by (simp add: primeResults_def dr_assert_def transition_live Let_def)
  ultimately show ?thesis by simp
qed

section \<open>Starting\<close>

lemma get_mark_frame: "get_mark t d = (m, d') \<Longrightarrow> \<exists>mm. d' = d\<lparr>dr_marks := mm\<rparr>"
  by (auto simp: get_mark_def split: prod.splits)

lemma base_ok_marks [simp]: "base_ok (d\<lparr>dr_marks := mm\<rparr>) = base_ok d"
  by (simp add: base_ok_def srv_good_def)

text \<open>At the start of a lookup: nothing has been found.\<close>

definition at_start :: "DnsResult \<Rightarrow> bool" where
  "at_start d \<longleftrightarrow> base_ok d \<and> untouched d \<and> dr_queries d = [] \<and> dr_type d = Pending \<and> mDoingEnum d = 0"

lemma at_start_between: "at_start d \<Longrightarrow> between d \<and> dr_type d = Pending \<and> mResults d = []"
  by (auto simp: at_start_def between_def untouched_def)

lemma at_start_set [simp]:
  "at_start (d\<lparr>dr_transport := t\<rparr>) = at_start d" "at_start (d\<lparr>mHaveChosenTransport := b\<rparr>) = at_start d"
  "at_start (d\<lparr>dr_port := p\<rparr>) = at_start d" "at_start (d\<lparr>mSips := b\<rparr>) = at_start d" "at_start (d\<lparr>dr_target := x\<rparr>) = at_start d"
  "at_start (d\<lparr>dr_marks := mm\<rparr>) = at_start d" "at_start (d\<lparr>mInputUri := u\<rparr>) = at_start d"
  "at_start (d\<lparr>mEnumDestinations := es\<rparr>) = at_start d" "at_start (d\<lparr>dr_calls := cs\<rparr>) = at_start d"
  "at_start (d\<lparr>mTopOrderedNAPTRs := ns\<rparr>) = at_start d"
  by (auto simp: at_start_def untouched_def base_ok_def srv_good_def)

lemma offer_inv:
  assumes "at_start d" "\<forall>t\<in>set ts. tuple_known t"
  shows "dr_inv (call_handler (transition Available (d\<lparr>mResults := mResults d @ ts\<rparr>)))"
  using assms by (intro dr_invI [of _ Idle])
    (auto simp: at_start_def untouched_def base_ok_def srv_good_def transition_live call_handler_def)

lemma no_support_inv: "at_start d \<Longrightarrow> dr_inv (no_support d)"
  by (intro dr_invI [of _ Idle])
    (auto simp: no_support_def at_start_def untouched_def base_ok_def srv_good_def transition_live call_handler_def)

lemma start_host_inv: "at_start d \<Longrightarrow> isSupportedProtocol (dr_transport d) (dr_iface d) \<Longrightarrow> dr_inv (lookupHost h d)"
  using lookupHost_inv at_start_between by blast

lemma start_srv_inv: "at_start d \<Longrightarrow> dr_inv (ask_srv n d)"
  by (intro dr_invI [of _ Srvs])
    (auto simp: ask_srv_def ask_dns_def at_start_def untouched_def waiting_def base_ok_def srv_good_def)

lemma srv_or_host_inv: "at_start d \<Longrightarrow> isSupportedProtocol (dr_transport d) (dr_iface d) \<Longrightarrow> dr_inv (srv_or_host p uri d)"
  by (simp add: srv_or_host_def start_host_inv start_srv_inv)

lemma lookup_transport_inv:
  assumes "at_start d" "t \<noteq> UNKNOWN_TRANSPORT" "isIpAddress (dr_target d) \<or> u_port uri = 0 \<or> isSupportedProtocol t (dr_iface d)"
  shows "dr_inv (lookup_transport t uri d)"
proof (cases "isIpAddress (dr_target d)")
  case True
  let ?d = "d\<lparr>dr_transport := t, mHaveChosenTransport := True, dr_port := getDefaultPort t (u_port uri) (d\<lparr>dr_transport := t, mHaveChosenTransport := True\<rparr>)\<rparr>"
  obtain m mm where m: "get_mark (numeric_tuple ?d) ?d = (m, ?d\<lparr>dr_marks := mm\<rparr>)" by (metis get_mark_frame prod.exhaust)
  have s: "at_start (?d\<lparr>dr_marks := mm\<rparr>)" using assms(1) by simp
  have "tuple_known (numeric_tuple (?d\<lparr>dr_marks := mm\<rparr>))" using assms(2) by (simp add: tuple_known_def numeric_tuple_def)
  then show ?thesis using True m offer_inv [OF s, of "[numeric_tuple (?d\<lparr>dr_marks := mm\<rparr>)]"] offer_inv [OF s, of "[]"]
    by (simp add: lookup_transport_def Let_def)
next
  case False
  then show ?thesis using assms by (auto simp: lookup_transport_def Let_def intro!: start_host_inv no_support_inv srv_or_host_inv)
qed

text \<open>The attempts at a numeric address only change the transport, the port and the marks, and a target that is not
  black has a supported transport.\<close>

definition probed :: "DnsResult \<Rightarrow> Tuple \<times> MarkType \<times> DnsResult \<Rightarrow> bool" where
  "probed d0 = (\<lambda>(t, m, d). at_start d \<and> dr_iface d = dr_iface d0 \<and> (m \<noteq> BLACK \<longrightarrow> tuple_known t))"

lemma probe_probed:
  assumes "at_start d" "dr_iface d = dr_iface d0" "isSupportedProtocol t (dr_iface d0)" shows "probed d0 (probe t uri d)"
proof -
  let ?d = "d\<lparr>dr_transport := t, dr_port := getDefaultPort t (u_port uri) d\<rparr>"
  obtain m mm where "get_mark (numeric_tuple ?d) ?d = (m, ?d\<lparr>dr_marks := mm\<rparr>)" by (metis get_mark_frame prod.exhaust)
  moreover have "iface_ok (dr_iface d0)" using assms(1,2) by (simp add: at_start_def base_ok_def)
  ultimately show ?thesis using assms supported_known
    by (auto simp: probe_def Let_def probed_def tuple_known_def numeric_tuple_def)
qed

lemma probed_start: "probed d0 (t, m, d) \<Longrightarrow> at_start d \<and> dr_iface d = dr_iface d0"
  by (simp add: probed_def)

lemma probe_if_probed: "probed d0 s \<Longrightarrow> probed d0 (probe_if t uri s)"
  by (cases s) (auto simp: probe_if_def dest: probed_start intro!: probe_probed)

lemma probe_back_probed: "probed d0 s \<Longrightarrow> probed d0 (probe_back uri s)"
  by (cases s) (auto simp: probe_back_def dest: probed_start intro!: probe_probed)

lemma lookup_numeric_inv: assumes "at_start d" shows "dr_inv (lookup_numeric uri d)"
proof -
  let ?s = "(no_tuple, BLACK, d)"
  define s where "s = (if mSips d then probe_if TLS uri ?s
    else let s = probe_if UDP uri ?s in if mUdpOnlyOnNumeric (dr_iface d) then s else probe_back uri (probe_if TLS uri (probe_if TCP uri s)))"
  have "probed d ?s" using assms by (simp add: probed_def)
  then have s: "probed d s" unfolding s_def Let_def by (auto intro!: probe_if_probed probe_back_probed)
  obtain t m d' where e: "s = (t, m, d')" by (metis prod_cases3)
  have d': "at_start d'" "m \<noteq> BLACK \<longrightarrow> tuple_known t" using s e by (auto simp: probed_def)
  then have r: "mResults d' = []" by (simp add: at_start_def untouched_def)
  then have "d'\<lparr>mResults := mResults d' @ []\<rparr> = d'" by simp
  then have "dr_inv (call_handler (transition Available d'))" using offer_inv [OF d'(1), of "[]"] by (metis empty_iff empty_set)
  then show ?thesis using offer_inv [of "d'\<lparr>mHaveChosenTransport := True\<rparr>" "[t]"] r d' e
    unfolding lookup_numeric_def Let_def s_def [unfolded Let_def, symmetric] by (cases m) (auto simp: dr_assert_def)
qed

lemma preferred_supported: "preferred_transport sips i \<noteq> UNKNOWN_TRANSPORT \<Longrightarrow> isSupportedProtocol (preferred_transport sips i) i"
  by (auto simp: preferred_transport_def split: if_splits)

lemma lookupInternal_inv:
  assumes "at_start d" "uri_ok (dr_iface d) (dr_supportedType d) uri" shows "dr_inv (lookupInternal uri d)"
proof (cases "u_transport uri")
  case (Some t)
  then show ?thesis using assms by (auto simp: lookupInternal_def uri_ok_def Let_def intro!: lookup_transport_inv)
next
  case None
  let ?d = "d\<lparr>mSips := is_sips uri, dr_target := lookup_target uri\<rparr>"
  have "dr_inv (lookup_name uri ?d)" if "preferred_transport (is_sips uri) (dr_iface d) \<noteq> UNKNOWN_TRANSPORT"
    using assms(1) that preferred_supported by (auto simp: lookup_name_def Let_def intro!: start_host_inv)
  moreover have "dr_inv (ask_dns (NaptrQ n) ?d)" for n using assms(1)
    by (intro dr_invI [of _ Naptrs]) (auto simp: at_start_def ask_dns_def untouched_def waiting_def base_ok_def srv_good_def)
  ultimately show ?thesis using None assms by (auto simp: lookupInternal_def uri_ok_def Let_def intro!: lookup_numeric_inv)
qed

lemma destroyed_inv: "base_ok d \<Longrightarrow> dr_queries d = [] \<Longrightarrow> dr_type d = Destroyed \<Longrightarrow> mSRVCount d = 0 \<Longrightarrow> mDoingEnum d = 0 \<Longrightarrow>
  dr_inv (destroy d) \<and> dr_deleted (destroy d) \<and> dr_calls (destroy d) = dr_calls d"
  by (simp add: destroy_def transition_def dr_assert_def, intro dr_invI [of _ Idle]) (auto simp: base_ok_def srv_good_def)

lemma ask_enums_eq: "ask_enums names d = d\<lparr>dr_queries := dr_queries d @ map (\<lambda>(i, n). EnumQ i n) (enumerate 0 names)\<rparr>"
proof -
  have "fold (\<lambda>(i, n). ask_dns (EnumQ i n)) xs d = d\<lparr>dr_queries := dr_queries d @ map (\<lambda>(i, n). EnumQ i n) xs\<rparr>" for xs
    by (induction xs arbitrary: d) (auto simp: ask_dns_def)
  then show ?thesis by (simp add: ask_enums_def)
qed

lemma enum_lookups_inv:
  assumes "at_start d" "uri_ok (dr_iface d) (dr_supportedType d) uri" "mEnumDestinations d = []" "names \<noteq> []"
  shows "dr_inv (ask_enums names (d\<lparr>mInputUri := uri, mDoingEnum := length names\<rparr>))"
  using assms by (intro dr_invI [of _ Enums])
    (auto simp: ask_enums_eq at_start_def base_ok_def srv_good_def untouched_def list_all_iff enumerate_eq_zip)

lemma lookupInternalWithEnum_inv:
  assumes "base_ok d" "untouched d" "waiting d" "dr_queries d = []" "uri_ok (dr_iface d) (dr_supportedType d) uri" "mEnumDestinations d = []"
  shows "dr_inv (lookupInternalWithEnum uri d)"
proof (cases "dr_type d = Destroyed")
  case True
  then show ?thesis using assms destroyed_inv by (simp add: lookupInternalWithEnum_def untouched_def waiting_def)
next
  case False
  then have s: "at_start d" using assms by (auto simp: at_start_def waiting_def)
  have e: "mEnumSuffixes d \<noteq> [] \<Longrightarrow> isEnumSearchable uri \<Longrightarrow> getEnumLookups (mEnumSuffixes d) uri \<noteq> []" by (simp add: getEnumLookups_def)
  have "at_start (d\<lparr>mDoingEnum := 0\<rparr>)" using s by (simp add: at_start_def untouched_def base_ok_def srv_good_def cum_ok_def)
  then show ?thesis using False e s assms(5,6) enum_lookups_inv
    by (auto simp: lookupInternalWithEnum_def Let_def dr_assert_def intro!: lookupInternal_inv)
qed

end
