(* ===== verification/DnsResSteps.thy ===== *)
theory DnsResSteps
  imports DnsResInv
begin

text \<open>The answers to the queries of a DNS lookup, the steps of a lookup and the states it can reach.\<close>

section \<open>Host answers\<close>

text \<open>Looking a mark up drops it when it has expired; no answer to a later question depends on that.\<close>

lemma getMarkType_stable: "getMarkType now u mm = (m, mm') \<Longrightarrow> fst (getMarkType now t mm') = fst (getMarkType now t mm)"
  by (auto simp: getMarkType_def removeMark_def split: option.splits if_splits)

definition mark_of :: "DnsResult \<Rightarrow> Tuple \<Rightarrow> MarkType" where
  "mark_of d t = fst (getMarkType (dr_now d) t (dr_marks d))"

lemma add_tuple_frame: "\<exists>mm. add_tuple t d =
    d\<lparr>mResults := mResults d @ (if mark_of d t = OK then [t] else []),
      mGreylistedTuples := mGreylistedTuples d @ (if mark_of d t = GREY then [t] else []), dr_marks := mm\<rparr> \<and>
    (\<forall>u. fst (getMarkType (dr_now d) u mm) = mark_of d u)"
proof -
  obtain m mm where g: "getMarkType (dr_now d) t (dr_marks d) = (m, mm)" by fastforce
  then show ?thesis using getMarkType_stable [OF g]
    by (intro exI [of _ mm]) (cases m; auto simp: add_tuple_def get_mark_def mark_of_def)
qed

lemma host_tuple_frame [simp]:
  "host_tuple a (d\<lparr>mResults := rs, mGreylistedTuples := gs, dr_marks := mm\<rparr>) = host_tuple a d"
  by (simp add: host_tuple_def)

lemma add_hosts_frame: "\<exists>mm. add_hosts 0 addrs d =
    d\<lparr>mResults := mResults d @ filter (\<lambda>t. mark_of d t = OK) (map (\<lambda>a. host_tuple a d) addrs),
      mGreylistedTuples := mGreylistedTuples d @ filter (\<lambda>t. mark_of d t = GREY) (map (\<lambda>a. host_tuple a d) addrs), dr_marks := mm\<rparr>"
proof (induction addrs arbitrary: d)
  case Nil
  then show ?case by (intro exI [of _ "dr_marks d"]) (simp add: add_hosts_def)
next
  case (Cons a addrs)
  let ?t = "host_tuple a d"
  obtain mm where a: "add_tuple ?t d = d\<lparr>mResults := mResults d @ (if mark_of d ?t = OK then [?t] else []),
      mGreylistedTuples := mGreylistedTuples d @ (if mark_of d ?t = GREY then [?t] else []), dr_marks := mm\<rparr>"
    "\<forall>u. fst (getMarkType (dr_now d) u mm) = mark_of d u" using add_tuple_frame by blast
  then have m: "mark_of (add_tuple ?t d) u = mark_of d u" "host_tuple x (add_tuple ?t d) = host_tuple x d" for u x
    by (simp_all add: mark_of_def)
  obtain mm' where "add_hosts 0 addrs (add_tuple ?t d) = (add_tuple ?t d)\<lparr>
      mResults := mResults (add_tuple ?t d) @ filter (\<lambda>t. mark_of d t = OK) (map (\<lambda>a. host_tuple a d) addrs),
      mGreylistedTuples := mGreylistedTuples (add_tuple ?t d) @ filter (\<lambda>t. mark_of d t = GREY) (map (\<lambda>a. host_tuple a d) addrs), dr_marks := mm'\<rparr>"
    using Cons.IH [of "add_tuple ?t d"] unfolding m by blast
  moreover have "add_hosts 0 (a # addrs) d = add_hosts 0 addrs (add_tuple ?t d)" by (simp add: add_hosts_def)
  ultimately show ?case using a(1) by (intro exI [of _ mm']) simp
qed

text \<open>The good and the grey targets of an answer.\<close>

definition found :: "MarkType \<Rightarrow> nat \<Rightarrow> string list \<Rightarrow> DnsResult \<Rightarrow> Tuple list" where
  "found m status addrs d = (if status = 0 then filter (\<lambda>t. mark_of d t = m) (map (\<lambda>a. host_tuple a d) addrs) else [])"

lemma add_hosts_found: "\<exists>mm. add_hosts status addrs d =
    d\<lparr>mResults := mResults d @ found OK status addrs d, mGreylistedTuples := mGreylistedTuples d @ found GREY status addrs d, dr_marks := mm\<rparr>"
  using add_hosts_frame [of addrs d] by (cases "status = 0") (auto simp: found_def add_hosts_def intro!: exI [of _ "dr_marks d"])

lemma found_transport: "t \<in> set (found m status addrs d) \<Longrightarrow> tp_type t = dr_transport d"
  by (auto simp: found_def host_tuple_def split: if_splits)

lemma found_known: "base_ok d \<Longrightarrow> isSupportedProtocol (dr_transport d) (dr_iface d) \<Longrightarrow> \<forall>t\<in>set (found m status addrs d). tuple_known t"
  unfolding tuple_known_def base_ok_def using found_transport supported_known by metis

lemma cum_ok_Nil: "cum_ok [] w"
  by (simp add: cum_ok_def)

text \<open>The host answer as a whole.\<close>

lemma onHostResult_eq:
  fixes status :: nat and addrs :: "string list"
  assumes "isSupportedProtocol (dr_transport d) (dr_iface d)" "dr_type d = Pending" "mSRVCount d = 0"
  defines "ok \<equiv> mResults d @ found OK status addrs d" and "grey \<equiv> mGreylistedTuples d @ found GREY status addrs d"
  shows "\<exists>mm. onHostResult status addrs d = call_handler
    (if ok = [] \<and> mSRVResults d = [] then
       if grey = [] then d\<lparr>mResults := [], mGreylistedTuples := [], dr_marks := mm, dr_type := Finished, mCurrentPath := []\<rparr>
       else d\<lparr>dr_marks := mm, mResults := grey, mGreylistedTuples := [], dr_type := Available\<rparr>
     else d\<lparr>mResults := ok,
       mGreylistedTuples := grey, dr_marks := mm, dr_type := Available\<rparr>)"
proof -
  obtain mm where "add_hosts status addrs d = d\<lparr>mResults := ok, mGreylistedTuples := grey, dr_marks := mm\<rparr>"
    using add_hosts_found ok_def grey_def by blast
  then show ?thesis using assms(1-3) by (intro exI [of _ mm]) (simp add: onHostResult_def hosts_done_def Let_def transition_live clearCurrPath_def)
qed

lemma onHostResult_inv:
  assumes "base_ok d" "waiting d" "dr_queries d = []" "mSRVCount d = 0" "isSupportedProtocol (dr_transport d) (dr_iface d)"
  shows "dr_inv (onHostResult status addrs d)"
proof (cases "dr_type d = Destroyed")
  case True
  then show ?thesis using assms destroyed_inv by (simp add: onHostResult_def hosts_done_def waiting_def)
next
  case False
  then have p: "dr_type d = Pending" using assms(2) by (auto simp: waiting_def)
  obtain mm where e: "onHostResult status addrs d = call_handler
    (if mResults d @ found OK status addrs d = [] \<and> mSRVResults d = [] then
       if mGreylistedTuples d @ found GREY status addrs d = []
       then d\<lparr>mResults := [], mGreylistedTuples := [], dr_marks := mm, dr_type := Finished, mCurrentPath := []\<rparr>
       else d\<lparr>dr_marks := mm, mResults := mGreylistedTuples d @ found GREY status addrs d, mGreylistedTuples := [], dr_type := Available\<rparr>
     else d\<lparr>mResults := mResults d @ found OK status addrs d,
       mGreylistedTuples := mGreylistedTuples d @ found GREY status addrs d, dr_marks := mm, dr_type := Available\<rparr>)"
    using onHostResult_eq [OF assms(5) p assms(4)] by blast
  note k = found_known [OF assms(1,5)]
  have n: "in_phase Idle (onHostResult status addrs d)" unfolding e using assms(2-4) by (simp add: call_handler_def waiting_def)
  have "base_ok (onHostResult status addrs d)" unfolding e using assms(1) k
    by (simp add: call_handler_def base_ok_def srv_good_def path_ok_def ball_Un cum_ok_Nil)
  then show ?thesis using n by (rule dr_invI)
qed

lemma onAAAAResult_inv:
  assumes "base_ok d" "waiting d" "dr_queries d = []" "mSRVCount d = 0" "isSupported (dr_transport d) V6 (dr_iface d)"
  shows "dr_inv (onAAAAResult status addrs d)"
proof (cases "dr_type d = Destroyed")
  case True
  then show ?thesis using assms destroyed_inv by (simp add: onAAAAResult_def waiting_def)
next
  case False
  obtain mm where e: "add_hosts status addrs d =
    d\<lparr>mResults := mResults d @ found OK status addrs d, mGreylistedTuples := mGreylistedTuples d @ found GREY status addrs d, dr_marks := mm\<rparr>"
    using add_hosts_found by blast
  have s: "isSupportedProtocol (dr_transport d) (dr_iface d)" using assms(5) by (simp add: isSupportedProtocol_def)
  note k = found_known [OF assms(1) s]
  show ?thesis using assms s k False
    by (intro dr_invI [of _ Hosts]) (auto simp: onAAAAResult_def e ask_dns_def base_ok_def srv_good_def waiting_def)
qed

section \<open>SRV answers\<close>

text \<open>A record of an SRV answer is admissible if its weight is not negative and the stack supports its transport.\<close>

definition srv_admissible :: "DnsInterface \<Rightarrow> DnsSrvRecord \<Rightarrow> bool" where
  "srv_admissible i r \<longleftrightarrow> rr_weight r \<ge> 0 \<and> (\<forall>t. transport_of_key (rr_name r) = Some t \<longrightarrow> isSupportedProtocol t i)"

lemma add_srv_frame:
  assumes "srv_admissible (dr_iface d) r"
  obtains ss where "add_srv r d = d\<lparr>mSRVResults := mSRVResults d @ ss\<rparr>" "\<forall>s\<in>set ss. srv_good d s"
proof (cases "\<exists>t. transport_of_key (rr_name r) = Some t \<and> (\<not> mHaveChosenTransport d \<or> t = dr_transport d)")
  case True
  then obtain t where t: "transport_of_key (rr_name r) = Some t" "\<not> mHaveChosenTransport d \<or> t = dr_transport d" by blast
  then show ?thesis using assms
    by (intro that [OF trans [OF add_srv_def]]) (auto simp: srv_good_def srv_admissible_def)
next
  case False
  then show ?thesis by (intro that [of "[]"]) (auto simp: add_srv_def split: option.split)
qed

lemma add_srvs_frame:
  assumes "\<forall>r\<in>set rs. srv_admissible (dr_iface d) r"
  obtains ss where "fold add_srv rs d = d\<lparr>mSRVResults := mSRVResults d @ ss\<rparr>" "\<forall>s\<in>set ss. srv_good d s"
  using assms
proof (induction rs arbitrary: d thesis)
  case Nil
  then show ?case by (metis append_Nil2 empty_iff empty_set fold_simps(1) DnsResult.surjective DnsResult.update_convs(16))
next
  case (Cons r rs)
  obtain ss where s: "add_srv r d = d\<lparr>mSRVResults := mSRVResults d @ ss\<rparr>" "\<forall>s\<in>set ss. srv_good d s"
    using add_srv_frame Cons.prems(2) by (metis list.set_intros(1))
  then have g: "srv_good (add_srv r d) = srv_good d" "dr_iface (add_srv r d) = dr_iface d" by (auto simp: srv_good_def fun_eq_iff)
  obtain ss' where "fold add_srv rs (add_srv r d) = (add_srv r d)\<lparr>mSRVResults := mSRVResults (add_srv r d) @ ss'\<rparr>"
    "\<forall>s\<in>set ss'. srv_good d s" using Cons.IH [of "add_srv r d"] Cons.prems(2) unfolding g by auto
  then show ?case using s by (intro Cons.prems(1) [of "ss @ ss'"]) auto
qed

lemma added_srvs:
  assumes "\<forall>r\<in>set records. srv_admissible (dr_iface d) r"
  obtains ss where "(if status = 0 then fold add_srv records d else d) = d\<lparr>mSRVResults := mSRVResults d @ ss\<rparr>" "\<forall>s\<in>set ss. srv_good d s"
proof (cases "status = 0")
  case True
  then show thesis using add_srvs_frame [OF assms] that by (metis (full_types))
next
  case False then show thesis by (intro that [of "[]"]) auto
qed

lemma srv_insert_set [simp]: "set (srv_insert s ss) = insert s (set ss)" "srv_insert s ss \<noteq> []"
  by (induction ss) auto

lemma srv_sort_set [simp]: "set (srv_sort ss) = set ss"
  by (induction ss) (simp_all add: srv_sort_def)

lemma fall_back_between: "between d \<Longrightarrow> mSRVResults d = [] \<Longrightarrow> between (fall_back d)"
  by (auto simp: fall_back_def between_def base_ok_def)

lemma fall_back_frame: "dr_type (fall_back d) = dr_type d" "mResults (fall_back d) = mResults d" "dr_iface (fall_back d) = dr_iface d"
  by (simp_all add: fall_back_def)

lemma srv_continue_inv:
  assumes "between d" "dr_type d = Pending" "mResults d = []" "mCumulativeWeight d = 0"
  shows "dr_inv (if mSRVResults d = [] then
      let d = fall_back d
      in if isSupportedProtocol (dr_transport d) (dr_iface d) then lookupHost (dr_target d) d else primeResults d
    else primeResults (d\<lparr>mSRVResults := srv_sort (mSRVResults d)\<rparr>))"
proof (cases "mSRVResults d = []")
  case True
  then have "between (fall_back d)" using assms(1) fall_back_between by blast
  then show ?thesis using True assms by (simp add: Let_def fall_back_frame lookupHost_inv primeResults_inv)
next
  case False
  have "between (d\<lparr>mSRVResults := srv_sort (mSRVResults d)\<rparr>)" using assms by (auto simp: between_def base_ok_def srv_good_def cum_ok_def)
  then show ?thesis using False assms(3) by (simp add: primeResults_inv)
qed

text \<open>An SRV answer, with the queries that are left.\<close>

lemma onSrvResult_eq:
  assumes "mSRVCount d \<ge> 0" "mSRVCount e = mSRVCount d - 1"
    "(if status = 0 then fold add_srv records (d\<lparr>mSRVCount := mSRVCount d - 1\<rparr>) else d\<lparr>mSRVCount := mSRVCount d - 1\<rparr>) = e"
  shows "onSrvResult status records d =
    (if dr_type d = Destroyed \<and> mSRVCount d = 1 then destroy (d\<lparr>mSRVCount := mSRVCount d - 1\<rparr>)
     else if mSRVCount d = 1 then (if mSRVResults e = [] then
        let d = fall_back e
        in if isSupportedProtocol (dr_transport d) (dr_iface d) then lookupHost (dr_target d) d else primeResults d
      else primeResults (e\<lparr>mSRVResults := srv_sort (mSRVResults e)\<rparr>))
     else e)"
proof -
  have a: "dr_assert (mSRVCount d \<ge> 0) d = d" using assms(1) by (simp add: dr_assert_def)
  have c: "(mSRVCount e = 0) = (mSRVCount d = 1)" using assms(2) by linarith
  show ?thesis unfolding onSrvResult_def Let_def a assms(3) c by (simp split del: if_split cong: if_weak_cong)
qed

lemma onSrvResult_inv:
  assumes "base_ok d" "waiting d" "list_all is_srv_query (dr_queries d)" "mSRVCount d = int (length (dr_queries d)) + 1"
    "mResults d = []" "mGreylistedTuples d = []" "mCumulativeWeight d = 0" "\<forall>r\<in>set records. srv_admissible (dr_iface d) r"
  shows "dr_inv (onSrvResult status records d)"
proof -
  let ?d = "d\<lparr>mSRVCount := mSRVCount d - 1\<rparr>"
  have b: "base_ok ?d" using assms(1) by (simp add: base_ok_def srv_good_def)
  obtain ss where s: "(if status = 0 then fold add_srv records ?d else ?d) = ?d\<lparr>mSRVResults := mSRVResults d @ ss\<rparr>" "\<forall>s\<in>set ss. srv_good ?d s"
    using added_srvs [of records ?d status] assms(8) by auto
  let ?e = "?d\<lparr>mSRVResults := mSRVResults d @ ss\<rparr>"
  have e: "base_ok ?e" using b s(2) assms(7) by (auto simp: base_ok_def srv_good_def cum_ok_def)
  have "mSRVCount d \<ge> 0" "mSRVCount ?e = mSRVCount d - 1" using assms(4) by simp_all
  note eq = onSrvResult_eq [OF this s(1)]
  show ?thesis
  proof (cases "dr_queries d = []")
    case False
    then have "in_phase Srvs ?e" "mSRVCount d \<noteq> 1" using assms by (simp_all add: waiting_def)
    then have "onSrvResult status records d = ?e" "dr_inv ?e" using eq dr_invI [OF e] by (simp_all only: if_False simp_thms)
    then show ?thesis by simp
  next
    case True
    show ?thesis
    proof (cases "dr_type d = Destroyed")
      case True
      then show ?thesis unfolding eq using destroyed_inv [of ?d] b \<open>dr_queries d = []\<close> assms(2,4) by (simp add: waiting_def)
    next
      case False
      then have "dr_type d = Pending" using assms(2) by (auto simp: waiting_def)
      moreover have "between ?e" using e True assms(2,4) False by (auto simp: between_def waiting_def)
      ultimately show ?thesis using srv_continue_inv [of ?e] True assms(4,5,7) unfolding eq by simp
    qed
  qed
qed

section \<open>NAPTR answers\<close>

lemma naptr_frames: "\<exists>ns. fold follow_naptr rs d =
    d\<lparr>mSRVCount := mSRVCount d + int (length rs), mTopOrderedNAPTRs := ns,
      dr_queries := dr_queries d @ map (\<lambda>n. SrvQ (n_replacement n)) rs\<rparr>"
proof (induction rs arbitrary: d)
  case Nil
  then show ?case by (intro exI [of _ "mTopOrderedNAPTRs d"]) simp
next
  case (Cons r rs)
  then show ?case using Cons.IH [of "follow_naptr r d"] by (auto simp: follow_naptr_def ask_srv_def ask_dns_def algebra_simps)
qed

lemma start_srvs_inv:
  assumes "at_start d" "qs \<noteq> []" "list_all is_srv_query qs"
  shows "dr_inv (d\<lparr>mSRVCount := int (length qs), mTopOrderedNAPTRs := ns, dr_queries := qs\<rparr>)"
  using assms by (intro dr_invI [of _ Srvs]) (simp_all add: at_start_def untouched_def waiting_def base_ok_def srv_good_def cum_ok_Nil)

lemma naptr_failed_inv:
  assumes "at_start d" shows "dr_inv (naptr_failed d)"
proof (cases "mSips d")
  case True
  then show ?thesis using assms by (simp add: naptr_failed_def no_support_inv start_srv_inv)
next
  case False
  define qs where "qs = map (\<lambda>(t, p). SrvQ (p @ dr_target d)) (filter (\<lambda>(t, p). isSupportedProtocol t (dr_iface d))
    [(TLS, ''_sips._tcp.''), (DTLS, ''_sips._udp.''), (TCP, ''_sip._tcp.''), (UDP, ''_sip._udp.'')])"
  have c: "mSRVCount d = 0" "dr_queries d = []" "iface_ok (dr_iface d)" using assms by (auto simp: at_start_def untouched_def base_ok_def)
  then have "naptr_failed d = d\<lparr>mSRVCount := int (length qs), mTopOrderedNAPTRs := mTopOrderedNAPTRs d, dr_queries := qs\<rparr>"
    using False by (simp add: naptr_failed_def ask_srv_if_def ask_srv_def ask_dns_def qs_def)
  moreover have "qs \<noteq> []" "list_all is_srv_query qs" using c(3) by (auto simp: qs_def iface_ok_def list_all_iff filter_empty_conv)
  ultimately show ?thesis using start_srvs_inv [OF assms, of qs "mTopOrderedNAPTRs d"] by simp
qed

lemma best_order:
  fixes b :: int assumes "\<forall>x\<in>set xs. x < b" "xs \<noteq> []" shows "fold min xs b \<in> set xs"
proof -
  have m: "fold min xs c = Min (insert c (set xs))" for c using Min.set_eq_fold [of c xs] by simp
  then have "fold min xs b \<in> insert b (set xs)" by (metis Min_in List.finite_set finite_insert insert_not_empty)
  moreover have "fold min xs b \<le> hd xs" unfolding m using assms(2) by (intro Min_le) auto
  ultimately show ?thesis using assms by (metis hd_in_set insertE leD)
qed

lemma onNaptr_inv:
  assumes "base_ok d" "untouched d" "waiting d" "dr_queries d = []" "\<forall>n\<in>set records. n_order n < 65536"
  shows "dr_inv (onNaptr status records d)"
proof (cases "dr_type d = Destroyed")
  case True
  then show ?thesis using assms destroyed_inv by (simp add: onNaptr_def untouched_def waiting_def)
next
  case False
  then have s: "at_start d" using assms by (auto simp: at_start_def waiting_def)
  let ?s = "filter (supported_naptr d) records"
  let ?b = "filter (\<lambda>n. n_order n = fold min (map n_order ?s) 65536) ?s"
  have "dr_inv (fold follow_naptr ?b (transition Pending d))" if "?s \<noteq> []"
  proof -
    have "fold min (map n_order ?s) 65536 \<in> set (map n_order ?s)" using that assms(5) by (intro best_order) auto
    then have b: "?b \<noteq> []" by (auto simp: filter_empty_conv)
    have t: "transition Pending d = d" using s by (simp add: transition_live at_start_def)
    obtain ns where "fold follow_naptr ?b d = d\<lparr>mSRVCount := mSRVCount d + int (length ?b), mTopOrderedNAPTRs := ns,
      dr_queries := dr_queries d @ map (\<lambda>n. SrvQ (n_replacement n)) ?b\<rparr>" using naptr_frames by blast
    then show ?thesis unfolding t using start_srvs_inv [OF s, of "map (\<lambda>n. SrvQ (n_replacement n)) ?b" ns] b s
      by (simp add: at_start_def untouched_def list_all_iff)
  qed
  then show ?thesis using False naptr_failed_inv [OF s] by (simp add: onNaptr_def onNaptrResult_def Let_def)
qed

section \<open>ENUM answers\<close>

lemma put_destination_all: "P (k, u) \<Longrightarrow> list_all P es \<Longrightarrow> list_all P (put_destination k u es)"
  by (induction k u es rule: put_destination.induct) auto

lemma fold_better_enum: "fold better_enum rs b = Some n \<Longrightarrow> n \<in> set rs \<or> b = Some n"
proof (induction rs arbitrary: b)
  case (Cons r rs)
  have "better_enum r b = Some n \<Longrightarrow> r = n \<or> b = Some n" by (auto simp: better_enum_def split: if_splits option.splits)
  then show ?case using Cons.IH [of "better_enum r b"] Cons.prems by auto
qed simp

text \<open>The destinations after an answer, and the answer as a whole.\<close>

definition enum_destinations :: "nat \<Rightarrow> NAPTR list \<Rightarrow> nat \<Rightarrow> DnsResult \<Rightarrow> (nat \<times> Uri) list" where
  "enum_destinations status records order d = (if status = 0 then
      (case fold better_enum records None of
         None \<Rightarrow> mEnumDestinations d
       | Some best \<Rightarrow> (case n_regex best (mInputUri d) of None \<Rightarrow> mEnumDestinations d | Some uri \<Rightarrow> put_destination order uri (mEnumDestinations d)))
    else mEnumDestinations d)"

lemma onEnumResult_eq:
  fixes status order :: nat and records :: "NAPTR list"
  assumes "mDoingEnum d = Suc n"
  defines "e \<equiv> d\<lparr>mDoingEnum := mDoingEnum d - 1, mEnumDestinations := enum_destinations status records order d\<rparr>"
  shows "onEnumResult status records order d = (if n = 0 then
      (case enum_destinations status records order d of
         (_, uri) # _ \<Rightarrow> lookupInternal uri (e\<lparr>dr_calls := dr_calls d @ [RewriteRequest uri]\<rparr>)
       | [] \<Rightarrow> lookupInternal (mInputUri d) e)
    else e)"
proof -
  have a: "dr_assert (mDoingEnum d > 0) d = d" using assms(1) by (simp add: dr_assert_def)
  have i: "(if status = 0 then
      (case fold better_enum records None of
         None \<Rightarrow> d\<lparr>mDoingEnum := mDoingEnum d - 1\<rparr>
       | Some best \<Rightarrow>
           (case n_regex best (mInputUri (d\<lparr>mDoingEnum := mDoingEnum d - 1\<rparr>)) of
              None \<Rightarrow> d\<lparr>mDoingEnum := mDoingEnum d - 1\<rparr>
            | Some uri \<Rightarrow> d\<lparr>mDoingEnum := mDoingEnum d - 1,
                mEnumDestinations := put_destination order uri (mEnumDestinations (d\<lparr>mDoingEnum := mDoingEnum d - 1\<rparr>))\<rparr>))
    else d\<lparr>mDoingEnum := mDoingEnum d - 1\<rparr>) = e" by (simp add: e_def enum_destinations_def split: option.split)
  have "mDoingEnum e = n" "mEnumDestinations e = enum_destinations status records order d" "mInputUri e = mInputUri d" "dr_calls e = dr_calls d"
    using assms(1) by (simp_all add: e_def)
  then show ?thesis unfolding onEnumResult_def Let_def a i by (simp split: list.split)
qed

lemma enum_destinations_ok:
  assumes "uri_ok i t (mInputUri d)" "list_all (\<lambda>(k, u). uri_ok i t u) (mEnumDestinations d)"
    "\<forall>n\<in>set records. \<forall>u. n_regex n (mInputUri d) = Some u \<longrightarrow> uri_ok i t u"
  shows "list_all (\<lambda>(k, u). uri_ok i t u) (enum_destinations status records order d)"
  unfolding enum_destinations_def using assms fold_better_enum [of records None] by (auto split: option.split intro!: put_destination_all)

lemma onEnumResult_inv:
  assumes "base_ok d" "untouched d" "dr_type d = Pending" "list_all is_enum_query (dr_queries d)" "mDoingEnum d = Suc (length (dr_queries d))"
    and u: "uri_ok (dr_iface d) (dr_supportedType d) (mInputUri d)"
      "list_all (\<lambda>(k, u). uri_ok (dr_iface d) (dr_supportedType d) u) (mEnumDestinations d)"
      "\<forall>n\<in>set records. \<forall>u. n_regex n (mInputUri d) = Some u \<longrightarrow> uri_ok (dr_iface d) (dr_supportedType d) u"
  shows "dr_inv (onEnumResult status records order d)"
proof -
  note es = enum_destinations_ok [OF u, of status order] and eq = onEnumResult_eq [OF assms(5), of status records order]
  let ?d = "d\<lparr>mDoingEnum := mDoingEnum d - 1, mEnumDestinations := enum_destinations status records order d\<rparr>"
  show ?thesis
  proof (cases "dr_queries d = []")
    case True
    then have "at_start ?d" using assms by (simp add: at_start_def untouched_def base_ok_def srv_good_def)
    then show ?thesis unfolding eq using True es u(1) by (auto split: list.split intro!: lookupInternal_inv)
  next
    case False
    then show ?thesis unfolding eq using assms es
      by (intro dr_invI [of _ Enums]) (simp_all add: untouched_def base_ok_def srv_good_def)
  qed
qed

section \<open>Steps\<close>

text \<open>The replies that the model allows: an answer of the kind that was asked for, whose SRV records are admissible,
  whose NAPTR orders have 16 bits and whose ENUM expressions yield URIs that can be handled.\<close>

fun reply_ok :: "DnsResult \<Rightarrow> DnsReply \<Rightarrow> bool" where
  "reply_ok d (SrvReply _ rs) \<longleftrightarrow> (\<forall>r\<in>set rs. srv_admissible (dr_iface d) r)"
| "reply_ok d (NaptrReply _ rs) \<longleftrightarrow> (\<forall>n\<in>set rs. n_order n < 65536 \<and>
     (\<forall>u. n_regex n (mInputUri d) = Some u \<longrightarrow> uri_ok (dr_iface d) (dr_supportedType d) u))"
| "reply_ok d _ \<longleftrightarrow> True"

inductive dns_step :: "DnsResult \<Rightarrow> DnsResult \<Rightarrow> bool" where
  answered: "i < length (dr_queries d) \<Longrightarrow> fits (dr_queries d ! i) r \<Longrightarrow> reply_ok d r \<Longrightarrow> dns_step d (answer i r d)"
| asked: "\<not> dr_deleted d \<Longrightarrow> dr_type d \<noteq> Destroyed \<Longrightarrow> dns_step d (snd (available d))"
| taken: "\<not> dr_deleted d \<Longrightarrow> dr_type d \<noteq> Destroyed \<Longrightarrow> fst (available d) = Available \<Longrightarrow> dns_step d (snd (next_target d))"
| marked: "\<not> dr_deleted d \<Longrightarrow> dr_type d \<noteq> Destroyed \<Longrightarrow> dns_step d (snd (markLast m expiry d))"
| whitelisted: "\<not> dr_deleted d \<Longrightarrow> dr_type d \<noteq> Destroyed \<Longrightarrow> dns_step d (whitelistLast d)"
| executed: "dr_commands d = c # cs \<Longrightarrow> dns_step d (execute_command c (d\<lparr>dr_commands := cs\<rparr>))"
| time: "dns_step d (d\<lparr>dr_now := dr_now d + n\<rparr>)"
| dropped: "\<not> dr_deleted d \<Longrightarrow> dr_type d \<noteq> Destroyed \<Longrightarrow> mDoingEnum d = 0 \<Longrightarrow> dns_step d (destroy d)"

inductive dns_reachable :: "DnsResult \<Rightarrow> bool" where
  start: "iface_ok iface \<Longrightarrow> uri_ok iface types uri \<Longrightarrow>
     dns_reachable (lookup uri (new_DnsResult iface marks types suffixes domains now random))"
| step: "dns_reachable d \<Longrightarrow> dns_step d d' \<Longrightarrow> dns_reachable d'"

inductive_cases dns_stepE: "dns_step d d'"

section \<open>Preservation\<close>

abbreviation remove_query :: "nat \<Rightarrow> DnsResult \<Rightarrow> DnsResult" where
  "remove_query i d \<equiv> d\<lparr>dr_queries := take i (dr_queries d) @ drop (Suc i) (dr_queries d)\<rparr>"

lemma base_ok_queries [simp]: "base_ok (d\<lparr>dr_queries := qs\<rparr>) = base_ok d"
  by (simp add: base_ok_def srv_good_def)

lemma untouched_queries [simp]: "untouched (d\<lparr>dr_queries := qs\<rparr>) = untouched d" "waiting (d\<lparr>dr_queries := qs\<rparr>) = waiting d"
  by (simp_all add: untouched_def waiting_def)

lemma remaining_queries:
  assumes "i < length qs" "list_all P qs"
  shows "list_all P (take i qs @ drop (Suc i) qs)" "Suc (length (take i qs @ drop (Suc i) qs)) = length qs" "P (qs ! i)"
  using assms by (auto simp: list_all_iff dest: in_set_takeD in_set_dropD)

lemma answer_inv:
  assumes "dr_inv d" "i < length (dr_queries d)" "fits (dr_queries d ! i) r" "reply_ok d r"
  shows "dr_inv (answer i r d)"
proof -
  obtain p where b: "base_ok d" and p: "in_phase p d" using assms(1) by (auto simp: dr_inv_def)
  show ?thesis
  proof (cases p)
    case Idle then show ?thesis using p assms(2) by simp
  next
    case Starting
    then obtain uri where "dr_queries d = [LookupQ uri]" "uri_ok (dr_iface d) (dr_supportedType d) uri" using p by auto
    then show ?thesis using p b assms(2-4) Starting by (cases r) (auto simp: answer_def intro!: lookupInternalWithEnum_inv)
  next
    case Enums
    then have q: "list_all is_enum_query (dr_queries d)" using p by simp
    then obtain k n where "dr_queries d ! i = EnumQ k n" using remaining_queries(3) [OF assms(2) q] by (cases "dr_queries d ! i") auto
    moreover from this obtain st rs where "r = NaptrReply st rs" using assms(3) by (cases r) auto
    moreover have "dr_inv (onEnumResult st rs k (remove_query i d))"
      by (rule onEnumResult_inv) (use p b assms(4) Enums remaining_queries(1,2) [OF assms(2) q] \<open>r = _\<close> in auto)
    ultimately show ?thesis by (simp add: answer_def)
  next
    case Naptrs
    then obtain n where "dr_queries d = [NaptrQ n]" using p by auto
    then show ?thesis using p b assms(2-4) Naptrs by (cases r) (auto simp: answer_def intro!: onNaptr_inv)
  next
    case Srvs
    then have q: "list_all is_srv_query (dr_queries d)" using p by simp
    then obtain n where "dr_queries d ! i = SrvQ n" using remaining_queries(3) [OF assms(2) q] by (cases "dr_queries d ! i") auto
    moreover from this obtain st rs where "r = SrvReply st rs" using assms(3) by (cases r) auto
    moreover have "dr_inv (onSrvResult st rs (remove_query i d))"
      by (rule onSrvResult_inv) (use p b assms(4) Srvs remaining_queries(1,2) [OF assms(2) q] \<open>r = _\<close> in auto)
    ultimately show ?thesis by (simp add: answer_def)
  next
    case Hosts
    then obtain h where "dr_queries d = [HostQ h] \<or> dr_queries d = [AAAAQ h] \<and> isSupported (dr_transport d) V6 (dr_iface d)" using p by auto
    then show ?thesis using p b assms(2,3) Hosts
      by (cases r) (auto simp: answer_def intro!: onHostResult_inv onAAAAResult_inv)
  qed
qed

lemma primeResults_type: "dr_type d \<noteq> Destroyed \<Longrightarrow> dr_type (primeResults d) \<noteq> Destroyed"
  by (auto simp: primeResults_def Let_def lookupHost_frame transition_frame call_handler_def dr_assert_def split: prod.splits)

lemma available_eq:
  assumes "dr_type d \<noteq> Destroyed"
  shows "available d = (let d' = (if dr_type d = Available \<and> mResults d = [] then primeResults d else d) in (dr_type d', d'))"
proof -
  have stop: "available e = (dr_type e, e)" if "dr_type e \<noteq> Destroyed" "\<not> (dr_type e = Available \<and> mResults e = [])" for e
    using that by (subst available.simps) (auto simp: dr_assert_def)
  show ?thesis
  proof (cases "dr_type d = Available \<and> mResults d = []")
    case True
    then have "available d = available (primeResults d)" by (subst available.simps) (simp add: dr_assert_def)
    then show ?thesis using True stop [OF primeResults_type [OF assms] primeResults_done] by (simp add: Let_def)
  qed (use stop assms in \<open>auto simp: Let_def\<close>)
qed

lemma idle_between: "dr_inv d \<Longrightarrow> dr_type d = Available \<Longrightarrow> between d"
  by (auto simp: dr_inv_def between_def waiting_def elim!: in_phase.elims)

lemma available_inv: "dr_inv d \<Longrightarrow> dr_type d \<noteq> Destroyed \<Longrightarrow> dr_inv (snd (available d))"
  by (simp add: available_eq Let_def primeResults_inv idle_between)

lemma available_target:
  assumes "dr_type d \<noteq> Destroyed" "fst (available d) = Available"
  shows "dr_type (snd (available d)) = Available \<and> mResults (snd (available d)) \<noteq> []"
  using assms primeResults_done [of d] by (auto simp: available_eq Let_def split: if_splits)

text \<open>The path to a target has at most three items.\<close>

lemma path_ok_next:
  assumes "path_ok p" "it_rrType i \<in> {T_A, T_AAAA}"
  shows "path_ok ((if p \<noteq> [] \<and> it_rrType (last p) \<in> {T_A, T_AAAA} then butlast p else p) @ [i])"
  using assms by (auto simp: path_ok_def)

lemma next_target_eq:
  assumes "dr_inv d" "dr_type d \<noteq> Destroyed" "fst (available d) = Available"
  defines "d' \<equiv> snd (available d)"
  obtains path where "next_target d = (hd (mResults d'), d'\<lparr>mLastResult := hd (mResults d'), mResults := tl (mResults d'),
      mCurrentPath := path, mLastReturnedPath := path, mHaveReturnedResults := True\<rparr>)" "path_ok path" "path \<noteq> []"
proof -
  have inv: "dr_inv d'" using available_inv assms(1,2) d'_def by blast
  have a: "available d = (Available, d')" using assms(3) d'_def by (metis prod.collapse)
  let ?i = "\<lparr>it_domain = mTargetDomain (hd (mResults d')), it_rrType = (if isV4 (hd (mResults d')) then T_A else T_AAAA), it_value = tp_host (hd (mResults d'))\<rparr>"
  let ?p = "(if mCurrentPath d' \<noteq> [] \<and> it_rrType (last (mCurrentPath d')) \<in> {T_A, T_AAAA} then butlast (mCurrentPath d') else mCurrentPath d') @ [?i]"
  have p: "path_ok (mCurrentPath d')" using inv by (simp add: dr_inv_def base_ok_def)
  then have "dr_assert (Available = Available \<and> length (mCurrentPath d') \<le> 3) d' = d'" by (simp add: dr_assert_def path_ok_def)
  then have "next_target d = (hd (mResults d'), d'\<lparr>mLastResult := hd (mResults d'), mResults := tl (mResults d'),
      mCurrentPath := ?p, mLastReturnedPath := ?p, mHaveReturnedResults := True\<rparr>)"
    unfolding next_target_def a by (simp only: prod.case Let_def)
  then show thesis using that path_ok_next [OF p, of ?i] by auto
qed

lemma next_target_inv:
  assumes "dr_inv d" "dr_type d \<noteq> Destroyed" "fst (available d) = Available" shows "dr_inv (snd (next_target d))"
proof -
  let ?d = "snd (available d)"
  obtain path where e: "next_target d = (hd (mResults ?d), ?d\<lparr>mLastResult := hd (mResults ?d), mResults := tl (mResults ?d),
      mCurrentPath := path, mLastReturnedPath := path, mHaveReturnedResults := True\<rparr>)" "path_ok path" "path \<noteq> []"
    using next_target_eq [OF assms] by blast
  have t: "dr_type ?d = Available" "mResults ?d \<noteq> []" using available_target [OF assms(2,3)] by auto
  have b: "between ?d" using idle_between [OF available_inv [OF assms(1,2)] t(1)] .
  have "set (tl (mResults ?d)) \<subseteq> set (mResults ?d)" using t(2) by (metis list.set_sel(2) subsetI)
  then show ?thesis unfolding e(1) using b t e(2,3)
    by (intro dr_invI [of _ Idle]) (auto simp: between_def base_ok_def srv_good_def path_ok_def)
qed

text \<open>The commands, the clock and the marks play no role for the invariant.\<close>

lemma in_phase_frame [simp]:
  "in_phase p (d\<lparr>dr_commands := cs\<rparr>) = in_phase p d" "in_phase p (d\<lparr>dr_vip := vs\<rparr>) = in_phase p d"
  "in_phase p (d\<lparr>dr_marks := mm\<rparr>) = in_phase p d" "in_phase p (d\<lparr>dr_now := n\<rparr>) = in_phase p d"
  "in_phase p (d\<lparr>dr_deleted := b\<rparr>) = in_phase p d"
  by (cases p; simp add: untouched_def waiting_def)+

lemma dr_inv_frame [simp]:
  "dr_inv (d\<lparr>dr_commands := cs\<rparr>) = dr_inv d" "dr_inv (d\<lparr>dr_vip := vs\<rparr>) = dr_inv d"
  "dr_inv (d\<lparr>dr_marks := mm\<rparr>) = dr_inv d" "dr_inv (d\<lparr>dr_now := n\<rparr>) = dr_inv d"
  "dr_inv (d\<lparr>dr_deleted := b\<rparr>) = dr_inv d"
  by (simp_all add: dr_inv_def base_ok_def srv_good_def)

lemma markLast_inv:
  assumes "dr_inv d" shows "dr_inv (snd (markLast m expiry d))"
proof -
  have "mHaveReturnedResults d \<longrightarrow> dr_assert (mLastReturnedPath d \<noteq> [] \<and> length (mLastReturnedPath d) \<le> 3) d = d"
    using assms by (simp add: dr_inv_def base_ok_def dr_assert_def)
  then show ?thesis using assms by (simp add: markLast_def Let_def)
qed

lemma execute_command_inv: "dr_inv d \<Longrightarrow> dr_inv (execute_command c d)"
  by (cases c) (simp_all add: execute_defs)

lemma base_ok_type [simp]: "base_ok (d\<lparr>dr_type := t\<rparr>) = base_ok d"
  by (simp add: base_ok_def srv_good_def)

lemma destroy_inv:
  assumes "dr_inv d" "dr_type d \<noteq> Destroyed" "mDoingEnum d = 0" shows "dr_inv (destroy d)"
proof -
  obtain p where b: "base_ok d" and p: "in_phase p d" using assms(1) by (auto simp: dr_inv_def)
  show ?thesis
  proof (cases "dr_type d = Pending")
    case True
    then have "in_phase p (d\<lparr>dr_type := Destroyed\<rparr>)" using p assms(3) by (cases p) (auto simp: untouched_def waiting_def)
    then show ?thesis using True b dr_invI by (simp add: destroy_def transition_live)
  next
    case False
    then have "in_phase Idle (d\<lparr>dr_type := Finished\<rparr>)" using p assms(2) by (cases p) (auto simp: waiting_def)
    then show ?thesis using False b dr_invI [of "d\<lparr>dr_type := Finished\<rparr>" Idle] by (simp add: destroy_def transition_def dr_assert_def)
  qed
qed

lemma dns_step_inv: "dns_step d d' \<Longrightarrow> dr_inv d \<Longrightarrow> dr_inv d'"
  by (induction rule: dns_step.induct)
    (simp_all add: answer_inv available_inv next_target_inv markLast_inv execute_command_inv destroy_inv whitelistLast_def)

lemma start_inv:
  assumes "iface_ok iface" "uri_ok iface types uri"
  shows "dr_inv (lookup uri (new_DnsResult iface marks types suffixes domains now random))"
  using assms by (intro dr_invI [of _ Starting])
    (simp_all add: lookup_def new_DnsResult_def ask_dns_def base_ok_def cum_ok_Nil path_ok_def untouched_def waiting_def)

lemma dns_reachable_inv: "dns_reachable d \<Longrightarrow> dr_inv d"
  by (induction rule: dns_reachable.induct) (auto intro: start_inv dns_step_inv)

end
