(* ===== verification/DnsResEnds.thy ===== *)
theory DnsResEnds
  imports DnsResSteps "HOL-Library.Multiset_Order"
begin

text \<open>Every DNS lookup ends: each answer and each target that is taken uses up some of the work that is left. The work is
  a multiset: the queries that are under way, the SRV records and the targets, each by the height of what it can lead to.\<close>

section \<open>Work\<close>

fun rank :: "DnsQuery \<Rightarrow> nat" where
  "rank (LookupQ _) = 7"
| "rank (EnumQ _ _) = 6"
| "rank (NaptrQ _) = 5"
| "rank (SrvQ _) = 4"
| "rank (AAAAQ _) = 2"
| "rank (HostQ _) = 1"

definition work :: "DnsResult \<Rightarrow> nat multiset" where
  "work d = image_mset rank (mset (dr_queries d)) + replicate_mset (length (mSRVResults d)) 3 +
     replicate_mset (length (mResults d) + length (mGreylistedTuples d)) 0"

text \<open>At most new work below height \<open>n\<close>.\<close>

definition adds :: "nat \<Rightarrow> DnsResult \<Rightarrow> DnsResult \<Rightarrow> bool" where
  "adds n d d' \<longleftrightarrow> (\<exists>X. work d' \<subseteq># work d + X \<and> (\<forall>x\<in>#X. x < n))"

lemma adds_refl [simp]: "adds n d d"
  unfolding adds_def by (rule exI [of _ "{#}"]) simp

lemma adds_trans [trans]:
  assumes "adds n d e" "adds n e f" shows "adds n d f"
proof -
  obtain X Y where X: "work e \<subseteq># work d + X" "\<forall>x\<in>#X. x < n" and Y: "work f \<subseteq># work e + Y" "\<forall>x\<in>#Y. x < n"
    using assms by (auto simp: adds_def)
  have "work e + Y \<subseteq># work d + (X + Y)" using X(1) by (simp add: add.assoc [symmetric])
  then have "work f \<subseteq># work d + (X + Y)" using Y(1) subset_mset.order_trans by blast
  then show ?thesis using X(2) Y(2) unfolding adds_def by (intro exI [of _ "X + Y"]) auto
qed

lemma adds_new: "work d' = work d + X \<Longrightarrow> \<forall>x\<in>#X. x < n \<Longrightarrow> adds n d d'"
  unfolding adds_def by (rule exI [of _ X]) simp

lemma adds_mono: "adds m d d' \<Longrightarrow> m \<le> n \<Longrightarrow> adds n d d'"
  unfolding adds_def by (meson order_less_le_trans)

lemma adds_less: "work d' \<subseteq># work d \<Longrightarrow> adds n d d'"
  unfolding adds_def by (rule exI [of _ "{#}"]) simp

lemma adds_cong: "work d = work d' \<Longrightarrow> work e = work e' \<Longrightarrow> adds n d e = adds n d' e'"
  by (simp add: adds_def)

named_theorems same_work

lemma work_updates [same_work]:
  "work (d\<lparr>mSRVCount := a1\<rparr>) = work d" "work (d\<lparr>mInputUri := a2\<rparr>) = work d" "work (d\<lparr>mDoingEnum := a3\<rparr>) = work d"
  "work (d\<lparr>mEnumDestinations := a4\<rparr>) = work d" "work (d\<lparr>mSips := a5\<rparr>) = work d" "work (d\<lparr>dr_target := a6\<rparr>) = work d"
  "work (d\<lparr>dr_transport := a7\<rparr>) = work d" "work (d\<lparr>dr_port := a8\<rparr>) = work d" "work (d\<lparr>mHaveChosenTransport := a9\<rparr>) = work d"
  "work (d\<lparr>dr_type := b1\<rparr>) = work d" "work (d\<lparr>mPassHostFromAAAAtoA := b2\<rparr>) = work d" "work (d\<lparr>mTopOrderedNAPTRs := b3\<rparr>) = work d"
  "work (d\<lparr>mCumulativeWeight := b4\<rparr>) = work d" "work (d\<lparr>mLastReturnedPath := b5\<rparr>) = work d" "work (d\<lparr>mCurrentPath := b6\<rparr>) = work d"
  "work (d\<lparr>mHaveReturnedResults := b7\<rparr>) = work d" "work (d\<lparr>mLastResult := b8\<rparr>) = work d" "work (d\<lparr>dr_marks := b9\<rparr>) = work d"
  "work (d\<lparr>dr_drawn := c1\<rparr>) = work d" "work (d\<lparr>dr_commands := c2\<rparr>) = work d" "work (d\<lparr>dr_vip := c3\<rparr>) = work d"
  "work (d\<lparr>dr_calls := c4\<rparr>) = work d" "work (d\<lparr>dr_deleted := c5\<rparr>) = work d" "work (d\<lparr>dr_failed := c6\<rparr>) = work d"
  "work (d\<lparr>dr_now := c7\<rparr>) = work d"
  by (simp_all add: work_def)

lemma work_basic [same_work]:
  "work (dr_assert b d) = work d" "work (call_handler d) = work d" "work (transition t d) = work d" "work (destroy d) = work d"
  "work (clearCurrPath d) = work d" "work (no_support d) = work d"
  by (simp_all add: dr_assert_def call_handler_def transition_def destroy_def clearCurrPath_def no_support_def same_work)

lemma work_ask [same_work]: "work (ask_dns q d) = add_mset (rank q) (work d)" "work (ask_srv n d) = add_mset 4 (work d)"
  by (simp_all add: ask_dns_def ask_srv_def work_def)

lemma work_results [same_work]: "work (d\<lparr>mResults := mResults d @ ts\<rparr>) = work d + replicate_mset (length ts) 0"
  by (rule multiset_eqI) (simp add: work_def)

text \<open>Same work up to the simplifier, with a few queries more.\<close>

lemma adds_same: "work d' = work d \<Longrightarrow> adds n d d'"
  by (rule adds_new [of _ _ "{#}"]) simp_all

lemma adds_one: "work d' = add_mset x (work d) \<Longrightarrow> x < n \<Longrightarrow> adds n d d'"
  by (rule adds_new [of _ _ "{#x#}"]) simp_all

lemma adds_lookupHost: "adds 3 d (lookupHost h d)"
proof -
  have "work (lookupHost h d) \<in> {work d, add_mset 2 (work d), add_mset 1 (work d)}" by (simp add: lookupHost_def same_work)
  then show ?thesis by (auto intro: adds_same adds_one)
qed

lemmas adds_host = adds_trans [OF adds_same adds_mono [OF adds_lookupHost]]

section \<open>Work of the operations\<close>

lemma pick_srv_length: "pick_srv x w ss = Some (s, rest) \<Longrightarrow> length ss = Suc (length rest)"
  by (induction ss arbitrary: w rest) (auto split: if_splits)

lemma dr_assert_frame [simp]:
  "mSRVResults (dr_assert b d) = mSRVResults d" "mResults (dr_assert b d) = mResults d" "dr_queries (dr_assert b d) = dr_queries d"
  "mGreylistedTuples (dr_assert b d) = mGreylistedTuples d" "dr_type (dr_assert b d) = dr_type d"
  by (simp_all add: dr_assert_def)

lemma work_shrink:
  "length rest \<le> length (mSRVResults d) \<Longrightarrow> work (d\<lparr>mSRVResults := rest\<rparr>) \<subseteq># work d"
  by (simp add: work_def subseteq_mset_def)

lemma cumulate_frame:
  "mSRVResults (cumulate d) = mSRVResults d" "mResults (cumulate d) = mResults d" "dr_queries (cumulate d) = dr_queries d"
  "mGreylistedTuples (cumulate d) = mGreylistedTuples d"
  by (simp_all add: cumulate_def Let_def)

lemma retrieveSRV_work: "work (snd (retrieveSRV d)) \<subseteq># work d"
proof -
  obtain x e where e: "draw (cumulate d) = (x, e)" by fastforce
  then have f: "mSRVResults e = mSRVResults d" "work e = work d" by (auto simp: draw_def work_def cumulate_frame split: if_splits)
  show ?thesis
  proof (cases "pick_srv x 0 (mSRVResults d)")
    case None
    then show ?thesis using e f by (simp add: retrieveSRV_def Let_def same_work)
  next
    case (Some p)
    then have "length (snd p) \<le> length (mSRVResults e)" using pick_srv_length f by (metis Suc_n_not_le_n nat_le_linear prod.collapse)
    then have "work (e\<lparr>mSRVResults := snd p\<rparr>) \<subseteq># work e" by (rule work_shrink)
    then show ?thesis using Some e f by (simp add: retrieveSRV_def Let_def same_work case_prod_beta)
  qed
qed

lemma primeResults_adds: "adds 3 d (primeResults d)"
proof (cases "mSRVResults d = []")
  case True
  have "work (primeResults d) = work d"
    using True by (simp add: primeResults_def Let_def same_work) (simp add: work_def dr_assert_def)
  then show ?thesis by (rule adds_same)
next
  case False
  let ?d = "dr_assert (mResults d = []) d"
  obtain s e where r: "retrieveSRV ?d = (s, e)" by fastforce
  then have "adds 3 ?d e" using retrieveSRV_work [of ?d] by (auto intro: adds_less)
  then have "adds 3 d e" by (simp add: adds_def same_work)
  moreover have "work (primeResults d) = work e \<or> (\<exists>f. work f = work e \<and> primeResults d = lookupHost (srv_target s) f)"
    using False r by (cases "isSupportedProtocol (srv_transport s) (dr_iface (transition Pending e))")
      (simp add: primeResults_def Let_def, rule disjI2, rule exI, rule conjI [rotated], rule refl, simp_all add: primeResults_def Let_def same_work)
  then have "adds 3 e (primeResults d)" using adds_same adds_host [of _ e 3] by auto
  ultimately show ?thesis by (rule adds_trans)
qed

lemma adds_offer: "work e = work d \<Longrightarrow> 0 < n \<Longrightarrow> adds n d (call_handler (transition t (e\<lparr>mResults := mResults e @ ts\<rparr>)))"
  by (rule adds_new [of _ _ "replicate_mset (length ts) 0"]) (simp_all add: same_work)

lemma get_mark_work: "get_mark t d = (m, e) \<Longrightarrow> work e = work d"
  by (auto simp: get_mark_def same_work split: prod.splits)

lemma adds_srv_or_host: "work e = work d \<Longrightarrow> adds 5 d (srv_or_host p uri e)"
  by (auto simp: srv_or_host_def same_work intro: adds_one adds_host)

lemma lookup_transport_adds: "adds 5 d (lookup_transport t uri d)"
proof -
  let ?d = "d\<lparr>dr_transport := t, mHaveChosenTransport := True\<rparr>"
  let ?n = "?d\<lparr>dr_port := getDefaultPort t (u_port uri) ?d\<rparr>"
  obtain m e where m: "get_mark (numeric_tuple ?n) ?n = (m, e)" by fastforce
  then have "work e = work d" using get_mark_work [OF m] by (simp add: same_work)
  then have "adds 5 d (call_handler (transition Available (e\<lparr>mResults := mResults e @ [numeric_tuple e]\<rparr>)))"
    "adds 5 d (call_handler (transition Available e))" by (auto intro: adds_offer adds_same simp: same_work)
  moreover have "adds 5 d (no_support ?d)" "adds 5 d (no_support (?d\<lparr>dr_transport := x\<rparr>))" for x by (auto intro: adds_same simp: same_work)
  moreover have "adds 5 d (lookupHost h (?d\<lparr>dr_port := p\<rparr>))" for h p by (rule adds_host) (simp_all add: same_work)
  moreover have "adds 5 d (srv_or_host p uri ?d)" "adds 5 d (srv_or_host p uri (?d\<lparr>dr_transport := x\<rparr>))" for p x
    by (rule adds_srv_or_host, simp add: same_work)+
  ultimately show ?thesis using m by (simp add: lookup_transport_def Let_def)
qed

lemma probe_work: "work (snd (snd (probe t uri d))) = work d"
  by (auto simp: probe_def Let_def same_work case_prod_beta get_mark_def)

lemma probe_if_work: "work (snd (snd (probe_if t uri s))) = work (snd (snd s))"
  by (cases s) (simp add: probe_if_def probe_work)

lemma probe_back_work: "work (snd (snd (probe_back uri s))) = work (snd (snd s))"
  by (cases s) (simp add: probe_back_def probe_work)

lemma lookup_numeric_adds: "adds 5 d (lookup_numeric uri d)"
proof -
  let ?s = "(no_tuple, BLACK, d)"
  define s where "s = (if mSips d then probe_if TLS uri ?s
    else let s = probe_if UDP uri ?s in if mUdpOnlyOnNumeric (dr_iface d) then s else probe_back uri (probe_if TLS uri (probe_if TCP uri s)))"
  obtain t m e where s: "s = (t, m, e)" by (metis prod_cases3)
  have "work (snd (snd s)) = work d" unfolding s_def Let_def by (simp add: probe_if_work probe_back_work)
  then have w: "work e = work d" using s by simp
  have "adds 5 d (call_handler (transition Available (e\<lparr>mHaveChosenTransport := True, mResults := mResults e @ [t]\<rparr>)))"
    using adds_offer [of "e\<lparr>mHaveChosenTransport := True\<rparr>" d 5 Available "[t]"] w by (simp add: same_work)
  moreover have "adds 5 d (call_handler (transition Available (dr_assert b e)))" for b using w by (intro adds_same) (simp add: same_work)
  ultimately show ?thesis unfolding lookup_numeric_def Let_def s_def [unfolded Let_def, symmetric] s by simp
qed

lemma lookupInternal_adds: "adds 6 d (lookupInternal uri d)"
proof -
  let ?d = "d\<lparr>mSips := is_sips uri, dr_target := lookup_target uri\<rparr>"
  have s: "work ?d = work d" by (simp add: same_work)
  have "adds 5 ?d (lookup_name uri ?d)"
    by (auto simp: lookup_name_def Let_def same_work intro: adds_same intro!: adds_host)
  then have "adds 6 ?d (lookup_name uri ?d)" "adds 6 ?d (lookup_transport t uri ?d)" "adds 6 ?d (lookup_numeric uri ?d)"
    "adds 6 ?d (ask_dns (NaptrQ n) ?d)" for t n
    using adds_mono [OF lookup_transport_adds] adds_mono [OF lookup_numeric_adds] adds_mono
    by (auto intro: adds_one simp: same_work)
  then have "adds 6 ?d (lookupInternal uri d)" by (simp add: lookupInternal_def Let_def split: option.split)
  then show ?thesis by (simp only: adds_def s)
qed

lemma lookupInternalWithEnum_adds: "adds 7 d (lookupInternalWithEnum uri d)"
proof -
  have "adds 7 d (lookupInternal uri (e))" if "work e = work d" for e
    using adds_mono [OF lookupInternal_adds, of 7 e uri] that by (simp add: adds_def)
  moreover have "adds 7 d (ask_enums names e)" if "work e = work d" for names e
  proof (rule adds_new)
    show "work (ask_enums names e) = work d + image_mset rank (mset (map (\<lambda>(i, n). EnumQ i n) (enumerate 0 names)))"
      using that by (simp add: ask_enums_eq work_def ac_simps)
  qed (auto simp: enumerate_eq_zip)
  moreover have "adds 7 d (destroy d)" by (rule adds_same) (simp add: same_work)
  ultimately show ?thesis by (simp add: lookupInternalWithEnum_def Let_def same_work)
qed

lemma add_hosts_adds: "0 < n \<Longrightarrow> adds n d (add_hosts status addrs d)"
proof -
  assume "0 < n"
  moreover obtain mm where "add_hosts status addrs d = d\<lparr>mResults := mResults d @ found OK status addrs d,
      mGreylistedTuples := mGreylistedTuples d @ found GREY status addrs d, dr_marks := mm\<rparr>" using add_hosts_found by blast
  moreover have "work (d\<lparr>mResults := mResults d @ a, mGreylistedTuples := mGreylistedTuples d @ b, dr_marks := mm\<rparr>) =
    work d + replicate_mset (length a + length b) 0" for a b mm by (rule multiset_eqI) (simp add: work_def)
  ultimately show ?thesis by (intro adds_new) (auto split: if_splits)
qed

lemma onHostResult_adds: "adds 1 d (onHostResult status addrs d)"
proof -
  let ?e = "add_hosts status addrs d"
  have "mResults e = [] \<Longrightarrow> work (e\<lparr>mResults := mGreylistedTuples e, mGreylistedTuples := []\<rparr>) = work e" for e by (simp add: work_def)
  then have "work (onHostResult status addrs d) \<in> {work d, work ?e}" by (simp add: onHostResult_def hosts_done_def Let_def same_work)
  moreover have "adds 1 d ?e" by (rule add_hosts_adds) simp
  ultimately show ?thesis by (auto simp: adds_def)
qed

lemma onAAAAResult_adds: "adds 2 d (onAAAAResult status addrs d)"
proof -
  have "adds 2 d (ask_dns (HostQ h) (add_hosts status addrs d))" for h
    by (rule adds_trans [OF add_hosts_adds]) (auto intro: adds_one simp: same_work)
  moreover have "adds 2 d (destroy d)" by (rule adds_same) (simp add: same_work)
  ultimately show ?thesis by (simp add: onAAAAResult_def)
qed

lemma srv_insert_length: "length (srv_insert s ss) = Suc (length ss)"
  by (induction ss) auto

lemma srv_sort_length: "length (srv_sort ss) = length ss"
  by (induction ss) (simp_all add: srv_sort_def srv_insert_length)

lemma work_srvs: "work (d\<lparr>mSRVResults := mSRVResults d @ ss\<rparr>) = work d + replicate_mset (length ss) 3"
  by (rule multiset_eqI) (simp add: work_def)

lemma add_srv_adds: "adds 4 d (add_srv r d)"
proof -
  have "adds 4 d (d\<lparr>mSRVResults := mSRVResults d @ [s]\<rparr>)" for s
    by (rule adds_one [of _ 3]) (simp_all add: work_srvs)
  then show ?thesis by (simp add: add_srv_def split: option.split)
qed

lemma add_srvs_adds: "adds 4 d (fold add_srv rs d)"
  by (induction rs arbitrary: d) (auto intro: adds_trans add_srv_adds)

lemma onSrvResult_adds:
  assumes "mSRVCount d \<ge> 0" shows "adds 4 d (onSrvResult status records d)"
proof -
  let ?d = "d\<lparr>mSRVCount := mSRVCount d - 1\<rparr>"
  define e where "e = (if status = 0 then fold add_srv records ?d else ?d)"
  have "mSRVCount (add_srv r x) = mSRVCount x" for r x by (simp add: add_srv_def split: option.split)
  then have "mSRVCount (fold add_srv rs x) = mSRVCount x" for rs x by (induction rs arbitrary: x) auto
  then have c: "mSRVCount e = mSRVCount d - 1" by (simp add: e_def)
  have "adds 4 ?d e" by (simp add: e_def add_srvs_adds)
  then have e: "adds 4 d e" by (simp add: adds_def same_work)
  have "work (fall_back e) = work e" "work (e\<lparr>mSRVResults := srv_sort (mSRVResults e)\<rparr>) = work e"
    by (simp_all add: fall_back_def same_work) (simp_all add: work_def srv_sort_length)
  then have "adds 4 e (lookupHost h (fall_back e))" "adds 4 e (primeResults (fall_back e))"
    "adds 4 e (primeResults (e\<lparr>mSRVResults := srv_sort (mSRVResults e)\<rparr>))" for h
    using adds_mono [OF adds_lookupHost, of 4 "fall_back e" h] adds_mono [OF primeResults_adds, of 4 "fall_back e"]
      adds_mono [OF primeResults_adds, of 4 "e\<lparr>mSRVResults := srv_sort (mSRVResults e)\<rparr>"] by (simp_all add: adds_def)
  then have "adds 4 d (lookupHost h (fall_back e))" "adds 4 d (primeResults (fall_back e))"
    "adds 4 d (primeResults (e\<lparr>mSRVResults := srv_sort (mSRVResults e)\<rparr>))" for h using adds_trans [OF e] by blast+
  moreover have "adds 4 d (destroy (d\<lparr>mSRVCount := x\<rparr>))" for x by (rule adds_same) (simp add: same_work)
  ultimately show ?thesis using e unfolding onSrvResult_eq [OF assms c e_def [symmetric]] by (simp add: Let_def)
qed

lemma onNaptr_adds: "adds 5 d (onNaptr status records d)"
proof -
  have srv: "adds 5 d (ask_srv n e)" if "adds 5 d e" for n e using that by (rule adds_trans) (auto intro: adds_one simp: same_work)
  then have srv_if: "adds 5 d (ask_srv_if t p e)" if "adds 5 d e" for t p e using that by (simp add: ask_srv_if_def)
  have "adds 5 d (no_support d)" by (rule adds_same) (simp add: same_work)
  then have "adds 5 d (naptr_failed d)" unfolding naptr_failed_def by (simp add: srv srv_if)
  moreover have "adds 5 d (fold follow_naptr rs (transition Pending d))" for rs
  proof -
    have "adds 5 d (fold follow_naptr rs e)" if "adds 5 d e" for rs e using that
    proof (induction rs arbitrary: e)
      case (Cons r rs)
      have "adds 5 d (e\<lparr>mTopOrderedNAPTRs := (mTopOrderedNAPTRs e)(n_replacement r \<mapsto> r)\<rparr>)" using Cons.prems by (simp add: adds_def same_work)
      then show ?case using Cons.IH srv by (simp add: follow_naptr_def)
    qed simp
    moreover have "adds 5 d (transition Pending d)" by (rule adds_same) (simp add: same_work)
    ultimately show ?thesis by blast
  qed
  moreover have "adds 5 d (destroy d)" by (rule adds_same) (simp add: same_work)
  ultimately show ?thesis by (simp add: onNaptr_def onNaptrResult_def Let_def)
qed

lemma onEnumResult_adds: "adds 6 d (onEnumResult status records order d)"
proof -
  have "adds 6 d (lookupInternal uri e)" if "work e = work d" for uri e using lookupInternal_adds [of e uri] that by (simp add: adds_def)
  moreover have "adds 6 d e" if "work e = work d" for e using that by (rule adds_same)
  ultimately show ?thesis by (auto simp: onEnumResult_def Let_def same_work split: option.split list.split)
qed

section \<open>Progress\<close>

text \<open>An answer replaces a query by lower work.\<close>

lemma onReply_adds:
  assumes "fits q r" "\<And>n. q = SrvQ n \<Longrightarrow> mSRVCount d \<ge> 0" shows "adds (rank q) d (onReply q r d)"
  using assms by (cases q; cases r)
    (simp_all add: lookupInternalWithEnum_adds onEnumResult_adds onNaptr_adds onSrvResult_adds onAAAAResult_adds onHostResult_adds
      del: One_nat_def)

lemma adds_strict:
  assumes "adds n d d'" "work e = add_mset n (work d)" shows "work d' < work e"
proof -
  obtain X where X: "work d' \<subseteq># work d + X" "\<forall>x\<in>#X. x < n" using assms(1) by (auto simp: adds_def)
  have "multp (<) (work d + X) (work d + {#n#})" using X(2) by (intro one_step_implies_multp) auto
  then have "work d + X < work e" using assms(2) by (simp add: less_multiset_def)
  moreover have "work d' \<le> work d + X" using X(1) by (rule subset_eq_imp_le_multiset)
  ultimately show ?thesis by (rule le_less_trans [rotated])
qed

lemma remove_query_work: "i < length (dr_queries d) \<Longrightarrow> work d = add_mset (rank (dr_queries d ! i)) (work (remove_query i d))"
proof -
  assume "i < length (dr_queries d)"
  then have "dr_queries d = take i (dr_queries d) @ dr_queries d ! i # drop (Suc i) (dr_queries d)" by (rule id_take_nth_drop)
  then have "mset (dr_queries d) = add_mset (dr_queries d ! i) (mset (take i (dr_queries d) @ drop (Suc i) (dr_queries d)))"
    by (metis mset_append mset.simps(2) union_mset_add_mset_right)
  then show ?thesis by (simp add: work_def)
qed

lemma answer_work:
  assumes "dr_inv d" "i < length (dr_queries d)" "fits (dr_queries d ! i) r" shows "work (answer i r d) < work d"
proof -
  have "mSRVCount d \<ge> 0" using assms(1) by (auto simp: dr_inv_def untouched_def elim!: in_phase.elims)
  then have "adds (rank (dr_queries d ! i)) (remove_query i d) (answer i r d)" unfolding answer_def using assms(3) by (intro onReply_adds) simp_all
  then show ?thesis using adds_strict remove_query_work [OF assms(2)] by blast
qed

lemma primeResults_work: "between d \<Longrightarrow> mResults d = [] \<Longrightarrow> work (primeResults d) \<le> work d"
proof (cases "mSRVResults d = []")
  case True
  then show ?thesis by (simp add: primeResults_def Let_def same_work) (simp add: work_def dr_assert_def)
next
  case False
  assume b: "between d" "mResults d = []"
  then have "mSRVCount d = 0" "\<forall>s\<in>set (mSRVResults d). srv_good d s" "cum_ok (mSRVResults d) (mCumulativeWeight d)"
    by (auto simp: between_def base_ok_def)
  then obtain pre s post w n where r: "mSRVResults d = pre @ s # post"
    "retrieveSRV d = (s, d\<lparr>mSRVResults := pre @ post, mCumulativeWeight := w, dr_drawn := n\<rparr>)"
    using retrieveSRV_spec [OF False] by metis
  let ?e = "d\<lparr>mSRVResults := pre @ post, mCumulativeWeight := w, dr_drawn := n\<rparr>"
  have w: "work d = add_mset 3 (work ?e)" using r(1) by (simp add: work_def)
  have "work (primeResults d) = work ?e \<or> (\<exists>f. work f = work ?e \<and> primeResults d = lookupHost (srv_target s) f)"
    using False r(2) b(2) by (cases "isSupportedProtocol (srv_transport s) (dr_iface (transition Pending ?e))")
      (simp add: primeResults_def Let_def dr_assert_def, rule disjI2, rule exI, rule conjI [rotated], rule refl,
        simp_all add: primeResults_def Let_def same_work dr_assert_def)
  then have "adds 3 ?e (primeResults d)" using adds_same adds_host [of _ ?e 3] by auto
  then show ?thesis using adds_strict w order.strict_implies_order by blast
qed

lemma available_work: "dr_inv d \<Longrightarrow> dr_type d \<noteq> Destroyed \<Longrightarrow> work (snd (available d)) \<le> work d"
  by (simp add: available_eq Let_def primeResults_work idle_between)

lemma next_work:
  assumes "dr_inv d" "dr_type d \<noteq> Destroyed" "fst (available d) = Available" shows "work (snd (next_target d)) < work d"
proof -
  let ?d = "snd (available d)"
  obtain path where e: "next_target d = (hd (mResults ?d), ?d\<lparr>mLastResult := hd (mResults ?d), mResults := tl (mResults ?d),
      mCurrentPath := path, mLastReturnedPath := path, mHaveReturnedResults := True\<rparr>)" using next_target_eq [OF assms] by blast
  obtain t ts where "mResults ?d = t # ts" using available_target [OF assms(2,3)] by (cases "mResults ?d") auto
  then have "work ?d = add_mset 0 (work (snd (next_target d)))" unfolding e by (simp add: work_def)
  then have "work (snd (next_target d)) < work ?d" by (rule adds_strict [OF adds_refl])
  then show ?thesis using available_work [OF assms(1,2)] by (rule less_le_trans)
qed

text \<open>The steps that make progress: answers and targets taken.\<close>

inductive dns_progress :: "DnsResult \<Rightarrow> DnsResult \<Rightarrow> bool" where
  answered: "i < length (dr_queries d) \<Longrightarrow> fits (dr_queries d ! i) r \<Longrightarrow> reply_ok d r \<Longrightarrow> dns_progress d (answer i r d)"
| taken: "\<not> dr_deleted d \<Longrightarrow> dr_type d \<noteq> Destroyed \<Longrightarrow> fst (available d) = Available \<Longrightarrow> dns_progress d (snd (next_target d))"

lemma progress_step: "dns_progress d d' \<Longrightarrow> dns_step d d'"
  by (induction rule: dns_progress.induct) (auto intro: dns_step.intros)

lemma progress_work: "dns_progress d d' \<Longrightarrow> dr_inv d \<Longrightarrow> work d' < work d"
  by (induction rule: dns_progress.induct) (auto intro: answer_work next_work)

lemma step_work: "dns_step d d' \<Longrightarrow> dr_inv d \<Longrightarrow> work d' \<le> work d"
proof (induction rule: dns_step.induct)
  case (executed d c cs)
  then show ?case by (cases c) (simp_all add: execute_defs same_work)
qed (auto simp: same_work markLast_def whitelistLast_def Let_def intro: less_imp_le answer_work next_work available_work)

text \<open>No run makes progress for ever.\<close>

lemma finitely_much_progress:
  assumes "dns_reachable (f 0)" "\<And>i. dns_step (f i) (f (Suc i))" shows "\<exists>n. \<forall>i\<ge>n. \<not> dns_progress (f i) (f (Suc i))"
proof -
  have "dns_reachable (f i)" for i by (induction i) (auto intro: assms dns_reachable.step)
  then have inv: "dr_inv (f i)" for i using dns_reachable_inv by blast
  have down: "work (f (i + k)) \<le> work (f i)" for i k
    by (induction k) (auto intro: order_trans step_work [OF assms(2) inv])
  have "wfp ((<) :: nat multiset \<Rightarrow> nat multiset \<Rightarrow> bool)" by simp
  then obtain m where m: "m \<in> range (work \<circ> f)" "\<And>y. y < m \<Longrightarrow> y \<notin> range (work \<circ> f)"
    using wfp_eq_minimal [THEN iffD1, rule_format, of "(<)" "(work \<circ> f) 0" "range (work \<circ> f)"] by blast
  then obtain n where n: "m = work (f n)" by auto
  have "\<not> dns_progress (f i) (f (Suc i))" if "i \<ge> n" for i
  proof
    assume "dns_progress (f i) (f (Suc i))"
    then have "work (f (Suc i)) < work (f i)" using progress_work inv by blast
    also have "work (f i) \<le> m" using down [of n "i - n"] that n by simp
    finally show False using m(2) by auto
  qed
  then show ?thesis by blast
qed

end
