(* ===== verification/DnsResTold.thy ===== *)
theory DnsResTold
  imports DnsResSteps
begin

text \<open>When the handler of a DNS lookup is told.\<close>

section \<open>The start of a lookup\<close>

text \<open>The answer that resolves a lookup tells the handler, once; the others do not.\<close>

definition told :: "DnsResult \<Rightarrow> DnsResult \<Rightarrow> bool" where
  "told d d' \<longleftrightarrow> filter (\<lambda>c. c = Handle) (dr_calls d') =
     filter (\<lambda>c. c = Handle) (dr_calls d) @ (if dr_type d' = Pending then [] else [Handle])"

lemma lookupHost_told: "dr_type d = Pending \<Longrightarrow> dr_calls d = dr_calls c \<Longrightarrow> told c (lookupHost h d)"
  by (simp add: told_def lookupHost_def ask_dns_def dr_assert_def)

lemma ask_told: "dr_type d = Pending \<Longrightarrow> dr_calls d = dr_calls c \<Longrightarrow> told c (ask_dns q d) \<and> told c (ask_srv n d)"
  by (simp add: told_def ask_dns_def ask_srv_def)

lemma offer_told: "dr_calls d = dr_calls c \<Longrightarrow> t \<noteq> Pending \<Longrightarrow> told c (call_handler (transition t d))"
  by (simp add: told_def call_handler_def transition_def dr_assert_def)

lemma get_mark_calls: "get_mark t d = (m, e) \<Longrightarrow> dr_calls e = dr_calls d \<and> dr_type e = dr_type d"
  by (auto simp: get_mark_def split: prod.splits)

lemma lookup_transport_told: "dr_type d = Pending \<Longrightarrow> told d (lookup_transport t uri d)"
proof -
  assume p: "dr_type d = Pending"
  let ?d = "d\<lparr>dr_transport := t, mHaveChosenTransport := True\<rparr>"
  let ?n = "?d\<lparr>dr_port := getDefaultPort t (u_port uri) ?d\<rparr>"
  obtain m e where m: "get_mark (numeric_tuple ?n) ?n = (m, e)" by fastforce
  then have "told d (call_handler (transition Available (e\<lparr>mResults := mResults e @ [numeric_tuple e]\<rparr>)))"
    "told d (call_handler (transition Available e))" using get_mark_calls [OF m] by (auto intro!: offer_told)
  moreover have "told d (no_support ?d)" "told d (no_support (?d\<lparr>dr_transport := x\<rparr>))" for x by (simp_all add: no_support_def offer_told)
  moreover have "told d (lookupHost h (?d\<lparr>dr_port := q\<rparr>))" for h q using p by (intro lookupHost_told) simp_all
  moreover have "told d (srv_or_host q uri e)" if "dr_type e = Pending" "dr_calls e = dr_calls d" for q e
    using that ask_told [of e d] by (auto simp: srv_or_host_def intro!: lookupHost_told)
  then have "told d (srv_or_host q uri ?d)" "told d (srv_or_host q uri (?d\<lparr>dr_transport := x\<rparr>))" for q x using p by simp_all
  ultimately show ?thesis using m by (simp add: lookup_transport_def Let_def)
qed

lemma probe_calls: "dr_calls (snd (snd (probe t uri d))) = dr_calls d \<and> dr_type (snd (snd (probe t uri d))) = dr_type d"
  by (auto simp: probe_def Let_def case_prod_beta get_mark_def)

lemma probe_if_calls: "dr_calls (snd (snd (probe_if t uri s))) = dr_calls (snd (snd s))"
  by (cases s) (simp add: probe_if_def probe_calls)

lemma probe_back_calls: "dr_calls (snd (snd (probe_back uri s))) = dr_calls (snd (snd s))"
  by (cases s) (simp add: probe_back_def probe_calls)

lemma lookup_numeric_told: "told d (lookup_numeric uri d)"
proof -
  let ?s = "(no_tuple, BLACK, d)"
  define s where "s = (if mSips d then probe_if TLS uri ?s
    else let s = probe_if UDP uri ?s in if mUdpOnlyOnNumeric (dr_iface d) then s else probe_back uri (probe_if TLS uri (probe_if TCP uri s)))"
  obtain t m e where s: "s = (t, m, e)" by (metis prod_cases3)
  have "dr_calls (snd (snd s)) = dr_calls d" unfolding s_def Let_def by (simp add: probe_if_calls probe_back_calls)
  then have "dr_calls e = dr_calls d" using s by simp
  then show ?thesis unfolding lookup_numeric_def Let_def s_def [unfolded Let_def, symmetric] s
    by (auto intro!: offer_told simp: dr_assert_def)
qed

lemma lookupInternal_told:
  assumes "at_start d" "uri_ok (dr_iface d) (dr_supportedType d) uri" shows "told d (lookupInternal uri d)"
proof -
  let ?d = "d\<lparr>mSips := is_sips uri, dr_target := lookup_target uri\<rparr>"
  have p: "dr_type d = Pending" using assms(1) by (simp add: at_start_def)
  have same: "told ?d x = told d x" for x by (simp add: told_def)
  have "told d (lookup_transport t uri ?d)" "told d (lookup_numeric uri ?d)" for t
    using lookup_transport_told [of ?d t uri] lookup_numeric_told [of ?d uri] p same by auto
  moreover have "told d (lookup_name uri ?d)" if "preferred_transport (is_sips uri) (dr_iface d) \<noteq> UNKNOWN_TRANSPORT"
    using that p by (auto simp: lookup_name_def Let_def intro!: lookupHost_told)
  moreover have "told d (ask_dns q ?d)" for q using ask_told p by auto
  ultimately show ?thesis using assms(2) by (auto simp: lookupInternal_def uri_ok_def Let_def split: option.splits)
qed

lemma told_pending: "dr_type d' = Pending \<Longrightarrow> dr_calls d' = dr_calls d \<Longrightarrow> told d d'"
  by (simp add: told_def)

lemma lookupInternalWithEnum_told:
  assumes "at_start d" "uri_ok (dr_iface d) (dr_supportedType d) uri" shows "told d (lookupInternalWithEnum uri d)"
proof -
  have s: "dr_type d = Pending" "mDoingEnum d = 0" using assms(1) by (simp_all add: at_start_def)
  then have d0: "d\<lparr>mDoingEnum := 0\<rparr> = d" by simp
  have "told d (ask_enums names (d\<lparr>mInputUri := u, mDoingEnum := n\<rparr>))" for names u n
    using s by (intro told_pending) (simp_all add: ask_enums_eq)
  then show ?thesis using lookupInternal_told [OF assms] s(1) d0
    by (auto simp: lookupInternalWithEnum_def Let_def dr_assert_def getEnumLookups_def)
qed

lemma primeResults_told:
  assumes "between d" "dr_type d = Pending" "mResults d = []" "mGreylistedTuples d = []" shows "told d (primeResults d)"
proof (cases "mSRVResults d = []")
  case True
  then show ?thesis using assms by (simp add: primeResults_def Let_def dr_assert_def offer_told)
next
  case False
  have "mSRVCount d = 0" "\<forall>s\<in>set (mSRVResults d). srv_good d s" "cum_ok (mSRVResults d) (mCumulativeWeight d)"
    using assms(1) by (auto simp: between_def base_ok_def)
  then obtain pre s post w n where r: "mSRVResults d = pre @ s # post"
    "retrieveSRV d = (s, d\<lparr>mSRVResults := pre @ post, mCumulativeWeight := w, dr_drawn := n\<rparr>)"
    using retrieveSRV_spec [OF False] by metis
  have "isSupportedProtocol (srv_transport s) (dr_iface d)" using assms(1) r(1) by (simp add: between_def base_ok_def srv_good_def)
  then show ?thesis using False r(2) assms(2,3)
    by (auto simp: primeResults_def Let_def dr_assert_def transition_def intro!: lookupHost_told)
qed

section \<open>Answers\<close>

lemma call_told: "dr_calls d' = dr_calls d \<Longrightarrow> dr_type d' \<noteq> Pending \<Longrightarrow> told d (call_handler d')"
  by (simp add: told_def call_handler_def)

lemma onHostResult_told:
  assumes "dr_type d = Pending" "mSRVCount d = 0" "isSupportedProtocol (dr_transport d) (dr_iface d)" shows "told d (onHostResult status addrs d)"
  using onHostResult_eq [OF assms(3,1,2), of status addrs] by (elim exE) (erule ssubst, rule call_told, simp_all)

lemma onAAAAResult_told:
  assumes "dr_type d = Pending" shows "told d (onAAAAResult status addrs d)"
  using add_hosts_found [of status addrs d] assms by (auto simp: onAAAAResult_def told_def ask_dns_def)

lemma fall_back_calls: "dr_calls (fall_back d) = dr_calls d"
  by (simp add: fall_back_def)

lemma told_trans: "dr_calls e = dr_calls d \<Longrightarrow> told e d' \<Longrightarrow> told d d'"
  by (simp add: told_def)

lemma srv_continue_told:
  assumes "between d" "dr_type d = Pending" "mResults d = []" "mGreylistedTuples d = []" "mCumulativeWeight d = 0"
  shows "told d (if mSRVResults d = [] then
      let d = fall_back d
      in if isSupportedProtocol (dr_transport d) (dr_iface d) then lookupHost (dr_target d) d else primeResults d
    else primeResults (d\<lparr>mSRVResults := srv_sort (mSRVResults d)\<rparr>))"
proof (cases "mSRVResults d = []")
  case True
  then have b: "between (fall_back d)" using assms(1) fall_back_between by blast
  have "mGreylistedTuples (fall_back d) = []" using assms(4) by (simp add: fall_back_def)
  then have "told (fall_back d) (primeResults (fall_back d))" using b assms by (intro primeResults_told) (simp_all add: fall_back_frame)
  then have "told d (primeResults (fall_back d))" by (rule told_trans [rotated]) (simp add: fall_back_calls)
  moreover have "told d (lookupHost h (fall_back d))" for h using assms(2) by (intro lookupHost_told) (simp_all add: fall_back_frame fall_back_calls)
  ultimately show ?thesis using True by (simp add: Let_def)
next
  case False
  let ?e = "d\<lparr>mSRVResults := srv_sort (mSRVResults d)\<rparr>"
  have "between ?e" using assms by (auto simp: between_def base_ok_def srv_good_def cum_ok_def)
  then have "told ?e (primeResults ?e)" using assms by (intro primeResults_told) simp_all
  then show ?thesis using False by (auto intro: told_trans [rotated])
qed

lemma onSrvResult_told:
  assumes "base_ok d" "dr_type d = Pending" "mDoingEnum d = 0" "mSRVCount d = int (length (dr_queries d)) + 1"
    "mResults d = []" "mGreylistedTuples d = []" "mCumulativeWeight d = 0" "\<forall>r\<in>set records. srv_admissible (dr_iface d) r"
  shows "told d (onSrvResult status records d)"
proof -
  let ?d = "d\<lparr>mSRVCount := mSRVCount d - 1\<rparr>"
  obtain ss where s: "(if status = 0 then fold add_srv records ?d else ?d) = ?d\<lparr>mSRVResults := mSRVResults d @ ss\<rparr>" "\<forall>s\<in>set ss. srv_good ?d s"
    using added_srvs [of records ?d status] assms(8) by auto
  let ?e = "?d\<lparr>mSRVResults := mSRVResults d @ ss\<rparr>"
  have e: "base_ok ?e" using assms(1,7) s(2) by (auto simp: base_ok_def srv_good_def cum_ok_def)
  have eq: "onSrvResult status records d = (if mSRVCount d = 1 then (if mSRVResults ?e = [] then
        let d = fall_back ?e
        in if isSupportedProtocol (dr_transport d) (dr_iface d) then lookupHost (dr_target d) d else primeResults d
      else primeResults (?e\<lparr>mSRVResults := srv_sort (mSRVResults ?e)\<rparr>)) else ?e)"
    using onSrvResult_eq [OF _ _ s(1)] assms(2,4) by simp
  show ?thesis
  proof (cases "mSRVCount d = 1")
    case True
    then have "between ?e" using e assms by (simp add: between_def)
    then have "told ?e (onSrvResult status records d)" unfolding eq if_P [OF True] using assms by (intro srv_continue_told) simp_all
    then show ?thesis by (rule told_trans [rotated]) simp
  next
    case False then show ?thesis unfolding eq using assms(2) by (simp add: told_def)
  qed
qed

lemma onNaptr_told:
  assumes "dr_type d = Pending" shows "told d (onNaptr status records d)"
proof -
  have "dr_type (ask_srv_if t p e) = dr_type e" "dr_calls (ask_srv_if t p e) = dr_calls e" for t p e
    by (simp_all add: ask_srv_if_def ask_srv_def ask_dns_def)
  then have "told d (naptr_failed d)" using assms ask_told [of d d]
    by (auto simp: naptr_failed_def no_support_def intro: offer_told told_pending)
  moreover have "told d (fold follow_naptr rs (transition Pending d))" for rs
    using naptr_frames [of rs "transition Pending d"] assms by (auto simp: told_def transition_def dr_assert_def)
  ultimately show ?thesis using assms by (simp add: onNaptr_def onNaptrResult_def Let_def)
qed

text \<open>An ENUM answer may rewrite the request before the handler is told.\<close>

lemma onEnumResult_told:
  assumes "base_ok d" "untouched d" "dr_type d = Pending" "mDoingEnum d = Suc (length (dr_queries d))"
    and u: "uri_ok (dr_iface d) (dr_supportedType d) (mInputUri d)"
      "list_all (\<lambda>(k, u). uri_ok (dr_iface d) (dr_supportedType d) u) (mEnumDestinations d)"
      "\<forall>n\<in>set records. \<forall>u. n_regex n (mInputUri d) = Some u \<longrightarrow> uri_ok (dr_iface d) (dr_supportedType d) u"
  shows "told d (onEnumResult status records order d)"
proof -
  note es = enum_destinations_ok [OF u, of status order] and eq = onEnumResult_eq [OF assms(4), of status records order]
  let ?d = "d\<lparr>mDoingEnum := mDoingEnum d - 1, mEnumDestinations := enum_destinations status records order d\<rparr>"
  show ?thesis
  proof (cases "dr_queries d = []")
    case True
    then have s: "at_start ?d" using assms by (simp add: at_start_def untouched_def base_ok_def srv_good_def)
    have same: "told ?d x = told d x" "told (?d\<lparr>dr_calls := dr_calls d @ [RewriteRequest u]\<rparr>) x = told d x" for x u by (simp_all add: told_def)
    have l: "told d (lookupInternal uri ?d)" "told d (lookupInternal uri (?d\<lparr>dr_calls := dr_calls d @ [RewriteRequest u]\<rparr>))"
      if "uri_ok (dr_iface d) (dr_supportedType d) uri" for uri u
      using lookupInternal_told [of ?d uri] lookupInternal_told [of "?d\<lparr>dr_calls := dr_calls d @ [RewriteRequest u]\<rparr>" uri] s that same by simp_all
    show ?thesis unfolding eq using True es u(1) l by (auto split: list.split)
  next
    case False
    then show ?thesis unfolding eq using assms(3) by (auto simp: told_def)
  qed
qed

lemma answer_told:
  assumes "dr_inv d" "dr_type d = Pending" "i < length (dr_queries d)" "fits (dr_queries d ! i) r" "reply_ok d r"
  shows "told d (answer i r d)"
proof -
  let ?e = "remove_query i d"
  obtain p where b: "base_ok d" and p: "in_phase p d" using assms(1) by (auto simp: dr_inv_def)
  have "told ?e (answer i r d)"
  proof (cases p)
    case Idle then show ?thesis using p assms(2) by simp
  next
    case Starting
    then obtain uri where q: "dr_queries d = [LookupQ uri]" "uri_ok (dr_iface d) (dr_supportedType d) uri" using p by auto
    have "at_start ?e" using p b Starting assms(2,3) q(1) by (simp add: at_start_def untouched_def waiting_def)
    then show ?thesis using q assms(3,4) lookupInternalWithEnum_told [of ?e uri] by (cases r) (auto simp: answer_def)
  next
    case Enums
    then have q: "list_all is_enum_query (dr_queries d)" using p by simp
    then obtain k n where "dr_queries d ! i = EnumQ k n" using remaining_queries(3) [OF assms(3) q] by (cases "dr_queries d ! i") auto
    moreover from this obtain st rs where "r = NaptrReply st rs" using assms(4) by (cases r) auto
    moreover have "told ?e (onEnumResult st rs k ?e)"
      by (rule onEnumResult_told) (use p b assms(5) Enums remaining_queries(2) [OF assms(3) q] \<open>r = _\<close> in auto)
    ultimately show ?thesis by (simp add: answer_def)
  next
    case Naptrs
    then obtain n where "dr_queries d = [NaptrQ n]" using p by auto
    then show ?thesis using assms(2-4) onNaptr_told [of ?e] by (cases r) (auto simp: answer_def)
  next
    case Srvs
    then have q: "list_all is_srv_query (dr_queries d)" using p by simp
    then obtain n where "dr_queries d ! i = SrvQ n" using remaining_queries(3) [OF assms(3) q] by (cases "dr_queries d ! i") auto
    moreover from this obtain st rs where "r = SrvReply st rs" using assms(4) by (cases r) auto
    moreover have "told ?e (onSrvResult st rs ?e)"
      by (rule onSrvResult_told) (use p b assms(2,5) Srvs remaining_queries(2) [OF assms(3) q] \<open>r = _\<close> in \<open>auto simp: waiting_def\<close>)
    ultimately show ?thesis by (simp add: answer_def)
  next
    case Hosts
    then obtain h where "dr_queries d = [HostQ h] \<or> dr_queries d = [AAAAQ h]" using p by auto
    then show ?thesis using p Hosts assms(2-4) onHostResult_told [of ?e] onAAAAResult_told [of ?e] by (cases r) (auto simp: answer_def)
  qed
  then show ?thesis by (simp add: told_def)
qed

end
