(* ===== verification/SipTimers.thy ===== *)
theory SipTimers
  imports SipMsg "HOL-Library.Multiset"
begin

text \<open>The timers of the SIP stack: the constants of \<^verbatim>\<open>rutil/Timer.cxx\<close> and the timer queue of
  \<^verbatim>\<open>resip/stack/TimerQueue.hxx\<close>. Times are milliseconds as natural numbers.

  The priority queue is a list ordered by expiry; among timers with the same expiry the earlier one
  comes first, where \<^verbatim>\<open>std::priority_queue\<close> leaves the order open. The theorems about the queue do not
  depend on that choice.\<close>

section \<open>The constants\<close>

record Timing =
  T1 :: nat
  T2 :: nat
  T4 :: nat
  T100 :: nat
  TB :: nat
  TC :: nat
  TF :: nat
  TH :: nat
  TD :: nat
  TS :: nat
  TcpConnectTimeout :: nat

definition default_timing :: Timing where
  "default_timing = (let t1 = 500 in
     \<lparr>T1 = t1, T2 = 8 * t1, T4 = 10 * t1, T100 = 80, TB = 64 * t1, TC = 3 * 60 * 1000, TF = 64 * t1, TH = 64 * t1,
      TD = 32000, TS = 32000, TcpConnectTimeout = 0\<rparr>)"

definition resetT1 :: "nat \<Rightarrow> Timing \<Rightarrow> Timing" where
  "resetT1 t1 tm = tm\<lparr>T1 := t1, T2 := 8 * t1, T4 := 10 * t1, TB := 64 * t1, TF := 64 * t1, TH := 64 * t1\<rparr>"

section \<open>The queue\<close>

record TransactionTimer =
  mWhen :: nat
  mType :: TimerType
  mTid :: string
  mDuration :: nat

definition new_timer :: "nat \<Rightarrow> nat \<Rightarrow> TimerType \<Rightarrow> string \<Rightarrow> TransactionTimer" where
  "new_timer now ms type tid = \<lparr>mWhen = ms + now, mType = type, mTid = tid, mDuration = ms\<rparr>"

definition push_timer :: "TransactionTimer \<Rightarrow> TransactionTimer list \<Rightarrow> TransactionTimer list" where
  "push_timer t ts = takeWhile (\<lambda>u. mWhen u \<le> mWhen t) ts @ t # dropWhile (\<lambda>u. mWhen u \<le> mWhen t) ts"

text \<open>\<^verbatim>\<open>TransactionTimerQueue::add\<close>.\<close>

definition add_timer :: "nat \<Rightarrow> TimerType \<Rightarrow> string \<Rightarrow> nat \<Rightarrow> TransactionTimer list \<Rightarrow> TransactionTimer list" where
  "add_timer now type tid ms ts = push_timer (new_timer now ms type tid) ts"

definition INT_MAX :: nat where "INT_MAX = 2147483647"

fun msTillNextTimer :: "nat \<Rightarrow> TransactionTimer list \<Rightarrow> nat" where
  "msTillNextTimer now [] = INT_MAX"
| "msTillNextTimer now (t # ts) =
     (if now > mWhen t then 0
      else let ret64 = mWhen t - now in if ret64 > INT_MAX then INT_MAX else ret64)"

text \<open>\<^verbatim>\<open>TransactionTimerQueue::processTimer\<close> and \<^verbatim>\<open>TimerQueue::process\<close>: the timers that are due go to
  the fifo.\<close>

definition timer_message :: "TransactionTimer \<Rightarrow> TransactionMessage" where
  "timer_message t = TimerMessage (mTid t) (mType t) (mDuration t)"

fun process_timers ::
  "nat \<Rightarrow> TransactionTimer list \<Rightarrow> TransactionMessage list \<Rightarrow> TransactionTimer list \<times> TransactionMessage list" where
  "process_timers now [] fifo = ([], fifo)"
| "process_timers now (t # ts) fifo =
     (if \<not> mWhen t > now then process_timers now ts (fifo @ [timer_message t]) else (t # ts, fifo))"

section \<open>Facts\<close>

definition in_order :: "TransactionTimer list \<Rightarrow> bool" where
  "in_order ts \<longleftrightarrow> sorted (map mWhen ts)"

lemma mset_push_timer [simp]: "mset (push_timer t ts) = add_mset t (mset ts)"
proof -
  have "mset (takeWhile P ts) + mset (dropWhile P ts) = mset ts" for P
    by (metis mset_append takeWhile_dropWhile_id)
  then show ?thesis by (simp add: push_timer_def)
qed

lemma set_push_timer [simp]: "set (push_timer t ts) = insert t (set ts)"
  using mset_push_timer [of t ts] by (metis set_mset_add_mset_insert set_mset_mset)

lemma in_order_dropWhile:
  assumes "in_order ts" "u \<in> set (dropWhile (\<lambda>u. mWhen u \<le> k) ts)" shows "k < mWhen u"
  using assms
proof (induction ts)
  case (Cons t ts)
  show ?case
  proof (cases "mWhen t \<le> k")
    case True then show ?thesis using Cons by (simp add: in_order_def)
  next
    case False then show ?thesis using Cons.prems by (auto simp: in_order_def)
  qed
qed simp

lemma in_order_push: "in_order ts \<Longrightarrow> in_order (push_timer t ts)"
proof (induction ts)
  case (Cons u ts)
  show ?case
  proof (cases "mWhen u \<le> mWhen t")
    case True
    then have "push_timer t (u # ts) = u # push_timer t ts" by (simp add: push_timer_def)
    moreover have "mWhen u \<le> mWhen v" if "v \<in> set (push_timer t ts)" for v
      using that True Cons.prems by (auto simp: in_order_def)
    ultimately show ?thesis using Cons by (auto simp: in_order_def)
  next
    case False
    then show ?thesis using Cons.prems by (auto simp: push_timer_def in_order_def)
  qed
qed (simp add: push_timer_def in_order_def)

lemma process_timers_split:
  "process_timers now ts fifo =
     (dropWhile (\<lambda>t. mWhen t \<le> now) ts, fifo @ map timer_message (takeWhile (\<lambda>t. mWhen t \<le> now) ts))"
  by (induction ts arbitrary: fifo) auto

lemma in_order_takeWhile:
  assumes "in_order ts" shows "takeWhile (\<lambda>t. mWhen t \<le> now) ts = filter (\<lambda>t. mWhen t \<le> now) ts"
    "dropWhile (\<lambda>t. mWhen t \<le> now) ts = filter (\<lambda>t. now < mWhen t) ts"
proof -
  have "takeWhile (\<lambda>t. mWhen t \<le> now) ts = filter (\<lambda>t. mWhen t \<le> now) ts \<and>
        dropWhile (\<lambda>t. mWhen t \<le> now) ts = filter (\<lambda>t. now < mWhen t) ts"
    using assms
  proof (induction ts)
    case (Cons t ts)
    show ?case
    proof (cases "mWhen t \<le> now")
      case False
      then have "\<forall>u \<in> set ts. now < mWhen u" using Cons.prems by (auto simp: in_order_def)
      then have "filter (\<lambda>u. now < mWhen u) ts = ts" "filter (\<lambda>u. mWhen u \<le> now) ts = []"
        by (simp_all add: filter_empty_conv not_le)
      then show ?thesis using False by simp
    qed (use Cons in \<open>simp add: in_order_def\<close>)
  qed simp
  then show "takeWhile (\<lambda>t. mWhen t \<le> now) ts = filter (\<lambda>t. mWhen t \<le> now) ts"
    "dropWhile (\<lambda>t. mWhen t \<le> now) ts = filter (\<lambda>t. now < mWhen t) ts" by blast+
qed

section \<open>The interface\<close>

text \<open>What the controller relies on: a queue holds a collection of timers, \<open>add\<close> puts one in, and \<open>fire\<close>
  takes out those that are due and appends their messages to the fifo, the earliest first.\<close>

locale timer_queue =
  fixes wf :: "'q \<Rightarrow> bool"
    and timers :: "'q \<Rightarrow> TransactionTimer multiset"
    and add :: "nat \<Rightarrow> TimerType \<Rightarrow> string \<Rightarrow> nat \<Rightarrow> 'q \<Rightarrow> 'q"
    and fire :: "nat \<Rightarrow> 'q \<Rightarrow> TransactionMessage list \<Rightarrow> 'q \<times> TransactionMessage list"
  assumes wf_add: "wf q \<Longrightarrow> wf (add now type tid ms q)"
    and timers_add: "timers (add now type tid ms q) = add_mset (new_timer now ms type tid) (timers q)"
    and fire: "wf q \<Longrightarrow> fire now q fifo = (q', fifo') \<Longrightarrow>
      wf q' \<and> timers q' = filter_mset (\<lambda>t. now < mWhen t) (timers q) \<and>
      (\<exists>due. fifo' = fifo @ map timer_message due \<and> mset due = filter_mset (\<lambda>t. mWhen t \<le> now) (timers q) \<and> sorted (map mWhen due))"
begin

text \<open>A timer that was set for \<open>ms\<close> milliseconds fires in a round at its time or later, and not before.\<close>

lemma fires_on_time:
  assumes "wf q" "fire now' (add now type tid ms q) fifo = (q', fifo')"
  shows "if now + ms \<le> now' then TimerMessage tid type ms \<in> set fifo' else new_timer now ms type tid \<in># timers q'"
proof -
  let ?t = "new_timer now ms type tid"
  obtain due where d: "fifo' = fifo @ map timer_message due" "mset due = filter_mset (\<lambda>t. mWhen t \<le> now') (add_mset ?t (timers q))"
    "timers q' = filter_mset (\<lambda>t. now' < mWhen t) (add_mset ?t (timers q))"
    using fire [OF wf_add [OF assms(1)] assms(2)] unfolding timers_add by blast
  show ?thesis
  proof (cases "now + ms \<le> now'")
    case True
    then have "?t \<in># mset due" unfolding d(2) by (simp add: new_timer_def)
    then have "timer_message ?t \<in> set fifo'" using d(1) by simp
    then show ?thesis using True by (simp add: timer_message_def new_timer_def)
  next
    case False
    then show ?thesis unfolding d(3) by (simp add: new_timer_def)
  qed
qed

end

interpretation sip_timers: timer_queue in_order mset add_timer process_timers
proof
  show "in_order q \<Longrightarrow> in_order (add_timer now type tid ms q)" for q now type tid ms by (simp add: add_timer_def in_order_push)
  show "mset (add_timer now type tid ms q) = add_mset (new_timer now ms type tid) (mset q)" for now type tid ms q
    by (simp add: add_timer_def)
  fix q now fifo q' fifo' assume q: "in_order q" and f: "process_timers now q fifo = (q', fifo')"
  have e: "q' = filter (\<lambda>t. now < mWhen t) q" "fifo' = fifo @ map timer_message (filter (\<lambda>t. mWhen t \<le> now) q)"
    using f in_order_takeWhile [OF q] by (simp_all add: process_timers_split)
  have "sorted (map mWhen (filter P q))" for P using q unfolding in_order_def by (simp add: sorted_filter)
  then show "in_order q' \<and> mset q' = filter_mset (\<lambda>t. now < mWhen t) (mset q) \<and>
      (\<exists>due. fifo' = fifo @ map timer_message due \<and> mset due = filter_mset (\<lambda>t. mWhen t \<le> now) (mset q) \<and> sorted (map mWhen due))"
    using e by (auto simp: in_order_def)
qed

end
