(* ===== verification/TuSelect.thy ===== *)
theory TuSelect
  imports SipMsg
begin

text \<open>\<^verbatim>\<open>resip/stack/TuSelector.cxx\<close>: the transaction users of a stack, the choice of one for a request and
  the delivery of messages to them. A transaction user is named by a number, its rule list is the
  predicate \<open>isForMe\<close>, and what is posted to the users is a list of pairs, \<open>None\<close> for the fallback
  fifo. A congestion manager says of every user how it rejects work.\<close>

record TuItem =
  tu_id :: nat
  shuttingDown :: bool
  regTermination :: bool
  regConnection :: bool
  regPongs :: bool
  isForMe :: "SipMessage \<Rightarrow> bool"
  tu_behavior :: RejectionBehavior
  responsesMandatory :: bool
  expectedWait :: nat

datatype ShutdownRequest = RequestShutdown nat | RemoveTransactionUser nat

record TuSelector =
  mTuList :: "TuItem list"
  mTuSelectorMode :: bool
  mCongestionManager :: "RejectionBehavior option"
  mShutdownFifo :: "ShutdownRequest list"
  posted :: "(nat option \<times> TuMessage) list"
  fallbackWait :: nat
  ts_failed :: bool

definition new_TuSelector :: TuSelector where
  "new_TuSelector = \<lparr>mTuList = [], mTuSelectorMode = False, mCongestionManager = None, mShutdownFifo = [],
     posted = [], fallbackWait = 0, ts_failed = False\<rparr>"

definition tu_find :: "nat \<Rightarrow> TuSelector \<Rightarrow> TuItem option" where
  "tu_find u ts = find (\<lambda>i. tu_id i = u) (mTuList ts)"

definition tu_exists :: "nat \<Rightarrow> TuSelector \<Rightarrow> bool" where
  "tu_exists u ts \<longleftrightarrow> tu_find u ts \<noteq> None"

text \<open>\<^verbatim>\<open>TuSelector::add(Message*)\<close>; a message to a user that is gone is dropped.\<close>

definition tu_add :: "nat option \<Rightarrow> TuMessage \<Rightarrow> TuSelector \<Rightarrow> TuSelector" where
  "tu_add tu msg ts =
     (case tu of
        Some u \<Rightarrow> if tu_exists u ts then ts\<lparr>posted := posted ts @ [(Some u, msg)]\<rparr> else ts
      | None \<Rightarrow> ts\<lparr>posted := posted ts @ [(None, msg)]\<rparr>)"

text \<open>The broadcasts \<^verbatim>\<open>add(ConnectionTerminated*)\<close> and \<^verbatim>\<open>add(KeepAlivePong*)\<close>.\<close>

definition tu_broadcast :: "(TuItem \<Rightarrow> bool) \<Rightarrow> TuMessage \<Rightarrow> TuSelector \<Rightarrow> TuSelector" where
  "tu_broadcast registered msg ts = ts\<lparr>posted := posted ts @
     map (\<lambda>i. (Some (tu_id i), msg)) (filter (\<lambda>i. \<not> shuttingDown i \<and> registered i) (mTuList ts))\<rparr>"

definition registerTransactionUser :: "TuItem \<Rightarrow> bool \<Rightarrow> TuSelector \<Rightarrow> TuSelector" where
  "registerTransactionUser i front ts =
     ts\<lparr>mTuSelectorMode := True,
        mTuList := (if front then i\<lparr>shuttingDown := False\<rparr> # mTuList ts else mTuList ts @ [i\<lparr>shuttingDown := False\<rparr>])\<rparr>"

definition selectTransactionUser :: "SipMessage \<Rightarrow> TuSelector \<Rightarrow> nat option" where
  "selectTransactionUser msg ts = map_option tu_id (find (\<lambda>i. isForMe i msg) (mTuList ts))"

text \<open>The first item of a user.\<close>

fun on_first :: "nat \<Rightarrow> (TuItem \<Rightarrow> TuItem list) \<Rightarrow> TuItem list \<Rightarrow> TuItem list" where
  "on_first u f [] = []"
| "on_first u f (i # is) = (if tu_id i = u then f i @ is else i # on_first u f is)"

definition markShuttingDown :: "nat \<Rightarrow> TuSelector \<Rightarrow> TuSelector" where
  "markShuttingDown u ts =
     (if tu_exists u ts then ts\<lparr>mTuList := on_first u (\<lambda>i. [i\<lparr>shuttingDown := True\<rparr>]) (mTuList ts)\<rparr>
      else ts\<lparr>ts_failed := True\<rparr>)"

definition tu_remove :: "nat \<Rightarrow> TuSelector \<Rightarrow> TuSelector" where
  "tu_remove u ts =
     (if tu_exists u ts
      then ts\<lparr>posted := posted ts @ [(Some u, TransactionUserRemoved)],
              mTuList := on_first u (\<lambda>i. []) (mTuList ts)\<rparr>
      else ts\<lparr>ts_failed := True\<rparr>)"

definition requestTransactionUserShutdown :: "nat \<Rightarrow> TuSelector \<Rightarrow> TuSelector" where
  "requestTransactionUserShutdown u ts = ts\<lparr>mShutdownFifo := mShutdownFifo ts @ [RequestShutdown u]\<rparr>"

definition unregisterTransactionUser :: "nat \<Rightarrow> TuSelector \<Rightarrow> TuSelector" where
  "unregisterTransactionUser u ts = ts\<lparr>mShutdownFifo := mShutdownFifo ts @ [RemoveTransactionUser u]\<rparr>"

text \<open>\<^verbatim>\<open>TuSelector::process\<close> takes one message.\<close>

definition tu_process :: "TuSelector \<Rightarrow> TuSelector" where
  "tu_process ts =
     (case mShutdownFifo ts of
        [] \<Rightarrow> ts
      | RequestShutdown u # ms \<Rightarrow> markShuttingDown u (ts\<lparr>mShutdownFifo := ms\<rparr>)
      | RemoveTransactionUser u # ms \<Rightarrow> tu_remove u (ts\<lparr>mShutdownFifo := ms\<rparr>))"

definition isTransactionUserStillRegistered :: "nat option \<Rightarrow> TuSelector \<Rightarrow> bool" where
  "isTransactionUserStillRegistered tu ts \<longleftrightarrow>
     mTuSelectorMode ts \<and> list_ex (\<lambda>i. \<not> shuttingDown i \<and> Some (tu_id i) = tu) (mTuList ts)"

text \<open>\<^verbatim>\<open>setCongestionManager\<close> tells the users of the manager and leaves the selector's own pointer
  alone.\<close>

definition setCongestionManager :: "(nat \<Rightarrow> RejectionBehavior) \<Rightarrow> TuSelector \<Rightarrow> TuSelector" where
  "setCongestionManager manager ts =
     ts\<lparr>mTuList := map (\<lambda>i. i\<lparr>tu_behavior := manager (tu_id i)\<rparr>) (mTuList ts)\<rparr>"

definition getRejectionBehavior :: "nat option \<Rightarrow> TuSelector \<Rightarrow> RejectionBehavior" where
  "getRejectionBehavior tu ts =
     (case mCongestionManager ts of
        None \<Rightarrow> NORMAL
      | Some fallback \<Rightarrow>
          (case tu of
             None \<Rightarrow> fallback
           | Some u \<Rightarrow> (case tu_find u ts of Some i \<Rightarrow> tu_behavior i | None \<Rightarrow> NORMAL)))"

definition getExpectedWait :: "nat option \<Rightarrow> TuSelector \<Rightarrow> nat" where
  "getExpectedWait tu ts =
     (case tu of None \<Rightarrow> fallbackWait ts
      | Some u \<Rightarrow> (case tu_find u ts of Some i \<Rightarrow> expectedWait i | None \<Rightarrow> 0))"

section \<open>Histories\<close>

text \<open>The public operations, and the selectors that they build from the constructor on.\<close>

inductive tu_step :: "TuSelector \<Rightarrow> TuSelector \<Rightarrow> bool" where
  register: "tu_step ts (registerTransactionUser i front ts)"
| add: "tu_step ts (tu_add tu msg ts)"
| broadcast: "tu_step ts (tu_broadcast reg msg ts)"
| request: "tu_step ts (requestTransactionUserShutdown u ts)"
| unregister: "tu_step ts (unregisterTransactionUser u ts)"
| process: "tu_step ts (tu_process ts)"
| congestion: "tu_step ts (setCongestionManager manager ts)"

inductive tu_history :: "TuSelector \<Rightarrow> bool" where
  start: "tu_history new_TuSelector"
| step: "tu_history ts \<Longrightarrow> tu_step ts ts' \<Longrightarrow> tu_history ts'"

lemma tu_step_manager: "tu_step ts ts' \<Longrightarrow> mCongestionManager ts' = mCongestionManager ts"
  by (induction rule: tu_step.induct)
     (auto simp: registerTransactionUser_def tu_add_def tu_broadcast_def
        requestTransactionUserShutdown_def unregisterTransactionUser_def tu_process_def markShuttingDown_def
        tu_remove_def setCongestionManager_def split: option.splits list.splits ShutdownRequest.splits)

lemma tu_history_no_manager: "tu_history ts \<Longrightarrow> mCongestionManager ts = None"
  by (induction rule: tu_history.induct) (auto simp: new_TuSelector_def dest: tu_step_manager)

end
