(* ===== verification/TransState.thy ===== *)
theory TransState
  imports SipTimers TuSelect
begin

text \<open>The state of the SIP transaction layer (\<^verbatim>\<open>resip/stack/TransactionState.hxx\<close>,
  \<^verbatim>\<open>TransactionController.hxx\<close>, \<^verbatim>\<open>TransactionMap.cxx\<close>) and the operations that the transaction state
  machines share: sending, delivery to the transaction user, termination, transport failure and DNS.

  A \<^verbatim>\<open>TransactionState\<close> is a value; \<open>delete this\<close> is the result \<open>None\<close>. What the components below the
  transaction layer answer (whether \<^verbatim>\<open>TransportSelector::transmit\<close> finds a transport, what
  \<^verbatim>\<open>DnsResult::primeResults\<close> comes up with, the random tag of a response) is read from \<open>ct_oracle\<close>, one
  answer per call; what is asked of them is recorded in \<open>ct_out\<close>. The transport selector fills in the
  topmost Via and the Contact of a message it sends; these changes are not modelled. A failed
  \<^verbatim>\<open>resip_assert\<close>, a null pointer that is followed and a loop that does not end set \<open>ct_failed\<close>. The
  counters of the statistics manager are left out.\<close>

section \<open>Transactions\<close>

datatype Machine =
  ClientNonInvite | ClientInvite | ServerNonInvite | ServerInvite | ClientStale | ServerStale | Stateless

datatype State = Calling | Trying | Proceeding | Completed | Confirmed | Terminated | Bogus

datatype PendingOperation = NoOperation | Dns

text \<open>What a \<^verbatim>\<open>DnsResult\<close> has left to offer: an unfinished query, the targets it has found and not used
  yet, or nothing.\<close>

datatype DnsView = DnsPending | DnsTargets "Tuple list" | DnsFinished

type_synonym SendData = "SipMessage \<times> Tuple"

record TransactionState =
  mMachine :: Machine
  mState :: State
  mIsAbandoned :: bool
  mPendingCancelReasons :: "string list option"
  mIsReliable :: bool
  mNextTransmission :: "SipMessage option"
  mMsgToRetransmit :: "SendData option"
  mDnsResult :: "DnsView option"
  mTarget :: Tuple
  mResponseTarget :: Tuple
  mOriginalContact :: "NameAddr option"
  mOriginalVia :: "Via option"
  mId :: string
  mMethod :: MethodTypes
  mMethodText :: "string option"
  mCurrentMethodType :: MethodTypes
  mCurrentResponseCode :: int
  mAckIsValid :: bool
  mPendingOperation :: PendingOperation
  mTransactionUser :: "nat option"
  mFailureReason :: FailureReason
  mFailureSubCode :: int
  mTcpConnectTimerStarted :: bool

definition new_TransactionState ::
  "Machine \<Rightarrow> State \<Rightarrow> string \<Rightarrow> MethodTypes \<Rightarrow> string \<Rightarrow> nat option \<Rightarrow> TransactionState" where
  "new_TransactionState m s tid meth methodText tu =
     \<lparr>mMachine = m, mState = s, mIsAbandoned = False, mPendingCancelReasons = None, mIsReliable = True,
      mNextTransmission = None, mMsgToRetransmit = None, mDnsResult = None, mTarget = no_tuple,
      mResponseTarget = no_tuple, mOriginalContact = None, mOriginalVia = None, mId = tid, mMethod = meth,
      mMethodText = (if meth = UNKNOWN then Some methodText else None), mCurrentMethodType = UNKNOWN,
      mCurrentResponseCode = 0, mAckIsValid = False, mPendingOperation = NoOperation, mTransactionUser = tu,
      mFailureReason = NoFailure, mFailureSubCode = 0, mTcpConnectTimerStarted = False\<rparr>"

fun machine_isClient :: "Machine \<Rightarrow> bool" where
  "machine_isClient ServerNonInvite = False"
| "machine_isClient ServerInvite = False"
| "machine_isClient ServerStale = False"
| "machine_isClient _ = True"

definition isClient :: "TransactionState \<Rightarrow> bool" where
  "isClient s = machine_isClient (mMachine s)"

section \<open>The controller\<close>

record Answer =
  a_transmit :: "FailureReason option"
  a_dns :: DnsView
  a_tag :: string

datatype Output =
    Transmit SipMessage Tuple
  | Retransmit SendData
  | DnsResolve string
  | DnsDestroy string
  | GreylistLast string nat
  | BlacklistLast string nat
  | WhitelistLast string
  | FlowTerminated Tuple
  | FlowTimerEnabled Tuple
  | TransportAdded nat
  | TransportRemoved nat
  | SocketFuncInvoked TransportType
  | StatisticsZeroed
  | StatisticsPolled

record Controller =
  mClientTransactionMap :: "string \<rightharpoonup> TransactionState"
  mServerTransactionMap :: "string \<rightharpoonup> TransactionState"
  mTimers :: "TransactionTimer list"
  mTimerFifo :: "TransactionMessage list"
  mStateMacFifo :: "TransactionMessage list"
  mTuSelector :: TuSelector
  mDiscardStrayResponses :: bool
  mFixBadDialogIdentifiers :: bool
  mFixBadCSeqNumbers :: bool
  mShuttingDown :: bool
  mHostname :: string
  StatelessIdCounter :: nat
  ct_behavior :: RejectionBehavior
  ct_expectedWait :: nat
  ct_timing :: Timing
  ct_greylist :: nat
  ct_outboundVersion :: nat
  ct_now :: nat
  ct_oracle :: "nat \<Rightarrow> Answer"
  ct_asked :: nat
  ct_out :: "Output list"
  ct_failed :: bool

definition emit :: "Output \<Rightarrow> Controller \<Rightarrow> Controller" where
  "emit e c = c\<lparr>ct_out := ct_out c @ [e]\<rparr>"

definition resip_assert :: "bool \<Rightarrow> Controller \<Rightarrow> Controller" where
  "resip_assert b c = (if b then c else c\<lparr>ct_failed := True\<rparr>)"

definition ask :: "Controller \<Rightarrow> Answer \<times> Controller" where
  "ask c = (ct_oracle c (ct_asked c), c\<lparr>ct_asked := Suc (ct_asked c)\<rparr>)"

definition timers_add :: "TimerType \<Rightarrow> string \<Rightarrow> nat \<Rightarrow> Controller \<Rightarrow> Controller" where
  "timers_add type tid ms c = c\<lparr>mTimers := add_timer (ct_now c) type tid ms (mTimers c)\<rparr>"

definition fifo_add :: "TransactionMessage \<Rightarrow> Controller \<Rightarrow> Controller" where
  "fifo_add m c = c\<lparr>mStateMacFifo := mStateMacFifo c @ [m]\<rparr>"

section \<open>\<open>TransactionMap\<close>\<close>

definition tmap :: "bool \<Rightarrow> Controller \<Rightarrow> string \<rightharpoonup> TransactionState" where
  "tmap client c = (if client then mClientTransactionMap c else mServerTransactionMap c)"

definition set_tmap :: "bool \<Rightarrow> (string \<rightharpoonup> TransactionState) \<Rightarrow> Controller \<Rightarrow> Controller" where
  "set_tmap client m c =
     (if client then c\<lparr>mClientTransactionMap := m\<rparr> else c\<lparr>mServerTransactionMap := m\<rparr>)"

text \<open>The effect of the destructor on the other components.\<close>

definition destructed :: "TransactionState \<Rightarrow> Controller \<Rightarrow> Controller" where
  "destructed s c = (case mDnsResult s of None \<Rightarrow> c | Some _ \<Rightarrow> emit (DnsDestroy (mId s)) c)"

text \<open>\<^verbatim>\<open>TransactionState::add\<close> and \<^verbatim>\<open>TransactionMap::add\<close>: another transaction under the same key is
  deleted.\<close>

definition tmap_add :: "TransactionState \<Rightarrow> Controller \<Rightarrow> Controller" where
  "tmap_add s c =
     (let m = tmap (isClient s) c;
          c = (case m (mId s) of None \<Rightarrow> c | Some old \<Rightarrow> destructed old c)
      in set_tmap (isClient s) (m(mId s \<mapsto> s)) c)"

text \<open>What a member function leaves of its transaction: the changed object, or nothing after
  \<open>delete this\<close>.\<close>

definition leave :: "TransactionState \<Rightarrow> TransactionState option \<times> Controller \<Rightarrow> Controller" where
  "leave s r = set_tmap (isClient s) ((tmap (isClient s) (snd r))(mId s := fst r)) (snd r)"

definition delete_this :: "TransactionState \<times> Controller \<Rightarrow> TransactionState option \<times> Controller" where
  "delete_this = (\<lambda>(s, c). (None, destructed s c))"

definition stay :: "TransactionState \<times> Controller \<Rightarrow> TransactionState option \<times> Controller" where
  "stay = (\<lambda>(s, c). (Some s, c))"

section \<open>Sending\<close>

definition resetNextTransmission :: "SipMessage option \<Rightarrow> TransactionState \<Rightarrow> TransactionState" where
  "resetNextTransmission msg s = s\<lparr>mNextTransmission := msg, mMsgToRetransmit := None\<rparr>"

definition fresh_response :: "SipMessage \<Rightarrow> int \<Rightarrow> string \<Rightarrow> Controller \<Rightarrow> SipMessage \<times> Controller" where
  "fresh_response request code reason c =
     (case ask c of (a, c) \<Rightarrow> (makeResponse (a_tag a) request code reason, c))"

text \<open>\<^verbatim>\<open>TransportSelector::transmit\<close>: when no transport is found the failure is reported through the fifo,
  under the transaction id of the message.\<close>

definition transmit :: "SipMessage \<Rightarrow> Tuple \<Rightarrow> Controller \<Rightarrow> bool \<times> Controller" where
  "transmit sip target c =
     (case ask c of (a, c) \<Rightarrow>
        (case a_transmit a of
           None \<Rightarrow> (True, emit (Transmit sip target) c)
         | Some r \<Rightarrow>
             (False, fifo_add (TransportFailure (case getTransactionId sip of Some t \<Rightarrow> t | None \<Rightarrow> '''') r 0) c)))"

definition processReliability :: "TransportType \<Rightarrow> TransactionState \<times> Controller \<Rightarrow> TransactionState \<times> Controller" where
  "processReliability type = (\<lambda>(s, c).
     if type \<in> {UDP, DCCP} then
       (if mIsReliable s then
          (s\<lparr>mIsReliable := False\<rparr>,
           case mMachine s of
             ClientNonInvite \<Rightarrow> timers_add TimerE1 (mId s) (T1 (ct_timing c)) c
           | ClientInvite \<Rightarrow> timers_add TimerA (mId s) (T1 (ct_timing c)) c
           | _ \<Rightarrow> c)
        else (s, c))
     else (s\<lparr>mIsReliable := True\<rparr>, c))"

text \<open>\<^verbatim>\<open>transmit(sip, target, mIsReliable ? 0 : &mMsgToRetransmit)\<close>\<close>

definition transmit_current ::
  "SipMessage \<Rightarrow> Tuple \<Rightarrow> TransactionState \<times> Controller \<Rightarrow> bool \<times> TransactionState \<times> Controller" where
  "transmit_current sip target = (\<lambda>(s, c).
     case transmit sip target c of (sent, c) \<Rightarrow>
       (sent, if sent \<and> \<not> mIsReliable s then s\<lparr>mMsgToRetransmit := Some (sip, target)\<rparr> else s, c))"

definition send_client :: "SipMessage \<Rightarrow> TransactionState \<times> Controller \<Rightarrow> bool \<times> TransactionState \<times> Controller" where
  "send_client sip = (\<lambda>(s, c).
     if tp_type (mTarget s) \<noteq> UNKNOWN_TRANSPORT then transmit_current sip (mTarget s) (s, c)
     else if mFlowKey (sip_destination sip) \<noteq> 0 then
       let c = resip_assert (tp_type (sip_destination sip) \<noteq> UNKNOWN_TRANSPORT) c;
           (s, c) = processReliability (tp_type (sip_destination sip)) (s\<lparr>mTarget := sip_destination sip\<rparr>, c)
       in transmit_current sip (mTarget s) (s, c)
     else if mDnsResult s = None then
       let c = resip_assert (mMethod s \<noteq> CANCEL) (resip_assert (isRequest sip) c)
       in (False, s\<lparr>mDnsResult := Some DnsPending, mPendingOperation := Dns\<rparr>, emit (DnsResolve (mId s)) c)
     else (False, s, c))"

definition send_server :: "SipMessage \<Rightarrow> TransactionState \<times> Controller \<Rightarrow> bool \<times> TransactionState \<times> Controller" where
  "send_server sip = (\<lambda>(s, c).
     let c = resip_assert (sip_vias sip \<noteq> []) (resip_assert (mDnsResult s = None) c)
     in case sip_forceTarget sip of
       Some uri \<Rightarrow> transmit_current sip (simpleTupleForUri uri) (s, c)
     | None \<Rightarrow>
         let s = (case v_rport (hd (sip_vias sip)) of
                    Some (Some port) \<Rightarrow> s\<lparr>mResponseTarget := (mResponseTarget s)\<lparr>tp_port := port\<rparr>\<rparr>
                  | _ \<Rightarrow> s)
         in transmit_current sip (mResponseTarget s) (s, c))"

definition onSendSuccess :: "SipMessage \<Rightarrow> TransactionState \<Rightarrow> TransactionState" where
  "onSendSuccess sip s =
     s\<lparr>mCurrentMethodType := sip_method sip,
       mCurrentResponseCode := (if isResponse sip then sip_code sip else mCurrentResponseCode s),
       mNextTransmission := (if \<not> isRequest sip \<or> sip_method sip = ACK then None else mNextTransmission s)\<rparr>"

definition sendCurrentToWire :: "TransactionState \<times> Controller \<Rightarrow> TransactionState \<times> Controller" where
  "sendCurrentToWire = (\<lambda>(s, c).
     case mMsgToRetransmit s of
       Some d \<Rightarrow> (s, emit (Retransmit d) c)
     | None \<Rightarrow>
         (case mNextTransmission s of
            None \<Rightarrow> (s, resip_assert False c)
          | Some sip \<Rightarrow>
              (case (if isClient s then send_client sip (s, c) else send_server sip (s, c)) of
                 (sent, s, c) \<Rightarrow> (if sent then onSendSuccess sip s else s, c))))"

section \<open>Delivery to the transaction user\<close>

text \<open>The static \<^verbatim>\<open>sendToTU\<close>.\<close>

definition post_sip :: "nat option \<Rightarrow> SipMessage \<Rightarrow> Controller \<Rightarrow> Controller" where
  "post_sip tu sip c = c\<lparr>mTuSelector := tu_add tu (TuSip (sip\<lparr>sip_tu := tu\<rparr>)) (mTuSelector c)\<rparr>"

text \<open>The feedback of a response on the list of targets; the expiry is computed in 32 bits.\<close>

definition dns_feedback :: "SipMessage \<Rightarrow> TransactionState \<Rightarrow> Controller \<Rightarrow> Controller" where
  "dns_feedback sip s c =
     (if \<not> isResponse sip \<or> mDnsResult s = None then c
      else if sip_code sip = 503 then
        (case sip_retryAfter sip of
           Some r \<Rightarrow> if r \<noteq> 0 then emit (BlacklistLast (mId s) (ct_now c + (r * 1000) mod 2 ^ 32)) c else c
         | None \<Rightarrow> c)
      else if sip_code sip = 408 then
        (if \<not> sip_fromWire sip \<and> mState s \<in> {Trying, Calling}
         then emit (GreylistLast (mId s) (ct_now c + ct_greylist c)) c else c)
      else emit (WhitelistLast (mId s)) c)"

text \<open>\<^verbatim>\<open>TransactionState::sendToTU\<close> for a message that is not a request.\<close>

definition sendToTU_response :: "SipMessage \<Rightarrow> TransactionState \<Rightarrow> Controller \<Rightarrow> Controller" where
  "sendToTU_response sip s c =
     (let c = dns_feedback sip s c;
          behavior = getRejectionBehavior (mTransactionUser s) (mTuSelector c);
          c = (if behavior \<noteq> NORMAL then resip_assert (sip_external sip) c else c)
      in if behavior = REJECTING_NON_ESSENTIAL \<and>
            (case mTransactionUser s of
               None \<Rightarrow> False
             | Some u \<Rightarrow> (case tu_find u (mTuSelector c) of Some i \<Rightarrow> \<not> responsesMandatory i | None \<Rightarrow> False))
         then c else post_sip (mTransactionUser s) sip c)"

text \<open>\<^verbatim>\<open>terminateClientTransaction\<close> and \<^verbatim>\<open>terminateServerTransaction\<close>.\<close>

definition terminateTransaction :: "bool \<Rightarrow> TransactionState \<times> Controller \<Rightarrow> TransactionState \<times> Controller" where
  "terminateTransaction client = (\<lambda>(s, c).
     (s\<lparr>mState := Terminated\<rparr>,
      if isTransactionUserStillRegistered (mTransactionUser s) (mTuSelector c) \<and>
         (case mTransactionUser s of
            Some u \<Rightarrow> (case tu_find u (mTuSelector c) of Some i \<Rightarrow> regTermination i | None \<Rightarrow> False)
          | None \<Rightarrow> False)
      then c\<lparr>mTuSelector := tu_add (mTransactionUser s) (TransactionTerminated (mId s) client) (mTuSelector c)\<rparr>
      else c))"

abbreviation terminateClientTransaction :: "TransactionState \<times> Controller \<Rightarrow> TransactionState \<times> Controller" where
  "terminateClientTransaction \<equiv> terminateTransaction True"

abbreviation terminateServerTransaction :: "TransactionState \<times> Controller \<Rightarrow> TransactionState \<times> Controller" where
  "terminateServerTransaction \<equiv> terminateTransaction False"

definition destroy_dns :: "TransactionState \<times> Controller \<Rightarrow> TransactionState \<times> Controller" where
  "destroy_dns = (\<lambda>(s, c).
     case mDnsResult s of
       None \<Rightarrow> (s, c)
     | Some _ \<Rightarrow> (s\<lparr>mDnsResult := None, mPendingOperation := NoOperation\<rparr>, emit (DnsDestroy (mId s)) c))"

section \<open>Transport failure and DNS\<close>

text \<open>\<^verbatim>\<open>DnsResult::available\<close>: used up targets are replaced by the next ones.\<close>

definition prime :: "DnsView \<Rightarrow> Controller \<Rightarrow> DnsView \<times> Controller" where
  "prime d c =
     (if d = DnsTargets [] then
        (case ask c of (a, c) \<Rightarrow> (if a_dns a = DnsTargets [] then DnsFinished else a_dns a, c))
      else (d, c))"

definition saveOriginalContactAndVia :: "SipMessage \<Rightarrow> TransactionState \<Rightarrow> TransactionState" where
  "saveOriginalContactAndVia sip s =
     s\<lparr>mOriginalContact := (case sip_contacts sip of
                               [ct] \<Rightarrow> if na_ok ct then Some ct else mOriginalContact s
                             | _ \<Rightarrow> mOriginalContact s),
       mOriginalVia := Some (hd (sip_vias sip))\<rparr>"

text \<open>\<^verbatim>\<open>incrementTransportSequence\<close> asserts that the branch is one of ours.\<close>

definition branch_is_mine :: "Via \<Rightarrow> bool" where
  "branch_is_mine v \<longleftrightarrow> (case v_branch v of Some b \<Rightarrow> mIsMyBranch b | None \<Rightarrow> False)"

definition incrementTransportSequence :: "Via \<Rightarrow> Via" where
  "incrementTransportSequence v =
     v\<lparr>v_branch := map_option (\<lambda>b. b\<lparr>mTransportSeq := Suc (mTransportSeq b)\<rparr>) (v_branch v)\<rparr>"

definition restoreOriginalContactAndVia :: "TransactionState \<times> Controller \<Rightarrow> TransactionState \<times> Controller" where
  "restoreOriginalContactAndVia = (\<lambda>(s, c).
     case mNextTransmission s of
       None \<Rightarrow> (s, resip_assert (mOriginalContact s = None \<and> mOriginalVia s = None) c)
     | Some sip \<Rightarrow>
         let sip = (case mOriginalContact s of
                      None \<Rightarrow> sip
                    | Some ct \<Rightarrow> sip\<lparr>sip_contacts := ct # tl (sip_contacts sip)\<rparr>)
         in case mOriginalVia s of
              None \<Rightarrow> (s\<lparr>mNextTransmission := Some sip\<rparr>, c)
            | Some v \<Rightarrow>
                let v' = incrementTransportSequence v
                in (s\<lparr>mOriginalVia := Some v',
                      mNextTransmission := Some (sip\<lparr>sip_vias := v' # tl (sip_vias sip)\<rparr>)\<rparr>,
                    resip_assert (branch_is_mine v) c))"

text \<open>Status code, reason and warning of the response of \<^verbatim>\<open>processNoDnsResults\<close>.\<close>

definition failure_status :: "nat \<Rightarrow> FailureReason \<Rightarrow> int" where
  "failure_status version r = (if r = TransportNoExistConn then (if version \<ge> 5 then 430 else 410) else 503)"

fun failure_text :: "FailureReason \<Rightarrow> string" where
  "failure_text NoFailure = ''No DNS results''"
| "failure_text NoTransport = ''No matching transport found''"
| "failure_text NoRoute = ''No route to host''"
| "failure_text CertNameMismatch = ''Certificate Name Mismatch''"
| "failure_text CertValidationFailure = ''Certificate Validation Failure''"
| "failure_text TransportNoExistConn = ''Flow failed''"
| "failure_text TransportShutdown = ''Transport shutdown: no transports left to try''"
| "failure_text _ = ''Transport failure: no transports left to try''"

definition failure_warning :: "FailureReason \<Rightarrow> int \<Rightarrow> bool \<Rightarrow> string" where
  "failure_warning r subCode dns =
     (if r = TransportNoExistConn then ''Flow no longer exists''
      else (if dns then ''No other DNS entries to try'' else ''Transport failure'') @
           '' ('' @ decimal_text (reason_code r) @ '','' @ int_text subCode @ '')'')"

definition processNoDnsResults :: "TransactionState \<times> Controller \<Rightarrow> TransactionState option \<times> Controller" where
  "processNoDnsResults = (\<lambda>(s, c).
     case mNextTransmission s of
       None \<Rightarrow> stay (s, c)
     | Some req \<Rightarrow>
         if sip_method req = ACK then stay (s, c)
         else
           let (response, c) = fresh_response req (failure_status (ct_outboundVersion c) (mFailureReason s))
                                 (failure_text (mFailureReason s)) c;
               (s, c) = (case mDnsResult s of
                           None \<Rightarrow> (s, c)
                         | Some d \<Rightarrow> (case prime d c of (d, c) \<Rightarrow>
                                        (s\<lparr>mDnsResult := Some d\<rparr>, resip_assert (d = DnsFinished) c)));
               response = response\<lparr>sip_warnings := [failure_warning (mFailureReason s) (mFailureSubCode s) (mDnsResult s \<noteq> None)]\<rparr>;
               (s, c) = terminateClientTransaction (s, sendToTU_response response s c)
           in if mMachine s \<noteq> Stateless then delete_this (s, c) else stay (s, c))"

text \<open>The end of \<^verbatim>\<open>processTransportFailure\<close>, when another target may be tried.\<close>

definition failover :: "DnsView \<Rightarrow> TransactionState \<times> Controller \<Rightarrow> TransactionState option \<times> Controller" where
  "failover d = (\<lambda>(s, c).
     let c = resip_assert (mMethod s \<noteq> CANCEL) c
     in case prime d c of (d, c) \<Rightarrow>
       (case d of
          DnsTargets (t # ts) \<Rightarrow>
            let (s, c) = restoreOriginalContactAndVia (s, c);
                s = s\<lparr>mTarget := t, mDnsResult := Some (DnsTargets ts), mMsgToRetransmit := None\<rparr>
            in stay (sendCurrentToWire (processReliability (tp_type t) (s, c)))
        | DnsPending \<Rightarrow>
            let (s, c) = restoreOriginalContactAndVia (s\<lparr>mDnsResult := Some d, mPendingOperation := Dns\<rparr>, c)
            in stay (s\<lparr>mMsgToRetransmit := None\<rparr>, c)
        | _ \<Rightarrow> processNoDnsResults (s\<lparr>mDnsResult := Some d\<rparr>, c)))"

definition cancel_undelivered :: "TransactionState \<Rightarrow> bool" where
  "cancel_undelivered s \<longleftrightarrow>
     (case mNextTransmission s of
        None \<Rightarrow> False
      | Some sip \<Rightarrow> isRequest sip \<and> sip_method sip = CANCEL \<and> mState s \<notin> {Completed, Terminated})"

definition cancel_warning :: string where
  "cancel_warning = ''Failed to deliver CANCEL using the same transport as the INVITE was used''"

definition processTransportFailure ::
  "FailureReason \<Rightarrow> int \<Rightarrow> TransactionState \<times> Controller \<Rightarrow> TransactionState option \<times> Controller" where
  "processTransportFailure reason subCode = (\<lambda>(s, c).
     let c = resip_assert (mState s \<noteq> Bogus) c;
         s = s\<lparr>mTcpConnectTimerStarted := False\<rparr>;
         s = (if reason > mFailureReason s then s\<lparr>mFailureReason := reason, mFailureSubCode := subCode\<rparr> else s)
     in if cancel_undelivered s then
          let (response, c) = fresh_response (the (mNextTransmission s)) 503 '''' (resip_assert (mMethod s = CANCEL) c)
          in stay (s, sendToTU_response (response\<lparr>sip_warnings := [cancel_warning]\<rparr>) s c)
        else case mDnsResult s of
          None \<Rightarrow> processNoDnsResults (s, c)
        | Some d \<Rightarrow>
            let c = emit (GreylistLast (mId s) (ct_now c + ct_greylist c)) c
            in if mMachine s \<in> {ClientNonInvite, ClientInvite} \<and> mState s \<notin> {Completed, Terminated} then
                 let s = (if mMachine s = ClientInvite \<and> mState s = Proceeding then s\<lparr>mState := Calling\<rparr> else s)
                 in failover d (s, c)
               else processNoDnsResults (s, c))"

definition processTcpConnectState :: "bool \<Rightarrow> TransactionState \<times> Controller \<Rightarrow> TransactionState \<times> Controller" where
  "processTcpConnectState connected = (\<lambda>(s, c).
     if \<not> connected \<and> \<not> mTcpConnectTimerStarted s \<and> TcpConnectTimeout (ct_timing c) \<noteq> 0 \<and> mState s \<in> {Trying, Calling}
     then (s\<lparr>mTcpConnectTimerStarted := True\<rparr>,
           timers_add TcpConnectTimer (mId s) (TcpConnectTimeout (ct_timing c)) c)
     else if connected \<and> mState s \<in> {Trying, Calling} then (s\<lparr>mTcpConnectTimerStarted := False\<rparr>, c)
     else (s, c))"

definition rewriteRequest :: "Uri \<Rightarrow> TransactionState \<times> Controller \<Rightarrow> TransactionState \<times> Controller" where
  "rewriteRequest uri = (\<lambda>(s, c).
     case mNextTransmission s of
       None \<Rightarrow> (s, resip_assert False c)
     | Some sip \<Rightarrow>
         (if sip_uri sip \<noteq> uri
          then s\<lparr>mNextTransmission := Some (sip\<lparr>sip_uri := uri\<rparr>), mMsgToRetransmit := None\<rparr> else s,
          resip_assert (isRequest sip) c))"

definition handle :: "TransactionState \<Rightarrow> Controller \<Rightarrow> Controller" where
  "handle s c = fifo_add (DnsResultMessage (mId s) (isClient s)) c"

definition handleSync :: "TransactionState \<times> Controller \<Rightarrow> TransactionState option \<times> Controller" where
  "handleSync = (\<lambda>(s, c).
     if mPendingOperation s \<noteq> Dns then stay (s, c)
     else case mDnsResult s of
       None \<Rightarrow> stay (s, resip_assert False c)
     | Some d \<Rightarrow>
         (case prime d c of (d, c) \<Rightarrow>
            (case d of
               DnsTargets (t # ts) \<Rightarrow>
                 (case mNextTransmission s of
                    None \<Rightarrow> stay (s, resip_assert False c)
                  | Some sip \<Rightarrow>
                      let t = t\<lparr>mTransportKey := mTransportKey (sip_destination sip)\<rparr>;
                          s = s\<lparr>mPendingOperation := NoOperation, mDnsResult := Some (DnsTargets ts), mTarget := t\<rparr>
                      in stay (sendCurrentToWire (processReliability (tp_type t) (s, c))))
             | DnsPending \<Rightarrow> stay (s\<lparr>mDnsResult := Some d\<rparr>, c)
             | _ \<Rightarrow> processNoDnsResults (s\<lparr>mDnsResult := Some d, mPendingOperation := NoOperation\<rparr>, c))))"

end
