(* ===== verification/TransMachines.thy ===== *)
theory TransMachines
  imports TransState
begin

text \<open>The seven state machines of \<^verbatim>\<open>resip/stack/TransactionState.cxx\<close>, the creation of transactions and the
  dispatch of messages and timers to them. Each machine takes a message, the transaction and the
  controller and gives what is left of the transaction (\<open>None\<close> after \<open>delete this\<close>) and the controller.
  The branches follow the code; a message that is ignored is deleted there and has no effect here.\<close>

definition is_code :: "int \<Rightarrow> int \<Rightarrow> SipMessage \<Rightarrow> bool" where
  "is_code lower upper sip \<longleftrightarrow> isResponse sip \<and> lower \<le> sip_code sip \<and> sip_code sip \<le> upper"

definition make100 :: "SipMessage \<Rightarrow> Controller \<Rightarrow> SipMessage \<times> Controller" where
  "make100 request c = fresh_response request 100 '''' c"

section \<open>Server transactions\<close>

text \<open>Retransmission of a request, answered with the last response or a new 100.\<close>

definition resend_response :: "SipMessage \<Rightarrow> TransactionState \<times> Controller \<Rightarrow> TransactionState \<times> Controller" where
  "resend_response sip = (\<lambda>(s, c).
     if mMsgToRetransmit s = None \<and> mNextTransmission s = None then
       (case make100 sip c of (r, c) \<Rightarrow> sendCurrentToWire (resetNextTransmission (Some r) s, c))
     else sendCurrentToWire (s, c))"

definition server_non_invite_request ::
  "SipMessage \<Rightarrow> TransactionState \<times> Controller \<Rightarrow> TransactionState option \<times> Controller" where
  "server_non_invite_request sip = (\<lambda>(s, c).
     if mState s = Trying then stay (s, c)
     else if mState s \<in> {Proceeding, Completed} then
       (if mIsAbandoned s then
          (case fresh_response sip 500 '''' (resip_assert (mState s = Completed) c) of (r, c) \<Rightarrow>
             stay (sendCurrentToWire (resetNextTransmission (Some r) (s\<lparr>mIsAbandoned := False\<rparr>), c)))
        else stay (resend_response sip (s, c)))
     else stay (s, resip_assert False c))"

definition server_non_invite_response ::
  "SipMessage \<Rightarrow> TransactionState \<times> Controller \<Rightarrow> TransactionState option \<times> Controller" where
  "server_non_invite_response sip = (\<lambda>(s, c).
     if sip_code sip < 200 then
       (if mState s \<in> {Trying, Proceeding}
        then stay (sendCurrentToWire ((resetNextTransmission (Some sip) s)\<lparr>mState := Proceeding\<rparr>, c))
        else stay (s, c))
     else if mIsReliable s then
       delete_this (terminateServerTransaction (sendCurrentToWire (resetNextTransmission (Some sip) s, c)))
     else if mState s \<in> {Trying, Proceeding} then
       stay (sendCurrentToWire
         (resetNextTransmission (Some sip) (s\<lparr>mState := Completed\<rparr>),
          timers_add TimerJ (mId s) (64 * T1 (ct_timing c)) c))
     else if mState s = Completed then stay (s, c)
     else stay (s, resip_assert False c))"

definition server_non_invite_timer ::
  "TimerType \<Rightarrow> TransactionState \<times> Controller \<Rightarrow> TransactionState option \<times> Controller" where
  "server_non_invite_timer t = (\<lambda>(s, c).
     if t = TimerJ \<and> mState s = Completed then delete_this (terminateServerTransaction (s, c))
     else if t = TimerTrying \<and> mState s = Trying then
       (case sendCurrentToWire (s, c) of (s, c) \<Rightarrow> stay (s\<lparr>mState := Proceeding\<rparr>, c))
     else stay (s, c))"

definition server_non_invite_abandon :: "TransactionState \<times> Controller \<Rightarrow> TransactionState option \<times> Controller" where
  "server_non_invite_abandon = (\<lambda>(s, c).
     if mState s \<in> {Trying, Proceeding} then
       let s = s\<lparr>mIsAbandoned := True\<rparr>
       in if mIsReliable s then delete_this (terminateServerTransaction (s, c))
          else stay (s\<lparr>mState := Completed\<rparr>, timers_add TimerJ (mId s) (64 * T1 (ct_timing c)) c)
     else stay (s, c))"

definition processServerNonInvite ::
  "TransactionMessage \<Rightarrow> TransactionState \<times> Controller \<Rightarrow> TransactionState option \<times> Controller" where
  "processServerNonInvite msg sc =
     (case msg of
        SipMsg sip \<Rightarrow>
          if isRequest sip \<and> sip_method sip \<noteq> INVITE \<and> sip_external sip then server_non_invite_request sip sc
          else if is_code 100 699 sip \<and> \<not> sip_external sip then server_non_invite_response sip sc
          else stay sc
      | TimerMessage _ t _ \<Rightarrow> server_non_invite_timer t sc
      | TransportFailure _ _ _ \<Rightarrow> delete_this (terminateServerTransaction sc)
      | AbandonServerTransaction _ \<Rightarrow> server_non_invite_abandon sc
      | DnsResultMessage _ _ \<Rightarrow> handleSync sc
      | _ \<Rightarrow> stay sc)"

text \<open>A final response above 299: ACKs are expected from now on, timer H bounds the wait for one and
  timer G retransmits over unreliable transports.\<close>

definition start_H_G :: "TransactionState \<Rightarrow> Controller \<Rightarrow> Controller" where
  "start_H_G s c =
     (let c = timers_add TimerH (mId s) (TH (ct_timing c)) c
      in if \<not> mIsReliable s then timers_add TimerG (mId s) (T1 (ct_timing c)) c else c)"

definition server_invite_request ::
  "SipMessage \<Rightarrow> TransactionState \<times> Controller \<Rightarrow> TransactionState option \<times> Controller" where
  "server_invite_request sip = (\<lambda>(s, c).
     case sip_method sip of
       INVITE \<Rightarrow>
         if mIsAbandoned s then
           (case fresh_response sip 500 '''' c of (r, c) \<Rightarrow>
              let s = (resetNextTransmission (Some r) (s\<lparr>mIsAbandoned := False, mAckIsValid := True\<rparr>))\<lparr>mState := Completed\<rparr>
              in stay (sendCurrentToWire (s, start_H_G s c)))
         else if mState s \<in> {Proceeding, Completed} then stay (resend_response sip (s, c))
         else stay (s, c)
     | ACK \<Rightarrow>
         if mState s = Completed then
           (if mIsReliable s then delete_this (terminateServerTransaction (s, c))
            else stay (resetNextTransmission None (s\<lparr>mState := Confirmed\<rparr>),
                       timers_add TimerI (mId s) (T4 (ct_timing c)) c))
         else stay (s, c)
     | CANCEL \<Rightarrow> stay (s, resip_assert False c)
     | _ \<Rightarrow> stay (s, c))"

definition server_invite_response ::
  "SipMessage \<Rightarrow> TransactionState \<times> Controller \<Rightarrow> TransactionState option \<times> Controller" where
  "server_invite_response sip = (\<lambda>(s, c).
     case sip_method sip of
       INVITE \<Rightarrow>
         if mState s \<notin> {Trying, Proceeding} then stay (s, c)
         else if sip_code sip < 200 then
           stay (sendCurrentToWire ((resetNextTransmission (Some sip) s)\<lparr>mState := Proceeding\<rparr>, c))
         else if sip_code sip < 300 then
           (case sendCurrentToWire (resetNextTransmission (Some sip) s, c) of (s, c) \<Rightarrow>
              stay (s\<lparr>mMachine := ServerStale\<rparr>, timers_add TimerStaleServer (mId s) (TS (ct_timing c)) c))
         else
           let s = (resetNextTransmission (Some sip) (s\<lparr>mAckIsValid := True\<rparr>))\<lparr>mState := Completed\<rparr>
           in stay (sendCurrentToWire (s, start_H_G s c))
     | CANCEL \<Rightarrow> stay (s, resip_assert False c)
     | _ \<Rightarrow> stay (s, c))"

definition server_invite_timer ::
  "TimerType \<Rightarrow> nat \<Rightarrow> TransactionState \<times> Controller \<Rightarrow> TransactionState option \<times> Controller" where
  "server_invite_timer t duration = (\<lambda>(s, c).
     case t of
       TimerG \<Rightarrow>
         if mState s = Completed then
           (case sendCurrentToWire (s, c) of (s, c) \<Rightarrow>
              stay (s, timers_add TimerG (mId s) (min (T2 (ct_timing c)) (duration * 2)) c))
         else stay (s, c)
     | TimerH \<Rightarrow> delete_this (terminateServerTransaction (s, c))
     | TimerI \<Rightarrow> delete_this (terminateServerTransaction (s, c))
     | TimerTrying \<Rightarrow>
         if mState s = Trying then
           (case sendCurrentToWire (s, c) of (s, c) \<Rightarrow> stay (s\<lparr>mState := Proceeding\<rparr>, c))
         else stay (s, c)
     | _ \<Rightarrow> stay (s, resip_assert False c))"

definition server_invite_abandon :: "TransactionState \<times> Controller \<Rightarrow> TransactionState option \<times> Controller" where
  "server_invite_abandon = (\<lambda>(s, c).
     if mState s \<in> {Trying, Proceeding} \<and> \<not> mIsAbandoned s then
       (case mNextTransmission s of
          Some r \<Rightarrow>
            let c = resip_assert (sip_code r div 100 = 1) (resip_assert (isResponse r) c);
                r = r\<lparr>sip_code := 500, sip_reason := ''Server Error''\<rparr>;
                (s, c) = sendCurrentToWire (resetNextTransmission (Some r) s, c);
                s = s\<lparr>mAckIsValid := True, mState := Completed\<rparr>
            in stay (s, start_H_G s c)
        | None \<Rightarrow>
            if mIsReliable s then delete_this (terminateServerTransaction (s, c))
            else stay (s\<lparr>mIsAbandoned := True\<rparr>, c))
     else stay (s, c))"

definition processServerInvite ::
  "TransactionMessage \<Rightarrow> TransactionState \<times> Controller \<Rightarrow> TransactionState option \<times> Controller" where
  "processServerInvite msg sc =
     (case msg of
        SipMsg sip \<Rightarrow>
          if isRequest sip \<and> sip_external sip then server_invite_request sip sc
          else if is_code 100 699 sip \<and> \<not> sip_external sip then server_invite_response sip sc
          else stay sc
      | TimerMessage _ t d \<Rightarrow> server_invite_timer t d sc
      | TransportFailure _ _ _ \<Rightarrow> delete_this (terminateServerTransaction sc)
      | AbandonServerTransaction _ \<Rightarrow> server_invite_abandon sc
      | DnsResultMessage _ _ \<Rightarrow> handleSync sc
      | _ \<Rightarrow> stay sc)"

section \<open>Requests for the transaction user\<close>

text \<open>\<^verbatim>\<open>TransactionState::sendToTU\<close>. When the user is congested, new work is answered with 503 by the
  machine of the transaction itself. The wait is cut to 16 bits.\<close>

definition sendToTU_request ::
  "SipMessage \<Rightarrow> TransactionState \<times> Controller \<Rightarrow> TransactionState option \<times> Controller" where
  "sendToTU_request sip = (\<lambda>(s, c).
     let behavior = getRejectionBehavior (mTransactionUser s) (mTuSelector c)
     in if behavior = NORMAL then stay (s, post_sip (mTransactionUser s) sip c)
        else
          let c = resip_assert (sip_external sip) c
          in if sip_method sip = ACK then
               (if behavior = REJECTING_NON_ESSENTIAL then stay (s, c)
                else stay (s, post_sip (mTransactionUser s) sip c))
             else
               (case fresh_response sip 503 '''' c of (r, c) \<Rightarrow>
                  let r = r\<lparr>sip_retryAfter := Some (getExpectedWait (mTransactionUser s) (mTuSelector c) mod 2 ^ 16),
                            sip_external := False\<rparr>
                  in if mMethod s = INVITE then processServerInvite (SipMsg r) (s, c)
                     else processServerNonInvite (SipMsg r) (s, c)))"

definition sendToTU :: "SipMessage \<Rightarrow> TransactionState \<times> Controller \<Rightarrow> TransactionState option \<times> Controller" where
  "sendToTU sip = (\<lambda>(s, c).
     if isRequest sip then sendToTU_request sip (s, c) else stay (s, sendToTU_response sip s c))"

section \<open>Non-INVITE client transactions\<close>

definition client_non_invite_request :: "SipMessage \<Rightarrow> TransactionState \<times> Controller \<Rightarrow> TransactionState option \<times> Controller"
where
  "client_non_invite_request sip = (\<lambda>(s, c).
     let s = saveOriginalContactAndVia sip (resetNextTransmission (Some sip) s)
     in stay (sendCurrentToWire (s, timers_add TimerF (mId s) (TF (ct_timing c)) c)))"

definition client_non_invite_response ::
  "SipMessage \<Rightarrow> TransactionState \<times> Controller \<Rightarrow> TransactionState option \<times> Controller" where
  "client_non_invite_response sip = (\<lambda>(s, c).
     if sip_code sip < 200 then
       (if mState s \<in> {Trying, Proceeding} then
          let c = (if \<not> mIsReliable s \<and> mState s = Trying then timers_add TimerE2 (mId s) (T2 (ct_timing c)) c else c);
              s = s\<lparr>mState := Proceeding\<rparr>
          in stay (s, sendToTU_response sip s c)
        else stay (s, c))
     else
       let c = (if mState s \<in> {Trying, Proceeding} then sendToTU_response sip s c
                else resip_assert (mState s = Completed) c)
       in if mIsReliable s then delete_this (terminateClientTransaction (s, c))
          else if mState s \<noteq> Completed then
            (case destroy_dns (s\<lparr>mState := Completed\<rparr>, timers_add TimerK (mId s) (T4 (ct_timing c)) c) of (s, c) \<Rightarrow>
               stay (resetNextTransmission None s, c))
          else stay (s, c))"

text \<open>The response that a client transaction makes up when it times out: 503 while the target is still
  being resolved, 408 otherwise.\<close>

definition timeout_response :: "TransactionState \<times> Controller \<Rightarrow> TransactionState option \<times> Controller" where
  "timeout_response = (\<lambda>(s, c).
     case mNextTransmission s of
       None \<Rightarrow> delete_this (terminateClientTransaction (s, resip_assert False c))
     | Some req \<Rightarrow>
         (case (if mPendingOperation s = Dns then fresh_response req 503 ''DNS Timeout'' c
                else fresh_response req 408 '''' c) of (r, c) \<Rightarrow>
            delete_this (terminateClientTransaction (s, sendToTU_response r s c))))"

definition client_non_invite_timer ::
  "TimerType \<Rightarrow> nat \<Rightarrow> TransactionState \<times> Controller \<Rightarrow> TransactionState option \<times> Controller" where
  "client_non_invite_timer t duration = (\<lambda>(s, c).
     case t of
       TimerE1 \<Rightarrow>
         if mState s = Trying then
           let d = (if duration < T2 (ct_timing c) then duration * 2 else duration)
           in stay (sendCurrentToWire (s, timers_add TimerE1 (mId s) d c))
         else stay (s, c)
     | TimerE2 \<Rightarrow>
         if mState s = Proceeding
         then stay (sendCurrentToWire (s, timers_add TimerE2 (mId s) (T2 (ct_timing c)) c))
         else stay (s, c)
     | TcpConnectTimer \<Rightarrow>
         if mTcpConnectTimerStarted s then processTransportFailure ConnectionException 0 (s, c) else stay (s, c)
     | TimerF \<Rightarrow> if mState s \<in> {Trying, Proceeding} then timeout_response (s, c) else stay (s, c)
     | TimerK \<Rightarrow> delete_this (terminateClientTransaction (s, c))
     | _ \<Rightarrow> stay (s, c))"

definition processClientNonInvite ::
  "TransactionMessage \<Rightarrow> TransactionState \<times> Controller \<Rightarrow> TransactionState option \<times> Controller" where
  "processClientNonInvite msg sc =
     (case msg of
        SipMsg sip \<Rightarrow>
          if isRequest sip \<and> \<not> sip_external sip then client_non_invite_request sip sc
          else if is_code 100 699 sip \<and> sip_external sip then client_non_invite_response sip sc
          else stay sc
      | TimerMessage _ t d \<Rightarrow> client_non_invite_timer t d sc
      | TransportFailure _ r sub \<Rightarrow> processTransportFailure r sub sc
      | TcpConnectState _ connected \<Rightarrow> stay (processTcpConnectState connected sc)
      | DnsResultMessage _ _ \<Rightarrow> handleSync sc
      | _ \<Rightarrow> stay sc)"

section \<open>CANCEL\<close>

definition makeCancelTransaction ::
  "TransactionState \<Rightarrow> Machine \<Rightarrow> string \<Rightarrow> Controller \<Rightarrow> TransactionState \<times> Controller" where
  "makeCancelTransaction tr machine tid c =
     (let s = (new_TransactionState machine Trying tid CANCEL '''' (mTransactionUser tr))
                \<lparr>mResponseTarget := mResponseTarget tr, mTarget := mTarget tr\<rparr>
      in processReliability (tp_type (mTarget tr)) (s, tmap_add s c))"

definition with_branch_of :: "SipMessage \<Rightarrow> SipMessage \<Rightarrow> SipMessage" where
  "with_branch_of invite cancel = cancel\<lparr>sip_vias :=
     (case sip_vias cancel of
        [] \<Rightarrow> []
      | v # vs \<Rightarrow> v\<lparr>v_branch := v_branch (hd (sip_vias invite))\<rparr> # vs)\<rparr>"

definition handleInternalCancel :: "SipMessage \<Rightarrow> TransactionState \<Rightarrow> Controller \<Rightarrow> Controller" where
  "handleInternalCancel cancel invite c =
     (case makeCancelTransaction invite ClientNonInvite (mId invite @ ''cancel'') c of (s, c) \<Rightarrow>
        let (cancel, c) = (case mNextTransmission invite of
                             None \<Rightarrow> (cancel, resip_assert False c)
                           | Some req \<Rightarrow> (with_branch_of req cancel, c));
            c = leave s (processClientNonInvite (SipMsg cancel) (s, c))
        in timers_add TimerCleanUp (mId invite) (128 * T1 (ct_timing c)) c)"

section \<open>INVITE client transactions\<close>

definition client_invite_request :: "SipMessage \<Rightarrow> TransactionState \<times> Controller \<Rightarrow> TransactionState option \<times> Controller"
where
  "client_invite_request sip = (\<lambda>(s, c).
     case sip_method sip of
       INVITE \<Rightarrow>
         if mState s = Calling \<and> mNextTransmission s = None \<and> mMsgToRetransmit s = None then
           let s = saveOriginalContactAndVia sip (resetNextTransmission (Some sip) s)
           in stay (sendCurrentToWire (s, timers_add TimerB (mId s) (TB (ct_timing c)) c))
         else stay (s, c)
     | CANCEL \<Rightarrow> stay (s, resip_assert False c)
     | _ \<Rightarrow> stay (s, c))"

text \<open>The CANCEL for the pending INVITE.\<close>

definition send_cancel :: "string list option \<Rightarrow> TransactionState \<Rightarrow> Controller \<Rightarrow> Controller" where
  "send_cancel reasons s c =
     (case mNextTransmission s of
        None \<Rightarrow> resip_assert False c
      | Some req \<Rightarrow>
          handleInternalCancel
            (case reasons of None \<Rightarrow> makeCancel req | Some rs \<Rightarrow> (makeCancel req)\<lparr>sip_reasons := Some rs\<rparr>) s
            (resip_assert (isRequest req \<and> sip_method req = INVITE) c))"

definition client_invite_provisional ::
  "SipMessage \<Rightarrow> TransactionState \<times> Controller \<Rightarrow> TransactionState option \<times> Controller" where
  "client_invite_provisional sip = (\<lambda>(s, c).
     if mState s \<in> {Calling, Proceeding} then
       let s = s\<lparr>mState := Proceeding\<rparr>;
           (s, c) = (if mIsAbandoned s
                     then (s\<lparr>mPendingCancelReasons := None, mIsAbandoned := False\<rparr>,
                           send_cancel (mPendingCancelReasons s) s c)
                     else (s, c));
           s = s\<lparr>mMsgToRetransmit := None\<rparr>
       in stay (s, sendToTU_response sip s c)
     else stay (s, c))"

definition client_invite_success ::
  "SipMessage \<Rightarrow> TransactionState \<times> Controller \<Rightarrow> TransactionState option \<times> Controller" where
  "client_invite_success sip = (\<lambda>(s, c).
     let s = s\<lparr>mIsAbandoned := False\<rparr>;
         c = sendToTU_response sip s c;
         (s, c) = destroy_dns (resetNextTransmission None (s\<lparr>mMachine := ClientStale, mState := Completed\<rparr>), c)
     in stay (s, timers_add TimerStaleClient (mId s) (TS (ct_timing c)) c))"

text \<open>Replace the INVITE by the ACK for the failure.\<close>

definition with_failure_ack :: "SipMessage \<Rightarrow> TransactionState \<times> Controller \<Rightarrow> TransactionState \<times> Controller" where
  "with_failure_ack sip = (\<lambda>(s, c).
     case mNextTransmission s of
       None \<Rightarrow> (s, resip_assert False c)
     | Some req \<Rightarrow>
         (resetNextTransmission (Some (makeFailureAck req sip)) s,
          resip_assert (sip_vias req \<noteq> [] \<and> sip_method req = INVITE) c))"

definition client_invite_failure ::
  "SipMessage \<Rightarrow> TransactionState \<times> Controller \<Rightarrow> TransactionState option \<times> Controller" where
  "client_invite_failure sip = (\<lambda>(s, c).
     let s = s\<lparr>mIsAbandoned := False\<rparr>
     in if mIsReliable s then
          let (s, c) = with_failure_ack sip (s, c);
              (s, c) = sendCurrentToWire (s, resip_assert (tp_type (mTarget s) \<noteq> UNKNOWN_TRANSPORT) c);
              c = sendToTU_response sip s c
          in delete_this (terminateClientTransaction (s, c))
        else if mState s \<in> {Calling, Proceeding} then
          let (s, c) = with_failure_ack sip (s\<lparr>mState := Completed\<rparr>, timers_add TimerD (mId s) (TD (ct_timing c)) c);
              (s, c) = sendCurrentToWire (s, c);
              c = sendToTU_response sip s c
          in stay (destroy_dns (s, c))
        else if mState s = Completed then stay (sendCurrentToWire (s, c))
        else stay (s, resip_assert False c))"

definition client_invite_response ::
  "SipMessage \<Rightarrow> TransactionState \<times> Controller \<Rightarrow> TransactionState option \<times> Controller" where
  "client_invite_response sip = (\<lambda>(s, c).
     case sip_method sip of
       INVITE \<Rightarrow>
         if sip_code sip < 200 then client_invite_provisional sip (s, c)
         else if sip_code sip < 300 then client_invite_success sip (s, c)
         else client_invite_failure sip (s, c)
     | CANCEL \<Rightarrow> stay (s, resip_assert False c)
     | _ \<Rightarrow> stay (s, c))"

definition has_invite :: "TransactionState \<Rightarrow> bool" where
  "has_invite s \<longleftrightarrow> (case mNextTransmission s of None \<Rightarrow> False | Some req \<Rightarrow> isRequest req \<and> sip_method req = INVITE)"

definition client_invite_timer ::
  "TimerType \<Rightarrow> nat \<Rightarrow> TransactionState \<times> Controller \<Rightarrow> TransactionState option \<times> Controller" where
  "client_invite_timer t duration = (\<lambda>(s, c).
     case t of
       TimerA \<Rightarrow>
         if mState s = Calling \<and> \<not> mIsAbandoned s
         then stay (sendCurrentToWire (s, timers_add TimerA (mId s) (duration * 2) c))
         else stay (s, c)
     | TcpConnectTimer \<Rightarrow>
         if mTcpConnectTimerStarted s then processTransportFailure ConnectionException 0 (s, c) else stay (s, c)
     | TimerB \<Rightarrow> if mState s = Calling then timeout_response (s, resip_assert (has_invite s) c) else stay (s, c)
     | TimerD \<Rightarrow> delete_this (terminateClientTransaction (s, c))
     | TimerCleanUp \<Rightarrow>
         if mState s = Proceeding then timeout_response (s, resip_assert (has_invite s) c) else stay (s, c)
     | _ \<Rightarrow> stay (s, c))"

definition client_invite_cancel ::
  "string list option \<Rightarrow> TransactionState \<times> Controller \<Rightarrow> TransactionState option \<times> Controller" where
  "client_invite_cancel reasons = (\<lambda>(s, c).
     if mState s = Proceeding then stay (s, send_cancel reasons s c)
     else if mState s = Calling then stay (s\<lparr>mIsAbandoned := True, mPendingCancelReasons := reasons\<rparr>, c)
     else stay (s, c))"

definition processClientInvite ::
  "TransactionMessage \<Rightarrow> TransactionState \<times> Controller \<Rightarrow> TransactionState option \<times> Controller" where
  "processClientInvite msg sc =
     (case msg of
        SipMsg sip \<Rightarrow>
          if isRequest sip \<and> \<not> sip_external sip then client_invite_request sip sc
          else if is_code 100 699 sip \<and> sip_external sip then client_invite_response sip sc
          else stay sc
      | TimerMessage _ t d \<Rightarrow> client_invite_timer t d sc
      | TransportFailure _ r sub \<Rightarrow> processTransportFailure r sub sc
      | TcpConnectState _ connected \<Rightarrow> stay (processTcpConnectState connected sc)
      | CancelClientInviteTransaction _ reasons \<Rightarrow> client_invite_cancel reasons sc
      | DnsResultMessage _ _ \<Rightarrow> handleSync sc
      | _ \<Rightarrow> stay sc)"

section \<open>Stale and stateless transactions\<close>

definition processClientStale ::
  "TransactionMessage \<Rightarrow> TransactionState \<times> Controller \<Rightarrow> TransactionState option \<times> Controller" where
  "processClientStale msg = (\<lambda>(s, c).
     case msg of
       TimerMessage _ t _ \<Rightarrow>
         if t = TimerStaleClient then delete_this (terminateClientTransaction (s, c)) else stay (s, c)
     | TransportFailure _ r sub \<Rightarrow> processTransportFailure r sub (s, c)
     | SipMsg sip \<Rightarrow>
         if is_code 200 299 sip then stay (s, sendToTU_response sip s (resip_assert (sip_external sip) c))
         else stay (s, c)
     | DnsResultMessage _ _ \<Rightarrow> handleSync (s, c)
     | _ \<Rightarrow> stay (s, c))"

definition processServerStale ::
  "TransactionMessage \<Rightarrow> TransactionState \<times> Controller \<Rightarrow> TransactionState option \<times> Controller" where
  "processServerStale msg = (\<lambda>(s, c).
     case msg of
       TimerMessage _ t _ \<Rightarrow>
         if t = TimerStaleServer then delete_this (terminateServerTransaction (s, c)) else stay (s, c)
     | TransportFailure _ r sub \<Rightarrow> processTransportFailure r sub (s, c)
     | SipMsg sip \<Rightarrow>
         if isRequest sip \<and> sip_method sip = ACK then sendToTU sip (s, resip_assert (sip_external sip) c)
         else if isRequest sip \<and> sip_method sip = INVITE then stay (s, c)
         else if is_code 100 699 sip \<and> \<not> sip_external sip
           then stay (sendCurrentToWire (resetNextTransmission (Some sip) s, c))
         else stay (s, c)
     | DnsResultMessage _ _ \<Rightarrow> handleSync (s, c)
     | _ \<Rightarrow> stay (s, c))"

definition processStateless ::
  "TransactionMessage \<Rightarrow> TransactionState \<times> Controller \<Rightarrow> TransactionState option \<times> Controller" where
  "processStateless msg = (\<lambda>(s, c).
     case msg of
       SipMsg sip \<Rightarrow>
         if \<not> sip_external sip then stay (sendCurrentToWire (resetNextTransmission (Some sip) s, c))
         else sendToTU sip (s, c)
     | TransportFailure _ r sub \<Rightarrow>
         (case processTransportFailure r sub (s, c) of
            (Some s, c) \<Rightarrow> delete_this (s, c)
          | (None, c) \<Rightarrow> (None, resip_assert False c))
     | TcpConnectState _ _ \<Rightarrow> stay (s, c)
     | TimerMessage _ t _ \<Rightarrow>
         if t = TimerStateless then delete_this (s, c) else stay (s, resip_assert False c)
     | DnsResultMessage _ _ \<Rightarrow> handleSync (s, c)
     | AbandonServerTransaction _ \<Rightarrow> stay (s, c)
     | _ \<Rightarrow> stay (s, resip_assert False c))"

section \<open>Dispatch\<close>

definition machine_step ::
  "TransactionMessage \<Rightarrow> TransactionState \<times> Controller \<Rightarrow> TransactionState option \<times> Controller" where
  "machine_step msg = (\<lambda>(s, c).
     case mMachine s of
       ClientNonInvite \<Rightarrow> processClientNonInvite msg (s, c)
     | ClientInvite \<Rightarrow> processClientInvite msg (s, c)
     | ServerNonInvite \<Rightarrow> processServerNonInvite msg (s, c)
     | ServerInvite \<Rightarrow> processServerInvite msg (s, c)
     | Stateless \<Rightarrow> processStateless msg (s, c)
     | ClientStale \<Rightarrow> processClientStale msg (s, c)
     | ServerStale \<Rightarrow> processServerStale msg (s, c))"

definition run_machine :: "TransactionMessage \<Rightarrow> TransactionState \<Rightarrow> Controller \<Rightarrow> Controller" where
  "run_machine msg s c = leave s (machine_step msg (s, c))"

text \<open>\<^verbatim>\<open>getTransactionId\<close> and \<^verbatim>\<open>isClientTransaction\<close> of the messages that are not SIP messages.\<close>

fun message_tid :: "TransactionMessage \<Rightarrow> string" where
  "message_tid (TimerMessage tid _ _) = tid"
| "message_tid (TransportFailure tid _ _) = tid"
| "message_tid (TcpConnectState tid _) = tid"
| "message_tid (DnsResultMessage tid _) = tid"
| "message_tid (AbandonServerTransaction tid) = tid"
| "message_tid (CancelClientInviteTransaction tid _) = tid"
| "message_tid _ = ''''"

fun message_isClient :: "TransactionMessage \<Rightarrow> bool option" where
  "message_isClient (TimerMessage _ t _) = timer_isClient t"
| "message_isClient (DnsResultMessage _ client) = Some client"
| "message_isClient (AbandonServerTransaction _) = Some False"
| "message_isClient _ = Some True"

definition dispatch :: "TransactionMessage \<Rightarrow> Controller \<Rightarrow> Controller" where
  "dispatch msg c =
     (case message_isClient msg of
        None \<Rightarrow> resip_assert False c
      | Some client \<Rightarrow>
          (case tmap client c (message_tid msg) of
             None \<Rightarrow> c
           | Some s \<Rightarrow> run_machine msg s c))"

end
