(* ===== verification/TransProcess.thy ===== *)
theory TransProcess
  imports TransMachines
begin

text \<open>\<^verbatim>\<open>TransactionState::process\<close>, \<^verbatim>\<open>processTimer\<close> and \<^verbatim>\<open>processSipMessageAsNew\<close>, and the loop of
  \<^verbatim>\<open>resip/stack/TransactionController.cxx\<close> that feeds them.\<close>

section \<open>New transactions\<close>

text \<open>The wait before a 100 is sent for a request other than INVITE. The loop does not end when T1 is 0
  and T2 is not: \<open>None\<close>.\<close>

function trying_loop :: "nat \<Rightarrow> nat \<Rightarrow> nat option" where
  "trying_loop d t2 =
     (if d * 2 < t2 then (if d = 0 then None else trying_loop (d * 2) t2) else Some d)"
  by pat_completeness auto
termination by (relation "measure (\<lambda>(d, t2). t2 - d)") auto

declare trying_loop.simps [simp del]

definition trying_duration :: "Timing \<Rightarrow> nat option" where
  "trying_duration tm = (if T1 tm \<noteq> 500 then trying_loop (T1 tm) (T2 tm) else Some 3500)"

definition startServerNonInviteTimerTrying ::
  "SipMessage \<Rightarrow> TransactionState \<times> Controller \<Rightarrow> TransactionState \<times> Controller" where
  "startServerNonInviteTimerTrying sip = (\<lambda>(s, c).
     case trying_duration (ct_timing c) of
       None \<Rightarrow> (s, resip_assert False c)
     | Some d \<Rightarrow> (case make100 sip c of (r, c) \<Rightarrow>
         (resetNextTransmission (Some r) s, timers_add TimerTrying (mId s) d c)))"

definition reply_target :: "SipMessage \<Rightarrow> Tuple" where
  "reply_target sip = (sip_source sip)\<lparr>tp_port := getPortForReply sip\<rparr>"

text \<open>A response outside of any transaction.\<close>

definition respond_statelessly :: "SipMessage \<Rightarrow> int \<Rightarrow> Controller \<Rightarrow> Controller" where
  "respond_statelessly sip code c =
     (case fresh_response sip code '''' c of (r, c) \<Rightarrow> snd (transmit r (sip_source sip) c))"

definition handleBadRequest :: "SipMessage \<Rightarrow> Controller \<Rightarrow> Controller" where
  "handleBadRequest sip c =
     (let c = resip_assert (isRequest sip \<and> sip_method sip \<noteq> ACK) c
      in case fresh_response sip 400 '''' c of (r, c) \<Rightarrow>
           if sip_external sip then snd (transmit r (sip_source sip) c) else c)"

definition new_server_invite :: "SipMessage \<Rightarrow> string \<Rightarrow> nat option \<Rightarrow> Controller \<Rightarrow> Controller" where
  "new_server_invite sip tid tu c =
     (case make100 sip c of (r, c) \<Rightarrow>
        let s = (new_TransactionState ServerInvite Trying tid INVITE '''' tu)
                  \<lparr>mNextTransmission := Some r, mResponseTarget := reply_target sip,
                   mIsReliable := isReliable (tp_type (sip_source sip))\<rparr>;
            c = tmap_add s c;
            (s, c) = (if T100 (ct_timing c) = 0
                      then (case sendCurrentToWire (s, c) of (s, c) \<Rightarrow> (s\<lparr>mState := Proceeding\<rparr>, c))
                      else (s, timers_add TimerTrying tid (T100 (ct_timing c)) c))
        in leave s (sendToTU sip (s, c)))"

definition new_server_cancel :: "SipMessage \<Rightarrow> string \<Rightarrow> string \<Rightarrow> Controller \<Rightarrow> Controller" where
  "new_server_cancel sip invite_tid tid c =
     (case mServerTransactionMap c invite_tid of
        None \<Rightarrow> respond_statelessly sip 481 c
      | Some matchingInvite \<Rightarrow>
          (case makeCancelTransaction matchingInvite ServerNonInvite tid c of (s, c) \<Rightarrow>
             leave s (sendToTU sip (startServerNonInviteTimerTrying sip (s, c)))))"

definition new_server_non_invite :: "SipMessage \<Rightarrow> string \<Rightarrow> nat option \<Rightarrow> Controller \<Rightarrow> Controller" where
  "new_server_non_invite sip tid tu c =
     (let s = (new_TransactionState ServerNonInvite Trying tid (sip_method sip) (sip_methodStr sip) tu)
                \<lparr>mResponseTarget := reply_target sip, mIsReliable := isReliable (tp_type (sip_source sip))\<rparr>
      in leave s (sendToTU sip (startServerNonInviteTimerTrying sip (s, tmap_add s c))))"

definition new_external_request :: "SipMessage \<Rightarrow> string \<Rightarrow> string \<Rightarrow> nat option \<Rightarrow> Controller \<Rightarrow> Controller" where
  "new_external_request sip wire_tid tid tu c =
     (if sip_method sip = INVITE then new_server_invite sip tid tu c
      else if sip_method sip = CANCEL then new_server_cancel sip wire_tid tid c
      else if sip_method sip \<noteq> ACK then new_server_non_invite sip tid tu c
      else post_sip tu sip c)"

text \<open>A transaction that the transaction user starts.\<close>

definition new_client :: "Machine \<Rightarrow> State \<Rightarrow> SipMessage \<Rightarrow> string \<Rightarrow> nat option \<Rightarrow> Controller \<Rightarrow> Controller" where
  "new_client machine st sip tid tu c =
     (let s = new_TransactionState machine st tid (sip_method sip) (sip_methodStr sip) tu
      in run_machine (SipMsg sip) s (tmap_add s c))"

definition new_stateless :: "SipMessage \<Rightarrow> string \<Rightarrow> nat option \<Rightarrow> Controller \<Rightarrow> Controller" where
  "new_stateless sip tid tu c =
     (let s = new_TransactionState Stateless Calling tid (sip_method sip) (sip_methodStr sip) tu
      in run_machine (SipMsg sip) s (timers_add TimerStateless tid (TS (ct_timing c)) (tmap_add s c)))"

definition new_client_cancel :: "SipMessage \<Rightarrow> string \<Rightarrow> nat option \<Rightarrow> Controller \<Rightarrow> Controller" where
  "new_client_cancel sip invite_tid tu c =
     (case mClientTransactionMap c invite_tid of
        None \<Rightarrow> (case fresh_response sip 481 '''' c of (r, c) \<Rightarrow> post_sip tu r c)
      | Some s \<Rightarrow>
          if mState s = Calling then
            leave s (stay (s\<lparr>mIsAbandoned := True,
                             mPendingCancelReasons := (case sip_reasons sip of None \<Rightarrow> mPendingCancelReasons s
                                                       | Some rs \<Rightarrow> Some rs)\<rparr>, c))
          else if mState s = Completed then
            (case fresh_response sip 200 '''' c of (r, c) \<Rightarrow> sendToTU_response r s c)
          else handleInternalCancel sip s c)"

definition new_tu_request :: "SipMessage \<Rightarrow> string \<Rightarrow> string \<Rightarrow> nat option \<Rightarrow> Controller \<Rightarrow> Controller" where
  "new_tu_request sip wire_tid tid tu c =
     (if sip_method sip = INVITE then new_client ClientInvite Calling sip tid tu c
      else if sip_method sip = ACK then new_stateless sip tid tu c
      else if sip_method sip = CANCEL then new_client_cancel sip wire_tid tu c
      else new_client ClientNonInvite Trying sip tid tu c)"

text \<open>\<open>wire_tid\<close> is the transaction id of the message, \<open>tid\<close> the key of the transaction, which differs
  for a CANCEL.\<close>

definition processSipMessageAsNew :: "SipMessage \<Rightarrow> string \<Rightarrow> string \<Rightarrow> Controller \<Rightarrow> Controller" where
  "processSipMessageAsNew sip wire_tid tid c =
     (let tu = (if sip_external sip
                then (if mTuSelectorMode (mTuSelector c) \<and> isRequest sip
                      then selectTransactionUser sip (mTuSelector c) else None)
                else sip_tu sip)
      in if sip_external sip \<and> mTuSelectorMode (mTuSelector c) \<and> isRequest sip \<and> tu = None
           then respond_statelessly sip 500 c
         else if isRequest sip then
           (if sip_external sip then new_external_request sip wire_tid tid tu c
            else new_tu_request sip wire_tid tid tu c)
         else if isResponse sip then
           (if mDiscardStrayResponses c then c
            else new_stateless sip (decimal_text (StatelessIdCounter c)) tu
                   (c\<lparr>StatelessIdCounter := Suc (StatelessIdCounter c) mod 2 ^ 32\<rparr>))
         else c)"

section \<open>Messages for existing transactions\<close>

text \<open>The correction of responses whose dialog identifiers or sequence number differ from those of
  the request.\<close>

definition fix_dialog :: "SipMessage \<Rightarrow> SipMessage \<Rightarrow> SipMessage" where
  "fix_dialog req sip =
     sip\<lparr>sip_callid := (if fst (sip_callid sip) \<and> sip_callid sip = sip_callid req then sip_callid sip else sip_callid req),
         sip_from := (if na_ok (sip_from sip) then (sip_from sip)\<lparr>na_tag := na_tag (sip_from req)\<rparr> else sip_from req),
         sip_to := (if na_ok (sip_to sip)
                    then (case na_tag (sip_to req) of
                            None \<Rightarrow> sip_to sip
                          | Some t \<Rightarrow> (sip_to sip)\<lparr>na_tag := Some t\<rparr>)
                    else sip_to req)\<rparr>"

definition fix_response :: "SipMessage \<Rightarrow> SipMessage \<Rightarrow> Controller \<Rightarrow> SipMessage" where
  "fix_response req sip c =
     (let sip = (if mFixBadDialogIdentifiers c then fix_dialog req sip else sip)
      in if mFixBadCSeqNumbers c then sip\<lparr>sip_cseq := sip_cseq req\<rparr> else sip)"

text \<open>A message of another method than the transaction's, or a request that is repeated over a
  reliable transport, is dropped.\<close>

definition method_matches :: "TransactionState \<Rightarrow> SipMessage \<Rightarrow> bool" where
  "method_matches s sip \<longleftrightarrow>
     (case mMethod s of
        INVITE \<Rightarrow> sip_method sip \<in> {INVITE, ACK}
      | UNKNOWN \<Rightarrow> mMethodText s = Some (sip_methodStr sip)
      | m \<Rightarrow> m = sip_method sip)"

definition accepts :: "TransactionState \<Rightarrow> SipMessage \<Rightarrow> bool" where
  "accepts s sip \<longleftrightarrow> method_matches s sip \<and>
     \<not> (sip_external sip \<and> isRequest sip \<and> sip_method sip \<noteq> ACK \<and> mIsReliable s)"

definition bad_ack :: "TransactionState \<Rightarrow> SipMessage \<Rightarrow> bool" where
  "bad_ack s sip \<longleftrightarrow> sip_external sip \<and> isRequest sip \<and> sip_method sip = ACK \<and> \<not> mAckIsValid s"

definition corrected :: "TransactionState \<Rightarrow> SipMessage \<Rightarrow> Controller \<Rightarrow> SipMessage" where
  "corrected s sip c =
     (case mNextTransmission s of
        Some req \<Rightarrow> if sip_external sip \<and> isResponse sip then fix_response req sip c else sip
      | None \<Rightarrow> sip)"

definition process_known :: "SipMessage \<Rightarrow> TransactionState \<Rightarrow> Controller \<Rightarrow> Controller" where
  "process_known sip s c =
     (if \<not> accepts s sip then c
      else run_machine (SipMsg sip) s
        (if mMachine s = ClientInvite
         then resip_assert (\<not> (\<not> sip_external sip \<and> isRequest sip \<and> sip_method sip = ACK)) c else c))"

definition transaction_key :: "SipMessage \<Rightarrow> string \<Rightarrow> string" where
  "transaction_key sip tid = (if sip_method sip = CANCEL then tid @ ''cancel'' else tid)"

definition process_sip :: "SipMessage \<Rightarrow> Controller \<Rightarrow> Controller" where
  "process_sip sip c =
     (case getTransactionId sip of
        None \<Rightarrow> c
      | Some wire_tid \<Rightarrow>
          if isRequest sip \<and> sip_method sip \<noteq> ACK \<and> sip_invalid sip then handleBadRequest sip c
          else
            let tid = transaction_key sip wire_tid;
                c = resip_assert (isRequest sip \<or> isResponse sip) c
            in case tmap (isClientTransaction_sip sip) c tid of
                 None \<Rightarrow> processSipMessageAsNew sip wire_tid tid c
               | Some s \<Rightarrow>
                   let sip = corrected s sip c
                   in if bad_ack s sip then processSipMessageAsNew (sip\<lparr>sip_badAck200 := True\<rparr>) wire_tid tid c
                      else process_known sip s c)"

definition process :: "TransactionMessage \<Rightarrow> Controller \<Rightarrow> Controller" where
  "process msg c =
     (case msg of
        SipMsg sip \<Rightarrow> process_sip sip c
      | KeepAliveMessage sip \<Rightarrow> snd (transmit sip (sip_destination sip) c)
      | KeepAlivePong flow \<Rightarrow> c\<lparr>mTuSelector := tu_broadcast regPongs (TuPong flow) (mTuSelector c)\<rparr>
      | ConnectionTerminated flow \<Rightarrow>
          c\<lparr>mTuSelector := tu_broadcast regConnection (TuConnectionTerminated flow) (mTuSelector c)\<rparr>
      | TerminateFlow flow \<Rightarrow> emit (FlowTerminated flow) c
      | EnableFlowTimer flow \<Rightarrow> emit (FlowTimerEnabled flow) c
      | ZeroOutStatistics \<Rightarrow> emit StatisticsZeroed c
      | PollStatistics \<Rightarrow> emit StatisticsPolled c
      | AddTransport k \<Rightarrow> emit (TransportAdded k) c
      | RemoveTransport k \<Rightarrow> emit (TransportRemoved k) c
      | InvokeAfterSocketCreationFunc t \<Rightarrow> dispatch msg (emit (SocketFuncInvoked t) c)
      | _ \<Rightarrow> dispatch msg c)"

section \<open>Timers\<close>

text \<open>While the stack is congested the retransmission timers are only set again.\<close>

definition postponed :: "TimerType \<Rightarrow> nat \<Rightarrow> Timing \<Rightarrow> nat option" where
  "postponed t duration tm =
     (if t = TimerA then Some (duration * 2)
      else if t \<in> {TimerE1, TimerG} then Some (min (duration * 2) (T2 tm))
      else if t = TimerE2 then Some (T2 tm)
      else None)"

fun processTimer :: "TransactionMessage \<Rightarrow> Controller \<Rightarrow> Controller" where
  "processTimer (TimerMessage tid t duration) c =
     (case (if ct_behavior c = REJECTING_NON_ESSENTIAL then postponed t duration (ct_timing c) else None) of
        Some d \<Rightarrow> timers_add t tid d c
      | None \<Rightarrow> dispatch (TimerMessage tid t duration) c)"
| "processTimer _ c = c"

section \<open>The controller\<close>

text \<open>The expired timers go to \<^verbatim>\<open>mTimerFifo\<close>, which is then emptied. Processing a timer adds nothing to
  that fifo, so the loop runs once per message.\<close>

definition expire :: "Controller \<Rightarrow> Controller" where
  "expire c =
     (case process_timers (ct_now c) (mTimers c) (mTimerFifo c) of (timers, fifo) \<Rightarrow>
        c\<lparr>mTimers := timers, mTimerFifo := fifo\<rparr>)"

fun drain_timers :: "nat \<Rightarrow> Controller \<Rightarrow> Controller" where
  "drain_timers 0 c = c"
| "drain_timers (Suc n) c =
     (case mTimerFifo c of
        [] \<Rightarrow> c
      | m # ms \<Rightarrow> drain_timers n (processTimer m (c\<lparr>mTimerFifo := ms\<rparr>)))"

definition run_timers :: "Controller \<Rightarrow> Controller" where
  "run_timers c = (let c = expire c in drain_timers (length (mTimerFifo c)) c)"

fun run_fifo :: "nat \<Rightarrow> Controller \<Rightarrow> Controller" where
  "run_fifo 0 c = c"
| "run_fifo (Suc n) c =
     (case mStateMacFifo c of
        [] \<Rightarrow> c
      | m # ms \<Rightarrow> run_fifo n (process m (c\<lparr>mStateMacFifo := ms\<rparr>)))"

text \<open>\<^verbatim>\<open>TransactionController::process\<close>; the wait for a message is not modelled. The two arguments say
  whether the fifo of the transaction users is empty and the transport selector has finished.\<close>

definition controller_process :: "bool \<Rightarrow> bool \<Rightarrow> Controller \<Rightarrow> Controller" where
  "controller_process tu_idle finished c =
     (if mShuttingDown c \<and> mStateMacFifo c = [] \<and> tu_idle \<and> finished
      then c\<lparr>mTuSelector := tu_add None ShutdownMessage (mTuSelector c)\<rparr>
      else
        let c' = (if mStateMacFifo c = [] \<or> msTillNextTimer (ct_now c) (mTimers c) = 0 then run_timers c else c)
        in if mStateMacFifo c = [] then c' else run_fifo 16 c')"

definition controller_send :: "SipMessage \<Rightarrow> Controller \<Rightarrow> Controller" where
  "controller_send sip c =
     (if isRequest sip \<and> sip_method sip \<noteq> ACK \<and> ct_behavior c \<noteq> NORMAL then
        (case fresh_response sip 503 '''' c of (r, c) \<Rightarrow>
           let r = r\<lparr>sip_retryAfter := Some (ct_expectedWait c div 1000), sip_tu := sip_tu sip\<rparr>
           in c\<lparr>mTuSelector := tu_add (sip_tu sip) (TuSip r) (mTuSelector c)\<rparr>)
      else fifo_add (SipMsg sip) c)"

definition controller_shutdown :: "Controller \<Rightarrow> Controller" where
  "controller_shutdown c = c\<lparr>mShuttingDown := True\<rparr>"

definition getTimeTillNextProcessMS :: "Controller \<Rightarrow> nat" where
  "getTimeTillNextProcessMS c =
     (if mStateMacFifo c \<noteq> [] then 0 else msTillNextTimer (ct_now c) (mTimers c))"

definition abandonServerTransaction :: "string \<Rightarrow> Controller \<Rightarrow> Controller" where
  "abandonServerTransaction tid c = fifo_add (AbandonServerTransaction tid) c"

definition cancelClientInviteTransaction :: "string \<Rightarrow> string list option \<Rightarrow> Controller \<Rightarrow> Controller" where
  "cancelClientInviteTransaction tid reasons c = fifo_add (CancelClientInviteTransaction tid reasons) c"

text \<open>The other requests to the controller go through the fifo too; two settings are set at once.\<close>

definition zeroOutStatistics :: "Controller \<Rightarrow> Controller" where
  "zeroOutStatistics c = fifo_add ZeroOutStatistics c"

definition pollStatistics :: "Controller \<Rightarrow> Controller" where
  "pollStatistics c = fifo_add PollStatistics c"

definition addTransport :: "nat \<Rightarrow> Controller \<Rightarrow> Controller" where
  "addTransport k c = fifo_add (AddTransport k) c"

definition removeTransport :: "nat \<Rightarrow> Controller \<Rightarrow> Controller" where
  "removeTransport k c = fifo_add (RemoveTransport k) c"

definition terminateFlow :: "Tuple \<Rightarrow> Controller \<Rightarrow> Controller" where
  "terminateFlow flow c = fifo_add (TerminateFlow flow) c"

definition enableFlowTimer :: "Tuple \<Rightarrow> Controller \<Rightarrow> Controller" where
  "enableFlowTimer flow c = fifo_add (EnableFlowTimer flow) c"

definition invokeAfterSocketCreationFunc :: "TransportType \<Rightarrow> Controller \<Rightarrow> Controller" where
  "invokeAfterSocketCreationFunc t c = fifo_add (InvokeAfterSocketCreationFunc t) c"

definition setFixBadDialogIdentifiers :: "bool \<Rightarrow> Controller \<Rightarrow> Controller" where
  "setFixBadDialogIdentifiers b c = c\<lparr>mFixBadDialogIdentifiers := b\<rparr>"

definition setFixBadCSeqNumbers :: "bool \<Rightarrow> Controller \<Rightarrow> Controller" where
  "setFixBadCSeqNumbers b c = c\<lparr>mFixBadCSeqNumbers := b\<rparr>"

section \<open>Construction\<close>

text \<open>The constructor; the host name, the timing, the greylist duration and the version of the outbound
  draft are settings of the process, the answers of the components below are \<open>answers\<close>.\<close>

definition new_Controller :: "string \<Rightarrow> Timing \<Rightarrow> nat \<Rightarrow> nat \<Rightarrow> (nat \<Rightarrow> Answer) \<Rightarrow> Controller" where
  "new_Controller host timing greylist version answers =
     \<lparr>mClientTransactionMap = Map.empty, mServerTransactionMap = Map.empty, mTimers = [], mTimerFifo = [],
      mStateMacFifo = [], mTuSelector = new_TuSelector, mDiscardStrayResponses = True,
      mFixBadDialogIdentifiers = True, mFixBadCSeqNumbers = True, mShuttingDown = False, mHostname = host,
      StatelessIdCounter = 0, ct_behavior = NORMAL, ct_expectedWait = 0, ct_timing = timing,
      ct_greylist = greylist, ct_outboundVersion = version, ct_now = 0, ct_oracle = answers, ct_asked = 0,
      ct_out = [], ct_failed = False\<rparr>"

end
