(* ===== verification/TransInv.thy ===== *)
theory TransInv
  imports TransProcess
begin

text \<open>The invariant of the SIP transaction layer. A transaction is well formed (\<open>ts_ok\<close>) when its state is
  one its machine has, the message it would send next is of the right kind and its DNS lookup and
  target agree; a timer fits a transaction when its machine handles it. Every machine keeps
  transactions well formed, fails no assertion, touches only its own timers and, for an INVITE that
  is cancelled, the CANCEL transaction next to it.\<close>

section \<open>What the operations leave alone\<close>

text \<open>The pending timers: those in the queue and those that have expired and wait in the fifo.\<close>

definition pending_timers :: "Controller \<Rightarrow> (TimerType \<times> string) set" where
  "pending_timers c = (\<lambda>t. (mType t, mTid t)) ` set (mTimers c) \<union>
     {(t, tid). \<exists>d. TimerMessage tid t d \<in> set (mTimerFifo c)}"

text \<open>Nothing changes but the outputs, the input queue, the messages to the users and timers of types
  \<open>X\<close> for the transaction \<open>tid\<close>; the timer queue stays ordered.\<close>

definition core where
  "core c = (mClientTransactionMap c, mServerTransactionMap c, mTimerFifo c, ct_timing c, ct_now c,
     mDiscardStrayResponses c, mCongestionManager (mTuSelector c), ct_oracle c, ct_failed c)"

definition calm :: "string \<Rightarrow> TimerType set \<Rightarrow> Controller \<Rightarrow> Controller \<Rightarrow> bool" where
  "calm tid X c c' \<longleftrightarrow> core c' = core c \<and>
     pending_timers c \<subseteq> pending_timers c' \<and> pending_timers c' \<subseteq> pending_timers c \<union> X \<times> {tid} \<and>
     (in_order (mTimers c) \<longrightarrow> in_order (mTimers c'))"

lemma calm_refl [simp, intro]: "calm tid X c c"
  by (auto simp: calm_def)

lemma calm_trans [trans]:
  assumes "calm tid X c c'" "calm tid Y c' c''" "X \<union> Y \<subseteq> Z" shows "calm tid Z c c''"
proof -
  have "X \<times> {tid} \<union> Y \<times> {tid} \<subseteq> Z \<times> {tid}" using assms(3) by blast
  then show ?thesis using assms(1,2) unfolding calm_def by (intro conjI) (simp, blast, blast, simp)
qed

lemma calm_mono: "calm tid X c c' \<Longrightarrow> X \<subseteq> Y \<Longrightarrow> calm tid Y c c'"
  unfolding calm_def by blast

lemma calm_step: "calm tid X c c' \<Longrightarrow> calm tid X c' c'' \<Longrightarrow> calm tid X c c''"
  by (rule calm_trans) auto

lemma calm_core: "calm tid X c c' \<Longrightarrow> core c' = core c"
  by (simp add: calm_def)

lemma calm_same: "core c'' = core c' \<Longrightarrow> pending_timers c'' = pending_timers c' \<Longrightarrow> mTimers c'' = mTimers c' \<Longrightarrow> calm tid X c c'' \<longleftrightarrow> calm tid X c c'"
  by (simp add: calm_def)

lemma calm_emit [simp]: "calm tid X c (emit e c') \<longleftrightarrow> calm tid X c c'"
  by (rule calm_same) (simp_all add: core_def emit_def pending_timers_def)

lemma calm_assert [simp]: "b \<Longrightarrow> calm tid X c (resip_assert b c') \<longleftrightarrow> calm tid X c c'"
  by (simp add: resip_assert_def)

lemma assert_True [simp]: "resip_assert True c = c"
  by (simp add: resip_assert_def)

lemma calm_fifo_add [simp]: "calm tid X c (fifo_add m c') \<longleftrightarrow> calm tid X c c'"
  by (rule calm_same) (simp_all add: core_def fifo_add_def pending_timers_def)

lemma calm_tu_add [simp]: "calm tid X c (c'\<lparr>mTuSelector := tu_add tu m (mTuSelector c')\<rparr>) \<longleftrightarrow> calm tid X c c'"
  by (rule calm_same) (simp_all add: core_def pending_timers_def tu_add_def split: option.splits)

lemma calm_post_sip [simp]: "calm tid X c (post_sip tu sip c') \<longleftrightarrow> calm tid X c c'"
  by (simp add: post_sip_def)

lemma calm_ask: "ask c = (a, c') \<Longrightarrow> calm tid X c c'"
  using calm_refl by (subst calm_same [where c' = c]) (auto simp: core_def ask_def pending_timers_def)

lemma pending_timers_add [simp]: "pending_timers (timers_add t tid d c) = insert (t, tid) (pending_timers c)"
  by (auto simp: pending_timers_def timers_add_def add_timer_def new_timer_def)

lemma calm_timers_add: "calm tid X c c' \<Longrightarrow> t \<in> X \<Longrightarrow> calm tid X c (timers_add t tid d c')"
  unfolding calm_def pending_timers_add by (auto simp: core_def timers_add_def add_timer_def in_order_push)

lemma calm_fresh_response: "fresh_response sip code reason c = (r, c') \<Longrightarrow> calm tid X c c'"
  by (auto simp: fresh_response_def split: prod.splits dest: calm_ask)

lemma calm_transmit: "transmit sip target c = (b, c') \<Longrightarrow> calm tid X c c'"
  by (auto simp: transmit_def split: prod.splits option.splits dest: calm_ask)

lemma calm_prime: "prime d c = (d', c') \<Longrightarrow> calm tid X c c'"
  by (auto simp: prime_def split: prod.splits if_splits dest: calm_ask)

lemma calm_dns_feedback [simp]: "calm tid X c (dns_feedback sip s c') \<longleftrightarrow> calm tid X c c'"
  by (simp add: dns_feedback_def split: option.splits)

lemma calm_destructed [simp]: "calm tid X c (destructed s c') \<longleftrightarrow> calm tid X c c'"
  by (simp add: destructed_def split: option.splits)

text \<open>What is assumed of the surroundings: no congestion manager is set (\<^verbatim>\<open>setCongestionManager\<close> does
  not store it) and the targets found by the DNS have a transport.\<close>

fun targets_known :: "DnsView \<Rightarrow> bool" where
  "targets_known (DnsTargets ts) \<longleftrightarrow> list_all (\<lambda>t. tp_type t \<noteq> UNKNOWN_TRANSPORT) ts"
| "targets_known _ \<longleftrightarrow> True"

definition env_ok :: "Controller \<Rightarrow> bool" where
  "env_ok c \<longleftrightarrow> mCongestionManager (mTuSelector c) = None \<and> (\<forall>n. targets_known (a_dns (ct_oracle c n)))"

lemma calm_env_ok: "calm tid X c c' \<Longrightarrow> env_ok c \<Longrightarrow> env_ok c'"
  by (simp add: calm_def core_def env_ok_def)

lemma env_ok_behavior [simp]: "env_ok c \<Longrightarrow> getRejectionBehavior tu (mTuSelector c) = NORMAL"
  by (simp add: env_ok_def getRejectionBehavior_def)

lemma calm_sendToTU_response:
  assumes "env_ok c" shows "calm tid X c (sendToTU_response sip s c)"
proof -
  have "env_ok (dns_feedback sip s c)" using calm_env_ok [of tid X c] assms by simp
  then show ?thesis by (simp add: sendToTU_response_def Let_def)
qed

lemma calm_terminate: "terminateTransaction b (s, c) = (s', c') \<Longrightarrow> calm tid X c c' \<and> s' = s\<lparr>mState := Terminated\<rparr>"
  by (auto simp: terminateTransaction_def split: if_splits)

lemma calm_destroy_dns:
  "destroy_dns (s, c) = (s', c') \<Longrightarrow> calm tid X c c' \<and>
     s' = (if mDnsResult s = None then s else s\<lparr>mDnsResult := None, mPendingOperation := NoOperation\<rparr>)"
  by (auto simp: destroy_dns_def split: option.splits)

lemma calm_reliability:
  "processReliability type (s, c) = (s', c') \<Longrightarrow> mId s = tid \<Longrightarrow>
     (mMachine s \<noteq> Stateless \<Longrightarrow> {TimerE1, TimerA} \<subseteq> X) \<Longrightarrow>
     calm tid X c c' \<and> s' = s\<lparr>mIsReliable := type \<notin> {UDP, DCCP}\<rparr>"
  by (auto simp: processReliability_def split: if_splits Machine.splits intro: calm_timers_add)

section \<open>Sending\<close>

text \<open>What \<^verbatim>\<open>transmit\<close> and \<^verbatim>\<open>sendCurrentToWire\<close> do to a transaction.\<close>

lemma transmit_current_cases:
  assumes "transmit_current sip target (s, c) = (sent, s', c')"
  shows "calm tid X c c'" "s' = (if sent \<and> \<not> mIsReliable s then s\<lparr>mMsgToRetransmit := Some (sip, target)\<rparr> else s)"
  using assms by (auto simp: transmit_current_def split: prod.splits dest: calm_transmit)

definition sendable :: "TransactionState \<Rightarrow> bool" where
  "sendable s \<longleftrightarrow> mMsgToRetransmit s \<noteq> None \<or> mNextTransmission s \<noteq> None"

lemma not_sendable: "\<not> sendable s \<longleftrightarrow> mMsgToRetransmit s = None \<and> mNextTransmission s = None"
  by (simp only: sendable_def de_Morgan_disj not_not)

definition flow_ok :: "SipMessage \<Rightarrow> bool" where
  "flow_ok sip \<longleftrightarrow> (mFlowKey (sip_destination sip) \<noteq> 0 \<longrightarrow> tp_type (sip_destination sip) \<noteq> UNKNOWN_TRANSPORT)"

definition resolved :: "TransactionState \<Rightarrow> bool" where
  "resolved s \<longleftrightarrow> tp_type (mTarget s) \<noteq> UNKNOWN_TRANSPORT"

text \<open>The fields that sending may change.\<close>

definition sent_like :: "TransactionState \<Rightarrow> TransactionState \<Rightarrow> bool" where
  "sent_like s s' \<longleftrightarrow>
     mMachine s' = mMachine s \<and> mState s' = mState s \<and> mIsAbandoned s' = mIsAbandoned s \<and>
     mPendingCancelReasons s' = mPendingCancelReasons s \<and> mOriginalVia s' = mOriginalVia s \<and> mId s' = mId s \<and>
     mMethod s' = mMethod s \<and> mMethodText s' = mMethodText s \<and> mAckIsValid s' = mAckIsValid s \<and>
     mTransactionUser s' = mTransactionUser s"

lemma sent_like_refl [simp, intro]: "sent_like s s"
  by (simp add: sent_like_def)

lemma sent_like_trans [trans]: "sent_like s s' \<Longrightarrow> sent_like s' s'' \<Longrightarrow> sent_like s s''"
  by (simp add: sent_like_def)

definition server_sent :: "TransactionState \<Rightarrow> TransactionState \<Rightarrow> bool" where
  "server_sent s s' \<longleftrightarrow> sent_like s s' \<and> mDnsResult s' = None \<and> mPendingOperation s' = mPendingOperation s \<and>
     mIsReliable s' = mIsReliable s \<and> (mNextTransmission s' = mNextTransmission s \<or> mNextTransmission s' = None) \<and>
     (\<not> mIsReliable s \<longrightarrow> sendable s')"

lemma send_server_wire:
  assumes "\<not> isClient s" "sendable s" "mDnsResult s = None" "\<And>r. mNextTransmission s = Some r \<Longrightarrow> sip_vias r \<noteq> []"
    and w: "sendCurrentToWire (s, c) = (s', c')"
  shows "calm tid X c c' \<and> server_sent s s'"
proof (cases "mMsgToRetransmit s")
  case None
  then obtain r where r: "mNextTransmission s = Some r" using assms(2) by (auto simp: sendable_def)
  obtain sent t d where t: "send_server r (s, c) = (sent, t, d)" by (metis prod_cases3)
  obtain u tg where u: "transmit_current r tg (u, c) = (sent, t, d)" "u = s \<or> (\<exists>x. u = s\<lparr>mResponseTarget := x\<rparr>)"
    using t assms(3) assms(4) [OF r] by (auto simp: send_server_def Let_def split: option.splits)
  have "calm tid X c d \<and> sent_like s t \<and> mDnsResult t = None \<and> mPendingOperation t = mPendingOperation s \<and>
    mIsReliable t = mIsReliable s \<and> mNextTransmission t = Some r \<and>
    (sent \<and> \<not> mIsReliable s \<longrightarrow> mMsgToRetransmit t \<noteq> None)"
    using transmit_current_cases(1) [OF u(1), where tid = tid and X = X] transmit_current_cases(2) [OF u(1)] u(2) r assms(3)
    by (auto simp: sent_like_def)
  moreover have "s' = (if sent then onSendSuccess r t else t)" "c' = d"
    using w t r None assms(1) by (simp_all add: sendCurrentToWire_def split: if_splits)
  ultimately show ?thesis using r by (cases sent) (simp_all add: onSendSuccess_def sent_like_def sendable_def server_sent_def)
qed (use w assms(1,3) in \<open>auto simp: sendCurrentToWire_def sendable_def server_sent_def\<close>)

text \<open>A client transaction that has no target yet either takes the flow the message names or asks the
  DNS.\<close>

definition client_sent :: "TransactionState \<Rightarrow> TransactionState \<Rightarrow> bool" where
  "client_sent s s' \<longleftrightarrow> sent_like s s' \<and>
     (mPendingOperation s' = mPendingOperation s \<and> mDnsResult s' = mDnsResult s \<or>
      mPendingOperation s' = Dns \<and> mDnsResult s' = Some DnsPending \<and> mNextTransmission s' \<noteq> None \<and> \<not> resolved s \<and>
        \<not> resolved s') \<and>
     (mNextTransmission s' = mNextTransmission s \<or>
      mNextTransmission s' = None \<and> resolved s' \<and> (\<exists>r. mNextTransmission s = Some r \<and> sip_method r = ACK)) \<and>
     (resolved s \<longrightarrow> resolved s' \<and> mIsReliable s' = mIsReliable s \<and> (\<not> mIsReliable s \<longrightarrow> sendable s')) \<and>
     (\<not> resolved s \<longrightarrow> mIsReliable s' = mIsReliable s \<or> resolved s')"

lemma send_client_wire:
  assumes "isClient s" "sendable s" "mId s = tid"
    and r: "\<And>r. mNextTransmission s = Some r \<Longrightarrow> isRequest r \<and> flow_ok r"
    and "mMethod s = CANCEL \<Longrightarrow> resolved s" "mMachine s \<noteq> Stateless \<Longrightarrow> {TimerE1, TimerA} \<subseteq> X"
    and w: "sendCurrentToWire (s, c) = (s', c')"
  shows "calm tid X c c' \<and> client_sent s s'"
proof (cases "mMsgToRetransmit s")
  case None
  then obtain r where r': "mNextTransmission s = Some r" using assms(2) by (auto simp: sendable_def)
  then have rr: "isRequest r" "flow_ok r" using r by auto
  obtain sent t d where t: "send_client r (s, c) = (sent, t, d)" by (metis prod_cases3)
  have s': "s' = (if sent then onSendSuccess r t else t)" "c' = d"
    using w t r' None assms(1) by (auto simp: sendCurrentToWire_def)
  consider (target) "resolved s" | (flow) "\<not> resolved s" "mFlowKey (sip_destination r) \<noteq> 0"
    | (ask) "\<not> resolved s" "mFlowKey (sip_destination r) = 0" "mDnsResult s = None"
    | (wait) "\<not> resolved s" "mFlowKey (sip_destination r) = 0" "mDnsResult s \<noteq> None" by blast
  then show ?thesis
  proof cases
    case target
    then have "transmit_current r (mTarget s) (s, c) = (sent, t, d)"
      using t by (simp add: send_client_def resolved_def)
    note u = transmit_current_cases(1) [OF this, where tid = tid and X = X] transmit_current_cases(2) [OF this]
    show ?thesis using u r' s' target rr(1)
      by (auto simp: client_sent_def sent_like_def onSendSuccess_def resolved_def sendable_def)
  next
    case flow
    obtain v e where v: "processReliability (tp_type (sip_destination r)) (s\<lparr>mTarget := sip_destination r\<rparr>, c) = (v, e)"
      by fastforce
    have ft: "tp_type (sip_destination r) \<noteq> UNKNOWN_TRANSPORT" using rr(2) flow(2) by (simp add: flow_ok_def)
    have "transmit_current r (mTarget v) (v, e) = (sent, t, d)"
      using t flow v ft by (simp add: send_client_def resolved_def)
    note u = transmit_current_cases(1) [OF this, where tid = tid and X = X] transmit_current_cases(2) [OF this]
    have "calm tid X c e \<and> v = s\<lparr>mTarget := sip_destination r, mIsReliable := tp_type (sip_destination r) \<notin> {UDP, DCCP}\<rparr>"
      using calm_reliability [OF v, of tid X] assms(3,6) by simp
    then show ?thesis using u r' s' flow ft rr(1) calm_step [of tid X c e d]
      by (auto simp: client_sent_def sent_like_def onSendSuccess_def resolved_def)
  next
    case ask
    then have "mMethod s \<noteq> CANCEL" using assms(5) by blast
    then show ?thesis using ask t s' r' rr(1)
      by (auto simp: send_client_def resolved_def client_sent_def sent_like_def)
  next
    case wait
    then show ?thesis using t s' r' by (auto simp: send_client_def resolved_def client_sent_def)
  qed
qed (use w in \<open>auto simp: sendCurrentToWire_def sendable_def client_sent_def\<close>)

section \<open>Well-formed transactions\<close>

definition via_ok :: "TransactionState \<Rightarrow> bool" where
  "via_ok s \<longleftrightarrow> (case mOriginalVia s of None \<Rightarrow> False | Some v \<Rightarrow> branch_is_mine v)"

text \<open>The next message is a request of the method, or a response.\<close>

definition request_ready :: "MethodTypes \<Rightarrow> TransactionState \<Rightarrow> bool" where
  "request_ready m s \<longleftrightarrow> (case mNextTransmission s of None \<Rightarrow> False
     | Some r \<Rightarrow> isRequest r \<and> sip_method r = m \<and> sip_vias r \<noteq> [] \<and> flow_ok r)"

definition only_acks :: "TransactionState \<Rightarrow> bool" where
  "only_acks s \<longleftrightarrow> (case mNextTransmission s of None \<Rightarrow> True | Some r \<Rightarrow> isRequest r \<and> sip_method r = ACK \<and> flow_ok r)"

definition only_responses :: "TransactionState \<Rightarrow> bool" where
  "only_responses s \<longleftrightarrow> (case mNextTransmission s of None \<Rightarrow> True | Some r \<Rightarrow> isResponse r \<and> sip_vias r \<noteq> [])"

definition only_provisional :: "TransactionState \<Rightarrow> bool" where
  "only_provisional s \<longleftrightarrow> (case mNextTransmission s of None \<Rightarrow> True | Some r \<Rightarrow> sip_code r div 100 = 1)"

definition client_ok :: "TransactionState \<Rightarrow> bool" where
  "client_ok s \<longleftrightarrow> (mIsReliable s \<or> resolved s) \<and>
     (mPendingOperation s = Dns \<longrightarrow> mDnsResult s \<noteq> None \<and> mNextTransmission s \<noteq> None) \<and>
     (\<forall>d. mDnsResult s = Some d \<longrightarrow> targets_known d)"

definition server_ok :: "TransactionState \<Rightarrow> bool" where
  "server_ok s \<longleftrightarrow> mDnsResult s = None \<and> mPendingOperation s = NoOperation \<and> only_responses s"

definition cni_ok :: "TransactionState \<Rightarrow> bool" where
  "cni_ok s \<longleftrightarrow> mState s \<in> {Trying, Proceeding, Completed} \<and> mMethod s \<notin> {INVITE, ACK} \<and> client_ok s \<and>
     (mMethod s = CANCEL \<longrightarrow> resolved s \<and> mDnsResult s = None) \<and>
     (if mState s = Completed then mNextTransmission s = None \<and> mDnsResult s = None
      else request_ready (mMethod s) s \<and> (mMethod s \<noteq> CANCEL \<longrightarrow> via_ok s))"

definition ci_ok :: "TransactionState \<Rightarrow> bool" where
  "ci_ok s \<longleftrightarrow> mState s \<in> {Calling, Proceeding, Completed} \<and> mMethod s = INVITE \<and> client_ok s \<and>
     (mState s = Proceeding \<longrightarrow> resolved s) \<and>
     (if mState s = Completed then \<not> mIsReliable s \<and> mDnsResult s = None \<and> sendable s \<and> only_acks s
      else request_ready INVITE s \<and> via_ok s)"

definition stale_ok :: "TransactionState \<Rightarrow> bool" where
  "stale_ok s \<longleftrightarrow> mState s = Completed \<and> mNextTransmission s = None \<and> mDnsResult s = None \<and>
     mPendingOperation s = NoOperation"

definition stateless_ok :: "TransactionState \<Rightarrow> bool" where
  "stateless_ok s \<longleftrightarrow> mState s = Calling \<and> mMethod s = ACK \<and> client_ok s \<and> only_acks s \<and>
     (mPendingOperation s = Dns \<longrightarrow> \<not> resolved s)"

definition si_ok :: "TransactionState \<Rightarrow> bool" where
  "si_ok s \<longleftrightarrow> mState s \<in> {Trying, Proceeding, Completed, Confirmed} \<and> mMethod s = INVITE \<and> server_ok s \<and>
     (mState s = Trying \<longrightarrow> mNextTransmission s \<noteq> None \<and> \<not> mIsAbandoned s) \<and>
     (mState s \<in> {Trying, Proceeding} \<longrightarrow> only_provisional s) \<and>
     (mState s = Completed \<and> \<not> mIsReliable s \<longrightarrow> sendable s)"

definition sni_ok :: "TransactionState \<Rightarrow> bool" where
  "sni_ok s \<longleftrightarrow> mState s \<in> {Trying, Proceeding, Completed} \<and> mMethod s \<notin> {INVITE, ACK} \<and> server_ok s \<and>
     (mState s = Trying \<longrightarrow> sendable s) \<and> (mIsAbandoned s \<longrightarrow> mState s = Completed)"

definition ts_ok :: "TransactionState \<Rightarrow> bool" where
  "ts_ok s \<longleftrightarrow>
     (case mMachine s of
        ClientNonInvite \<Rightarrow> cni_ok s
      | ClientInvite \<Rightarrow> ci_ok s
      | ServerNonInvite \<Rightarrow> sni_ok s
      | ServerInvite \<Rightarrow> si_ok s
      | ClientStale \<Rightarrow> stale_ok s
      | ServerStale \<Rightarrow> server_ok s
      | Stateless \<Rightarrow> stateless_ok s)"

text \<open>The timers a machine expects: \<^verbatim>\<open>processServerInvite\<close> and \<^verbatim>\<open>processStateless\<close> assert on any other.\<close>

definition timer_fits :: "TimerType \<Rightarrow> TransactionState \<Rightarrow> bool" where
  "timer_fits t s \<longleftrightarrow>
     (mMachine s = ServerInvite \<longrightarrow> t \<in> {TimerTrying, TimerH, TimerI} \<or> t = TimerG \<and> \<not> mIsReliable s) \<and>
     (mMachine s = Stateless \<longrightarrow> t = TimerStateless)"

text \<open>The timer that ends a transaction in its present state. A transaction that waits for the
  transaction user, and an INVITE that has not been answered finally, has none.\<close>

definition ender :: "TransactionState \<Rightarrow> TimerType option" where
  "ender s =
     (case mMachine s of
        ClientNonInvite \<Rightarrow> Some (if mState s = Completed then TimerK else TimerF)
      | ClientInvite \<Rightarrow> if mState s = Completed then Some TimerD else None
      | ServerNonInvite \<Rightarrow> if mState s = Completed then Some TimerJ else None
      | ServerInvite \<Rightarrow>
          if mState s = Completed then Some TimerH else if mState s = Confirmed then Some TimerI else None
      | ClientStale \<Rightarrow> Some TimerStaleClient
      | ServerStale \<Rightarrow> Some TimerStaleServer
      | Stateless \<Rightarrow> Some TimerStateless)"

fun fired :: "TransactionMessage \<Rightarrow> TimerType option" where
  "fired (TimerMessage _ t _) = Some t"
| "fired _ = None"

section \<open>Good steps\<close>

definition good_next ::
  "TransactionMessage \<Rightarrow> TransactionState \<Rightarrow> TimerType set \<Rightarrow> (TimerType \<times> string) set \<Rightarrow> TransactionState \<Rightarrow> bool" where
  "good_next msg s X pending s' \<longleftrightarrow> ts_ok s' \<and> mId s' = mId s \<and> isClient s' = isClient s \<and>
     (\<forall>t. timer_fits t s \<or> t \<in> X \<longrightarrow> timer_fits t s') \<and>
     (\<forall>t. ender s' = Some t \<longrightarrow> ender s = Some t \<and> fired msg \<noteq> Some t \<or> (t, mId s) \<in> pending)"

text \<open>Timers of the kind of the transaction.\<close>

definition own :: "TimerType set \<Rightarrow> TransactionState \<Rightarrow> bool" where
  "own X s \<longleftrightarrow> (\<forall>t\<in>X. timer_isClient t = Some (isClient s))"

lemma own_simps [simp]: "own {} s" "own (insert t X) s \<longleftrightarrow> timer_isClient t = Some (isClient s) \<and> own X s"
  by (simp_all add: own_def)

lemma isClient_machine [simp]:
  "mMachine s = ClientNonInvite \<Longrightarrow> isClient s" "mMachine s = ClientInvite \<Longrightarrow> isClient s"
  "mMachine s = ClientStale \<Longrightarrow> isClient s" "mMachine s = Stateless \<Longrightarrow> isClient s"
  "mMachine s = ServerNonInvite \<Longrightarrow> \<not> isClient s" "mMachine s = ServerInvite \<Longrightarrow> \<not> isClient s"
  "mMachine s = ServerStale \<Longrightarrow> \<not> isClient s"
  by (simp_all add: isClient_def)

definition step_ok ::
  "TransactionMessage \<Rightarrow> TransactionState \<Rightarrow> Controller \<Rightarrow> TransactionState option \<times> Controller \<Rightarrow> bool" where
  "step_ok msg s c rc \<longleftrightarrow> (\<exists>X. own X s \<and> calm (mId s) X c (snd rc) \<and>
     (case fst rc of None \<Rightarrow> True | Some s' \<Rightarrow> good_next msg s X (pending_timers (snd rc)) s'))"

lemma step_ok_delete: "calm (mId s) X c c' \<Longrightarrow> own X s \<Longrightarrow> step_ok msg s c (delete_this (t, c'))"
  by (auto simp: step_ok_def delete_this_def)

lemma step_ok_stay:
  "calm (mId s) X c c' \<Longrightarrow> good_next msg s X (pending_timers c') s' \<Longrightarrow> own X s \<Longrightarrow> step_ok msg s c (stay (s', c'))"
  by (auto simp: step_ok_def stay_def)

lemma good_next_refl: "ts_ok s \<Longrightarrow> ender s \<noteq> fired msg \<or> ender s = None \<Longrightarrow> good_next msg s {} P s"
  by (auto simp: good_next_def)

lemma step_ok_refl: "ts_ok s \<Longrightarrow> ender s \<noteq> fired msg \<or> ender s = None \<Longrightarrow> step_ok msg s c (stay (s, c))"
  by (rule step_ok_stay [OF calm_refl good_next_refl]) auto

lemma step_ok_idle: "ts_ok s \<Longrightarrow> fired msg = None \<Longrightarrow> step_ok msg s c (stay (s, c))"
  by (rule step_ok_refl) auto

lemma step_ok_terminated:
  "calm (mId s) X c c' \<Longrightarrow> own X s \<Longrightarrow> step_ok msg s c (delete_this (terminateTransaction b (t, c')))"
  by (metis calm_step calm_terminate step_ok_delete surj_pair)

lemma step_ok_ended [simp]:
  "step_ok msg s c (delete_this (terminateTransaction b (t, c)))" "step_ok msg s c (delete_this (t, c))"
  by (rule step_ok_terminated step_ok_delete, rule calm_refl [where X = "{}"], simp)+

text \<open>What is assumed of a message when a transaction gets it. Responses answer requests that were sent;
  the user sends a second request with the same transaction id only to repeat an ACK, not over a flow
  while the target of the first is still being resolved, and does not cancel an ACK.\<close>

definition msg_fits :: "TransactionMessage \<Rightarrow> TransactionState \<Rightarrow> bool" where
  "msg_fits msg s \<longleftrightarrow>
     (case msg of
        SipMsg sip \<Rightarrow> accepts s sip \<and> (isRequest sip \<or> isResponse sip) \<and> isClientTransaction_sip sip = isClient s \<and>
          sip_vias sip \<noteq> [] \<and> (isClient s \<and> isResponse sip \<longrightarrow> resolved s) \<and>
          (isClient s \<and> isRequest sip \<longrightarrow>
             mMachine s = Stateless \<and> flow_ok sip \<and> (mPendingOperation s = Dns \<longrightarrow> mFlowKey (sip_destination sip) = 0))
      | TimerMessage _ t _ \<Rightarrow> timer_fits t s \<and> timer_isClient t = Some (isClient s)
      | TransportFailure _ _ _ \<Rightarrow> isClient s
      | TcpConnectState _ _ \<Rightarrow> isClient s
      | DnsResultMessage _ client \<Rightarrow> client = isClient s
      | AbandonServerTransaction _ \<Rightarrow> \<not> isClient s
      | CancelClientInviteTransaction _ _ \<Rightarrow> isClient s \<and> mMachine s \<noteq> Stateless
      | InvokeAfterSocketCreationFunc _ \<Rightarrow> isClient s \<and> mMachine s \<noteq> Stateless
      | _ \<Rightarrow> False)"

text \<open>The CANCEL transaction that an INVITE starts next to itself.\<close>

definition spawns :: "TransactionState \<Rightarrow> Controller \<Rightarrow> Controller \<Rightarrow> bool" where
  "spawns s c c' \<longleftrightarrow> (\<exists>sc. mId sc = mId s @ ''cancel'' \<and> mMachine sc = ClientNonInvite \<and> mMethod sc = CANCEL \<and>
     mState sc \<noteq> Completed \<and> ts_ok sc \<and>
     (TimerF, mId sc) \<in> pending_timers c' \<and>
     core c' = core (c\<lparr>mClientTransactionMap := (mClientTransactionMap c)(mId sc \<mapsto> sc)\<rparr>) \<and>
     pending_timers c \<subseteq> pending_timers c' \<and>
     pending_timers c' \<subseteq> pending_timers c \<union> {TimerF, TimerE1, TimerA} \<times> {mId sc} \<union> {TimerCleanUp} \<times> {mId s} \<and>
     (in_order (mTimers c) \<longrightarrow> in_order (mTimers c')))"

definition machine_ok ::
  "TransactionMessage \<Rightarrow> TransactionState \<Rightarrow> Controller \<Rightarrow> TransactionState option \<times> Controller \<Rightarrow> bool" where
  "machine_ok msg s c rc \<longleftrightarrow> (\<exists>c1. (c1 = c \<or> mMachine s = ClientInvite \<and> spawns s c c1) \<and> step_ok msg s c1 rc)"

lemma step_machine_ok: "step_ok msg s c rc \<Longrightarrow> machine_ok msg s c rc"
  by (auto simp: machine_ok_def)

text \<open>The contract of a state machine.\<close>

locale transaction_machine =
  fixes machine :: Machine
    and step :: "TransactionMessage \<Rightarrow> TransactionState \<times> Controller \<Rightarrow> TransactionState option \<times> Controller"
  assumes keeps: "mMachine s = machine \<Longrightarrow> ts_ok s \<Longrightarrow> msg_fits msg s \<Longrightarrow> env_ok c \<Longrightarrow> machine_ok msg s c (step msg (s, c))"
begin

lemma never_fails:
  assumes "mMachine s = machine" "ts_ok s" "msg_fits msg s" "env_ok c" "\<not> ct_failed c"
  shows "\<not> ct_failed (snd (step msg (s, c)))"
  using keeps [OF assms(1-4)] assms(5) by (auto simp: machine_ok_def step_ok_def calm_def core_def spawns_def)

lemma ends:
  assumes "mMachine s = machine" "ts_ok s" "msg_fits msg s" "env_ok c" "fired msg = ender s" "ender s \<noteq> None"
    "fst (step msg (s, c)) = Some s'" "ender s' = ender s"
  shows "(the (ender s), mId s) \<in> pending_timers (snd (step msg (s, c)))"
  using keeps [OF assms(1-4)] assms(5-8) by (auto simp: machine_ok_def step_ok_def good_next_def)

end

end
