(* ===== verification/TransServer.thy ===== *)
theory TransServer
  imports TransInv
begin

text \<open>The server machines keep the invariant.\<close>

lemma fresh_response_facts:
  assumes "fresh_response sip code reason c = (r, c')"
  shows "isResponse r" "sip_code r = code" "sip_vias r = sip_vias sip" "sip_method r = sip_method sip" "sip_external r \<longleftrightarrow> \<not> sip_external sip"
  using assms by (auto simp: fresh_response_def makeResponse_def isResponse_def new_sip_def split: prod.splits)

lemmas make100_facts = fresh_response_facts [where code = 100 and reason = "''''", folded make100_def]

lemma calm_make100: "make100 sip c = (r, c') \<Longrightarrow> calm tid X c c'"
  unfolding make100_def by (rule calm_fresh_response)

text \<open>Sending a response that was just put in place.\<close>

lemma send_response:
  assumes "\<not> isClient s" "mDnsResult s = None" "isResponse r" "sip_vias r \<noteq> []" "calm (mId s) X c c1"
    and w: "sendCurrentToWire (resetNextTransmission (Some r) s, c1) = (s', c')"
  shows "calm (mId s) X c c' \<and> server_sent (resetNextTransmission (Some r) s) s'"
proof -
  have "calm (mId s) X c1 c' \<and> server_sent (resetNextTransmission (Some r) s) s'"
    using assms(1-4) by (intro send_server_wire [OF _ _ _ _ w]) (auto simp: resetNextTransmission_def isClient_def sendable_def)
  then show ?thesis using calm_step [OF assms(5)] by blast
qed

lemma resend_response_wire:
  assumes "\<not> isClient s" "server_ok s" "sip_vias sip \<noteq> []" "resend_response sip (s, c) = (s', c')"
  shows "calm (mId s) X c c'" "sent_like s s'" "server_ok s'" "mIsReliable s' = mIsReliable s"
    "only_provisional s \<Longrightarrow> only_provisional s'" "\<not> mIsReliable s \<Longrightarrow> sendable s'"
proof -
  have "calm (mId s) X c c' \<and> sent_like s s' \<and> server_ok s' \<and> mIsReliable s' = mIsReliable s \<and>
    (only_provisional s \<longrightarrow> only_provisional s') \<and> (\<not> mIsReliable s \<longrightarrow> sendable s')"
  proof (cases "sendable s")
    case True
    then have "sendCurrentToWire (s, c) = (s', c')" using assms(4) by (auto simp: resend_response_def sendable_def)
    from send_server_wire [OF assms(1) True _ _ this, where tid = "mId s" and X = X] assms(2) show ?thesis
      by (auto simp: server_ok_def server_sent_def only_responses_def only_provisional_def split: option.splits)
  next
    case False
    obtain r c1 where r: "make100 sip c = (r, c1)" by fastforce
    then have "sendCurrentToWire (resetNextTransmission (Some r) s, c1) = (s', c')"
      using False assms(4) by (simp add: resend_response_def not_sendable)
    then have f: "calm (mId s) X c c' \<and> server_sent (resetNextTransmission (Some r) s) s'"
      using send_response [OF assms(1) _ _ _ calm_make100 [OF r]] assms(2,3) make100_facts [OF r]
      by (simp add: server_ok_def)
    then show ?thesis using assms(2,3) make100_facts [OF r]
      unfolding server_sent_def resetNextTransmission_def sent_like_def
      by (elim conjE disjE) (simp_all add: server_ok_def only_responses_def only_provisional_def)
  qed
  then show "calm (mId s) X c c'" "sent_like s s'" "server_ok s'" "mIsReliable s' = mIsReliable s"
    "only_provisional s \<Longrightarrow> only_provisional s'" "\<not> mIsReliable s \<Longrightarrow> sendable s'" by auto
qed

lemma reset_state: "(resetNextTransmission m s)\<lparr>mState := st\<rparr> = resetNextTransmission m (s\<lparr>mState := st\<rparr>)"
  by (simp add: resetNextTransmission_def)

section \<open>Non-INVITE\<close>

lemma server_non_invite_request_ok:
  assumes m: "mMachine s = ServerNonInvite" "ts_ok s" "sip_vias sip \<noteq> []"
  shows "step_ok (SipMsg sip) s c (server_non_invite_request sip (s, c))"
proof -
  have cl: "\<not> isClient s" using m(1) by (simp add: isClient_def)
  have ok: "server_ok s" "mState s \<in> {Trying, Proceeding, Completed}" "mIsAbandoned s \<Longrightarrow> mState s = Completed"
    using m by (auto simp: ts_ok_def sni_ok_def)
  consider "mState s = Trying" | (ab) "mState s \<noteq> Trying" "mIsAbandoned s" | (re) "mState s \<noteq> Trying" "\<not> mIsAbandoned s" by blast
  then show ?thesis
  proof cases
    case ab
    obtain r c1 where r: "fresh_response sip 500 '''' c = (r, c1)" by fastforce
    obtain s' c' where w: "sendCurrentToWire (resetNextTransmission (Some r) (s\<lparr>mIsAbandoned := False\<rparr>), c1) = (s', c')"
      by fastforce
    have "calm (mId s) {} c c' \<and> server_sent (resetNextTransmission (Some r) (s\<lparr>mIsAbandoned := False\<rparr>)) s'"
      using send_response [OF _ _ _ _ calm_fresh_response [OF r] w, where X = "{}"] ok fresh_response_facts [OF r] m(3) cl
      by (simp add: isClient_def server_ok_def)
    then show ?thesis using w r ab ok m fresh_response_facts [OF r]
      by (auto simp: server_non_invite_request_def intro!: step_ok_stay [where X = "{}"])
        (auto simp: good_next_def ts_ok_def sni_ok_def server_ok_def server_sent_def sent_like_def isClient_def
          only_responses_def resetNextTransmission_def ender_def timer_fits_def split: option.splits)
  next
    case re
    obtain s' c' where w: "resend_response sip (s, c) = (s', c')" by fastforce
    note f = resend_response_wire [OF cl ok(1) m(3) w]
    have "good_next (SipMsg sip) s {} (pending_timers c') s'" using f(2-6) re ok m
      by (auto simp: good_next_def ts_ok_def sni_ok_def sent_like_def isClient_def ender_def timer_fits_def)
    then show ?thesis using w re ok f(1) [where X = "{}"] by (simp add: server_non_invite_request_def step_ok_stay)
  qed (use m step_ok_refl [of s "SipMsg sip" c] in \<open>simp add: server_non_invite_request_def ender_def\<close>)
qed

text \<open>A response takes the place of the message to send.\<close>

definition placed :: "SipMessage \<Rightarrow> TransactionState \<Rightarrow> TransactionState \<Rightarrow> bool" where
  "placed r s s' \<longleftrightarrow> sent_like s s' \<and> mDnsResult s' = None \<and> mPendingOperation s' = mPendingOperation s \<and>
     mIsReliable s' = mIsReliable s \<and> mNextTransmission s' \<in> {None, Some r} \<and> (\<not> mIsReliable s \<longrightarrow> sendable s')"

lemma place_response:
  assumes "\<not> isClient s" "mDnsResult s = None" "isResponse r" "sip_vias r \<noteq> []" "calm (mId s) X c c1"
    and w: "sendCurrentToWire (resetNextTransmission (Some r) s, c1) = (s', c')"
  shows "calm (mId s) X c c' \<and> placed r s s'"
  using send_response [OF assms] by (auto simp: server_sent_def placed_def resetNextTransmission_def sent_like_def)

lemma sni_good:
  assumes "mMachine s = ServerNonInvite" "mMachine s' = ServerNonInvite" "sni_ok s'" "mId s' = mId s"
    and "mState s' = Completed \<Longrightarrow> (TimerJ, mId s) \<in> P \<or> mState s = Completed \<and> fired msg \<noteq> Some TimerJ"
  shows "good_next msg s X P s'"
  using assms by (auto simp: good_next_def ts_ok_def isClient_def ender_def timer_fits_def)

lemma sni_placed:
  assumes "mMachine s = ServerNonInvite" "sni_ok s" "placed r (s\<lparr>mState := st\<rparr>) s'" "isResponse r" "sip_vias r \<noteq> []"
    "st = Proceeding \<and> mState s \<noteq> Completed \<or> st = Completed"
  shows "mMachine s' = ServerNonInvite \<and> sni_ok s' \<and> mId s' = mId s \<and> mState s' = st"
  using assms by (cases "mNextTransmission s'") (auto simp: placed_def sent_like_def sni_ok_def server_ok_def only_responses_def)

lemma server_non_invite_response_ok:
  assumes m: "mMachine s = ServerNonInvite" "ts_ok s" "sip_vias sip \<noteq> []" "isResponse sip"
  shows "step_ok (SipMsg sip) s c (server_non_invite_response sip (s, c))"
proof -
  have cl: "\<not> isClient s" using m(1) by (simp add: isClient_def)
  have ok: "server_ok s" "mState s \<in> {Trying, Proceeding, Completed}" "mIsAbandoned s \<Longrightarrow> mState s = Completed"
    "mMethod s \<notin> {INVITE, ACK}"
    using m by (auto simp: ts_ok_def sni_ok_def)
  have dns: "mDnsResult s = None" using ok(1) by (simp add: server_ok_def)
  have sni: "sni_ok s" using m(1,2) by (simp add: ts_ok_def)
  consider (prov) "sip_code sip < 200" "mState s \<in> {Trying, Proceeding}" | (late) "sip_code sip < 200" "mState s = Completed"
    | (rel) "200 \<le> sip_code sip" "mIsReliable s" | (fin) "200 \<le> sip_code sip" "\<not> mIsReliable s" "mState s \<noteq> Completed"
    | (rep) "200 \<le> sip_code sip" "\<not> mIsReliable s" "mState s = Completed" using ok(2) by force
  then show ?thesis
  proof cases
    case prov
    obtain s' c' where w: "sendCurrentToWire (resetNextTransmission (Some sip) (s\<lparr>mState := Proceeding\<rparr>), c) = (s', c')"
      by fastforce
    have "calm (mId s) {} c c' \<and> placed sip (s\<lparr>mState := Proceeding\<rparr>) s'"
      using place_response [OF _ _ m(4,3) _ w, where X = "{}" and c = c] cl dns by (simp add: isClient_def)
    then have "step_ok (SipMsg sip) s c (stay (s', c'))"
      using sni_placed [OF m(1) sni _ m(4,3)] prov by (intro step_ok_stay [where X = "{}"] sni_good [OF m(1)]) auto
    then show ?thesis using w prov by (simp add: server_non_invite_response_def reset_state)
  next
    case rel
    obtain s' c' where w: "sendCurrentToWire (resetNextTransmission (Some sip) s, c) = (s', c')" by fastforce
    have "calm (mId s) {} c c'" using place_response [OF cl dns m(4,3) _ w, where X = "{}" and c = c] by simp
    then show ?thesis using w rel by (simp add: server_non_invite_response_def step_ok_terminated)
  next
    case fin
    let ?c = "timers_add TimerJ (mId s) (64 * T1 (ct_timing c)) c"
    obtain s' c' where w: "sendCurrentToWire (resetNextTransmission (Some sip) (s\<lparr>mState := Completed\<rparr>), ?c) = (s', c')"
      by fastforce
    have "calm (mId s) {TimerJ} c ?c" by (simp add: calm_timers_add)
    then have f: "calm (mId s) {TimerJ} c c' \<and> placed sip (s\<lparr>mState := Completed\<rparr>) s'"
      using place_response [OF _ _ m(4,3) _ w, where X = "{TimerJ}" and c = c] cl dns by (simp add: isClient_def)
    have "calm (mId s) {} ?c c'"
      using place_response [OF _ _ m(4,3) _ w, where X = "{}" and c = ?c] cl dns by (simp add: isClient_def)
    then have "(TimerJ, mId s) \<in> pending_timers c'" by (auto simp: calm_def)
    then have "step_ok (SipMsg sip) s c (stay (s', c'))"
      using sni_placed [OF m(1) sni _ m(4,3)] f cl by (intro step_ok_stay [where X = "{TimerJ}"] sni_good [OF m(1)]) auto
    then show ?thesis using w fin ok(2) by (auto simp: server_non_invite_response_def)
  qed (use step_ok_idle [OF m(2)] in \<open>simp_all add: server_non_invite_response_def\<close>)
qed

lemma server_non_invite_timer_ok:
  assumes m: "mMachine s = ServerNonInvite" "ts_ok s"
  shows "step_ok (TimerMessage tid t d) s c (server_non_invite_timer t (s, c))"
proof -
  have cl: "\<not> isClient s" using m(1) by (simp add: isClient_def)
  have ok: "server_ok s" "mState s = Trying \<Longrightarrow> sendable s" using m by (auto simp: ts_ok_def sni_ok_def)
  consider (J) "t = TimerJ" "mState s = Completed" | (trying) "t = TimerTrying" "mState s = Trying"
    | (none) "\<not> (t = TimerJ \<and> mState s = Completed)" "\<not> (t = TimerTrying \<and> mState s = Trying)" by blast
  then show ?thesis
  proof cases
    case trying
    obtain s' c' where w: "sendCurrentToWire (s, c) = (s', c')" by fastforce
    have "calm (mId s) {} c c' \<and> server_sent s s'"
      using ok trying by (intro send_server_wire [OF cl _ _ _ w]) (auto simp: server_ok_def only_responses_def)
    then show ?thesis using w trying ok m
      by (auto simp: server_non_invite_timer_def intro!: step_ok_stay [where X = "{}"])
        (auto simp: good_next_def ts_ok_def sni_ok_def server_ok_def server_sent_def sent_like_def isClient_def
          only_responses_def ender_def timer_fits_def split: option.splits)
  next
    case none
    then show ?thesis using m step_ok_refl [of s "TimerMessage tid t d" c]
      by (auto simp: server_non_invite_timer_def ender_def)
  qed (simp add: server_non_invite_timer_def step_ok_terminated)
qed

lemma server_non_invite_abandon_ok:
  assumes m: "mMachine s = ServerNonInvite" "ts_ok s"
  shows "step_ok (AbandonServerTransaction tid) s c (server_non_invite_abandon (s, c))"
proof -
  have ok: "sni_ok s" using m by (simp add: ts_ok_def)
  consider (rel) "mState s \<in> {Trying, Proceeding}" "mIsReliable s" | (unrel) "mState s \<in> {Trying, Proceeding}" "\<not> mIsReliable s"
    | (none) "mState s \<notin> {Trying, Proceeding}" by blast
  then show ?thesis
  proof cases
    case unrel
    let ?c = "timers_add TimerJ (mId s) (64 * T1 (ct_timing c)) c"
    have "step_ok (AbandonServerTransaction tid) s c (stay (s\<lparr>mIsAbandoned := True, mState := Completed\<rparr>, ?c))"
      using ok m by (intro step_ok_stay [where X = "{TimerJ}"])
        (auto simp: calm_timers_add good_next_def ts_ok_def sni_ok_def server_ok_def only_responses_def isClient_def
          ender_def timer_fits_def)
    then show ?thesis using unrel by (simp add: server_non_invite_abandon_def)
  next
    case rel
    then show ?thesis by (simp add: server_non_invite_abandon_def step_ok_terminated)
  next
    case none
    then show ?thesis using step_ok_idle [OF m(2)] by (simp add: server_non_invite_abandon_def)
  qed
qed

lemma server_handleSync: "server_ok s \<Longrightarrow> handleSync (s, c) = stay (s, c)"
  by (simp add: handleSync_def server_ok_def)

section \<open>INVITE\<close>

lemma si_good:
  assumes "mMachine s = ServerInvite" "mMachine s' = ServerInvite" "si_ok s'" "mId s' = mId s" "mIsReliable s' = mIsReliable s"
    and "X \<subseteq> {TimerTrying, TimerH, TimerI} \<union> (if mIsReliable s then {} else {TimerG})"
    and "mState s' = Completed \<Longrightarrow> (TimerH, mId s) \<in> P \<or> mState s = Completed \<and> fired msg \<noteq> Some TimerH"
    and "mState s' = Confirmed \<Longrightarrow> (TimerI, mId s) \<in> P \<or> mState s = Confirmed \<and> fired msg \<noteq> Some TimerI"
  shows "good_next msg s X P s'"
proof -
  have "timer_fits t s'" if "timer_fits t s \<or> t \<in> X" for t
    using that assms(1,2,5,6) by (auto simp: timer_fits_def split: if_splits)
  then show ?thesis using assms by (auto simp: good_next_def ts_ok_def isClient_def ender_def)
qed

lemma si_placed:
  assumes "mMachine s = ServerInvite" "mMethod s = INVITE" "mPendingOperation s = NoOperation"
    and "placed r s s'" "isResponse r" "sip_vias r \<noteq> []"
    and "mState s \<in> {Proceeding, Completed}" "mState s = Proceeding \<Longrightarrow> sip_code r div 100 = 1"
  shows "mMachine s' = ServerInvite \<and> si_ok s' \<and> mId s' = mId s \<and> mState s' = mState s \<and> mIsReliable s' = mIsReliable s"
  using assms by (cases "mNextTransmission s'")
    (auto simp: placed_def sent_like_def si_ok_def server_ok_def only_responses_def only_provisional_def)

abbreviation invite_timers :: "TransactionState \<Rightarrow> TimerType set" where
  "invite_timers s \<equiv> {TimerH, TimerI} \<union> (if mIsReliable s then {} else {TimerG})"

lemma start_H_G_calm:
  assumes "calm (mId s) X c c'" "invite_timers s \<subseteq> X"
  shows "calm (mId s) X c (start_H_G s c')" "(TimerH, mId s) \<in> pending_timers (start_H_G s c')"
  using assms by (auto simp: start_H_G_def Let_def calm_timers_add split: if_splits)

text \<open>A final failure response: in place, with the timers started.\<close>

lemma si_final:
  assumes m: "mMachine s = ServerInvite" "mMethod s = INVITE" "server_ok s" "mState s = Completed"
    and r: "isResponse r" "sip_vias r \<noteq> []"
    and s0: "mMachine s0 = ServerInvite" "mId s0 = mId s" "mIsReliable s0 = mIsReliable s"
    and c: "calm (mId s) {} c c1"
  shows "step_ok msg s0 c (stay (sendCurrentToWire (resetNextTransmission (Some r) s, start_H_G s c1)))"
proof -
  obtain s' c' where w: "sendCurrentToWire (resetNextTransmission (Some r) s, start_H_G s c1) = (s', c')" by fastforce
  have cl: "\<not> isClient s" "mDnsResult s = None" using m by (simp_all add: isClient_def server_ok_def)
  have "calm (mId s) (invite_timers s) c (start_H_G s c1)" by (rule start_H_G_calm(1) [OF calm_mono [OF c]]) auto
  then have f: "calm (mId s) (invite_timers s) c c'" "placed r s s'" using place_response [OF cl r _ w] by blast+
  have "calm (mId s) {} (start_H_G s c1) c'" using place_response [OF cl r _ w, of "{}" "start_H_G s c1"] by blast
  then have "(TimerH, mId s) \<in> pending_timers c'"
    using start_H_G_calm(2) [OF calm_refl, of s "invite_timers s"] by (auto simp: calm_def)
  moreover have "mMachine s' = ServerInvite \<and> si_ok s' \<and> mId s' = mId s \<and> mState s' = mState s \<and> mIsReliable s' = mIsReliable s"
    using si_placed [OF m(1,2) _ f(2) r] m(3,4) by (simp add: server_ok_def)
  ultimately have "good_next msg s0 (invite_timers s) (pending_timers c') s'" using m(4) s0 by (intro si_good) auto
  then show ?thesis using w f(1) s0(1,2) by (auto intro!: step_ok_stay)
qed

lemma server_invite_request_ok:
  assumes m: "mMachine s = ServerInvite" "ts_ok s" "sip_vias sip \<noteq> []" "sip_method sip \<noteq> CANCEL"
    and unrel: "sip_method sip \<noteq> ACK \<Longrightarrow> \<not> mIsReliable s"
  shows "step_ok (SipMsg sip) s c (server_invite_request sip (s, c))"
proof -
  have cl: "\<not> isClient s" using m(1) by (simp add: isClient_def)
  have ok: "si_ok s" "server_ok s" using m by (auto simp: ts_ok_def si_ok_def)
  note idle = step_ok_idle [OF m(2)]
  consider (ab) "sip_method sip = INVITE" "mIsAbandoned s"
    | (re) "sip_method sip = INVITE" "\<not> mIsAbandoned s" "mState s \<in> {Proceeding, Completed}"
    | (ack) "sip_method sip = ACK" "mState s = Completed"
    | (none) "sip_method sip = INVITE \<and> \<not> mIsAbandoned s \<and> mState s \<notin> {Proceeding, Completed} \<or>
        sip_method sip = ACK \<and> mState s \<noteq> Completed \<or> sip_method sip \<notin> {INVITE, ACK}" by blast
  then show ?thesis
  proof cases
    case ab
    obtain r c1 where r: "fresh_response sip 500 '''' c = (r, c1)" by fastforce
    let ?s = "s\<lparr>mIsAbandoned := False, mAckIsValid := True, mState := Completed\<rparr>"
    have e: "(resetNextTransmission (Some r) (s\<lparr>mIsAbandoned := False, mAckIsValid := True\<rparr>))\<lparr>mState := Completed\<rparr> =
      resetNextTransmission (Some r) ?s" "start_H_G (resetNextTransmission (Some r) ?s) = start_H_G ?s"
      by (auto simp: resetNextTransmission_def start_H_G_def Let_def fun_eq_iff)
    have "step_ok (SipMsg sip) s c (stay (sendCurrentToWire (resetNextTransmission (Some r) ?s, start_H_G ?s c1)))"
      using m ok fresh_response_facts [OF r] calm_fresh_response [OF r]
      by (intro si_final) (auto simp: si_ok_def server_ok_def only_responses_def)
    then show ?thesis using ab r by (simp add: server_invite_request_def e)
  next
    case re
    obtain s' c' where w: "resend_response sip (s, c) = (s', c')" by fastforce
    note f = resend_response_wire [OF cl ok(2) m(3) w]
    have "mMachine s' = ServerInvite \<and> si_ok s' \<and> mId s' = mId s \<and> mState s' = mState s"
      using f(2-6) unrel re ok(1) m(1) by (auto simp: si_ok_def sent_like_def)
    then have "step_ok (SipMsg sip) s c (stay (s', c'))"
      using f(1) [of "{}"] f(4) m(1) re(3)
      by (intro step_ok_stay [where X = "{}"] si_good) auto
    then show ?thesis using w re by (simp add: server_invite_request_def)
  next
    case ack
    show ?thesis
    proof (cases "mIsReliable s")
      case False
      let ?s = "resetNextTransmission None (s\<lparr>mState := Confirmed\<rparr>)" and ?c = "timers_add TimerI (mId s) (T4 (ct_timing c)) c"
      have "si_ok ?s" using ok by (simp add: si_ok_def server_ok_def resetNextTransmission_def only_responses_def)
      then have "step_ok (SipMsg sip) s c (stay (?s, ?c))" using m(1)
        by (intro step_ok_stay [where X = "{TimerI}"] si_good) (auto simp: calm_timers_add resetNextTransmission_def)
      then show ?thesis using ack False by (simp add: server_invite_request_def)
    qed (use ack in \<open>simp add: server_invite_request_def step_ok_terminated\<close>)
  next
    case none
    then show ?thesis using idle m(4) by (auto simp: server_invite_request_def split: MethodTypes.splits)
  qed
qed

lemma server_invite_response_ok:
  assumes m: "mMachine s = ServerInvite" "ts_ok s" "sip_vias sip \<noteq> []" "isResponse sip" "100 \<le> sip_code sip"
    "sip_method sip \<noteq> CANCEL"
  shows "step_ok (SipMsg sip) s c (server_invite_response sip (s, c))"
proof -
  have cl: "\<not> isClient s" using m(1) by (simp add: isClient_def)
  have ok: "si_ok s" "mMethod s = INVITE" "server_ok s" "mDnsResult s = None" using m by (auto simp: ts_ok_def si_ok_def server_ok_def)
  consider (prov) "sip_method sip = INVITE" "mState s \<in> {Trying, Proceeding}" "sip_code sip < 200"
    | (succ) "sip_method sip = INVITE" "mState s \<in> {Trying, Proceeding}" "200 \<le> sip_code sip" "sip_code sip < 300"
    | (final) "sip_method sip = INVITE" "mState s \<in> {Trying, Proceeding}" "300 \<le> sip_code sip"
    | (none) "sip_method sip \<noteq> INVITE \<or> mState s \<notin> {Trying, Proceeding}" by force
  then show ?thesis
  proof cases
    case prov
    let ?s = "s\<lparr>mState := Proceeding\<rparr>"
    obtain s' c' where w: "sendCurrentToWire (resetNextTransmission (Some sip) ?s, c) = (s', c')" by fastforce
    have f: "calm (mId s) {} c c' \<and> placed sip ?s s'"
      using place_response [OF _ _ m(4,3) _ w, where X = "{}" and c = c] cl ok(4) by (simp add: isClient_def)
    have "sip_code sip div 100 = 1" using m(5) prov(3) by presburger
    then have "mMachine s' = ServerInvite \<and> si_ok s' \<and> mId s' = mId s \<and> mState s' = Proceeding \<and> mIsReliable s' = mIsReliable s"
      using si_placed [of ?s sip s'] f m ok by (simp add: server_ok_def)
    then have "step_ok (SipMsg sip) s c (stay (s', c'))"
      using f m(1) by (intro step_ok_stay [where X = "{}"] si_good) auto
    then show ?thesis using w prov by (auto simp: server_invite_response_def reset_state)
  next
    case succ
    obtain s' c' where w: "sendCurrentToWire (resetNextTransmission (Some sip) s, c) = (s', c')" by fastforce
    have f: "calm (mId s) {TimerStaleServer} c c'" "placed sip s s'"
      using place_response [OF cl ok(4) m(4,3) _ w, where X = "{TimerStaleServer}" and c = c] by auto
    let ?c = "timers_add TimerStaleServer (mId s) (TS (ct_timing c')) c'"
    have "good_next (SipMsg sip) s {TimerStaleServer} (pending_timers ?c) (s'\<lparr>mMachine := ServerStale\<rparr>)"
      using f(2) ok m by (cases "mNextTransmission s'")
        (auto simp: good_next_def ts_ok_def server_ok_def placed_def sent_like_def only_responses_def isClient_def
          ender_def timer_fits_def)
    moreover have "calm (mId s) {TimerStaleServer} c ?c" using f(1) by (simp add: calm_timers_add)
    ultimately have "step_ok (SipMsg sip) s c (stay (s'\<lparr>mMachine := ServerStale\<rparr>, ?c))" using m(1) by (intro step_ok_stay) auto
    moreover have "mId s' = mId s" using f(2) by (simp add: placed_def sent_like_def)
    ultimately show ?thesis using w succ by (auto simp: server_invite_response_def)
  next
    case final
    let ?s = "s\<lparr>mAckIsValid := True, mState := Completed\<rparr>"
    have e: "(resetNextTransmission (Some sip) (s\<lparr>mAckIsValid := True\<rparr>))\<lparr>mState := Completed\<rparr> =
      resetNextTransmission (Some sip) ?s" "start_H_G (resetNextTransmission (Some sip) ?s) = start_H_G ?s"
      by (auto simp: resetNextTransmission_def start_H_G_def Let_def fun_eq_iff)
    have "step_ok (SipMsg sip) s c (stay (sendCurrentToWire (resetNextTransmission (Some sip) ?s, start_H_G ?s c)))"
      using m ok by (intro si_final) (auto simp: server_ok_def only_responses_def)
    then show ?thesis using final by (auto simp: server_invite_response_def e)
  next
    case none
    then show ?thesis using step_ok_idle [OF m(2)] m(6) by (auto simp: server_invite_response_def split: MethodTypes.splits)
  qed
qed

lemma server_invite_timer_ok:
  assumes m: "mMachine s = ServerInvite" "ts_ok s" "timer_fits t s"
  shows "step_ok (TimerMessage tid t d) s c (server_invite_timer t d (s, c))"
proof -
  have cl: "\<not> isClient s" using m(1) by (simp add: isClient_def)
  have ok: "si_ok s" "mDnsResult s = None" "\<And>r. mNextTransmission s = Some r \<Longrightarrow> sip_vias r \<noteq> []"
    using m by (auto simp: ts_ok_def si_ok_def server_ok_def only_responses_def)
  obtain s' c' where w: "sendCurrentToWire (s, c) = (s', c')" by fastforce
  consider (G) "t = TimerG" "mState s = Completed" | (trying) "t = TimerTrying" "mState s = Trying"
    | (fin) "t \<in> {TimerH, TimerI}" | (none) "t = TimerG \<and> mState s \<noteq> Completed \<or> t = TimerTrying \<and> mState s \<noteq> Trying"
    using m(1,3) by (auto simp: timer_fits_def)
  then show ?thesis
  proof cases
    case G
    then have u: "\<not> mIsReliable s" "sendable s" using m ok(1) by (auto simp: timer_fits_def si_ok_def)
    have f: "calm (mId s) {TimerG} c c'" "server_sent s s'" using send_server_wire [OF cl u(2) ok(2,3) w] by blast+
    let ?c = "timers_add TimerG (mId s) (min (T2 (ct_timing c')) (d * 2)) c'"
    have "mMachine s' = ServerInvite \<and> si_ok s' \<and> mId s' = mId s \<and> mState s' = Completed \<and> mIsReliable s' = mIsReliable s"
      using f(2) ok(1) u G m(1)
      by (auto simp: server_sent_def sent_like_def si_ok_def server_ok_def only_responses_def split: option.splits)
    then have "step_ok (TimerMessage tid t d) s c (stay (s', ?c))" using f(1) u G m(1)
      by (intro step_ok_stay [where X = "{TimerG}"] si_good) (auto simp: calm_timers_add)
    then show ?thesis using w G f(2) by (simp add: server_invite_timer_def server_sent_def sent_like_def)
  next
    case trying
    then have u: "sendable s" using ok(1) by (auto simp: si_ok_def sendable_def)
    have f: "calm (mId s) {} c c'" "server_sent s s'" using send_server_wire [OF cl u ok(2,3) w] by blast+
    have "si_ok (s'\<lparr>mState := Proceeding\<rparr>) \<and> mMachine s' = ServerInvite \<and> mId s' = mId s \<and> mIsReliable s' = mIsReliable s"
      using f(2) ok(1) trying m(1)
      by (auto simp: server_sent_def sent_like_def si_ok_def server_ok_def only_responses_def only_provisional_def split: option.splits)
    then have "step_ok (TimerMessage tid t d) s c (stay (s'\<lparr>mState := Proceeding\<rparr>, c'))" using f(1) m(1)
      by (intro step_ok_stay [where X = "{}"] si_good) auto
    then show ?thesis using w trying by (simp add: server_invite_timer_def)
  next
    case fin
    then show ?thesis by (auto simp: server_invite_timer_def step_ok_terminated)
  next
    case none
    then show ?thesis using m step_ok_refl [of s "TimerMessage tid t d" c]
      by (auto simp: server_invite_timer_def ender_def)
  qed
qed

lemma server_invite_abandon_ok:
  assumes m: "mMachine s = ServerInvite" "ts_ok s"
  shows "step_ok (AbandonServerTransaction tid) s c (server_invite_abandon (s, c))"
proof -
  have cl: "\<not> isClient s" using m(1) by (simp add: isClient_def)
  have ok: "si_ok s" "mDnsResult s = None" using m by (auto simp: ts_ok_def si_ok_def server_ok_def)
  show ?thesis
  proof (cases "mState s \<in> {Trying, Proceeding} \<and> \<not> mIsAbandoned s")
    case True
    show ?thesis
    proof (cases "mNextTransmission s")
      case None
      then have "mState s = Proceeding" using True ok(1) by (auto simp: si_ok_def)
      then have "mIsReliable s \<or> step_ok (AbandonServerTransaction tid) s c (stay (s\<lparr>mIsAbandoned := True\<rparr>, c))"
        using ok(1) m(1) by (intro disjI2 step_ok_stay [where X = "{}"] si_good)
          (auto simp: si_ok_def server_ok_def only_responses_def only_provisional_def)
      then show ?thesis using True None by (auto simp: server_invite_abandon_def step_ok_terminated)
    next
      case (Some r)
      then have r: "isResponse r" "sip_vias r \<noteq> []" "sip_code r div 100 = 1"
        using True ok(1) by (auto simp: si_ok_def server_ok_def only_responses_def only_provisional_def)
      let ?r = "r\<lparr>sip_code := 500, sip_reason := ''Server Error''\<rparr>"
      obtain s' c' where w: "sendCurrentToWire (resetNextTransmission (Some ?r) s, c) = (s', c')" by fastforce
      have r': "isResponse ?r" "sip_vias ?r \<noteq> []" using r by (simp_all add: isResponse_def)
      have f: "calm (mId s) (invite_timers s) c c'" "placed ?r s s'"
        using place_response [OF cl ok(2) r' calm_refl w] by blast+
      let ?s = "s'\<lparr>mAckIsValid := True, mState := Completed\<rparr>"
      have s: "si_ok ?s \<and> mMachine ?s = ServerInvite \<and> mId ?s = mId s \<and> mIsReliable ?s = mIsReliable s"
        using f(2) ok m(1) r' by (cases "mNextTransmission s'")
          (auto simp: placed_def sent_like_def si_ok_def server_ok_def only_responses_def sendable_def)
      have "calm (mId s) (invite_timers s) c (start_H_G ?s c')" "(TimerH, mId s) \<in> pending_timers (start_H_G ?s c')"
        using start_H_G_calm [of ?s "invite_timers s" c c'] f(1) s by auto
      then have "step_ok (AbandonServerTransaction tid) s c (stay (?s, start_H_G ?s c'))"
        using s m(1) by (intro step_ok_stay [where X = "invite_timers s"] si_good) auto
      then show ?thesis using w True Some r by (simp add: server_invite_abandon_def Let_def)
    qed
  qed (use step_ok_idle [OF m(2)] in \<open>auto simp: server_invite_abandon_def\<close>)
qed

section \<open>The contracts\<close>

lemma post_request_ok:
  "ts_ok s \<Longrightarrow> fired msg = None \<Longrightarrow> env_ok c \<Longrightarrow> step_ok msg s c (sendToTU_request sip (s, c))"
  by (auto simp: sendToTU_request_def intro!: step_ok_stay [where X = "{}"] good_next_refl)

lemma stale_response_ok:
  assumes m: "mMachine s = ServerStale" "ts_ok s" "sip_vias sip \<noteq> []" "isResponse sip"
  shows "step_ok (SipMsg sip) s c (stay (sendCurrentToWire (resetNextTransmission (Some sip) s, c)))"
proof -
  obtain s' c' where w: "sendCurrentToWire (resetNextTransmission (Some sip) s, c) = (s', c')" by fastforce
  have "calm (mId s) {} c c' \<and> placed sip s s'"
    using m by (intro place_response [OF _ _ m(4,3) _ w]) (simp_all add: isClient_def ts_ok_def server_ok_def)
  then show ?thesis using w m
    by (cases "mNextTransmission s'") (auto simp: good_next_def ts_ok_def server_ok_def placed_def sent_like_def only_responses_def
        isClient_def ender_def timer_fits_def intro!: step_ok_stay [where X = "{}"])
qed

interpretation server_non_invite: transaction_machine ServerNonInvite processServerNonInvite
proof (unfold_locales, rule step_machine_ok)
  fix s msg c assume m: "mMachine s = ServerNonInvite" "ts_ok s" "msg_fits msg s" "env_ok c"
  have "\<not> isClient s" "server_ok s" using m(1,2) by (simp_all add: isClient_def ts_ok_def sni_ok_def)
  then show "step_ok msg s c (processServerNonInvite msg (s, c))"
    using m(1,2,3) step_ok_idle [OF m(2)]
    by (cases msg) (auto simp: processServerNonInvite_def msg_fits_def is_code_def server_handleSync
        server_non_invite_request_ok server_non_invite_response_ok server_non_invite_timer_ok server_non_invite_abandon_ok)
qed

interpretation server_invite: transaction_machine ServerInvite processServerInvite
proof (unfold_locales, rule step_machine_ok)
  fix s msg c assume m: "mMachine s = ServerInvite" "ts_ok s" "msg_fits msg s" "env_ok c"
  have s: "\<not> isClient s" "server_ok s" "mMethod s = INVITE" using m(1,2) by (simp_all add: isClient_def ts_ok_def si_ok_def)
  show "step_ok msg s c (processServerInvite msg (s, c))"
  proof (cases msg)
    case (SipMsg sip)
    then have "sip_method sip \<noteq> CANCEL" "sip_external sip \<and> isRequest sip \<and> sip_method sip \<noteq> ACK \<longrightarrow> \<not> mIsReliable s"
      "sip_vias sip \<noteq> []" using m(3) s(3) by (auto simp: msg_fits_def accepts_def method_matches_def)
    then show ?thesis using SipMsg m(1,2) step_ok_idle [OF m(2)]
      by (auto simp: processServerInvite_def is_code_def server_invite_request_ok server_invite_response_ok)
  qed (use m(1,2,3) s step_ok_idle [OF m(2)] in \<open>auto simp: processServerInvite_def msg_fits_def server_handleSync
        server_invite_timer_ok server_invite_abandon_ok\<close>)
qed

interpretation server_stale: transaction_machine ServerStale processServerStale
proof (unfold_locales, rule step_machine_ok)
  fix s msg c assume m: "mMachine s = ServerStale" "ts_ok s" "msg_fits msg s" "env_ok c"
  have s: "\<not> isClient s" "server_ok s" using m(1,2) by (simp_all add: isClient_def ts_ok_def)
  show "step_ok msg s c (processServerStale msg (s, c))"
  proof (cases msg)
    case (SipMsg sip)
    then have "isRequest sip \<longrightarrow> sip_external sip" "sip_vias sip \<noteq> []"
      using m(3) s(1) by (auto simp: msg_fits_def isClientTransaction_sip_def)
    then show ?thesis using SipMsg m(1,2,4) step_ok_idle [OF m(2)] post_request_ok [OF m(2)] stale_response_ok [OF m(1,2)]
      by (auto simp: processServerStale_def is_code_def sendToTU_def)
  next
    case (TimerMessage tid t d)
    then show ?thesis using step_ok_refl [OF m(2), of msg c] m(1)
      by (auto simp: processServerStale_def ender_def step_ok_terminated)
  qed (use m(1,2,3) s step_ok_idle [OF m(2)] in \<open>auto simp: processServerStale_def msg_fits_def server_handleSync\<close>)
qed

end
