(* ===== verification/TransClient.thy ===== *)
theory TransClient
  imports TransServer
begin

text \<open>The client machines keep the invariant: sending and failing over to another target, and the
  non-INVITE machine. The INVITE machine follows in \<^verbatim>\<open>TransInvite\<close>.\<close>

section \<open>Transactions that still have their request\<close>

text \<open>A client transaction that has not seen a final response: it can send its request again, here or
  to another target.\<close>

definition client_active :: "TransactionState \<Rightarrow> bool" where
  "client_active s \<longleftrightarrow>
     (mMachine s = ClientNonInvite \<and> mState s \<in> {Trying, Proceeding} \<and> mMethod s \<notin> {INVITE, ACK} \<and>
        (mMethod s = CANCEL \<longrightarrow> resolved s \<and> mDnsResult s = None) \<or>
      mMachine s = ClientInvite \<and> mState s \<in> {Calling, Proceeding} \<and> mMethod s = INVITE \<and>
        (mState s = Proceeding \<longrightarrow> resolved s)) \<and>
     client_ok s \<and> request_ready (mMethod s) s \<and> (mMethod s \<noteq> CANCEL \<longrightarrow> via_ok s)"

lemma active_iff:
  "mMachine s \<in> {ClientNonInvite, ClientInvite} \<Longrightarrow> mState s \<noteq> Completed \<Longrightarrow> ts_ok s \<longleftrightarrow> client_active s"
  by (auto simp: client_active_def ts_ok_def cni_ok_def ci_ok_def)

lemma active_ok: "client_active s \<Longrightarrow> ts_ok s"
  by (auto simp: client_active_def ts_ok_def cni_ok_def ci_ok_def)

lemma active_client [simp]: "client_active s \<Longrightarrow> isClient s"
  by (auto simp: client_active_def isClient_def)

lemma active_request:
  assumes "client_active s"
  obtains r where "mNextTransmission s = Some r" "isRequest r" "sip_method r = mMethod s" "sip_vias r \<noteq> []" "flow_ok r"
    "mMethod s \<noteq> ACK"
  using assms by (auto simp: client_active_def request_ready_def split: option.splits)

lemma active_machine:
  assumes "client_active s"
  shows "mMachine s = ClientNonInvite \<or> mMachine s = ClientInvite" "mState s \<noteq> Completed" "mMethod s \<noteq> ACK"
    "mState s \<noteq> Terminated" "mState s \<noteq> Bogus"
  using assms unfolding client_active_def by force+

lemma active_good:
  assumes "client_active s" "client_active s'" "mMachine s' = mMachine s" "mId s' = mId s" "fired msg \<noteq> Some TimerF"
  shows "good_next msg s X P s'"
  using active_machine(1) [OF assms(1)] active_machine(2) [OF assms(1)] active_machine(2) [OF assms(2)]
    active_ok [OF assms(2)] assms(3-5)
  by (elim disjE) (simp_all add: good_next_def isClient_def ender_def timer_fits_def)

lemma active_like:
  assumes "client_active s" "mMachine s' = mMachine s" "mMethod s' = mMethod s" "mState s' = mState s"
    "client_ok s'" "request_ready (mMethod s) s'" "mMethod s \<noteq> CANCEL \<Longrightarrow> via_ok s'"
    "resolved s \<Longrightarrow> resolved s'" "mMethod s = CANCEL \<Longrightarrow> mDnsResult s' = mDnsResult s"
  shows "client_active s'"
  using assms unfolding client_active_def by metis

lemma active_parts:
  assumes "client_active s"
  shows "client_ok s" "request_ready (mMethod s) s" "mMethod s = CANCEL \<Longrightarrow> resolved s \<and> mDnsResult s = None"
    "mMethod s \<noteq> CANCEL \<Longrightarrow> via_ok s" "mNextTransmission s \<noteq> None"
  using assms unfolding client_active_def request_ready_def by (auto split: option.splits)

text \<open>Another target or another result of the DNS.\<close>

lemma active_dns:
  assumes "client_active s" "mMachine s' = mMachine s" "mMethod s' = mMethod s" "mState s' = mState s"
    "mNextTransmission s' = mNextTransmission s" "mOriginalVia s' = mOriginalVia s" "mMethod s \<noteq> CANCEL"
    "resolved s \<Longrightarrow> resolved s'" "client_ok s'"
  shows "client_active s'"
  using active_parts [OF assms(1)] assms by (intro active_like [OF assms(1)]) (simp_all add: request_ready_def via_ok_def)

lemma active_sent:
  assumes "client_active s" "sendCurrentToWire (s, c) = (s', c')"
  shows "calm (mId s) {TimerE1, TimerA} c c' \<and> client_active s' \<and> mMachine s' = mMachine s \<and> mId s' = mId s \<and>
    mMethod s' = mMethod s"
proof -
  obtain r where r: "mNextTransmission s = Some r" "isRequest r" "sip_method r = mMethod s" "flow_ok r" "mMethod s \<noteq> ACK"
    using active_request [OF assms(1)] by metis
  have ok: "client_ok s" "request_ready (mMethod s) s" "mMethod s = CANCEL \<Longrightarrow> resolved s" "mMethod s \<noteq> CANCEL \<Longrightarrow> via_ok s"
    using active_parts [OF assms(1)] by auto
  have f: "calm (mId s) {TimerE1, TimerA} c c'" "client_sent s s'"
    using send_client_wire [OF active_client [OF assms(1)] _ refl _ ok(3) order_refl assms(2)] r by (auto simp: sendable_def)
  have n: "mNextTransmission s' = mNextTransmission s" using f(2) r by (auto simp: client_sent_def)
  have d: "mPendingOperation s' = mPendingOperation s \<and> mDnsResult s' = mDnsResult s \<or>
      mDnsResult s' = Some DnsPending \<and> \<not> resolved s"
    and t: "resolved s \<Longrightarrow> resolved s' \<and> mIsReliable s' = mIsReliable s"
      "\<not> resolved s \<Longrightarrow> mIsReliable s' = mIsReliable s \<or> resolved s'"
    using f(2) unfolding client_sent_def by auto
  have "client_ok s'" using ok(1) d t n r(1) unfolding client_ok_def by (cases "resolved s") auto
  then have "client_active s'"
    using f(2) ok n d t by (intro active_like [OF assms(1)]) (auto simp: client_sent_def sent_like_def request_ready_def via_ok_def)
  then show ?thesis using f by (simp add: client_sent_def sent_like_def)
qed

lemma active_resend:
  assumes "client_active s" "client_active s1" "resolved s1" "mMachine s1 = mMachine s" "mId s1 = mId s"
    and "calm (mId s) {TimerE1, TimerA} c c1" "fired msg \<noteq> Some TimerF"
  shows "step_ok msg s c (stay (sendCurrentToWire (processReliability type (s1, c1))))"
proof -
  obtain s2 c2 where r: "processReliability type (s1, c1) = (s2, c2)" by fastforce
  obtain s' c' where w: "sendCurrentToWire (s2, c2) = (s', c')" by fastforce
  have f: "calm (mId s) {TimerE1, TimerA} c1 c2" "s2 = s1\<lparr>mIsReliable := type \<notin> {UDP, DCCP}\<rparr>"
    using calm_reliability [OF r assms(5) order_refl] by auto
  have "client_active s2" using assms(2,3)
    by (auto simp: f(2) client_active_def client_ok_def request_ready_def via_ok_def resolved_def)
  from active_sent [OF this w] show ?thesis
    using f assms w r by (auto intro!: step_ok_stay active_good intro: calm_step)
qed

lemma only_acks_no_results: "only_acks s \<Longrightarrow> processNoDnsResults (s, c) = stay (s, c)"
  by (auto simp: only_acks_def processNoDnsResults_def split: option.splits)

lemma active_no_results:
  assumes "client_active s1" "mDnsResult s1 \<in> {None, Some DnsFinished}" "mId s1 = mId s" "calm (mId s) X c c1" "own X s" "env_ok c1"
  shows "step_ok msg s c (processNoDnsResults (s1, c1))"
proof -
  obtain r where r: "mNextTransmission s1 = Some r" "sip_method r \<noteq> ACK" using active_request [OF assms(1)] by metis
  have m: "mMachine s1 \<noteq> Stateless" using active_machine(1) [OF assms(1)] by auto
  obtain p c2 where p: "fresh_response r (failure_status (ct_outboundVersion c1) (mFailureReason s1))
    (failure_text (mFailureReason s1)) c1 = (p, c2)" by fastforce
  have "env_ok c2" "calm (mId s) X c c2" using calm_fresh_response [OF p] assms(4,6) calm_env_ok calm_step by blast+
  then have "calm (mId s) X c (sendToTU_response q s1 c2)" for q using calm_sendToTU_response calm_step by blast
  then have t: "step_ok msg s c (delete_this (terminateClientTransaction (s1, sendToTU_response q s1 c2)))" for q
    using assms(5) by (rule step_ok_terminated)
  have "s1\<lparr>mDnsResult := mDnsResult s1\<rparr> = s1" by simp
  then have u: "s1\<lparr>mDnsResult := Some DnsFinished\<rparr> = s1" if "mDnsResult s1 = Some DnsFinished" using that by simp
  have e: "(case terminateClientTransaction (s1, d) of (s, c) \<Rightarrow> if mMachine s \<noteq> Stateless then delete_this (s, c) else stay (s, c)) =
    delete_this (terminateClientTransaction (s1, d))" for d using m by (simp add: terminateTransaction_def)
  show ?thesis using assms(2) by (auto simp: processNoDnsResults_def prime_def Let_def r p e t u)
qed

section \<open>Transport failure\<close>

lemma prime_known:
  assumes "prime d c = (d', c')" "targets_known d" "env_ok c"
  shows "targets_known d' \<and> d' \<noteq> DnsTargets []"
  using assms by (auto simp: prime_def ask_def env_ok_def split: if_splits)

lemma active_restore:
  assumes a: "client_active s" "mMethod s \<noteq> CANCEL" and r: "restoreOriginalContactAndVia (s, c) = (s', c')"
  shows "c' = c \<and> client_active s' \<and> mMachine s' = mMachine s \<and> mId s' = mId s \<and> mMethod s' = mMethod s"
proof -
  obtain req v b where q: "mNextTransmission s = Some req" "isRequest req" "sip_method req = mMethod s" "flow_ok req"
    "mOriginalVia s = Some v" "v_branch v = Some b" "mIsMyBranch b" "client_ok s"
    using a unfolding client_active_def request_ready_def via_ok_def branch_is_mine_def by (auto split: option.splits)
  define req1 where "req1 = (case mOriginalContact s of None \<Rightarrow> req | Some ct \<Rightarrow> req\<lparr>sip_contacts := ct # tl (sip_contacts req)\<rparr>)"
  have req1: "sip_start req1 = sip_start req" "sip_method req1 = sip_method req" "sip_destination req1 = sip_destination req"
    by (simp_all add: req1_def split: option.split)
  have "c' = c" "s' = s\<lparr>mOriginalVia := Some (incrementTransportSequence v),
      mNextTransmission := Some (req1\<lparr>sip_vias := incrementTransportSequence v # tl (sip_vias req1)\<rparr>)\<rparr>"
    using r q(1,5,6,7) by (simp_all add: restoreOriginalContactAndVia_def Let_def branch_is_mine_def req1_def)
  then have "c' = c" "client_ok s'" "request_ready (mMethod s) s'" "via_ok s'" "mMachine s' = mMachine s" "mId s' = mId s"
    "mMethod s' = mMethod s" "mState s' = mState s" "mTarget s' = mTarget s"
    using q req1 by (simp_all add: request_ready_def via_ok_def branch_is_mine_def incrementTransportSequence_def client_ok_def
      resolved_def flow_ok_def isRequest_def)
  then show ?thesis using a active_like [OF a(1), of s'] by (simp add: resolved_def)
qed

lemma active_failover:
  assumes "client_active s0" "mMachine s0 = mMachine s" "mId s0 = mId s" "client_active s" "mMethod s0 \<noteq> CANCEL" "targets_known d"
    "calm (mId s) {TimerE1, TimerA} c c0" "env_ok c0" "fired msg \<noteq> Some TimerF"
  shows "step_ok msg s c (failover d (s0, c0))"
proof -
  obtain d' c1 where p: "prime d c0 = (d', c1)" by fastforce
  have d': "targets_known d'" "d' \<noteq> DnsTargets []" using prime_known [OF p assms(6,8)] by auto
  have c1: "calm (mId s) {TimerE1, TimerA} c c1" "env_ok c1"
    using calm_prime [OF p] assms(7,8) calm_env_ok calm_step by blast+
  consider (target) t ts where "d' = DnsTargets (t # ts)" | (wait) "d' = DnsPending" | (none) "d' = DnsFinished"
    using d'(2) by (cases d') (auto simp: neq_Nil_conv)
  then show ?thesis
  proof cases
    case target
    obtain s1 c2 where r: "restoreOriginalContactAndVia (s0, c1) = (s1, c2)" by fastforce
    note f = active_restore [OF assms(1,5) r]
    let ?s = "s1\<lparr>mTarget := t, mDnsResult := Some (DnsTargets ts), mMsgToRetransmit := None\<rparr>"
    have m: "mMethod s1 \<noteq> CANCEL" "client_active s1" using f assms(5) by auto
    have "client_active ?s" using d'(1) target m(1) active_parts(5) [OF m(2)]
      by (intro active_dns [OF m(2)]) (simp_all add: client_ok_def resolved_def)
    then show ?thesis using target p r f assms c1 d'(1)
      by (simp add: failover_def) (rule active_resend, auto simp: resolved_def)
  next
    case wait
    let ?s = "s0\<lparr>mDnsResult := Some DnsPending, mPendingOperation := Dns\<rparr>"
    obtain s1 c2 where r: "restoreOriginalContactAndVia (?s, c1) = (s1, c2)" by fastforce
    have "client_active ?s" using assms(5) active_parts [OF assms(1)]
      by (intro active_dns [OF assms(1)]) (simp_all add: client_ok_def resolved_def)
    then have f: "c2 = c1" "client_active s1" "mMachine s1 = mMachine s0" "mId s1 = mId s0" "mMethod s1 = mMethod s0"
      using active_restore [OF _ _ r] assms(5) by simp_all
    have "client_active (s1\<lparr>mMsgToRetransmit := None\<rparr>)" using f(5) assms(5) active_parts(1) [OF f(2)]
      by (intro active_dns [OF f(2)]) (simp_all add: client_ok_def resolved_def)
    then show ?thesis using wait p r f assms c1
      by (simp add: failover_def) (rule step_ok_stay, assumption, rule active_good, auto)
  next
    case none
    have "client_active (s0\<lparr>mDnsResult := Some DnsFinished\<rparr>)" using assms(5) active_parts [OF assms(1)]
      by (intro active_dns [OF assms(1)]) (simp_all add: client_ok_def resolved_def)
    then show ?thesis using none p assms c1 by (simp add: failover_def active_no_results)
  qed
qed

text \<open>Fields that well-formedness does not depend on.\<close>

definition alike :: "TransactionState \<Rightarrow> TransactionState \<Rightarrow> bool" where
  "alike s s' \<longleftrightarrow> mMachine s' = mMachine s \<and> mState s' = mState s \<and> mIsReliable s' = mIsReliable s \<and>
     mNextTransmission s' = mNextTransmission s \<and> mMsgToRetransmit s' = mMsgToRetransmit s \<and> mDnsResult s' = mDnsResult s \<and>
     mTarget s' = mTarget s \<and> mOriginalVia s' = mOriginalVia s \<and> mId s' = mId s \<and> mMethod s' = mMethod s \<and>
     mPendingOperation s' = mPendingOperation s"

lemma alike_client_ok: "alike s s' \<Longrightarrow> client_ok s' \<longleftrightarrow> client_ok s"
  by (simp add: alike_def client_ok_def resolved_def)

lemma alike_active: "alike s s' \<Longrightarrow> client_active s' \<longleftrightarrow> client_active s"
  unfolding client_active_def by (simp add: alike_client_ok) (simp add: alike_def resolved_def request_ready_def via_ok_def)

lemma alike_ok:
  assumes "alike s s'" "isClient s" shows "ts_ok s' \<longleftrightarrow> ts_ok s"
  using assms(2) unfolding ts_ok_def cni_ok_def ci_ok_def stateless_ok_def stale_ok_def alike_client_ok [OF assms(1)]
  using assms(1) by (cases "mMachine s") (simp_all add: alike_def isClient_def resolved_def request_ready_def via_ok_def
    sendable_def only_acks_def)

lemma alike_good:
  assumes "alike s s'" "isClient s" "ts_ok s" "ender s \<noteq> fired msg \<or> ender s = None"
  shows "good_next msg s {} P s'"
proof -
  have "ender s' = ender s" "isClient s' = isClient s" "timer_fits t s' = timer_fits t s" for t
    using assms(1) by (simp_all add: alike_def isClient_def ender_def timer_fits_def)
  then show ?thesis using assms alike_ok [OF assms(1,2)] by (auto simp: good_next_def alike_def)
qed

definition noted :: "FailureReason \<Rightarrow> int \<Rightarrow> TransactionState \<Rightarrow> TransactionState" where
  "noted reason subCode s =
     (let s = s\<lparr>mTcpConnectTimerStarted := False\<rparr>
      in if reason > mFailureReason s then s\<lparr>mFailureReason := reason, mFailureSubCode := subCode\<rparr> else s)"

lemma noted_alike: "alike s (noted r sub s)"
  by (simp add: noted_def alike_def Let_def)

lemma active_undelivered: "client_active s \<Longrightarrow> cancel_undelivered s \<longleftrightarrow> mMethod s = CANCEL"
  using active_machine(2,4) [of s] by (auto simp: cancel_undelivered_def elim: active_request)

lemma active_calling: "client_active s \<Longrightarrow> mMachine s = ClientInvite \<Longrightarrow> client_active (s\<lparr>mState := Calling\<rparr>)"
  by (cases "mNextTransmission s") (simp_all add: client_active_def client_ok_def resolved_def request_ready_def via_ok_def)

lemma active_transport_failure:
  assumes a: "client_active s" "env_ok c" "fired msg \<noteq> Some TimerF"
  shows "step_ok msg s c (processTransportFailure r sub (s, c))"
proof -
  let ?s = "noted r sub s"
  have al: "alike s ?s" by (rule noted_alike)
  have act: "client_active ?s" using a(1) al by (simp add: alike_active)
  have st: "mState ?s \<notin> {Bogus, Completed, Terminated}" "mMachine ?s \<in> {ClientNonInvite, ClientInvite}"
    using active_machine [OF act] by auto
  have f: "mMachine ?s = mMachine s" "mId ?s = mId s" using al by (simp_all add: alike_def)
  have e: "processTransportFailure r sub (s, c) =
     (if mMethod ?s = CANCEL then
          let (response, c) = fresh_response (the (mNextTransmission ?s)) 503 '''' c
          in stay (?s, sendToTU_response (response\<lparr>sip_warnings := [cancel_warning]\<rparr>) ?s c)
        else case mDnsResult ?s of
          None \<Rightarrow> processNoDnsResults (?s, c)
        | Some d \<Rightarrow> failover d (if mMachine ?s = ClientInvite \<and> mState ?s = Proceeding then ?s\<lparr>mState := Calling\<rparr> else ?s,
              emit (GreylistLast (mId ?s) (ct_now c + ct_greylist c)) c))"
    using st active_undelivered [OF act] f
    by (auto simp: processTransportFailure_def noted_def Let_def split: if_splits option.splits)
  show ?thesis
  proof (cases "mMethod ?s = CANCEL")
    case True
    obtain q c1 where q: "fresh_response (the (mNextTransmission ?s)) 503 '''' c = (q, c1)" by fastforce
    have "calm (mId s) {} c (sendToTU_response x ?s c1)" for x
      using calm_fresh_response [OF q] calm_sendToTU_response calm_env_ok a(2) calm_step by blast
    then show ?thesis using e True q f active_good [OF a(1) act f a(3)] by (simp add: step_ok_stay [where X = "{}"])
  next
    case False
    show ?thesis
    proof (cases "mDnsResult ?s")
      case None
      then show ?thesis using e False a(2) f act by (simp add: active_no_results [where X = "{}"])
    next
      case (Some d)
      let ?s1 = "if mMachine ?s = ClientInvite \<and> mState ?s = Proceeding then ?s\<lparr>mState := Calling\<rparr> else ?s"
      have "client_active ?s1" using act active_calling [OF act] by simp
      moreover have "targets_known d" using Some active_parts(1) [OF act] by (simp add: client_ok_def)
      moreover have "env_ok (emit x c)" for x using a(2) by (simp add: env_ok_def emit_def)
      ultimately have "step_ok msg s c (failover d (?s1, emit (GreylistLast (mId ?s) (ct_now c + ct_greylist c)) c))"
        using a False f by (intro active_failover) auto
      then show ?thesis using e False Some by simp
    qed
  qed
qed

text \<open>After the final response a transport failure is only recorded.\<close>

lemma finished_transport_failure:
  assumes "isClient s" "only_acks s" "mDnsResult s = None \<or> mMachine s = Stateless" "mState s \<noteq> Bogus"
  shows "\<exists>s' c'. processTransportFailure r sub (s, c) = stay (s', c') \<and> alike s s' \<and> calm (mId s) {} c c'"
proof -
  let ?s = "noted r sub s"
  have al: "alike s ?s" by (rule noted_alike)
  then have o: "only_acks ?s" "\<not> cancel_undelivered ?s"
    using assms(2) by (auto simp: only_acks_def alike_def cancel_undelivered_def split: option.splits)
  have "processTransportFailure r sub (s, c) = stay (?s, c) \<or>
    (\<exists>x. processTransportFailure r sub (s, c) = stay (?s, emit x c))"
    using assms(3,4) o al only_acks_no_results [OF o(1)]
    by (auto simp: processTransportFailure_def noted_def alike_def Let_def split: option.splits if_splits)
  then show ?thesis using al by fastforce
qed

lemma transport_failure_ok:
  assumes m: "mMachine s \<in> {ClientNonInvite, ClientInvite, ClientStale}" "ts_ok s" "env_ok c"
    "fired msg \<in> {None, Some TcpConnectTimer}"
  shows "step_ok msg s c (processTransportFailure r sub (s, c))"
proof (cases "mState s = Completed")
  case True
  have s: "isClient s" "only_acks s" "mDnsResult s = None"
    using m True by (auto simp: isClient_def ts_ok_def cni_ok_def ci_ok_def stale_ok_def only_acks_def)
  have "ender s \<notin> {None, Some TcpConnectTimer}" using m(1) True by (auto simp: ender_def)
  then have "good_next msg s {} P s'" if "alike s s'" for s' P using m(4) by (intro alike_good [OF that s(1) m(2)]) auto
  then show ?thesis using finished_transport_failure [of s r sub c] s True step_ok_stay by auto
next
  case False
  then have "mMachine s \<noteq> ClientStale" using m(2) by (auto simp: ts_ok_def stale_ok_def)
  then show ?thesis using m False by (intro active_transport_failure) (auto simp: active_iff)
qed

section \<open>Results of the DNS, connections, timeouts\<close>

lemma active_handleSync:
  assumes a: "client_active s" "env_ok c" "fired msg \<noteq> Some TimerF"
  shows "step_ok msg s c (handleSync (s, c))"
proof (cases "mPendingOperation s = Dns")
  case True
  then have "mMethod s \<noteq> CANCEL" using active_parts(1,3) [OF a(1)] by (auto simp: client_ok_def)
  then obtain d r where d: "mDnsResult s = Some d" "mNextTransmission s = Some r" "targets_known d" "mMethod s \<noteq> CANCEL"
    using True active_parts(1) [OF a(1)] by (auto simp: client_ok_def)
  obtain d' c1 where p: "prime d c = (d', c1)" by fastforce
  have d': "targets_known d'" "d' \<noteq> DnsTargets []" using prime_known [OF p d(3) a(2)] by auto
  have c1: "calm (mId s) X c c1" "env_ok c1" for X using calm_prime [OF p] a(2) calm_env_ok by blast+
  consider (target) t ts where "d' = DnsTargets (t # ts)" | (wait) "d' = DnsPending" | (none) "d' = DnsFinished"
    using d'(2) by (cases d') (auto simp: neq_Nil_conv)
  then show ?thesis
  proof cases
    case target
    let ?t = "t\<lparr>mTransportKey := mTransportKey (sip_destination r)\<rparr>"
    let ?s = "s\<lparr>mPendingOperation := NoOperation, mDnsResult := Some (DnsTargets ts), mTarget := ?t\<rparr>"
    have s: "client_active ?s" "resolved ?s" using d'(1) target d(4)
      by (auto intro!: active_dns [OF a(1)] simp: client_ok_def resolved_def)
    have "step_ok msg s c (stay (sendCurrentToWire (processReliability (tp_type ?t) (?s, c1))))"
      using a s c1 by (intro active_resend [OF a(1) s]) auto
    then show ?thesis using p d target True by (simp add: handleSync_def)
  next
    case wait
    have "client_active (s\<lparr>mDnsResult := Some DnsPending\<rparr>)" using d active_parts(1) [OF a(1)]
      by (intro active_dns [OF a(1)]) (simp_all add: client_ok_def resolved_def)
    then show ?thesis using wait p d True a c1 by (simp add: handleSync_def step_ok_stay [where X = "{}"] active_good)
  next
    case none
    have "client_active (s\<lparr>mDnsResult := Some DnsFinished, mPendingOperation := NoOperation\<rparr>)" using d active_parts(1) [OF a(1)]
      by (intro active_dns [OF a(1)]) (simp_all add: client_ok_def resolved_def)
    then show ?thesis using none p d True a c1(1) [of "{}"] c1(2) by (simp add: handleSync_def active_no_results)
  qed
next
  case False
  then show ?thesis using active_good [OF a(1,1) refl refl a(3)] by (simp add: handleSync_def step_ok_stay [where X = "{}"])
qed

lemma not_pending_handleSync:
  "mPendingOperation s \<noteq> Dns \<Longrightarrow> ts_ok s \<Longrightarrow> fired msg = None \<Longrightarrow> step_ok msg s c (handleSync (s, c))"
  by (simp add: handleSync_def step_ok_idle)

lemma tcp_connect_ok:
  assumes "isClient s" "mMachine s \<noteq> Stateless" "ts_ok s" "fired msg = None"
  shows "step_ok msg s c (stay (processTcpConnectState b (s, c)))"
proof -
  obtain s' c' where p: "processTcpConnectState b (s, c) = (s', c')" by fastforce
  then have "alike s s' \<and> calm (mId s) {TcpConnectTimer} c c'"
    by (auto simp: processTcpConnectState_def alike_def calm_timers_add split: if_splits)
  moreover have "good_next msg s {TcpConnectTimer} P s'" if "good_next msg s {} P s'" for P
    using that assms(1,2) calculation by (auto simp: good_next_def timer_fits_def alike_def isClient_def)
  ultimately have "step_ok msg s c (stay (s', c'))"
    using alike_good [OF _ assms(1,3)] assms(1,4) by (intro step_ok_stay [of s "{TcpConnectTimer}"]) auto
  then show ?thesis using p by simp
qed

lemma active_timeout:
  assumes "client_active s" "env_ok c1" "calm (mId s) X c c1" "own X s"
  shows "step_ok msg s c (timeout_response (s, c1))"
proof -
  obtain r where r: "mNextTransmission s = Some r" using active_request [OF assms(1)] by metis
  obtain q c2 where q: "(if mPendingOperation s = Dns then fresh_response r 503 ''DNS Timeout'' c1 else fresh_response r 408 '''' c1) =
    (q, c2)" by fastforce
  then have "calm (mId s) X c1 c2" by (auto split: if_splits dest: calm_fresh_response)
  then have "calm (mId s) X c c2" "env_ok c2" using calm_env_ok calm_step assms(2,3) by blast+
  then have "calm (mId s) X c (sendToTU_response q s c2)" using calm_sendToTU_response calm_step by blast
  then show ?thesis using r q assms(4) by (simp add: timeout_response_def step_ok_terminated)
qed

section \<open>Non-INVITE\<close>

lemma cni_cases:
  assumes "mMachine s = ClientNonInvite" "ts_ok s"
  obtains (active) "client_active s" "mState s = Trying \<or> mState s = Proceeding"
    | (completed) "mState s = Completed" "cni_ok s"
  using assms active_iff [of s] by (cases "mState s = Completed") (auto simp: ts_ok_def cni_ok_def)

text \<open>The request that starts the transaction.\<close>

lemma cni_start:
  assumes s: "mMachine s = ClientNonInvite" "mState s = Trying" "mMethod s \<notin> {INVITE, ACK}" "client_ok s"
      "mMethod s = CANCEL \<Longrightarrow> resolved s \<and> mDnsResult s = None"
    and sip: "isRequest sip" "sip_method sip = mMethod s" "sip_vias sip \<noteq> []" "flow_ok sip"
      "mMethod s \<noteq> CANCEL \<Longrightarrow> branch_is_mine (hd (sip_vias sip))"
  shows "\<exists>s' c'. client_non_invite_request sip (s, c) = stay (s', c') \<and> client_active s' \<and> mMachine s' = mMachine s \<and>
    mId s' = mId s \<and> mMethod s' = mMethod s \<and> calm (mId s) {TimerF, TimerE1, TimerA} c c' \<and> (TimerF, mId s) \<in> pending_timers c'"
proof -
  let ?s = "saveOriginalContactAndVia sip (resetNextTransmission (Some sip) s)"
  let ?c = "timers_add TimerF (mId s) (TF (ct_timing c)) c"
  obtain s' c' where w: "sendCurrentToWire (?s, ?c) = (s', c')" by fastforce
  have act: "client_active ?s" using s sip
    by (simp add: client_active_def saveOriginalContactAndVia_def resetNextTransmission_def client_ok_def resolved_def
        request_ready_def via_ok_def)
  have f: "mMachine ?s = mMachine s" "mId ?s = mId s" "mMethod ?s = mMethod s"
    by (simp_all add: saveOriginalContactAndVia_def resetNextTransmission_def)
  note a = active_sent [OF act w, unfolded f]
  have "calm (mId s) {TimerF, TimerE1, TimerA} c ?c" "calm (mId s) {TimerF, TimerE1, TimerA} ?c c'"
    using a by (auto intro: calm_timers_add calm_mono)
  then have "calm (mId s) {TimerF, TimerE1, TimerA} c c'" by (rule calm_step)
  moreover have "(TimerF, mId s) \<in> pending_timers c'" using a by (auto simp: calm_def)
  ultimately show ?thesis using a w f by (auto simp: client_non_invite_request_def Let_def)
qed

lemma active_proceeding:
  "client_active s \<Longrightarrow> resolved s \<Longrightarrow> client_active (s\<lparr>mState := Proceeding\<rparr>)"
  by (cases "mNextTransmission s") (auto simp: client_active_def client_ok_def resolved_def request_ready_def via_ok_def)

lemma cni_completed:
  assumes "client_active s" "mMachine s = ClientNonInvite" "resolved s" "destroy_dns (s\<lparr>mState := Completed\<rparr>, c) = (s', c')"
  shows "calm (mId s) X c c' \<and> cni_ok (resetNextTransmission None s') \<and> mMachine s' = ClientNonInvite \<and> mId s' = mId s \<and>
    mState s' = Completed"
proof -
  have "mMethod s \<notin> {INVITE, ACK}" using assms(1,2) by (auto simp: client_active_def)
  then show ?thesis using calm_destroy_dns [OF assms(4), of "mId s" X] active_parts(1) [OF assms(1)] assms(2,3)
    by (auto simp: cni_ok_def client_ok_def resetNextTransmission_def resolved_def)
qed

lemma client_non_invite_response_ok:
  assumes m: "mMachine s = ClientNonInvite" "ts_ok s" "resolved s" "env_ok c"
  shows "step_ok (SipMsg sip) s c (client_non_invite_response sip (s, c))"
  using m(1,2)
proof (cases rule: cni_cases)
  case active
  show ?thesis
  proof (cases "sip_code sip < 200")
    case True
    let ?c = "if \<not> mIsReliable s \<and> mState s = Trying then timers_add TimerE2 (mId s) (T2 (ct_timing c)) c else c"
    let ?s = "s\<lparr>mState := Proceeding\<rparr>"
    have c: "calm (mId s) {TimerE2} c ?c" by (auto simp: calm_timers_add)
    have "calm (mId s) {TimerE2} c (sendToTU_response sip ?s ?c)"
      using calm_step [OF c calm_sendToTU_response] calm_env_ok [OF c m(4)] .
    moreover have "client_active ?s" using active(1) m(3) by (rule active_proceeding)
    ultimately show ?thesis using True active
      by (auto simp: client_non_invite_response_def Let_def intro!: step_ok_stay [where X = "{TimerE2}"] active_good)
  next
    case False
    let ?c = "sendToTU_response sip s c"
    let ?k = "timers_add TimerK (mId s) (T4 (ct_timing ?c)) ?c"
    obtain s' c' where d: "destroy_dns (s\<lparr>mState := Completed\<rparr>, ?k) = (s', c')" by fastforce
    note f = cni_completed [OF active(1) m(1,3) d]
    have c: "calm (mId s) {TimerK} c ?c" using m(4) by (rule calm_sendToTU_response)
    then have "calm (mId s) {TimerK} c ?k" by (simp add: calm_timers_add)
    then have g: "calm (mId s) {TimerK} c c'" using f calm_step by blast
    have "(TimerK, mId s) \<in> pending_timers c'" using f [of "{}"] by (auto simp: calm_def)
    then have "good_next (SipMsg sip) s {TimerK} (pending_timers c') (resetNextTransmission None s')"
      using f m(1) by (auto simp: good_next_def ts_ok_def resetNextTransmission_def isClient_def ender_def timer_fits_def)
    then have "step_ok (SipMsg sip) s c (stay (resetNextTransmission None s', c'))" using g m(1) by (intro step_ok_stay) auto
    moreover have "step_ok (SipMsg sip) s c (delete_this (terminateClientTransaction (s, ?c)))" using c m(1) by (intro step_ok_terminated) auto
    ultimately show ?thesis using False active d by (auto simp: client_non_invite_response_def Let_def)
  qed
next
  case completed
  then show ?thesis using step_ok_idle [OF m(2)] by (simp add: client_non_invite_response_def step_ok_terminated)
qed

lemma active_retransmit:
  assumes "client_active s" "fired msg \<noteq> Some TimerF" "t \<in> {TimerE1, TimerE2, TimerA}"
  shows "step_ok msg s c (stay (sendCurrentToWire (s, timers_add t (mId s) d c)))"
proof -
  let ?c = "timers_add t (mId s) d c"
  obtain s' c' where w: "sendCurrentToWire (s, ?c) = (s', c')" by fastforce
  note f = active_sent [OF assms(1) w]
  have "calm (mId s) {TimerE1, TimerE2, TimerA} c ?c" "calm (mId s) {TimerE1, TimerE2, TimerA} ?c c'"
    using f assms(3) by (auto intro: calm_timers_add calm_mono)
  then have "calm (mId s) {TimerE1, TimerE2, TimerA} c c'" by (rule calm_step)
  then show ?thesis using f assms w by (auto intro!: step_ok_stay active_good)
qed

lemma client_non_invite_timer_ok:
  assumes m: "mMachine s = ClientNonInvite" "ts_ok s" "env_ok c"
  shows "step_ok (TimerMessage tid t d) s c (client_non_invite_timer t d (s, c))"
proof -
  have idle: "step_ok (TimerMessage tid t d) s c (stay (s, c))" if "t \<noteq> TimerK" "t = TimerF \<Longrightarrow> mState s = Completed"
    using m that by (intro step_ok_refl) (auto simp: ender_def)
  consider (E1) "t = TimerE1" "mState s = Trying" | (E2) "t = TimerE2" "mState s = Proceeding"
    | (tcp) "t = TcpConnectTimer" "mTcpConnectTimerStarted s" | (F) "t = TimerF" "mState s \<noteq> Completed" | (K) "t = TimerK"
    | (none) "\<not> (t = TimerE1 \<and> mState s = Trying)" "\<not> (t = TimerE2 \<and> mState s = Proceeding)"
        "\<not> (t = TcpConnectTimer \<and> mTcpConnectTimerStarted s)" "\<not> (t = TimerF \<and> mState s \<noteq> Completed)" "t \<noteq> TimerK" by blast
  then show ?thesis
  proof cases
    case tcp
    then show ?thesis using m by (simp add: client_non_invite_timer_def transport_failure_ok)
  next
    case F
    then have "client_active s" "mState s = Trying \<or> mState s = Proceeding" using cni_cases [OF m(1,2)] by auto
    then show ?thesis using F m(3) by (auto simp: client_non_invite_timer_def active_timeout [where X = "{}"])
  next
    case K
    then show ?thesis by (simp add: client_non_invite_timer_def step_ok_terminated)
  next
    case none
    then show ?thesis using idle by (cases t) (auto simp: client_non_invite_timer_def)
  qed (use m in \<open>auto simp: client_non_invite_timer_def Let_def active_iff intro!: active_retransmit\<close>)
qed

interpretation client_non_invite: transaction_machine ClientNonInvite processClientNonInvite
proof (unfold_locales, rule step_machine_ok)
  fix s msg c assume m: "mMachine s = ClientNonInvite" "ts_ok s" "msg_fits msg s" "env_ok c"
  have cl: "isClient s" using m(1) by (simp add: isClient_def)
  have sync: "step_ok msg s c (handleSync (s, c))" if "fired msg = None"
    using m(1,2)
  proof (cases rule: cni_cases)
    case completed
    then have "mPendingOperation s \<noteq> Dns" by (auto simp: cni_ok_def client_ok_def)
    then show ?thesis using m(2) that by (rule not_pending_handleSync)
  qed (use m(4) that in \<open>simp add: active_handleSync\<close>)
  show "step_ok msg s c (processClientNonInvite msg (s, c))"
  proof (cases msg)
    case (SipMsg sip)
    then show ?thesis using m cl step_ok_idle [OF m(2)]
      by (auto simp: processClientNonInvite_def msg_fits_def is_code_def client_non_invite_response_ok)
  qed (use m cl step_ok_idle [OF m(2)] sync in \<open>auto simp: processClientNonInvite_def msg_fits_def tcp_connect_ok
        client_non_invite_timer_ok transport_failure_ok\<close>)
qed

end
