(* ===== verification/TransInvite.thy ===== *)
theory TransInvite
  imports TransClient
begin

text \<open>The INVITE client machine, the CANCEL it starts, the stale and the stateless machines keep the
  invariant; all machines together in \<open>machine_step_ok\<close>.\<close>

section \<open>CANCEL\<close>

lemma core_tmap_add: "isClient s \<Longrightarrow> core (tmap_add s c) = core (c\<lparr>mClientTransactionMap := (mClientTransactionMap c)(mId s \<mapsto> s)\<rparr>)"
  by (auto simp: tmap_add_def Let_def tmap_def set_tmap_def core_def destructed_def emit_def split: option.splits)

lemma pending_tmap_add [simp]: "pending_timers (tmap_add s c) = pending_timers c"
  by (auto simp: tmap_add_def Let_def set_tmap_def pending_timers_def destructed_def emit_def split: option.splits)

lemma pending_leave [simp]: "pending_timers (leave s r) = pending_timers (snd r)"
  by (simp add: leave_def set_tmap_def pending_timers_def)

lemma timers_tmap_add [simp]: "mTimers (tmap_add s c) = mTimers c" "mTimers (leave s r) = mTimers (snd r)"
  by (auto simp: tmap_add_def Let_def set_tmap_def leave_def destructed_def emit_def split: option.splits)

lemma core_client_map:
  "core c' = core (c\<lparr>mClientTransactionMap := m\<rparr>) \<Longrightarrow> mClientTransactionMap c' = m"
  "core c' = core d \<Longrightarrow> core (c'\<lparr>mClientTransactionMap := m\<rparr>) = core (d\<lparr>mClientTransactionMap := m\<rparr>)"
  by (simp_all add: core_def)

lemma internal_cancel_spawns:
  assumes s: "resolved s" "mNextTransmission s \<noteq> None"
    and cancel: "isRequest cancel" "sip_method cancel = CANCEL" "sip_vias cancel \<noteq> []" "flow_ok cancel" "\<not> sip_external cancel"
  shows "spawns s c (handleInternalCancel cancel s c)"
proof -
  define tid where "tid = mId s @ ''cancel''"
  define s0 where "s0 = (new_TransactionState ClientNonInvite Trying tid CANCEL '''' (mTransactionUser s))
    \<lparr>mResponseTarget := mResponseTarget s, mTarget := mTarget s\<rparr>"
  obtain s1 c1 where r: "processReliability (tp_type (mTarget s)) (s0, tmap_add s0 c) = (s1, c1)" by fastforce
  have s0: "mId s0 = tid" "isClient s0" "mMachine s0 = ClientNonInvite" "mState s0 = Trying" "mMethod s0 = CANCEL"
    "mTarget s0 = mTarget s" "mDnsResult s0 = None" "mPendingOperation s0 = NoOperation"
    by (simp_all add: s0_def new_TransactionState_def isClient_def)
  have s1: "calm tid {TimerE1, TimerA} (tmap_add s0 c) c1" "s1 = s0\<lparr>mIsReliable := tp_type (mTarget s) \<notin> {UDP, DCCP}\<rparr>"
    using calm_reliability [OF r s0(1) order_refl] by auto
  obtain req where req: "mNextTransmission s = Some req" using s(2) by blast
  let ?cancel = "with_branch_of req cancel"
  have k: "isRequest ?cancel" "sip_method ?cancel = CANCEL" "sip_vias ?cancel \<noteq> []" "flow_ok ?cancel" "\<not> sip_external ?cancel"
    using cancel by (auto simp: with_branch_of_def isRequest_def flow_ok_def split: list.splits)
  have s1': "mMachine s1 = ClientNonInvite" "mState s1 = Trying" "mMethod s1 = CANCEL" "client_ok s1" "resolved s1"
    "mDnsResult s1 = None" "mId s1 = tid" using s0 s(1) by (simp_all add: s1(2) client_ok_def resolved_def)
  obtain s2 c2 where f: "client_non_invite_request ?cancel (s1, c1) = stay (s2, c2)" "client_active s2" "mMachine s2 = mMachine s1"
    "mId s2 = mId s1" "mMethod s2 = mMethod s1" "calm (mId s1) {TimerF, TimerE1, TimerA} c1 c2" "(TimerF, mId s1) \<in> pending_timers c2"
    using cni_start [OF s1'(1,2) _ s1'(4) _ k(1) _ k(3,4), of c1] s1'(3,5,6) k(2) by auto
  have e: "handleInternalCancel cancel s c =
    timers_add TimerCleanUp (mId s) (128 * T1 (ct_timing (leave s1 (stay (s2, c2))))) (leave s1 (stay (s2, c2)))"
    using r f(1) k(1,5) req
    by (simp add: handleInternalCancel_def makeCancelTransaction_def s0_def tid_def processClientNonInvite_def Let_def)
  have core: "core c2 = core (c\<lparr>mClientTransactionMap := (mClientTransactionMap c)(tid \<mapsto> s0)\<rparr>)"
    using calm_core [OF f(6)] calm_core [OF s1(1)] core_tmap_add [OF s0(2)] s0(1) by simp
  have "core (leave s1 (stay (s2, c2))) = core (c\<lparr>mClientTransactionMap := (mClientTransactionMap c)(tid \<mapsto> s2)\<rparr>)"
    using core_client_map(1) [OF core] core_client_map(2) [OF core] s1'(1,7)
    by (simp add: leave_def set_tmap_def tmap_def isClient_def stay_def)
  then have "core (handleInternalCancel cancel s c) = core (c\<lparr>mClientTransactionMap := (mClientTransactionMap c)(tid \<mapsto> s2)\<rparr>)"
    by (simp add: e core_def timers_add_def)
  moreover have "pending_timers (handleInternalCancel cancel s c) = insert (TimerCleanUp, mId s) (pending_timers c2)"
    by (simp add: e stay_def)
  moreover have "pending_timers c \<subseteq> pending_timers c2" "pending_timers c2 \<subseteq> pending_timers c \<union> {TimerF, TimerE1, TimerA} \<times> {tid}"
    using s1(1) f(6) s1'(7) by (auto simp: calm_def)
  moreover have "in_order (mTimers c) \<longrightarrow> in_order (mTimers (handleInternalCancel cancel s c))"
    using s1(1) f(6) by (simp add: e calm_def stay_def timers_add_def add_timer_def in_order_push)
  ultimately show ?thesis unfolding spawns_def using f s1'(1,3,7) active_ok [OF f(2)] active_machine(2) [OF f(2)]
    by (intro exI [of _ s2]) (auto simp: tid_def)
qed

lemma spawns_env_ok: "spawns s c c' \<Longrightarrow> env_ok c \<Longrightarrow> env_ok c'"
  by (auto simp: spawns_def core_def env_ok_def)

lemma send_cancel_spawns:
  assumes "client_active s" "mMachine s = ClientInvite" "resolved s"
  shows "spawns s c (send_cancel reasons s c)"
proof -
  obtain r where r: "mNextTransmission s = Some r" "isRequest r" "sip_method r = mMethod s" "sip_vias r \<noteq> []"
    using active_request [OF assms(1)] by metis
  have m: "mMethod s = INVITE" using assms(1,2) by (auto simp: client_active_def)
  let ?c = "case reasons of None \<Rightarrow> makeCancel r | Some rs \<Rightarrow> (makeCancel r)\<lparr>sip_reasons := Some rs\<rparr>"
  have "isRequest ?c" "sip_method ?c = CANCEL" "sip_vias ?c \<noteq> []" "flow_ok ?c" "\<not> sip_external ?c"
    using r(4) by (auto simp: makeCancel_def new_sip_def isRequest_def flow_ok_def no_tuple_def split: option.split)
  then have "spawns s c (handleInternalCancel ?c s c)" using assms(3) r(1) by (intro internal_cancel_spawns) auto
  then show ?thesis using r m by (simp add: send_cancel_def)
qed

section \<open>INVITE\<close>

lemma ci_cases:
  assumes "mMachine s = ClientInvite" "ts_ok s"
  obtains (active) "client_active s" "mState s = Calling \<or> mState s = Proceeding" "mMethod s = INVITE"
    | (completed) "mState s = Completed" "ci_ok s"
  using assms active_iff [of s] by (cases "mState s = Completed") (auto simp: ts_ok_def ci_ok_def)

lemma ci_start:
  assumes s: "mMachine s = ClientInvite" "mState s = Calling" "mMethod s = INVITE" "client_ok s" "\<not> sendable s"
    and sip: "isRequest sip" "sip_method sip = INVITE" "sip_vias sip \<noteq> []" "flow_ok sip" "branch_is_mine (hd (sip_vias sip))"
  shows "\<exists>s' c'. client_invite_request sip (s, c) = stay (s', c') \<and> client_active s' \<and> mMachine s' = mMachine s \<and>
    mId s' = mId s \<and> calm (mId s) {TimerB, TimerE1, TimerA} c c' \<and> (TimerB, mId s) \<in> pending_timers c'"
proof -
  let ?s = "saveOriginalContactAndVia sip (resetNextTransmission (Some sip) s)"
  let ?c = "timers_add TimerB (mId s) (TB (ct_timing c)) c"
  obtain s' c' where w: "sendCurrentToWire (?s, ?c) = (s', c')" by fastforce
  have act: "client_active ?s" using s sip
    by (simp add: client_active_def saveOriginalContactAndVia_def resetNextTransmission_def client_ok_def resolved_def
        request_ready_def via_ok_def)
  have f: "mMachine ?s = mMachine s" "mId ?s = mId s" by (simp_all add: saveOriginalContactAndVia_def resetNextTransmission_def)
  note a = active_sent [OF act w, unfolded f]
  have "calm (mId s) {TimerB, TimerE1, TimerA} c ?c" "calm (mId s) {TimerB, TimerE1, TimerA} ?c c'"
    using a by (auto intro: calm_timers_add calm_mono)
  then have "calm (mId s) {TimerB, TimerE1, TimerA} c c'" by (rule calm_step)
  moreover have "(TimerB, mId s) \<in> pending_timers c'" using a by (auto simp: calm_def)
  ultimately show ?thesis using a w f s sip by (auto simp: client_invite_request_def Let_def not_sendable)
qed

lemma active_silent:
  "client_active s \<Longrightarrow> client_active (s\<lparr>mMsgToRetransmit := None\<rparr>)"
  by (cases "mNextTransmission s") (simp_all add: client_active_def client_ok_def resolved_def request_ready_def via_ok_def)

lemma machine_ok_spawns:
  "mMachine s = ClientInvite \<Longrightarrow> spawns s c c1 \<Longrightarrow> step_ok msg s c1 rc \<Longrightarrow> machine_ok msg s c rc"
  by (auto simp: machine_ok_def)

lemma spawns_cong: "mId s' = mId s \<Longrightarrow> spawns s' c c' \<longleftrightarrow> spawns s c c'"
  by (simp add: spawns_def)

lemma client_invite_provisional_ok:
  assumes m: "mMachine s = ClientInvite" "ts_ok s" "resolved s" "env_ok c"
  shows "machine_ok (SipMsg sip) s c (client_invite_provisional sip (s, c))"
  using m(1,2)
proof (cases rule: ci_cases)
  case active
  define s1 where "s1 = s\<lparr>mState := Proceeding\<rparr>"
  define s2 where "s2 = (if mIsAbandoned s then s1\<lparr>mPendingCancelReasons := None, mIsAbandoned := False\<rparr> else s1)\<lparr>mMsgToRetransmit := None\<rparr>"
  define c1 where "c1 = (if mIsAbandoned s then send_cancel (mPendingCancelReasons s) s1 c else c)"
  have s1: "client_active s1" "mMachine s1 = ClientInvite" "resolved s1" "mId s1 = mId s"
    using active_proceeding [OF active(1) m(3)] m(1,3) by (simp_all add: s1_def resolved_def)
  have al: "alike (s1\<lparr>mMsgToRetransmit := None\<rparr>) s2" by (simp add: s2_def alike_def)
  have s2: "client_active s2" "mMachine s2 = mMachine s" "mId s2 = mId s"
    using alike_active [OF al] active_silent [OF s1(1)] al s1 m(1) by (simp_all add: alike_def)
  have "spawns s c (send_cancel x s1 c)" for x using send_cancel_spawns [OF s1(1-3)] spawns_cong [OF s1(4)] by blast
  then have c1: "c1 = c \<or> spawns s c c1" "env_ok c1" using m(4) spawns_env_ok by (auto simp: c1_def)
  have "calm (mId s) {} c1 (sendToTU_response sip s2 c1)" using c1(2) by (rule calm_sendToTU_response)
  then have "step_ok (SipMsg sip) s c1 (stay (s2, sendToTU_response sip s2 c1))"
    using active_good [OF active(1) s2] by (auto intro: step_ok_stay)
  moreover have "client_invite_provisional sip (s, c) = stay (s2, sendToTU_response sip s2 c1)"
    using active by (simp add: client_invite_provisional_def Let_def s1_def s2_def c1_def)
  ultimately show ?thesis using c1(1) m(1) machine_ok_spawns step_machine_ok by metis
next
  case completed
  then show ?thesis using step_ok_idle [OF m(2)] by (simp add: client_invite_provisional_def step_machine_ok)
qed

lemma client_invite_success_ok:
  assumes m: "mMachine s = ClientInvite" "ts_ok s" "env_ok c"
  shows "step_ok (SipMsg sip) s c (client_invite_success sip (s, c))"
proof -
  have ok: "client_ok s" using m(1,2) by (simp add: ts_ok_def ci_ok_def)
  let ?c = "sendToTU_response sip (s\<lparr>mIsAbandoned := False\<rparr>) c"
  let ?s = "resetNextTransmission None (s\<lparr>mIsAbandoned := False, mMachine := ClientStale, mState := Completed\<rparr>)"
  obtain s' c' where d: "destroy_dns (?s, ?c) = (s', c')" by fastforce
  let ?t = "timers_add TimerStaleClient (mId s') (TS (ct_timing c')) c'"
  have s': "stale_ok s'" "mMachine s' = ClientStale" "mId s' = mId s" "mState s' = Completed"
    using calm_destroy_dns [OF d] ok
    by (auto simp: stale_ok_def resetNextTransmission_def client_ok_def split: if_splits intro: PendingOperation.exhaust)
  have "calm (mId s) {TimerStaleClient} c ?c" using m(3) by (rule calm_sendToTU_response)
  then have "calm (mId s) {TimerStaleClient} c ?t" using calm_destroy_dns [OF d] calm_step s'(3) by (metis calm_timers_add singletonI)
  moreover have "good_next (SipMsg sip) s {TimerStaleClient} (pending_timers ?t) s'"
    using s' m(1) by (auto simp: good_next_def ts_ok_def isClient_def timer_fits_def ender_def)
  ultimately have "step_ok (SipMsg sip) s c (stay (s', ?t))" using m(1) by (intro step_ok_stay) auto
  then show ?thesis using d by (simp add: client_invite_success_def Let_def)
qed

lemma ci_good:
  assumes "mMachine s = ClientInvite" "mMachine s' = ClientInvite" "ci_ok s'" "mId s' = mId s"
    "mState s' = Completed \<Longrightarrow> (TimerD, mId s) \<in> P \<or> mState s = Completed \<and> fired msg \<noteq> Some TimerD"
  shows "good_next msg s X P s'"
  using assms by (auto simp: good_next_def ts_ok_def isClient_def ender_def timer_fits_def)

text \<open>The ACK for a failure response takes the place of the INVITE and is sent.\<close>

lemma send_ack:
  assumes s: "mMachine s = ClientInvite" "mMethod s = INVITE" "resolved s"
    and q: "mNextTransmission s = Some req" "sip_vias req \<noteq> []" "sip_method req = INVITE"
    and w: "sendCurrentToWire (with_failure_ack sip (s, c)) = (s', c')"
  shows "calm (mId s) {TimerE1, TimerA} c c' \<and> sent_like s s' \<and> resolved s' \<and> mIsReliable s' = mIsReliable s \<and>
    mPendingOperation s' = mPendingOperation s \<and> mDnsResult s' = mDnsResult s \<and> only_acks s' \<and> (\<not> mIsReliable s \<longrightarrow> sendable s')"
proof -
  let ?a = "makeFailureAck req sip"
  have a: "isRequest ?a" "sip_method ?a = ACK" "flow_ok ?a"
    by (simp_all add: makeFailureAck_def isRequest_def flow_ok_def new_sip_def no_tuple_def)
  let ?s = "resetNextTransmission (Some ?a) s"
  have "isClient ?s" "sendable ?s" "mId ?s = mId s" "mMethod ?s = INVITE" "resolved ?s"
    using s by (simp_all add: resetNextTransmission_def isClient_def sendable_def resolved_def)
  moreover have "sendCurrentToWire (?s, c) = (s', c')" using w q by (simp add: with_failure_ack_def)
  ultimately have f: "calm (mId s) {TimerE1, TimerA} c c' \<and> client_sent ?s s'"
    using a by (intro send_client_wire [of ?s "mId s"]) (auto simp: resetNextTransmission_def)
  have n: "mNextTransmission s' \<in> {None, Some ?a}" using f by (auto simp: client_sent_def resetNextTransmission_def)
  have "resolved ?s" "mIsReliable ?s = mIsReliable s" "mPendingOperation ?s = mPendingOperation s" "mDnsResult ?s = mDnsResult s"
    "sent_like s ?s" using s by (simp_all add: resetNextTransmission_def resolved_def sent_like_def)
  then show ?thesis using f n a sent_like_trans [of s ?s s'] unfolding client_sent_def by (auto simp: only_acks_def)
qed

lemma client_invite_failure_ok:
  assumes m: "mMachine s = ClientInvite" "ts_ok s" "resolved s" "env_ok c"
  shows "step_ok (SipMsg sip) s c (client_invite_failure sip (s, c))"
  using m(1,2)
proof (cases rule: ci_cases)
  case active
  let ?s = "s\<lparr>mIsAbandoned := False\<rparr>"
  obtain req where q: "mNextTransmission s = Some req" "sip_vias req \<noteq> []" "sip_method req = INVITE"
    using active_request [OF active(1)] active(3) by metis
  show ?thesis
  proof (cases "mIsReliable s")
    case True
    obtain s' c' where w: "sendCurrentToWire (with_failure_ack sip (?s, c)) = (s', c')" by fastforce
    have c: "calm (mId s) {TimerE1, TimerA} c c'" using send_ack [OF _ _ _ _ q(2,3) w] m(1,3) active(3) q(1) by (simp add: resolved_def)
    then have "calm (mId s) {TimerE1, TimerA} c (sendToTU_response sip s' c')"
      using calm_step [OF c] calm_sendToTU_response calm_env_ok [OF c m(4)] by blast
    moreover have "client_invite_failure sip (s, c) = delete_this (terminateClientTransaction (s', sendToTU_response sip s' c'))"
      using True w q m(3) by (simp add: client_invite_failure_def with_failure_ack_def Let_def resolved_def resetNextTransmission_def)
    ultimately show ?thesis using m(1) by (simp add: step_ok_terminated)
  next
    case False
    let ?c = "timers_add TimerD (mId s) (TD (ct_timing c)) c" and ?X = "{TimerD, TimerE1, TimerA}"
    obtain s1 c1 where w: "sendCurrentToWire (with_failure_ack sip (?s\<lparr>mState := Completed\<rparr>, ?c)) = (s1, c1)" by fastforce
    obtain s' c' where d: "destroy_dns (s1, sendToTU_response sip s1 c1) = (s', c')" by fastforce
    have f: "calm (mId s) {TimerE1, TimerA} ?c c1" "sent_like (?s\<lparr>mState := Completed\<rparr>) s1" "resolved s1" "\<not> mIsReliable s1"
      "mPendingOperation s1 = mPendingOperation s" "mDnsResult s1 = mDnsResult s" "only_acks s1" "sendable s1"
      using send_ack [OF _ _ _ _ q(2,3) w] m(1,3) active(3) q(1) False by (simp_all add: resolved_def)
    have "calm (mId s) ?X c ?c" "calm (mId s) ?X ?c c1" using f(1) by (auto intro: calm_timers_add calm_mono)
    then have c1: "calm (mId s) ?X c c1" by (rule calm_step)
    have "calm (mId s) {} c1 (sendToTU_response sip s1 c1)" using calm_env_ok [OF c1 m(4)] by (rule calm_sendToTU_response)
    then have c': "calm (mId s) {} c1 c'" using calm_destroy_dns [OF d] calm_step by blast
    have P: "(TimerD, mId s) \<in> pending_timers c'" using f(1) c' by (auto simp: calm_def)
    have "ci_ok s' \<and> mMachine s' = ClientInvite \<and> mId s' = mId s"
      using calm_destroy_dns [OF d] f(2-8) m(1) active(3) active_parts(1) [OF active(1)]
      by (auto simp: ci_ok_def client_ok_def sent_like_def resolved_def only_acks_def sendable_def)
    then have "step_ok (SipMsg sip) s c (stay (s', c'))"
      using P m(1) calm_step [OF c1 calm_mono [OF c']] by (intro step_ok_stay ci_good) auto
    moreover have "client_invite_failure sip (s, c) = stay (s', c')"
      using False active w d by (auto simp: client_invite_failure_def Let_def split: prod.splits)
    ultimately show ?thesis by simp
  qed
next
  case completed
  let ?s = "s\<lparr>mIsAbandoned := False\<rparr>"
  obtain s' c' where w: "sendCurrentToWire (?s, c) = (s', c')" by fastforce
  have k: "only_acks s" "sendable s" "mDnsResult s = None" "\<not> mIsReliable s" "mMethod s = INVITE" using completed by (auto simp: ci_ok_def)
  have "isClient ?s" "sendable ?s" "mId ?s = mId s" using m(1) k(2) by (simp_all add: isClient_def sendable_def)
  then have f: "calm (mId s) {TimerE1, TimerA} c c' \<and> client_sent ?s s'"
    using k w by (intro send_client_wire [of ?s "mId s"]) (auto simp: only_acks_def)
  have "resolved ?s" using m(3) by (simp add: resolved_def)
  then have "ci_ok s' \<and> mMachine s' = ClientInvite \<and> mId s' = mId s \<and> mState s' = Completed"
    using f k m(1) completed unfolding client_sent_def
    by (auto simp: ci_ok_def client_ok_def sent_like_def only_acks_def)
  then have "step_ok (SipMsg sip) s c (stay (s', c'))"
    using f m(1) completed by (intro step_ok_stay [of s "{TimerE1, TimerA}"] ci_good) auto
  then show ?thesis using completed k w by (simp add: client_invite_failure_def)
qed

lemma client_invite_timer_ok:
  assumes m: "mMachine s = ClientInvite" "ts_ok s" "env_ok c"
  shows "step_ok (TimerMessage tid t d) s c (client_invite_timer t d (s, c))"
proof -
  have idle: "step_ok (TimerMessage tid t d) s c (stay (s, c))" if "t \<noteq> TimerD"
    using m that by (intro step_ok_refl) (auto simp: ender_def)
  have inv: "client_active s" if "mState s \<noteq> Completed" using active_iff [of s] m that by simp
  have req: "has_invite s" if "mState s \<noteq> Completed"
    using active_parts(2) [OF inv [OF that]] m(1,2) by (auto simp: request_ready_def has_invite_def ts_ok_def ci_ok_def split: option.splits)
  consider (A) "t = TimerA" "mState s = Calling" "\<not> mIsAbandoned s"
    | (out) "t = TimerB \<and> mState s = Calling \<or> t = TimerCleanUp \<and> mState s = Proceeding"
    | (tcp) "t = TcpConnectTimer" "mTcpConnectTimerStarted s" | (D) "t = TimerD"
    | (none) "\<not> (t = TimerA \<and> mState s = Calling \<and> \<not> mIsAbandoned s)"
        "\<not> (t = TimerB \<and> mState s = Calling)" "\<not> (t = TimerCleanUp \<and> mState s = Proceeding)"
        "\<not> (t = TcpConnectTimer \<and> mTcpConnectTimerStarted s)" "t \<noteq> TimerD" by blast
  then show ?thesis
  proof cases
    case A
    then show ?thesis using inv by (auto simp: client_invite_timer_def intro!: active_retransmit)
  next
    case out
    then show ?thesis using inv req m(3) by (auto simp: client_invite_timer_def active_timeout [where X = "{}"])
  next
    case tcp
    then show ?thesis using m by (simp add: client_invite_timer_def transport_failure_ok)
  next
    case D
    then show ?thesis by (simp add: client_invite_timer_def step_ok_terminated)
  next
    case none
    then show ?thesis using idle by (cases t) (auto simp: client_invite_timer_def)
  qed
qed

lemma client_invite_cancel_ok:
  assumes m: "mMachine s = ClientInvite" "ts_ok s"
  shows "machine_ok (CancelClientInviteTransaction tid reasons) s c (client_invite_cancel reasons (s, c))"
proof -
  consider (sent) "mState s = Proceeding" | (later) "mState s = Calling" | (none) "mState s \<noteq> Proceeding" "mState s \<noteq> Calling" by blast
  then show ?thesis
  proof cases
    case sent
    then have "client_active s" "resolved s" using m active_iff [of s] by (auto simp: ts_ok_def ci_ok_def)
    then have "spawns s c (send_cancel reasons s c)" using m(1) by (intro send_cancel_spawns)
    then show ?thesis using machine_ok_spawns [OF m(1) _ step_ok_idle [OF m(2)]] sent by (simp add: client_invite_cancel_def)
  next
    case later
    have "alike s (s\<lparr>mIsAbandoned := True, mPendingCancelReasons := reasons\<rparr>)" by (simp add: alike_def)
    from alike_good [OF this _ m(2)] show ?thesis using later m(1)
      by (auto simp: client_invite_cancel_def isClient_def intro!: step_machine_ok step_ok_stay [where X = "{}"])
  qed (use step_ok_idle [OF m(2)] in \<open>auto simp: client_invite_cancel_def intro: step_machine_ok\<close>)
qed

interpretation client_invite: transaction_machine ClientInvite processClientInvite
proof
  fix s msg c assume m: "mMachine s = ClientInvite" "ts_ok s" "msg_fits msg s" "env_ok c"
  have cl: "isClient s" "mMethod s = INVITE" using m(1,2) by (simp_all add: isClient_def ts_ok_def ci_ok_def)
  have sync: "step_ok msg s c (handleSync (s, c))" if "fired msg = None"
    using m(1,2)
  proof (cases rule: ci_cases)
    case completed
    then have "mPendingOperation s \<noteq> Dns" by (auto simp: ci_ok_def client_ok_def)
    then show ?thesis using m(2) that by (rule not_pending_handleSync)
  qed (use m(4) that in \<open>simp add: active_handleSync\<close>)
  show "machine_ok msg s c (processClientInvite msg (s, c))"
  proof (cases msg)
    case (SipMsg sip)
    then have r: "isResponse sip \<Longrightarrow> resolved s" "\<not> isRequest sip" "sip_method sip \<noteq> CANCEL"
      using m(1,3) cl by (auto simp: msg_fits_def accepts_def method_matches_def)
    then show ?thesis using SipMsg m step_ok_idle [OF m(2), THEN step_machine_ok]
      by (auto simp: processClientInvite_def is_code_def client_invite_response_def client_invite_provisional_ok
          client_invite_success_ok [THEN step_machine_ok] client_invite_failure_ok [THEN step_machine_ok] split: MethodTypes.splits)
  qed (use m cl step_ok_idle [OF m(2), THEN step_machine_ok] sync in \<open>auto simp: processClientInvite_def msg_fits_def
        client_invite_cancel_ok tcp_connect_ok [THEN step_machine_ok] client_invite_timer_ok [THEN step_machine_ok]
        transport_failure_ok [THEN step_machine_ok] step_machine_ok\<close>)
qed

section \<open>Stale and stateless\<close>

lemma post_response_ok:
  "ts_ok s \<Longrightarrow> fired msg = None \<Longrightarrow> env_ok c \<Longrightarrow> step_ok msg s c (stay (s, sendToTU_response sip s c))"
  by (rule step_ok_stay [OF calm_sendToTU_response good_next_refl]) auto

interpretation client_stale: transaction_machine ClientStale processClientStale
proof (unfold_locales, rule step_machine_ok)
  fix s msg c assume m: "mMachine s = ClientStale" "ts_ok s" "msg_fits msg s" "env_ok c"
  have cl: "isClient s" "mPendingOperation s \<noteq> Dns" using m(1,2) by (simp_all add: isClient_def ts_ok_def stale_ok_def)
  show "step_ok msg s c (processClientStale msg (s, c))"
  proof (cases msg)
    case (SipMsg sip)
    then have "isResponse sip \<Longrightarrow> sip_external sip" using m(1,3) cl by (auto simp: msg_fits_def isClientTransaction_sip_def isRequest_def isResponse_def)
    then show ?thesis using SipMsg m step_ok_idle [OF m(2)] by (auto simp: processClientStale_def is_code_def post_response_ok)
  next
    case (TimerMessage tid t d)
    then show ?thesis using step_ok_refl [OF m(2), of msg c] m(1)
      by (auto simp: processClientStale_def ender_def step_ok_terminated)
  qed (use m cl step_ok_idle [OF m(2)] in \<open>auto simp: processClientStale_def transport_failure_ok not_pending_handleSync\<close>)
qed

lemma stateless_good:
  assumes "mMachine s = Stateless" "mMachine s' = Stateless" "stateless_ok s'" "mId s' = mId s" "fired msg \<noteq> Some TimerStateless"
  shows "good_next msg s {} P s'"
  using assms by (auto simp: good_next_def ts_ok_def isClient_def ender_def timer_fits_def)

lemma stateless_sent:
  assumes s: "mMachine s = Stateless" "stateless_ok s" "sendable s" "mPendingOperation s \<noteq> Dns"
    and w: "sendCurrentToWire (s, c) = (s', c')"
  shows "calm (mId s) {} c c' \<and> stateless_ok s' \<and> mMachine s' = Stateless \<and> mId s' = mId s"
proof -
  have k: "isClient s" "mMethod s = ACK" "only_acks s" "client_ok s" "mState s = Calling"
    using s by (simp_all add: isClient_def stateless_ok_def)
  then have f: "calm (mId s) {} c c' \<and> client_sent s s'"
    using s w by (intro send_client_wire [of s "mId s"]) (auto simp: only_acks_def)
  have "mState s' = mState s" "mMethod s' = mMethod s" "mMachine s' = mMachine s" "mId s' = mId s"
    using f by (simp_all add: client_sent_def sent_like_def)
  moreover have "client_ok s' \<and> (mPendingOperation s' = Dns \<longrightarrow> \<not> resolved s')"
    using f k s(4) unfolding client_sent_def client_ok_def by auto
  moreover have "only_acks s'" using f k(3) by (auto simp: only_acks_def client_sent_def)
  ultimately show ?thesis using f k s(1) by (simp add: stateless_ok_def)
qed

lemma stateless_send:
  assumes s: "mMachine s = Stateless" "stateless_ok s" and sip: "isRequest sip" "sip_method sip = ACK" "flow_ok sip"
    and flow: "mPendingOperation s = Dns \<Longrightarrow> mFlowKey (sip_destination sip) = 0"
    and w: "sendCurrentToWire (resetNextTransmission (Some sip) s, c) = (s', c')"
  shows "calm (mId s) {} c c' \<and> stateless_ok s' \<and> mMachine s' = Stateless \<and> mId s' = mId s"
proof -
  let ?s = "resetNextTransmission (Some sip) s"
  have k: "stateless_ok ?s" "mMachine ?s = Stateless" "mId ?s = mId s" "sendable ?s" "mPendingOperation ?s = mPendingOperation s"
    using s sip by (auto simp: stateless_ok_def client_ok_def resolved_def only_acks_def resetNextTransmission_def sendable_def)
  show ?thesis
  proof (cases "mPendingOperation s = Dns")
    case True
    then have "mDnsResult s \<noteq> None" "\<not> resolved s" using s(2) by (auto simp: stateless_ok_def client_ok_def)
    then have "s' = ?s" "c' = c" using w s(1) flow [OF True]
      by (auto simp: sendCurrentToWire_def resetNextTransmission_def isClient_def send_client_def resolved_def)
    then show ?thesis using k by simp
  next
    case False
    then show ?thesis using stateless_sent [OF k(2,1,4) _ w] k(3,5) by simp
  qed
qed

lemma stateless_handleSync:
  assumes m: "mMachine s = Stateless" "stateless_ok s" "env_ok c" "fired msg = None"
  shows "step_ok msg s c (handleSync (s, c))"
proof (cases "mPendingOperation s = Dns")
  case True
  then obtain d r where d: "mDnsResult s = Some d" "mNextTransmission s = Some r" "targets_known d"
    using m(2) by (auto simp: stateless_ok_def client_ok_def)
  obtain d' c1 where p: "prime d c = (d', c1)" by fastforce
  have d': "targets_known d'" "d' \<noteq> DnsTargets []" using prime_known [OF p d(3) m(3)] by auto
  have c1: "calm (mId s) {} c c1" using calm_prime [OF p] .
  have good: "step_ok msg s c (stay (t, c'))" if "calm (mId s) {} c c'" "stateless_ok t" "mMachine t = Stateless" "mId t = mId s" for t c'
    using that m(1,4) by (intro step_ok_stay [OF that(1)] stateless_good) auto
  consider (target) t ts where "d' = DnsTargets (t # ts)" | (wait) "d' = DnsPending" | (none) "d' = DnsFinished"
    using d'(2) by (cases d') (auto simp: neq_Nil_conv)
  then show ?thesis
  proof cases
    case target
    let ?t = "t\<lparr>mTransportKey := mTransportKey (sip_destination r)\<rparr>"
    let ?s = "s\<lparr>mPendingOperation := NoOperation, mDnsResult := Some (DnsTargets ts), mTarget := ?t\<rparr>"
    obtain s2 c2 where r: "processReliability (tp_type ?t) (?s, c1) = (s2, c2)" by fastforce
    obtain s' c' where w: "sendCurrentToWire (s2, c2) = (s', c')" by fastforce
    have f: "calm (mId s) {} c1 c2" "s2 = ?s\<lparr>mIsReliable := tp_type ?t \<notin> {UDP, DCCP}\<rparr>"
      using calm_reliability [OF r, of "mId s" "{}"] m(1) by auto
    have "stateless_ok s2" "sendable s2" "mPendingOperation s2 \<noteq> Dns" "mMachine s2 = Stateless" "mId s2 = mId s"
      using m(1,2) d d'(1) target by (simp_all add: f(2) stateless_ok_def client_ok_def resolved_def only_acks_def sendable_def)
    then have g: "calm (mId s) {} c2 c' \<and> stateless_ok s' \<and> mMachine s' = Stateless \<and> mId s' = mId s"
      using stateless_sent [OF _ _ _ _ w] by simp
    then have "step_ok msg s c (stay (s', c'))" using calm_step [OF c1 calm_step [OF f(1)]] by (intro good) auto
    then show ?thesis using p d target True r w by (simp add: handleSync_def)
  next
    case wait
    have "stateless_ok (s\<lparr>mDnsResult := Some DnsPending\<rparr>)" using m(2) by (simp add: stateless_ok_def client_ok_def resolved_def only_acks_def)
    then show ?thesis using wait p d True c1 m(1) by (simp add: handleSync_def good)
  next
    case none
    let ?s = "s\<lparr>mDnsResult := Some DnsFinished, mPendingOperation := NoOperation\<rparr>"
    have "stateless_ok ?s" using m(2) by (simp add: stateless_ok_def client_ok_def resolved_def only_acks_def)
    moreover have "only_acks ?s" using m(2) by (simp add: stateless_ok_def only_acks_def)
    ultimately show ?thesis using none p d True c1 m(1) by (simp add: handleSync_def good only_acks_no_results)
  qed
qed (use m in \<open>simp add: not_pending_handleSync ts_ok_def\<close>)

interpretation stateless: transaction_machine Stateless processStateless
proof (unfold_locales, rule step_machine_ok)
  fix s msg c assume m: "mMachine s = Stateless" "ts_ok s" "msg_fits msg s" "env_ok c"
  have ok: "stateless_ok s" "isClient s" "mMethod s = ACK" "only_acks s" "mState s \<noteq> Bogus"
    using m(1,2) by (auto simp: ts_ok_def isClient_def stateless_ok_def)
  show "step_ok msg s c (processStateless msg (s, c))"
  proof (cases msg)
    case (SipMsg sip)
    show ?thesis
    proof (cases "sip_external sip")
      case True
      then have "\<not> isRequest sip" using SipMsg m(3) ok(2) by (auto simp: msg_fits_def isClientTransaction_sip_def isRequest_def isResponse_def)
      then show ?thesis using True SipMsg m post_response_ok by (simp add: processStateless_def sendToTU_def)
    next
      case False
      then have sip: "isRequest sip" "sip_method sip = ACK" "flow_ok sip" "mPendingOperation s = Dns \<Longrightarrow> mFlowKey (sip_destination sip) = 0"
        using SipMsg m(3) ok(2,3) by (auto simp: msg_fits_def isClientTransaction_sip_def accepts_def method_matches_def)
      obtain s' c' where w: "sendCurrentToWire (resetNextTransmission (Some sip) s, c) = (s', c')" by fastforce
      from stateless_send [OF m(1) ok(1) sip w] have "step_ok msg s c (stay (s', c'))"
        using m(1) SipMsg by (intro step_ok_stay [where X = "{}"] stateless_good) auto
      then show ?thesis using False SipMsg w by (simp add: processStateless_def)
    qed
  next
    case (TransportFailure tid r sub)
    then show ?thesis using finished_transport_failure [OF ok(2,4) disjI2 [OF m(1)] ok(5), of r sub c]
      by (auto simp: processStateless_def stay_def step_ok_delete)
  next
    case (TimerMessage tid t d)
    then show ?thesis using m(1,3) by (auto simp: processStateless_def msg_fits_def timer_fits_def step_ok_delete)
  qed (use m ok step_ok_idle [OF m(2)] in \<open>auto simp: processStateless_def msg_fits_def stateless_handleSync\<close>)
qed

section \<open>All machines\<close>

theorem machine_step_ok:
  assumes "ts_ok s" "msg_fits msg s" "env_ok c"
  shows "machine_ok msg s c (machine_step msg (s, c))"
  using assms client_non_invite.keeps client_invite.keeps server_non_invite.keeps server_invite.keeps stateless.keeps
    client_stale.keeps server_stale.keeps
  by (cases "mMachine s") (simp_all add: machine_step_def)

end
