(* ===== verification/TransReach.thy ===== *)
theory TransReach
  imports TransInvite
begin

text \<open>The invariant of the transaction controller and its reachable states: whatever messages, timers,
  DNS results and calls of the application come, in whatever order, the controller keeps the
  invariant, as long as the messages are admissible.\<close>

section \<open>The invariant\<close>

definition entries_ok :: "Controller \<Rightarrow> bool" where
  "entries_ok c \<longleftrightarrow> (\<forall>client tid s. tmap client c tid = Some s \<longrightarrow> ts_ok s \<and> mId s = tid \<and> isClient s = client)"

definition timers_ok :: "Controller \<Rightarrow> bool" where
  "timers_ok c \<longleftrightarrow> (\<forall>t tid. (t, tid) \<in> pending_timers c \<longrightarrow>
     (\<exists>client. timer_isClient t = Some client \<and> (\<forall>s. tmap client c tid = Some s \<longrightarrow> timer_fits t s)))"

text \<open>Every transaction that waits for a timer has it pending, but for the one that is firing.\<close>

definition enders_ok :: "(TimerType \<times> string) option \<Rightarrow> Controller \<Rightarrow> bool" where
  "enders_ok firing c \<longleftrightarrow> (\<forall>client tid s t. tmap client c tid = Some s \<longrightarrow> ender s = Some t \<longrightarrow>
     (t, tid) \<in> pending_timers c \<or> firing = Some (t, tid))"

definition cinv :: "(TimerType \<times> string) option \<Rightarrow> Controller \<Rightarrow> bool" where
  "cinv firing c \<longleftrightarrow> entries_ok c \<and> timers_ok c \<and> enders_ok firing c \<and> env_ok c \<and> mDiscardStrayResponses c \<and>
     trying_duration (ct_timing c) \<noteq> None \<and> in_order (mTimers c) \<and> \<not> ct_failed c"

lemma pending_timer_fits:
  assumes "cinv x c" "(t, tid) \<in> pending_timers c"
  obtains client where "timer_isClient t = Some client" "\<And>s. tmap client c tid = Some s \<Longrightarrow> timer_fits t s"
  using assms unfolding cinv_def timers_ok_def by blast

lemma ender_pending:
  "cinv x c \<Longrightarrow> tmap cl c tid = Some s \<Longrightarrow> ender s = Some t \<Longrightarrow> x \<noteq> Some (t, tid) \<Longrightarrow> (t, tid) \<in> pending_timers c"
  unfolding cinv_def enders_ok_def by blast

lemma cinv_entry: "cinv x c \<Longrightarrow> tmap cl c tid = Some s \<Longrightarrow> ts_ok s \<and> mId s = tid \<and> isClient s = cl"
  unfolding cinv_def entries_ok_def by blast

lemma cinv_cong: "core c' = core c \<Longrightarrow> pending_timers c' = pending_timers c \<Longrightarrow> mTimers c' = mTimers c \<Longrightarrow> cinv x c' \<longleftrightarrow> cinv x c"
  by (simp add: cinv_def entries_ok_def timers_ok_def enders_ok_def env_ok_def core_def tmap_def)

lemma ender_isClient: "ender s = Some t \<Longrightarrow> timer_isClient t = Some (isClient s)"
  by (cases "mMachine s") (auto simp: ender_def split: if_splits)

lemma tmap_core: "core c' = core c \<Longrightarrow> tmap client c' = tmap client c"
  by (simp add: core_def tmap_def)

lemma tmap_set [simp]: "tmap client (set_tmap cl m c) = (if client = cl then m else tmap client c)"
  by (cases client; cases cl) (simp_all add: tmap_def set_tmap_def)

lemma pending_set_tmap [simp]: "pending_timers (set_tmap cl m c) = pending_timers c"
  by (simp add: set_tmap_def pending_timers_def)

lemma env_set_tmap [simp]: "env_ok (set_tmap cl m c) = env_ok c" "mDiscardStrayResponses (set_tmap cl m c) = mDiscardStrayResponses c"
  "ct_timing (set_tmap cl m c) = ct_timing c" "mTimers (set_tmap cl m c) = mTimers c" "ct_failed (set_tmap cl m c) = ct_failed c"
  by (simp_all add: set_tmap_def env_ok_def)

text \<open>A transaction is replaced by another state of it or removed.\<close>

lemma cinv_update:
  assumes inv: "cinv x c" and c: "calm tid X c c'" "\<forall>t\<in>X. timer_isClient t = Some client"
    and s: "\<And>s. new = Some s \<Longrightarrow> ts_ok s \<and> mId s = tid \<and> isClient s = client"
    and fits: "\<And>s t. new = Some s \<Longrightarrow> timer_isClient t = Some client \<Longrightarrow> (t, tid) \<in> pending_timers c \<or> t \<in> X \<Longrightarrow> timer_fits t s"
    and ends: "\<And>s t. new = Some s \<Longrightarrow> ender s = Some t \<Longrightarrow> (t, tid) \<in> pending_timers c'"
    and x: "\<And>t tid'. x = Some (t, tid') \<Longrightarrow> tid' = tid \<and> timer_isClient t = Some client"
  shows "cinv None (set_tmap client ((tmap client c')(tid := new)) c')"
proof -
  let ?c = "set_tmap client ((tmap client c')(tid := new)) c'"
  have m: "tmap cl ?c k = (if cl = client \<and> k = tid then new else tmap cl c k)" for cl k
    using tmap_core [OF calm_core [OF c(1)]] by simp
  have p: "pending_timers c \<subseteq> pending_timers ?c" "pending_timers ?c \<subseteq> pending_timers c \<union> X \<times> {tid}" "pending_timers ?c = pending_timers c'"
    using c(1) by (auto simp: calm_def)
  have "entries_ok ?c" using inv s unfolding entries_ok_def cinv_def m by auto
  moreover have "timers_ok ?c" unfolding timers_ok_def m
  proof (intro allI impI)
    fix t k assume tk: "(t, k) \<in> pending_timers ?c"
    show "\<exists>cl. timer_isClient t = Some cl \<and> (\<forall>s. (if cl = client \<and> k = tid then new else tmap cl c k) = Some s \<longrightarrow> timer_fits t s)"
    proof (cases "(t, k) \<in> pending_timers c")
      case True
      then obtain cl where "timer_isClient t = Some cl" "\<And>s. tmap cl c k = Some s \<Longrightarrow> timer_fits t s"
        using pending_timer_fits [OF inv] by blast
      then show ?thesis using fits True by (intro exI [of _ cl]) auto
    next
      case False
      then have "t \<in> X" "k = tid" using tk p(2) by auto
      then show ?thesis using fits c(2) by (intro exI [of _ client]) auto
    qed
  qed
  moreover have "enders_ok None ?c" unfolding enders_ok_def m
  proof (intro allI impI)
    fix cl k s t assume e: "(if cl = client \<and> k = tid then new else tmap cl c k) = Some s" "ender s = Some t"
    show "(t, k) \<in> pending_timers ?c \<or> None = Some (t, k)"
    proof (cases "cl = client \<and> k = tid")
      case True then show ?thesis using ends e p(3) by auto
    next
      case False
      then have s': "tmap cl c k = Some s" using e(1) by (auto split: if_splits)
      then have "timer_isClient t = Some cl" using ender_isClient [OF e(2)] inv by (auto simp: cinv_def entries_ok_def)
      then have "x \<noteq> Some (t, k)" using x False by auto
      then show ?thesis using ender_pending [OF inv s' e(2)] p(1) by blast
    qed
  qed
  moreover have "env_ok ?c" "mDiscardStrayResponses ?c" "trying_duration (ct_timing ?c) \<noteq> None" "in_order (mTimers ?c)" "\<not> ct_failed ?c"
    using inv calm_core [OF c(1)] calm_env_ok [OF c(1)] c(1) by (auto simp: cinv_def core_def calm_def)
  ultimately show ?thesis by (simp add: cinv_def)
qed

lemma leave_step:
  assumes inv: "cinv x c" and s: "tmap (isClient s) c (mId s) = Some s" and step: "step_ok msg s c rc"
    and x: "\<And>t tid. x = Some (t, tid) \<Longrightarrow> tid = mId s \<and> fired msg = Some t \<and> timer_isClient t = Some (isClient s)"
  shows "cinv None (leave s rc)"
proof -
  obtain X where X: "own X s" "calm (mId s) X c (snd rc)"
    "\<And>s'. fst rc = Some s' \<Longrightarrow> good_next msg s X (pending_timers (snd rc)) s'"
    using step by (auto simp: step_ok_def split: option.splits)
  have fits: "timer_fits t s" if "timer_isClient t = Some (isClient s)" "(t, mId s) \<in> pending_timers c" for t
    using pending_timer_fits [OF inv that(2)] that(1) s by (metis option.inject)
  have ends: "(t, mId s) \<in> pending_timers (snd rc)" if "ender s = Some t" "fired msg \<noteq> Some t" for t
  proof -
    have "x \<noteq> Some (t, mId s)" using x that(2) by auto
    then have "(t, mId s) \<in> pending_timers c" using ender_pending [OF inv s that(1)] by blast
    then show ?thesis using X(2) by (auto simp: calm_def)
  qed
  have "cinv None (set_tmap (isClient s) ((tmap (isClient s) (snd rc))(mId s := fst rc)) (snd rc))"
    using inv X(2)
  proof (rule cinv_update)
    show "\<forall>t\<in>X. timer_isClient t = Some (isClient s)" using X(1) by (simp add: own_def)
    show "tid' = mId s \<and> timer_isClient t = Some (isClient s)" if "x = Some (t, tid')" for t tid' using x that by auto
  next
    fix s' assume g: "fst rc = Some s'"
    note g' = X(3) [OF g]
    show "ts_ok s' \<and> mId s' = mId s \<and> isClient s' = isClient s" using g' by (simp add: good_next_def)
    show "timer_fits t s'" if "timer_isClient t = Some (isClient s)" "(t, mId s) \<in> pending_timers c \<or> t \<in> X" for t
      using g' fits that by (auto simp: good_next_def)
    show "(t, mId s) \<in> pending_timers (snd rc)" if "ender s' = Some t" for t
      using g' ends that by (auto simp: good_next_def)
  qed
  then show ?thesis by (simp add: leave_def)
qed

section \<open>Running a machine\<close>

lemma spawn_cinv:
  assumes inv: "cinv x c" and s: "mMachine s = ClientInvite" "tmap True c (mId s) = Some s" "spawns s c c'"
  shows "cinv x c'" "tmap True c' (mId s) = Some s"
proof -
  obtain sc where sc: "mId sc = mId s @ ''cancel''" "mMachine sc = ClientNonInvite" "ts_ok sc" "(TimerF, mId sc) \<in> pending_timers c'"
    "core c' = core (c\<lparr>mClientTransactionMap := (mClientTransactionMap c)(mId sc \<mapsto> sc)\<rparr>)" "pending_timers c \<subseteq> pending_timers c'"
    "pending_timers c' \<subseteq> pending_timers c \<union> {TimerF, TimerE1, TimerA} \<times> {mId sc} \<union> {TimerCleanUp} \<times> {mId s}" "mState sc \<noteq> Completed"
    "in_order (mTimers c) \<longrightarrow> in_order (mTimers c')"
    using s(3) unfolding spawns_def by blast
  have m: "tmap cl c' k = (if cl \<and> k = mId sc then Some sc else tmap cl c k)" for cl k
    using sc(5) by (simp add: core_def tmap_def)
  show "tmap True c' (mId s) = Some s" using s(2) sc(1) by (simp add: m)
  have "entries_ok c'" using inv sc(2,3) unfolding entries_ok_def cinv_def m by auto
  moreover have "timers_ok c'" unfolding timers_ok_def m
  proof (intro allI impI)
    fix t k assume tk: "(t, k) \<in> pending_timers c'"
    have f: "timer_fits u sc" "timer_fits u s" for u using sc(2) s(1) by (simp_all add: timer_fits_def)
    consider "(t, k) \<in> pending_timers c" | "t \<in> {TimerF, TimerE1, TimerA}" "k = mId sc" | "t = TimerCleanUp" "k = mId s"
      using tk sc(7) by blast
    then show "\<exists>cl. timer_isClient t = Some cl \<and> (\<forall>s. (if cl \<and> k = mId sc then Some sc else tmap cl c k) = Some s \<longrightarrow> timer_fits t s)"
    proof cases
      case 1
      then obtain cl where "timer_isClient t = Some cl" "\<And>s. tmap cl c k = Some s \<Longrightarrow> timer_fits t s"
        using pending_timer_fits [OF inv] by blast
      then show ?thesis using f by (intro exI [of _ cl]) (auto split: if_splits)
    next
      case 2
      then show ?thesis using f by (intro exI [of _ True]) auto
    next
      case 3
      then show ?thesis using f s(2) sc(1) by (intro exI [of _ True]) auto
    qed
  qed
  moreover have "enders_ok x c'" unfolding enders_ok_def m
  proof (intro allI impI)
    fix cl k u t assume e: "(if cl \<and> k = mId sc then Some sc else tmap cl c k) = Some u" "ender u = Some t"
    show "(t, k) \<in> pending_timers c' \<or> x = Some (t, k)"
    proof (cases "cl \<and> k = mId sc")
      case True
      then show ?thesis using e sc(2,4,8) by (auto simp: ender_def)
    next
      case False
      then have "tmap cl c k = Some u" using e(1) by (auto split: if_splits)
      then show ?thesis using ender_pending [OF inv _ e(2)] sc(6) by blast
    qed
  qed
  ultimately show "cinv x c'" using inv sc(5,9) by (auto simp: cinv_def core_def env_ok_def)
qed

lemma run_machine_cinv:
  assumes inv: "cinv x c" and s: "tmap (isClient s) c (mId s) = Some s" "msg_fits msg s"
    and x: "\<And>t tid. x = Some (t, tid) \<Longrightarrow> tid = mId s \<and> fired msg = Some t \<and> timer_isClient t = Some (isClient s)"
  shows "cinv None (run_machine msg s c)"
proof -
  have "ts_ok s" "env_ok c" using cinv_entry [OF inv s(1)] inv by (auto simp: cinv_def)
  then obtain c1 where c1: "c1 = c \<or> mMachine s = ClientInvite \<and> spawns s c c1" "step_ok msg s c1 (machine_step msg (s, c))"
    using machine_step_ok [OF _ s(2)] by (auto simp: machine_ok_def)
  have "cinv x c1" "tmap (isClient s) c1 (mId s) = Some s"
    using c1(1) inv s(1) spawn_cinv [OF inv, of s c1] by auto
  then show ?thesis unfolding run_machine_def using c1(2) x by (rule leave_step)
qed

lemma cinv_relax:
  assumes inv: "cinv x c" and x: "\<And>t tid. x = Some (t, tid) \<Longrightarrow> timer_isClient t = Some cl \<and> tmap cl c tid = None"
  shows "cinv None c"
proof -
  have "(t, k) \<in> pending_timers c" if "tmap cl' c k = Some s" "ender s = Some t" for cl' k s t
  proof -
    have "timer_isClient t = Some cl'" using ender_isClient [OF that(2)] cinv_entry [OF inv that(1)] by simp
    then have "x \<noteq> Some (t, k)" using x [of t k] that(1) by auto
    then show ?thesis using ender_pending [OF inv that] by blast
  qed
  then show ?thesis using inv unfolding cinv_def enders_ok_def by blast
qed

lemma dispatch_cinv:
  assumes inv: "cinv x c" and x: "x = map_option (\<lambda>t. (t, message_tid msg)) (fired msg)"
    and cl: "message_isClient msg = Some client" and fits: "\<And>s. tmap client c (message_tid msg) = Some s \<Longrightarrow> msg_fits msg s"
  shows "cinv None (dispatch msg c)"
proof (cases "tmap client c (message_tid msg)")
  case None
  have "timer_isClient t = Some client" if "fired msg = Some t" for t using that cl by (cases msg) auto
  then have "cinv None c" using None x by (intro cinv_relax [OF inv, where cl = client]) (cases "fired msg"; simp)
  then show ?thesis using None cl by (simp add: dispatch_def)
next
  case (Some s)
  then have s: "mId s = message_tid msg" "isClient s = client" using cinv_entry [OF inv] by auto
  have "timer_isClient t = Some client" if "fired msg = Some t" for t using that cl by (cases msg) auto
  then have "cinv None (run_machine msg s c)" using Some s x fits
    by (intro run_machine_cinv [OF inv]) (cases "fired msg"; simp)+
  then show ?thesis using Some cl by (simp add: dispatch_def)
qed

section \<open>New transactions\<close>

lemma core_set_tmap: "core c1 = core c2 \<Longrightarrow> core (set_tmap cl m c1) = core (set_tmap cl m c2)"
  by (simp add: core_def set_tmap_def)

lemma set_tmap_same [simp]: "set_tmap cl m (set_tmap cl m' c) = set_tmap cl m c" "set_tmap cl (tmap cl c) c = c"
  by (simp_all add: set_tmap_def tmap_def)

lemma core_added: "core (tmap_add s c) = core (set_tmap (isClient s) ((tmap (isClient s) c)(mId s \<mapsto> s)) c)"
  by (auto simp: tmap_add_def Let_def set_tmap_def core_def destructed_def emit_def split: option.splits)

lemma cinv_calm: "cinv x c \<Longrightarrow> calm tid {} c c' \<Longrightarrow> cinv x c'"
proof -
  assume inv: "cinv x c" and c: "calm tid {} c c'"
  have core: "core c' = core c" and p: "pending_timers c' = pending_timers c" using c by (auto simp: calm_def)
  have "in_order (mTimers c')" using inv c by (simp add: cinv_def calm_def)
  then show ?thesis using inv p tmap_core [OF core] core
    by (simp add: cinv_def entries_ok_def timers_ok_def enders_ok_def env_ok_def core_def)
qed

lemma cinv_fresh:
  assumes inv: "cinv None c" and s: "mId s = tid" "isClient s = client"
    and c': "calm tid X (tmap_add s c) c'" "\<forall>t\<in>X. timer_isClient t = Some client"
    and s': "ts_ok s'" "mId s' = tid" "isClient s' = client"
    and fits: "\<And>t. timer_isClient t = Some client \<Longrightarrow> (t, tid) \<in> pending_timers c \<or> t \<in> X \<Longrightarrow> timer_fits t s'"
    and ends: "\<And>t. ender s' = Some t \<Longrightarrow> (t, tid) \<in> pending_timers c'"
    and s'': "mId s'' = tid" "isClient s'' = client"
  shows "cinv None (leave s'' (stay (s', c')))"
proof -
  let ?d = "set_tmap client (tmap client c) c'"
  have core: "core c' = core (set_tmap client ((tmap client c)(tid \<mapsto> s)) c)" using calm_core [OF c'(1)] core_added [of s c] s by simp
  then have "core ?d = core c" using core_set_tmap [OF core, of client "tmap client c"] by simp
  moreover have "pending_timers c \<subseteq> pending_timers c'" "pending_timers c' \<subseteq> pending_timers c \<union> X \<times> {tid}"
    using c'(1) by (auto simp: calm_def)
  moreover have "in_order (mTimers c) \<longrightarrow> in_order (mTimers c')" using c'(1) by (simp add: calm_def)
  ultimately have "calm tid X c ?d" by (simp add: calm_def)
  then have "cinv None (set_tmap client ((tmap client ?d)(tid := Some s')) ?d)"
    using c'(2) s' fits ends by (intro cinv_update [OF inv]) auto
  moreover have "tmap client c' = (tmap client c)(tid \<mapsto> s)" using tmap_core [OF core, of client] by simp
  ultimately show ?thesis by (simp add: leave_def stay_def s'')
qed

text \<open>No timer of an earlier transaction with the same id is left.\<close>

definition unused :: "bool \<Rightarrow> string \<Rightarrow> Controller \<Rightarrow> bool" where
  "unused client tid c \<longleftrightarrow> (\<forall>t. (t, tid) \<in> pending_timers c \<longrightarrow> timer_isClient t \<noteq> Some client)"

lemma new_client_invite_cinv:
  assumes inv: "cinv None c" and sip: "isRequest sip" "\<not> sip_external sip" "sip_method sip = INVITE" "sip_vias sip \<noteq> []" "flow_ok sip"
    "branch_is_mine (hd (sip_vias sip))"
  shows "cinv None (new_client ClientInvite Calling sip tid tu c)"
proof -
  let ?s = "new_TransactionState ClientInvite Calling tid (sip_method sip) (sip_methodStr sip) tu"
  have s: "mMachine ?s = ClientInvite" "mState ?s = Calling" "mMethod ?s = INVITE" "client_ok ?s" "\<not> sendable ?s" "mId ?s = tid"
    using sip(3) by (simp_all add: new_TransactionState_def client_ok_def sendable_def)
  from ci_start [OF s(1-5) sip(1,3-6), of "tmap_add ?s c"]
  obtain s' c' where f: "client_invite_request sip (?s, tmap_add ?s c) = stay (s', c')" "client_active s'" "mMachine s' = ClientInvite"
    "mId s' = tid" "calm tid {TimerB, TimerE1, TimerA} (tmap_add ?s c) c'"
    unfolding s by blast
  have "new_client ClientInvite Calling sip tid tu c = leave ?s (stay (s', c'))"
    using f(1) s(1) sip(1,2) by (simp add: new_client_def run_machine_def machine_step_def processClientInvite_def)
  moreover have "cinv None (leave ?s (stay (s', c')))"
    using f s active_ok [OF f(2)] active_machine(2) [OF f(2)]
    by (intro cinv_fresh [OF inv s(6) _ f(5), where client = True]) (auto simp: timer_fits_def ender_def)
  ultimately show ?thesis by simp
qed

lemma new_client_non_invite_cinv:
  assumes inv: "cinv None c" and sip: "isRequest sip" "\<not> sip_external sip" "sip_method sip \<notin> {INVITE, ACK, CANCEL}" "sip_vias sip \<noteq> []"
    "flow_ok sip" "branch_is_mine (hd (sip_vias sip))"
  shows "cinv None (new_client ClientNonInvite Trying sip tid tu c)"
proof -
  let ?s = "new_TransactionState ClientNonInvite Trying tid (sip_method sip) (sip_methodStr sip) tu"
  have s: "mMachine ?s = ClientNonInvite" "mState ?s = Trying" "mMethod ?s = sip_method sip" "client_ok ?s" "mId ?s = tid"
    by (simp_all add: new_TransactionState_def client_ok_def)
  have "sip_method sip \<notin> {INVITE, ACK}" "sip_method sip \<noteq> CANCEL" using sip(3) by auto
  then obtain s' c' where f: "client_non_invite_request sip (?s, tmap_add ?s c) = stay (s', c')" "client_active s'"
    "mMachine s' = ClientNonInvite" "mId s' = tid" "calm tid {TimerF, TimerE1, TimerA} (tmap_add ?s c) c'" "(TimerF, tid) \<in> pending_timers c'"
    using cni_start [OF s(1,2) _ s(4) _ sip(1) _ sip(4,5), of "tmap_add ?s c"] sip(6) unfolding s by blast
  have "new_client ClientNonInvite Trying sip tid tu c = leave ?s (stay (s', c'))"
    using f(1) s(1) sip(1,2) by (simp add: new_client_def run_machine_def machine_step_def processClientNonInvite_def)
  moreover have "cinv None (leave ?s (stay (s', c')))"
    using f s active_ok [OF f(2)] active_machine(2) [OF f(2)]
    by (intro cinv_fresh [OF inv s(5) _ f(5), where client = True]) (auto simp: timer_fits_def ender_def)
  ultimately show ?thesis by simp
qed

lemma new_stateless_cinv:
  assumes inv: "cinv None c" and sip: "isRequest sip" "\<not> sip_external sip" "sip_method sip = ACK" "flow_ok sip"
    and "unused True tid c"
  shows "cinv None (new_stateless sip tid tu c)"
proof -
  let ?s = "new_TransactionState Stateless Calling tid (sip_method sip) (sip_methodStr sip) tu"
  let ?c = "timers_add TimerStateless tid (TS (ct_timing c)) (tmap_add ?s c)"
  have s: "mMachine ?s = Stateless" "stateless_ok ?s" "mPendingOperation ?s \<noteq> Dns" "mId ?s = tid"
    using sip(3) by (simp_all add: new_TransactionState_def stateless_ok_def client_ok_def only_acks_def)
  obtain s' c' where w: "sendCurrentToWire (resetNextTransmission (Some sip) ?s, ?c) = (s', c')" by fastforce
  have f: "calm tid {} ?c c' \<and> stateless_ok s' \<and> mMachine s' = Stateless \<and> mId s' = tid"
    using stateless_send [OF s(1,2) sip(1,3,4) _ w] s(3,4) by simp
  then have p: "(TimerStateless, tid) \<in> pending_timers c'" by (auto simp: calm_def)
  have c: "calm tid {TimerStateless} (tmap_add ?s c) c'"
    using f calm_timers_add [OF calm_refl, of TimerStateless] calm_mono by (blast intro: calm_step)
  have "new_stateless sip tid tu c = leave ?s (stay (s', c'))"
    using w s(1) sip(2) by (simp add: new_stateless_def run_machine_def machine_step_def processStateless_def)
  moreover have "cinv None (leave ?s (stay (s', c')))"
    using f s p assms(6) by (intro cinv_fresh [OF inv s(4) _ c, where client = True])
      (auto simp: timer_fits_def ender_def ts_ok_def unused_def)
  ultimately show ?thesis by simp
qed

lemma new_client_cancel_cinv:
  assumes inv: "cinv None c" and sip: "isRequest sip" "\<not> sip_external sip" "sip_method sip = CANCEL" "sip_vias sip \<noteq> []" "flow_ok sip"
    and inv': "\<And>s. mClientTransactionMap c tid = Some s \<Longrightarrow> mMachine s \<noteq> ClientNonInvite"
  shows "cinv None (new_client_cancel sip tid tu c)"
proof (cases "mClientTransactionMap c tid")
  case None
  obtain r c1 where r: "fresh_response sip 481 '''' c = (r, c1)" by fastforce
  then have "calm tid {} c (post_sip tu r c1)" using calm_fresh_response by simp
  then show ?thesis using None r cinv_calm [OF inv] by (simp add: new_client_cancel_def)
next
  case (Some s)
  then have t: "tmap True c tid = Some s" by (simp add: tmap_def)
  have s: "ts_ok s" "mId s = tid" "isClient s" "mMachine s \<noteq> ClientNonInvite" using cinv_entry [OF inv t] inv' [OF Some] by auto
  have env: "env_ok c" using inv by (simp add: cinv_def)
  consider (calling) "mState s = Calling" | (over) "mState s = Completed" | (proceeding) "mState s \<noteq> Calling" "mState s \<noteq> Completed" by blast
  then show ?thesis
  proof cases
    case calling
    let ?s = "s\<lparr>mIsAbandoned := True, mPendingCancelReasons := (case sip_reasons sip of None \<Rightarrow> mPendingCancelReasons s | Some rs \<Rightarrow> Some rs)\<rparr>"
    have "alike s ?s" by (simp add: alike_def)
    from alike_good [OF this s(3,1)] have "step_ok (SipMsg sip) s c (stay (?s, c))"
      by (intro step_ok_stay [where X = "{}"]) auto
    then have "cinv None (leave s (stay (?s, c)))" using t s(2,3) by (intro leave_step [OF inv]) auto
    then show ?thesis using Some calling by (simp add: new_client_cancel_def)
  next
    case over
    obtain r c1 where r: "fresh_response sip 200 '''' c = (r, c1)" by fastforce
    have c1: "calm tid {} c c1" using calm_fresh_response [OF r] .
    have "calm tid {} c1 (sendToTU_response r s c1)" using calm_env_ok [OF c1 env] by (rule calm_sendToTU_response)
    then show ?thesis using Some over r cinv_calm [OF cinv_calm [OF inv c1]] by (simp add: new_client_cancel_def)
  next
    case proceeding
    have m: "mMachine s = ClientInvite"
      using s proceeding by (cases "mMachine s") (simp_all add: ts_ok_def stale_ok_def stateless_ok_def)
    then have "ci_ok s" using s(1) by (simp add: ts_ok_def)
    then have "resolved s" "mNextTransmission s \<noteq> None" using proceeding by (auto simp: ci_ok_def request_ready_def split: option.splits)
    then have "spawns s c (handleInternalCancel sip s c)" using sip by (intro internal_cancel_spawns)
    then show ?thesis using spawn_cinv(1) [OF inv m] t s(2) Some proceeding by (simp add: new_client_cancel_def)
  qed
qed

lemma request_to_user:
  "isRequest sip \<Longrightarrow> env_ok c \<Longrightarrow> sendToTU sip (s, c) = stay (s, post_sip (mTransactionUser s) sip c)"
  by (simp add: sendToTU_def sendToTU_request_def)

lemma new_server_invite_cinv:
  assumes inv: "cinv None c" and sip: "isRequest sip" "sip_vias sip \<noteq> []" and u: "unused False tid c"
  shows "cinv None (new_server_invite sip tid tu c)"
proof -
  obtain r c1 where r: "make100 sip c = (r, c1)" by fastforce
  define s where "s = (new_TransactionState ServerInvite Trying tid INVITE '''' tu)
    \<lparr>mNextTransmission := Some r, mResponseTarget := reply_target sip, mIsReliable := isReliable (tp_type (sip_source sip))\<rparr>"
  define d where "d = (if T100 (ct_timing (tmap_add s c1)) = 0
    then (case sendCurrentToWire (s, tmap_add s c1) of (s, c) \<Rightarrow> (s\<lparr>mState := Proceeding\<rparr>, c))
    else (s, timers_add TimerTrying tid (T100 (ct_timing (tmap_add s c1))) (tmap_add s c1)))"
  have s: "mMachine s = ServerInvite" "mId s = tid" "mState s = Trying" "si_ok s"
    using make100_facts [OF r] sip(2)
    by (simp_all add: s_def new_TransactionState_def si_ok_def server_ok_def only_responses_def only_provisional_def)
  have c1: "cinv None c1" "env_ok c1" "unused False tid c1"
    using cinv_calm [OF inv calm_make100 [OF r]] u calm_make100 [OF r, of tid "{}"] by (auto simp: cinv_def unused_def calm_def)
  obtain s' c' where d': "d = (s', c')" by fastforce
  have f: "calm tid {TimerTrying} (tmap_add s c1) c' \<and> si_ok s' \<and> mMachine s' = ServerInvite \<and> mId s' = tid \<and> mState s' \<in> {Trying, Proceeding}"
  proof (cases "T100 (ct_timing (tmap_add s c1)) = 0")
    case True
    obtain t e where w: "sendCurrentToWire (s, tmap_add s c1) = (t, e)" by fastforce
    have "calm tid {TimerTrying} (tmap_add s c1) e \<and> server_sent s t"
      using s by (intro send_server_wire [OF _ _ _ _ w]) (auto simp: sendable_def si_ok_def server_ok_def only_responses_def)
    then show ?thesis using d' True w s
      by (auto simp: d_def server_sent_def sent_like_def si_ok_def server_ok_def only_responses_def only_provisional_def)
  next
    case False
    then show ?thesis using d' s by (auto simp: d_def calm_timers_add)
  qed
  have env: "env_ok c'" using f calm_core [of tid "{TimerTrying}" "tmap_add s c1" c'] c1(2) core_added [of s c1]
    by (auto simp: core_def env_ok_def set_tmap_def)
  have "calm tid {TimerTrying} (tmap_add s c1) (post_sip (mTransactionUser s') sip c')" using f by simp
  then have "cinv None (leave s' (stay (s', post_sip (mTransactionUser s') sip c')))"
    using f s c1(3) by (intro cinv_fresh [OF c1(1) s(2), where client = False])
      (auto simp: timer_fits_def ender_def ts_ok_def unused_def)
  moreover have "new_server_invite sip tid tu c = (case d of (s, c) \<Rightarrow> leave s (sendToTU sip (s, c)))"
    by (simp only: new_server_invite_def r Let_def prod.case d_def s_def)
  ultimately show ?thesis using request_to_user [OF sip(1) env] d' by simp
qed

text \<open>The part that the non-INVITE server transactions share.\<close>

lemma server_start:
  assumes inv: "cinv None c" and sip: "isRequest sip" "sip_vias sip \<noteq> []"
    and s: "mMachine s = ServerNonInvite" "mId s = tid" "mState s = Trying" "mMethod s \<notin> {INVITE, ACK}" "server_ok s" "\<not> mIsAbandoned s"
      "mId s0 = tid" "\<not> isClient s0"
  shows "cinv None (leave s (sendToTU sip (startServerNonInviteTimerTrying sip (s, tmap_add s0 c))))"
proof -
  let ?c = "tmap_add s0 c"
  have core: "core ?c = core (set_tmap False ((tmap False c)(tid \<mapsto> s0)) c)" using core_added [of s0 c] s(7,8) by simp
  then have k: "env_ok ?c" "trying_duration (ct_timing ?c) \<noteq> None" using inv by (auto simp: cinv_def core_def env_ok_def set_tmap_def)
  obtain d where d: "trying_duration (ct_timing ?c) = Some d" using k(2) by blast
  obtain r c1 where r: "make100 sip ?c = (r, c1)" by fastforce
  let ?s = "resetNextTransmission (Some r) s" and ?c1 = "timers_add TimerTrying (mId s) d c1"
  have e: "startServerNonInviteTimerTrying sip (s, ?c) = (?s, ?c1)" using d r by (simp add: startServerNonInviteTimerTrying_def)
  have c: "calm tid {TimerTrying} ?c ?c1" using calm_make100 [OF r] s(2) by (simp add: calm_timers_add)
  then have "calm tid {TimerTrying} ?c (post_sip (mTransactionUser ?s) sip ?c1)" by simp
  then have "cinv None (leave s (stay (?s, post_sip (mTransactionUser ?s) sip ?c1)))"
    using s make100_facts [OF r] sip(2)
    by (intro cinv_fresh [OF inv s(7), where client = False])
      (auto simp: timer_fits_def ender_def ts_ok_def sni_ok_def server_ok_def only_responses_def sendable_def
        resetNextTransmission_def isClient_def)
  then show ?thesis using e request_to_user [OF sip(1) calm_env_ok [OF c k(1)]] by simp
qed

lemma respond_statelessly_cinv: "cinv x c \<Longrightarrow> cinv x (respond_statelessly sip code c)"
proof -
  assume inv: "cinv x c"
  obtain r c1 where r: "fresh_response sip code '''' c = (r, c1)" by fastforce
  obtain b c2 where t: "transmit r (sip_source sip) c1 = (b, c2)" by fastforce
  have "calm '''' {} c c2" using calm_step [OF calm_fresh_response [OF r] calm_transmit [OF t]] .
  then show ?thesis using cinv_calm [OF inv] r t by (simp add: respond_statelessly_def)
qed

lemma new_server_cancel_cinv:
  assumes inv: "cinv None c" and sip: "isRequest sip" "sip_vias sip \<noteq> []"
  shows "cinv None (new_server_cancel sip invite_tid tid c)"
proof (cases "mServerTransactionMap c invite_tid")
  case None
  then show ?thesis using respond_statelessly_cinv [OF inv] by (simp add: new_server_cancel_def)
next
  case (Some tr)
  let ?s0 = "(new_TransactionState ServerNonInvite Trying tid CANCEL '''' (mTransactionUser tr))
    \<lparr>mResponseTarget := mResponseTarget tr, mTarget := mTarget tr\<rparr>"
  have "makeCancelTransaction tr ServerNonInvite tid c = (?s0\<lparr>mIsReliable := tp_type (mTarget tr) \<notin> {UDP, DCCP}\<rparr>, tmap_add ?s0 c)"
    by (simp add: makeCancelTransaction_def processReliability_def new_TransactionState_def Let_def)
  moreover have "cinv None (leave (?s0\<lparr>mIsReliable := b\<rparr>) (sendToTU sip (startServerNonInviteTimerTrying sip (?s0\<lparr>mIsReliable := b\<rparr>, tmap_add ?s0 c))))" for b
    by (rule server_start [OF inv sip]) (simp_all add: new_TransactionState_def server_ok_def only_responses_def isClient_def)
  ultimately show ?thesis using Some by (simp add: new_server_cancel_def)
qed

lemma new_server_non_invite_cinv:
  assumes inv: "cinv None c" and sip: "isRequest sip" "sip_vias sip \<noteq> []" "sip_method sip \<notin> {INVITE, ACK}"
  shows "cinv None (new_server_non_invite sip tid tu c)"
  unfolding new_server_non_invite_def Let_def using sip(3)
  by (intro server_start [OF inv sip(1,2)]) (simp_all add: new_TransactionState_def server_ok_def only_responses_def isClient_def)

section \<open>Messages\<close>

text \<open>What is assumed of the messages that the controller gets. Every message has a start line. A request
  of the transaction user has one of our branches, it names no flow of an unknown transport, it
  repeats an earlier request only if that is an ACK, and it cancels only an INVITE. A response answers
  a request that has been sent. The id of a transaction is not used again while timers of it are
  pending.\<close>

definition admissible_known :: "SipMessage \<Rightarrow> TransactionState \<Rightarrow> bool" where
  "admissible_known sip s \<longleftrightarrow>
     (isClient s \<and> isResponse sip \<longrightarrow> resolved s) \<and>
     (isClient s \<and> isRequest sip \<longrightarrow> mMachine s = Stateless \<and> flow_ok sip \<and>
        (mPendingOperation s = Dns \<longrightarrow> mFlowKey (sip_destination sip) = 0))"

definition admissible_new :: "SipMessage \<Rightarrow> string \<Rightarrow> string \<Rightarrow> Controller \<Rightarrow> bool" where
  "admissible_new sip wire_tid tid c \<longleftrightarrow>
     (isRequest sip \<and> sip_method sip \<noteq> CANCEL \<longrightarrow> unused (isClientTransaction_sip sip) tid c) \<and>
     (isRequest sip \<and> \<not> sip_external sip \<longrightarrow> flow_ok sip \<and>
        (sip_method sip \<in> {ACK, CANCEL} \<or> branch_is_mine (hd (sip_vias sip))) \<and>
        (sip_method sip = CANCEL \<longrightarrow>
           (\<forall>s. mClientTransactionMap c wire_tid = Some s \<longrightarrow> mMachine s \<noteq> ClientNonInvite)))"

definition admissible_sip :: "SipMessage \<Rightarrow> Controller \<Rightarrow> bool" where
  "admissible_sip sip c \<longleftrightarrow> (isRequest sip \<or> isResponse sip) \<and>
     (case getTransactionId sip of
        None \<Rightarrow> True
      | Some wire_tid \<Rightarrow>
          (case tmap (isClientTransaction_sip sip) c (transaction_key sip wire_tid) of
             Some s \<Rightarrow> admissible_known sip s
           | None \<Rightarrow> admissible_new sip wire_tid (transaction_key sip wire_tid) c))"

fun admissible :: "TransactionMessage \<Rightarrow> Controller \<Rightarrow> bool" where
  "admissible (SipMsg sip) c = admissible_sip sip c"
| "admissible (TimerMessage _ _ _) c = False"
| "admissible (CancelClientInviteTransaction tid _) c =
     (case mClientTransactionMap c tid of None \<Rightarrow> True | Some s \<Rightarrow> mMachine s \<noteq> Stateless)"
| "admissible (InvokeAfterSocketCreationFunc _) c =
     (case mClientTransactionMap c '''' of None \<Rightarrow> True | Some s \<Rightarrow> mMachine s \<noteq> Stateless)"
| "admissible _ c = True"

lemma transaction_id_via: "getTransactionId sip = Some tid \<Longrightarrow> sip_vias sip \<noteq> []"
  by (auto simp: getTransactionId_def split: list.splits)

lemma post_sip_cinv: "cinv x c \<Longrightarrow> cinv x (post_sip tu sip c)"
  by (subst cinv_cong) (simp_all add: post_sip_def core_def pending_timers_def tu_add_def split: option.splits)

lemma new_external_cinv:
  assumes inv: "cinv None c" and sip: "isRequest sip" "sip_vias sip \<noteq> []" and u: "sip_method sip \<noteq> CANCEL \<Longrightarrow> unused False tid c"
  shows "cinv None (new_external_request sip wire_tid tid tu c)"
  using assms by (simp add: new_external_request_def new_server_invite_cinv new_server_cancel_cinv new_server_non_invite_cinv
    post_sip_cinv)

lemma new_tu_cinv:
  assumes inv: "cinv None c" and sip: "isRequest sip" "\<not> sip_external sip" "sip_vias sip \<noteq> []" and n: "admissible_new sip wire_tid tid c"
  shows "cinv None (new_tu_request sip wire_tid tid tu c)"
proof -
  have "isClientTransaction_sip sip" using sip by (simp add: isClientTransaction_sip_def)
  then show ?thesis using assms
    by (auto simp: new_tu_request_def admissible_new_def
        intro!: new_client_invite_cinv new_stateless_cinv new_client_cancel_cinv new_client_non_invite_cinv)
qed

lemma as_new_cinv:
  assumes inv: "cinv None c" and sip: "sip_vias sip \<noteq> []"
    and n: "admissible_new sip wire_tid tid c \<or> isRequest sip \<and> sip_external sip \<and> sip_method sip = ACK"
  shows "cinv None (processSipMessageAsNew sip wire_tid tid c)"
proof -
  have "mDiscardStrayResponses c" using inv by (simp add: cinv_def)
  moreover have "cinv None (new_external_request sip wire_tid tid tu c)" if "isRequest sip" "sip_external sip" for tu
  proof (cases "sip_method sip = ACK")
    case True then show ?thesis using inv by (simp add: new_external_request_def post_sip_cinv)
  next
    case False then show ?thesis using that n sip
      by (intro new_external_cinv [OF inv]) (auto simp: admissible_new_def isClientTransaction_sip_def isRequest_def isResponse_def)
  qed
  moreover have "cinv None (new_tu_request sip wire_tid tid tu c)" if "isRequest sip" "\<not> sip_external sip" for tu
    using new_tu_cinv [OF inv that sip] n that by blast
  ultimately show ?thesis using respond_statelessly_cinv [OF inv] inv by (simp add: processSipMessageAsNew_def Let_def)
qed

lemma corrected_facts [simp]:
  "sip_vias (corrected s sip c) = sip_vias sip" "isRequest (corrected s sip c) = isRequest sip"
  "isResponse (corrected s sip c) = isResponse sip" "sip_external (corrected s sip c) = sip_external sip"
  "sip_method (corrected s sip c) = sip_method sip" "sip_destination (corrected s sip c) = sip_destination sip"
  by (simp_all add: corrected_def fix_response_def fix_dialog_def Let_def isRequest_def isResponse_def split: option.splits)

lemma known_cinv:
  assumes inv: "cinv None c" and s: "tmap (isClientTransaction_sip sip) c tid = Some s" and sip: "sip_vias sip \<noteq> []"
    "isRequest sip \<or> isResponse sip" "admissible_known sip s"
  shows "cinv None (process_known sip s c)"
proof (cases "accepts s sip")
  case True
  have e: "ts_ok s" "mId s = tid" "isClient s = isClientTransaction_sip sip" using cinv_entry [OF inv s] by auto
  then have "msg_fits (SipMsg sip) s" using True sip by (auto simp: msg_fits_def admissible_known_def)
  then have "cinv None (run_machine (SipMsg sip) s c)" using s e by (intro run_machine_cinv [OF inv]) auto
  moreover have "\<not> (\<not> sip_external sip \<and> isRequest sip)" if "mMachine s = ClientInvite"
    using that sip(3) e(3) by (auto simp: admissible_known_def isClientTransaction_sip_def)
  ultimately show ?thesis using True by (auto simp: process_known_def)
qed (use inv in \<open>simp add: process_known_def\<close>)

lemma bad_request_cinv: "cinv x c \<Longrightarrow> isRequest sip \<Longrightarrow> sip_method sip \<noteq> ACK \<Longrightarrow> cinv x (handleBadRequest sip c)"
proof -
  assume inv: "cinv x c" and sip: "isRequest sip" "sip_method sip \<noteq> ACK"
  obtain r c1 where r: "fresh_response sip 400 '''' c = (r, c1)" by fastforce
  obtain b c2 where t: "transmit r (sip_source sip) c1 = (b, c2)" by fastforce
  have "calm '''' {} c c1" "calm '''' {} c c2" using calm_fresh_response [OF r] calm_step [OF calm_fresh_response [OF r] calm_transmit [OF t]] by auto
  then show ?thesis using cinv_calm [OF inv] r t sip by (simp add: handleBadRequest_def)
qed

lemma process_sip_cinv:
  assumes inv: "cinv None c" and a: "admissible_sip sip c"
  shows "cinv None (process_sip sip c)"
proof (cases "getTransactionId sip")
  case (Some wire)
  note vias = transaction_id_via [OF Some]
  have st: "isRequest sip \<or> isResponse sip" using a by (simp add: admissible_sip_def)
  let ?tid = "transaction_key sip wire" and ?cl = "isClientTransaction_sip sip"
  show ?thesis
  proof (cases "isRequest sip \<and> sip_method sip \<noteq> ACK \<and> sip_invalid sip")
    case False
    show ?thesis
    proof (cases "tmap ?cl c ?tid")
      case None
      then show ?thesis using False Some a st as_new_cinv [OF inv vias] by (auto simp: process_sip_def admissible_sip_def Let_def)
    next
      case (Some s)
      let ?sip = "corrected s sip c"
      have "isClientTransaction_sip ?sip = ?cl" by (simp add: isClientTransaction_sip_def)
      moreover have "admissible_known sip s" using a \<open>getTransactionId sip = Some wire\<close> Some by (simp add: admissible_sip_def)
      then have "admissible_known ?sip s" unfolding admissible_known_def flow_ok_def corrected_facts .
      ultimately have "cinv None (process_known ?sip s c)" using Some vias st by (intro known_cinv [OF inv]) auto
      moreover have "cinv None (processSipMessageAsNew (?sip\<lparr>sip_badAck200 := True\<rparr>) wire ?tid c)" if "bad_ack s ?sip"
        using that vias by (intro as_new_cinv [OF inv]) (auto simp: bad_ack_def isRequest_def)
      ultimately show ?thesis using False Some \<open>getTransactionId sip = Some wire\<close> st by (auto simp: process_sip_def Let_def)
    qed
  qed (use Some inv in \<open>simp add: process_sip_def bad_request_cinv\<close>)
qed (use inv in \<open>simp add: process_sip_def\<close>)

lemma broadcast_cinv [simp]: "cinv x (c\<lparr>mTuSelector := tu_broadcast reg m (mTuSelector c)\<rparr>) = cinv x c"
  by (rule cinv_cong) (simp_all add: core_def pending_timers_def tu_broadcast_def)

lemma emit_cinv [simp]: "cinv x (emit e c) = cinv x c"
  by (rule cinv_cong) (simp_all add: core_def pending_timers_def emit_def)

lemma process_cinv:
  assumes inv: "cinv None c" and a: "admissible m c"
  shows "cinv None (process m c)"
proof -
  have d: "cinv None (dispatch n c')" if "fired n = None" "cinv None c'" "message_isClient n = Some cl"
    "\<And>s. tmap cl c' (message_tid n) = Some s \<Longrightarrow> isClient s = cl \<Longrightarrow> msg_fits n s" for cl c' n
    using that cinv_entry [OF that(2)] by (intro dispatch_cinv [OF that(2) _ that(3)]) auto
  show ?thesis
  proof (cases m)
    case (KeepAliveMessage sip)
    obtain b c' where t: "transmit sip (sip_destination sip) c = (b, c')" by fastforce
    then show ?thesis using KeepAliveMessage cinv_calm [OF inv calm_transmit [OF t]] by (simp add: process_def)
  next
    case (InvokeAfterSocketCreationFunc t)
    have "tmap True (emit (SocketFuncInvoked t) c) = mClientTransactionMap c" by (simp add: tmap_def emit_def)
    then have "cinv None (dispatch m (emit (SocketFuncInvoked t) c))"
      using InvokeAfterSocketCreationFunc inv a by (intro d) (auto simp: msg_fits_def)
    then show ?thesis using InvokeAfterSocketCreationFunc by (simp add: process_def)
  next
    case (CancelClientInviteTransaction tid rs)
    then have "cinv None (dispatch m c)" using inv a by (intro d) (auto simp: msg_fits_def tmap_def)
    then show ?thesis using CancelClientInviteTransaction by (simp add: process_def)
  qed (use inv a process_sip_cinv in \<open>auto simp: process_def msg_fits_def intro!: d\<close>)
qed

section \<open>Timers\<close>

lemma cinv_same:
  assumes "tmap True c' = tmap True c" "tmap False c' = tmap False c" "pending_timers c' = pending_timers c"
    "mCongestionManager (mTuSelector c') = mCongestionManager (mTuSelector c)" "ct_oracle c' = ct_oracle c"
    "mDiscardStrayResponses c' = mDiscardStrayResponses c" "ct_timing c' = ct_timing c" "ct_failed c' = ct_failed c" "in_order (mTimers c') = in_order (mTimers c)"
  shows "cinv x c' \<longleftrightarrow> cinv x c"
proof -
  have "tmap cl c' = tmap cl c" for cl using assms(1,2) by (cases cl) auto
  then show ?thesis using assms by (simp add: cinv_def entries_ok_def timers_ok_def enders_ok_def env_ok_def)
qed

lemma pending_expire [simp]: "pending_timers (expire c) = pending_timers c"
proof -
  let ?P = "\<lambda>t. mWhen t \<le> ct_now c"
  have "set (mTimers c) = set (takeWhile ?P (mTimers c)) \<union> set (dropWhile ?P (mTimers c))"
    by (metis set_append takeWhile_dropWhile_id)
  then show ?thesis
    by (auto simp: pending_timers_def expire_def process_timers_split timer_message_def image_iff Bex_def)
qed

lemma expire_cinv: "cinv x c \<Longrightarrow> cinv x (expire c)"
proof -
  assume inv: "cinv x c"
  have "sorted (map mWhen (dropWhile P ts))" if "sorted (map mWhen ts)" for P and ts :: "TransactionTimer list"
    using that by (induction ts) auto
  then have "in_order (mTimers (expire c)) = in_order (mTimers c)"
    using inv by (auto simp: expire_def process_timers_split in_order_def cinv_def)
  then have "cinv x (expire c) = cinv x c"
    by (intro cinv_same) (simp_all add: tmap_def, simp_all add: expire_def split: prod.splits)
  then show ?thesis using inv by simp
qed

text \<open>A timer is taken from the fifo.\<close>

lemma pop_timer:
  assumes inv: "cinv None c" and f: "mTimerFifo c = TimerMessage tid t d # ms"
  shows "cinv (Some (t, tid)) (c\<lparr>mTimerFifo := ms\<rparr>)"
proof -
  let ?c = "c\<lparr>mTimerFifo := ms\<rparr>"
  have p: "pending_timers ?c \<subseteq> pending_timers c" "pending_timers c \<subseteq> insert (t, tid) (pending_timers ?c)"
    using f by (auto simp: pending_timers_def)
  have m: "tmap cl ?c = tmap cl c" for cl by (simp add: tmap_def)
  have "entries_ok ?c" "timers_ok ?c" "enders_ok (Some (t, tid)) ?c" using inv p unfolding cinv_def entries_ok_def timers_ok_def enders_ok_def m by blast+
  then show ?thesis using inv by (simp add: cinv_def env_ok_def)
qed

lemma fire_cinv:
  assumes inv: "cinv None c" and f: "mTimerFifo c = m # ms"
  shows "cinv None (processTimer m (c\<lparr>mTimerFifo := ms\<rparr>))"
proof (cases "\<exists>tid t d. m = TimerMessage tid t d")
  case True
  then obtain tid t d where m: "m = TimerMessage tid t d" by blast
  let ?c = "c\<lparr>mTimerFifo := ms\<rparr>"
  have pop: "cinv (Some (t, tid)) ?c" using pop_timer [OF inv] f m by simp
  have "(t, tid) \<in> pending_timers c" using f m by (auto simp: pending_timers_def)
  then obtain cl where cl: "timer_isClient t = Some cl" "\<And>s. tmap cl c tid = Some s \<Longrightarrow> timer_fits t s"
    using pending_timer_fits [OF inv] by blast
  have mp: "tmap x ?c = tmap x c" for x by (simp add: tmap_def)
  have again: "cinv None (timers_add t tid k ?c)" for k
  proof -
    let ?d = "timers_add t tid k ?c"
    have md: "tmap x ?d = tmap x c" for x by (simp add: tmap_def timers_add_def)
    have p: "pending_timers ?d = insert (t, tid) (pending_timers ?c)" by simp
    have "entries_ok ?d" using inv unfolding cinv_def entries_ok_def md by blast
    moreover have "timers_ok ?d" using pop cl unfolding cinv_def timers_ok_def md mp p by blast
    moreover have "enders_ok None ?d" using pop unfolding cinv_def enders_ok_def md mp p by blast
    ultimately show ?thesis using inv by (simp add: cinv_def env_ok_def timers_add_def add_timer_def in_order_push)
  qed
  have "cinv None (dispatch m ?c)"
    using pop cl cinv_entry [OF inv] m by (intro dispatch_cinv [OF pop]) (auto simp: msg_fits_def mp)
  then show ?thesis using again m by (auto split: option.splits)
next
  case False
  have "cinv None (c\<lparr>mTimerFifo := ms\<rparr>) = cinv None c"
    using f False by (intro cinv_same) (auto simp: tmap_def pending_timers_def)
  then show ?thesis using inv False by (cases m) auto
qed

section \<open>Reachable states\<close>

inductive sip_step :: "Controller \<Rightarrow> Controller \<Rightarrow> bool" where
  expire: "sip_step c (expire c)"
| timer: "mTimerFifo c = m # ms \<Longrightarrow> sip_step c (processTimer m (c\<lparr>mTimerFifo := ms\<rparr>))"
| message: "mStateMacFifo c = m # ms \<Longrightarrow> admissible m (c\<lparr>mStateMacFifo := ms\<rparr>) \<Longrightarrow>
    sip_step c (process m (c\<lparr>mStateMacFifo := ms\<rparr>))"
| arrive: "sip_step c (fifo_add m c)"
| send: "sip_step c (controller_send sip c)"
| shutdown: "sip_step c (controller_shutdown c)"
| finished: "sip_step c (c\<lparr>mTuSelector := tu_add None ShutdownMessage (mTuSelector c)\<rparr>)"
| dns: "mClientTransactionMap c tid = Some s \<Longrightarrow> mDnsResult s = Some DnsPending \<Longrightarrow> targets_known d \<Longrightarrow>
    sip_step c (handle s (leave s (stay (s\<lparr>mDnsResult := Some d\<rparr>, c))))"
| users: "tu_step (mTuSelector c) ts \<Longrightarrow> sip_step c (c\<lparr>mTuSelector := ts\<rparr>)"
| congestion: "sip_step c (c\<lparr>ct_behavior := b, ct_expectedWait := w\<rparr>)"
| fix_dialogs: "sip_step c (setFixBadDialogIdentifiers b c)"
| fix_cseqs: "sip_step c (setFixBadCSeqNumbers b c)"
| tick: "ct_now c \<le> n \<Longrightarrow> sip_step c (c\<lparr>ct_now := n\<rparr>)"

inductive sip_reachable :: "Controller \<Rightarrow> bool" where
  start: "(\<And>n. targets_known (a_dns (answers n))) \<Longrightarrow> trying_duration timing \<noteq> None \<Longrightarrow>
    sip_reachable (new_Controller host timing greylist version answers)"
| step: "sip_reachable c \<Longrightarrow> sip_step c c' \<Longrightarrow> sip_reachable c'"

lemma dns_ok:
  assumes s: "ts_ok s" "isClient s" "mDnsResult s = Some DnsPending" and d: "targets_known d"
  shows "ts_ok (s\<lparr>mDnsResult := Some d\<rparr>)"
proof (cases "mMachine s = Stateless")
  case True
  then show ?thesis using s d by (simp add: ts_ok_def stateless_ok_def client_ok_def resolved_def only_acks_def)
next
  case False
  then have m: "mMachine s \<in> {ClientNonInvite, ClientInvite}" "mState s \<noteq> Completed"
    using s by (cases "mMachine s"; auto simp: isClient_def ts_ok_def stale_ok_def cni_ok_def ci_ok_def)+
  then have a: "client_active s" using s(1) active_iff by blast
  have "client_active (s\<lparr>mDnsResult := Some d\<rparr>)" using active_parts [OF a] s(3) d
    by (intro active_dns [OF a]) (auto simp: client_ok_def resolved_def)
  then show ?thesis by (rule active_ok)
qed

lemma sip_step_cinv: "sip_step c c' \<Longrightarrow> cinv None c \<Longrightarrow> cinv None c'"
proof (induction rule: sip_step.induct)
  case (message c m ms)
  have "cinv None (c\<lparr>mStateMacFifo := ms\<rparr>) = cinv None c" by (rule cinv_same) (simp_all add: tmap_def pending_timers_def)
  then show ?case using message process_cinv by blast
next
  case (dns c tid s d)
  have t: "tmap True c tid = Some s" using dns by (simp add: tmap_def)
  have s: "ts_ok s" "mId s = tid" "isClient s" using cinv_entry [OF dns(4) t] by auto
  let ?s = "s\<lparr>mDnsResult := Some d\<rparr>"
  have "good_next (DnsResultMessage tid True) s {} P ?s" for P
    using dns_ok [OF s(1,3) dns(2,3)] by (auto simp: good_next_def isClient_def ender_def timer_fits_def)
  then have "step_ok (DnsResultMessage tid True) s c (stay (?s, c))" by (intro step_ok_stay [where X = "{}"]) auto
  then have "cinv None (leave s (stay (?s, c)))" using t s by (intro leave_step [OF dns(4)]) auto
  moreover have "cinv None (handle s e) = cinv None e" for e
    by (rule cinv_same) (simp_all add: handle_def fifo_add_def tmap_def pending_timers_def)
  ultimately show ?case by simp
next
  case (send c sip)
  obtain r c1 where r: "fresh_response sip 503 '''' c = (r, c1)" by fastforce
  have c1: "cinv None c1" using cinv_calm [OF send calm_fresh_response [OF r]] .
  have "cinv None (fifo_add m c) = cinv None c" for m
    by (rule cinv_same) (simp_all add: fifo_add_def tmap_def pending_timers_def)
  moreover have "cinv None (c1\<lparr>mTuSelector := tu_add tu m (mTuSelector c1)\<rparr>)" for tu m
    by (subst cinv_same [where c = c1]) (use c1 in \<open>simp_all add: tmap_def pending_timers_def tu_add_def split: option.splits\<close>)
  ultimately show ?case using send r by (simp add: controller_send_def)
next
  case (users c ts)
  then show ?case by (subst cinv_same [where c = c]) (simp_all add: tmap_def pending_timers_def tu_step_manager)
next
  case (finished c)
  then show ?case by (subst cinv_same [where c = c]) (simp_all add: tmap_def pending_timers_def tu_add_def)
next
  case (arrive c m)
  then show ?case by (subst cinv_same [where c = c]) (simp_all add: tmap_def pending_timers_def fifo_add_def)
next
  case (shutdown c)
  then show ?case by (subst cinv_same [where c = c]) (simp_all add: tmap_def pending_timers_def controller_shutdown_def)
next
  case (congestion c b w)
  then show ?case by (subst cinv_same [where c = c]) (simp_all add: tmap_def pending_timers_def)
next
  case (fix_dialogs c b)
  then show ?case
    by (subst cinv_same [where c = c]) (simp_all add: tmap_def pending_timers_def setFixBadDialogIdentifiers_def)
next
  case (fix_cseqs c b)
  then show ?case by (subst cinv_same [where c = c]) (simp_all add: tmap_def pending_timers_def setFixBadCSeqNumbers_def)
next
  case (tick c n)
  then show ?case by (subst cinv_same [where c = c]) (simp_all add: tmap_def pending_timers_def)
qed (simp_all add: expire_cinv fire_cinv)

lemma reachable_cinv: "sip_reachable c \<Longrightarrow> cinv None c"
proof (induction rule: sip_reachable.induct)
  case (start answers timing host greylist version)
  then show ?case by (simp add: cinv_def entries_ok_def timers_ok_def enders_ok_def env_ok_def new_Controller_def tmap_def
      pending_timers_def new_TuSelector_def in_order_def)
qed (rule sip_step_cinv)

end
