(* ===== verification/TransSpec.thy ===== *)
theory TransSpec
  imports TransReach
begin

text \<open>The state machines against the transition diagrams of RFC 3261 (section 17), with the states that
  the code adds: the stale machines for the retransmission of 2xx responses and the fall back from
  Proceeding to Calling when an INVITE is sent to another target.\<close>

section \<open>The diagrams\<close>

text \<open>The states a transaction may be in after one message, if it is still there. Its method stays. The flag says that the
  transaction user has abandoned the transaction.\<close>

fun successors :: "bool \<Rightarrow> Machine \<Rightarrow> State \<Rightarrow> (Machine \<times> State) set" where
  "successors _ ClientNonInvite Trying = {ClientNonInvite} \<times> {Trying, Proceeding, Completed}"
| "successors _ ClientNonInvite Proceeding = {ClientNonInvite} \<times> {Proceeding, Completed}"
| "successors _ ClientInvite Calling = {ClientInvite} \<times> {Calling, Proceeding, Completed} \<union> {(ClientStale, Completed)}"
| "successors _ ClientInvite Proceeding = {ClientInvite} \<times> {Calling, Proceeding, Completed} \<union> {(ClientStale, Completed)}"
| "successors _ ClientInvite Completed = {(ClientInvite, Completed), (ClientStale, Completed)}"
| "successors _ ServerNonInvite Trying = {ServerNonInvite} \<times> {Trying, Proceeding, Completed}"
| "successors _ ServerNonInvite Proceeding = {ServerNonInvite} \<times> {Proceeding, Completed}"
| "successors _ ServerInvite Trying = {ServerInvite} \<times> {Trying, Proceeding, Completed} \<union> {(ServerStale, Trying)}"
| "successors _ ServerInvite Proceeding = {ServerInvite} \<times> {Proceeding, Completed} \<union> {(ServerStale, Proceeding)}"
| "successors _ ServerInvite Completed = {ServerInvite} \<times> {Completed, Confirmed}"
| "successors abandoned ServerInvite Confirmed = {ServerInvite} \<times> (if abandoned then {Confirmed, Completed} else {Confirmed})"
| "successors _ m st = {(m, st)}"

definition phase :: "TransactionState \<Rightarrow> (Machine \<times> State) \<times> MethodTypes" where
  "phase s = ((mMachine s, mState s), mMethod s)"

abbreviation next_phases :: "TransactionState \<Rightarrow> ((Machine \<times> State) \<times> MethodTypes) set" where
  "next_phases s \<equiv> successors (mIsAbandoned s) (mMachine s) (mState s) \<times> {mMethod s}"

definition follows :: "TransactionState \<Rightarrow> TransactionState option \<times> Controller \<Rightarrow> bool" where
  "follows s rc \<longleftrightarrow> (\<forall>s'. fst rc = Some s' \<longrightarrow> phase s' \<in> next_phases s)"

lemma follows_simps [simp]:
  "follows s (stay (s', c)) \<longleftrightarrow> phase s' \<in> next_phases s" "follows s (delete_this x)"
  by (auto simp: follows_def stay_def delete_this_def split: prod.splits)

lemma self_successor [simp]: "(m, st) \<in> successors b m st"
  by (cases m; cases st) simp_all

lemma phase_self [simp]: "phase s \<in> successors b (mMachine s) (mState s) \<times> {mMethod s}"
  by (simp add: phase_def)

section \<open>Operations that stay in place\<close>

lemma phase_upd [simp]:
  "phase (resetNextTransmission m s) = phase s" "phase (saveOriginalContactAndVia sip s) = phase s" "phase (onSendSuccess sip s) = phase s"
  by (simp_all add: phase_def resetNextTransmission_def saveOriginalContactAndVia_def onSendSuccess_def)

lemma phase_reliability: "processReliability t (s, c) = (s', c') \<Longrightarrow> phase s' = phase s"
  by (auto simp: processReliability_def phase_def split: if_splits)

lemma phase_transmit: "transmit_current sip t (s, c) = (b, s', c') \<Longrightarrow> phase s' = phase s"
  by (auto simp: transmit_current_def phase_def split: prod.splits)

lemma phase_send_client: "send_client sip (s, c) = (b, s', c') \<Longrightarrow> phase s' = phase s"
  by (auto simp: send_client_def Let_def split: if_splits prod.splits dest!: phase_transmit phase_reliability) (simp_all add: phase_def)

lemma phase_send_server: "send_server sip (s, c) = (b, s', c') \<Longrightarrow> phase s' = phase s"
  by (auto simp: send_server_def Let_def split: option.splits dest!: phase_transmit) (simp_all add: phase_def)

lemma phase_wire: "sendCurrentToWire (s, c) = (s', c') \<Longrightarrow> phase s' = phase s"
  by (auto simp: sendCurrentToWire_def split: option.splits prod.splits if_splits dest: phase_send_client phase_send_server)

lemma phase_destroy_dns: "destroy_dns (s, c) = (s', c') \<Longrightarrow> phase s' = phase s"
  by (auto simp: destroy_dns_def phase_def split: option.splits)

lemma phase_restore: "restoreOriginalContactAndVia (s, c) = (s', c') \<Longrightarrow> phase s' = phase s"
  by (auto simp: restoreOriginalContactAndVia_def phase_def Let_def split: option.splits)

lemma phase_failure_ack: "with_failure_ack sip (s, c) = (s', c') \<Longrightarrow> phase s' = phase s"
  by (auto simp: with_failure_ack_def split: option.splits)

definition in_place :: "TransactionState \<Rightarrow> TransactionState option \<times> Controller \<Rightarrow> bool" where
  "in_place s rc \<longleftrightarrow> (\<forall>s'. fst rc = Some s' \<longrightarrow> phase s' = phase s)"

lemma in_place_simps [simp]: "in_place s (stay (s', c)) \<longleftrightarrow> phase s' = phase s" "in_place s (delete_this x)"
  by (auto simp: in_place_def stay_def delete_this_def split: prod.splits)

lemma in_place_follows: "in_place s rc \<Longrightarrow> follows s rc"
  unfolding in_place_def follows_def using phase_self by auto

lemma in_place_wire: "phase s1 = phase s \<Longrightarrow> in_place s (stay (sendCurrentToWire (s1, c)))"
  by (cases "sendCurrentToWire (s1, c)") (auto dest: phase_wire)

lemma in_place_no_results:
  assumes "mMachine s \<noteq> Stateless \<or> only_acks s" "phase s = phase s0"
  shows "in_place s0 (processNoDnsResults (s, c))"
proof (cases "only_acks s")
  case True
  then show ?thesis using assms(2) by (simp add: only_acks_no_results)
next
  case False
  then have "mMachine s \<noteq> Stateless" using assms(1) by simp
  then show ?thesis using assms(2)
    by (auto simp: processNoDnsResults_def Let_def terminateTransaction_def split: option.splits prod.splits)
qed

lemma in_place_send: "phase u = phase s \<Longrightarrow> in_place s (stay (sendCurrentToWire (processReliability t (u, e))))"
  by (cases "processReliability t (u, e)") (auto intro!: in_place_wire dest: phase_reliability)

lemma in_place_failover:
  assumes "mMachine s \<noteq> Stateless" shows "in_place s (failover d (s, c))"
proof -
  obtain d' c' where p: "prime d (resip_assert (mMethod s \<noteq> CANCEL) c) = (d', c')" by fastforce
  have upd: "phase (s\<lparr>mDnsResult := x, mPendingOperation := y\<rparr>) = phase s" "phase (s\<lparr>mDnsResult := x\<rparr>) = phase s"
    "phase (u\<lparr>mTarget := a, mDnsResult := x, mMsgToRetransmit := None\<rparr>) = phase u" "phase (u\<lparr>mMsgToRetransmit := None\<rparr>) = phase u"
    "phase (u\<lparr>mTarget := a, mDnsResult := x\<rparr>) = phase u" for x y a u by (simp_all add: phase_def)
  have "in_place s (processNoDnsResults (s\<lparr>mDnsResult := x\<rparr>, e))" for x e using assms upd by (intro in_place_no_results) auto
  then show ?thesis using p
    by (auto simp: failover_def Let_def upd split: DnsView.splits list.splits prod.splits dest!: phase_restore intro!: in_place_send)
qed

lemma follows_transport_failure:
  assumes "mMachine s \<noteq> Stateless" shows "follows s (processTransportFailure r sub (s, c))"
proof -
  let ?s = "noted r sub s"
  have n: "mMachine ?s = mMachine s" "mState ?s = mState s" "phase ?s = phase s" using noted_alike [of s r sub] by (simp_all add: alike_def phase_def)
  let ?b = "mMachine ?s = ClientInvite \<and> mState ?s = Proceeding"
  have e: "processTransportFailure r sub (s, c) \<in> {stay (?s, x) |x. True} \<union> {processNoDnsResults (?s, x) |x. True} \<union>
     {failover d (if ?b then ?s\<lparr>mState := Calling\<rparr> else ?s, x) |d x. True}"
    by (auto simp: processTransportFailure_def Let_def noted_def split: if_splits option.splits prod.splits)
  have "follows s (failover d (if ?b then ?s\<lparr>mState := Calling\<rparr> else ?s, x))" for d x
  proof (cases ?b)
    case True
    then have "in_place (?s\<lparr>mState := Calling\<rparr>) (failover d (?s\<lparr>mState := Calling\<rparr>, x))" using assms n by (intro in_place_failover) simp
    then show ?thesis using True n by (auto simp: in_place_def follows_def phase_def)
  next
    case False
    then have "in_place ?s (failover d (?s, x))" using assms n by (intro in_place_failover) simp
    then have "in_place s (failover d (?s, x))" using n by (simp add: in_place_def)
    moreover have "failover d (if ?b then ?s\<lparr>mState := Calling\<rparr> else ?s, x) = failover d (?s, x)" using False by auto
    ultimately show ?thesis using in_place_follows by simp
  qed
  moreover have "follows s (processNoDnsResults (?s, x))" for x
    using assms n by (intro in_place_follows in_place_no_results) auto
  ultimately show ?thesis using e n by (auto intro: phase_self)
qed

lemma in_place_handleSync:
  assumes "mMachine s \<noteq> Stateless \<or> only_acks s" shows "in_place s (handleSync (s, c))"
proof -
  have upd: "phase (s\<lparr>mPendingOperation := x, mDnsResult := y, mTarget := a\<rparr>) = phase s" "phase (s\<lparr>mDnsResult := y, mPendingOperation := x\<rparr>) = phase s"
    "phase (s\<lparr>mDnsResult := y\<rparr>) = phase s" for x y a by (simp_all add: phase_def)
  have "in_place s (processNoDnsResults (s\<lparr>mDnsResult := x, mPendingOperation := y\<rparr>, e))" for x y e
    using assms upd by (intro in_place_no_results) (auto simp: only_acks_def)
  then show ?thesis
    by (auto simp: handleSync_def Let_def upd split: option.splits DnsView.splits list.splits prod.splits intro!: in_place_send)
qed

lemma in_place_tcp: "in_place s (stay (processTcpConnectState b (s, c)))"
  by (auto simp: processTcpConnectState_def phase_def)

section \<open>The machines\<close>

lemma wire_cases:
  obtains s' c' where "sendCurrentToWire (s, c) = (s', c')" "phase s' = phase s"
  using phase_wire [of s c] by (cases "sendCurrentToWire (s, c)") auto

lemma follows_wire: "phase s1 \<in> next_phases s \<Longrightarrow> follows s (stay (sendCurrentToWire (s1, c)))"
  by (rule wire_cases [of s1 c]) simp

lemma follows_destroy:
  "phase s1 \<in> next_phases s \<Longrightarrow> follows s (stay (destroy_dns (s1, c)))"
  by (cases "destroy_dns (s1, c)") (auto dest!: phase_destroy_dns)

lemma follows_resend: "phase s1 = phase s \<Longrightarrow> follows s (stay (resend_response sip (s1, c)))"
  by (auto simp: resend_response_def split: prod.splits intro!: follows_wire)

lemma follows_server_non_invite:
  assumes "mMachine s = ServerNonInvite" "sni_ok s"
  shows "follows s (processServerNonInvite msg (s, c))"
proof -
  have st: "mState s \<in> {Trying, Proceeding, Completed}" using assms(2) by (simp add: sni_ok_def)
  have "follows s (server_non_invite_request sip (s, c))" for sip
    using assms(1) st by (auto simp: server_non_invite_request_def follows_resend phase_def resetNextTransmission_def split: prod.splits intro!: follows_wire)
  moreover have "follows s (server_non_invite_response sip (s, c))" for sip
    using assms(1) st by (auto simp: server_non_invite_response_def phase_def resetNextTransmission_def split: prod.splits intro!: follows_wire)
  moreover have "follows s (server_non_invite_timer t (s, c))" for t
    by (rule wire_cases [of s c]) (use assms(1) in \<open>auto simp: server_non_invite_timer_def phase_def\<close>)
  moreover have "follows s (server_non_invite_abandon (s, c))"
    using assms(1) by (auto simp: server_non_invite_abandon_def Let_def phase_def)
  moreover have "follows s (handleSync (s, c))" using assms(1) by (intro in_place_follows in_place_handleSync) simp
  ultimately show ?thesis by (cases msg) (simp_all add: processServerNonInvite_def phase_def)
qed

lemma follows_server_invite:
  assumes "mMachine s = ServerInvite" "si_ok s"
  shows "follows s (processServerInvite msg (s, c))"
proof -
  have st: "mState s \<in> {Trying, Proceeding, Completed, Confirmed}" using assms(2) by (simp add: si_ok_def)
  have tr: "mState s = Trying \<Longrightarrow> \<not> mIsAbandoned s" using assms(2) by (simp add: si_ok_def)
  have "follows s (server_invite_request sip (s, c))" for sip
    using assms(1) st tr by (auto simp: server_invite_request_def follows_resend phase_def resetNextTransmission_def Let_def
      split: prod.splits MethodTypes.splits intro!: follows_wire)
  moreover have "follows s (server_invite_response sip (s, c))" for sip
  proof (rule wire_cases [of "resetNextTransmission (Some sip) s" c])
    fix s' c' assume "sendCurrentToWire (resetNextTransmission (Some sip) s, c) = (s', c')" "phase s' = phase (resetNextTransmission (Some sip) s)"
    then show ?thesis using assms(1) st by (auto simp: server_invite_response_def phase_def resetNextTransmission_def Let_def
      split: prod.splits MethodTypes.splits intro!: follows_wire)
  qed
  moreover have "follows s (server_invite_timer t d (s, c))" for t d
    by (rule wire_cases [of s c]) (use assms(1) in \<open>auto simp: server_invite_timer_def phase_def split: TimerType.splits\<close>)
  moreover have "follows s (server_invite_abandon (s, c))"
  proof (cases "mNextTransmission s")
    case (Some r)
    let ?r = "r\<lparr>sip_code := 500, sip_reason := ''Server Error''\<rparr>"
    show ?thesis by (rule wire_cases [of "resetNextTransmission (Some ?r) s" "resip_assert (sip_code r div 100 = 1) (resip_assert (isResponse r) c)"])
      (use assms(1) Some in \<open>auto simp: server_invite_abandon_def Let_def phase_def resetNextTransmission_def\<close>)
  qed (use assms(1) in \<open>auto simp: server_invite_abandon_def phase_def\<close>)
  moreover have "follows s (handleSync (s, c))" using assms(1) by (intro in_place_follows in_place_handleSync) simp
  ultimately show ?thesis by (cases msg) (simp_all add: processServerInvite_def phase_def)
qed

lemma follows_client_non_invite:
  assumes "mMachine s = ClientNonInvite" "cni_ok s"
  shows "follows s (processClientNonInvite msg (s, c))"
proof -
  have st: "mState s \<in> {Trying, Proceeding, Completed}" using assms(2) by (simp add: cni_ok_def)
  have "follows s (client_non_invite_request sip (s, c))" for sip
    by (simp add: client_non_invite_request_def Let_def follows_wire)
  moreover have "follows s (client_non_invite_response sip (s, c))" for sip
    using assms(1) st
    by (auto simp: client_non_invite_response_def Let_def phase_def resetNextTransmission_def destroy_dns_def split: prod.splits option.splits)
  moreover have "follows s (timeout_response (s, x))" for x by (auto simp: timeout_response_def split: option.splits prod.splits)
  then have "follows s (client_non_invite_timer t d (s, c))" for t d
    using follows_transport_failure [of s] assms(1) st
    by (auto simp: client_non_invite_timer_def Let_def phase_def split: TimerType.splits intro!: follows_wire)
  moreover have "follows s (handleSync (s, c))" "follows s (stay (processTcpConnectState b (s, c)))" for b
    using assms(1) in_place_tcp by (intro in_place_follows in_place_handleSync; simp)+
  ultimately show ?thesis using follows_transport_failure [of s] assms(1) by (cases msg) (simp_all add: processClientNonInvite_def phase_def)
qed

lemma follows_client_invite:
  assumes "mMachine s = ClientInvite" "ci_ok s"
  shows "follows s (processClientInvite msg (s, c))"
proof -
  have st: "mState s \<in> {Calling, Proceeding, Completed}" using assms(2) by (simp add: ci_ok_def)
  have "follows s (client_invite_request sip (s, c))" for sip
    using assms(1) st by (auto simp: client_invite_request_def Let_def phase_def resetNextTransmission_def saveOriginalContactAndVia_def
      split: MethodTypes.splits intro!: follows_wire)
  moreover have "follows s (client_invite_provisional sip (s, c))" for sip
    using assms(1) st by (auto simp: client_invite_provisional_def Let_def phase_def)
  moreover have "follows s (client_invite_success sip (s, c))" for sip
    using assms(1) st by (auto simp: client_invite_success_def Let_def phase_def resetNextTransmission_def destroy_dns_def split: option.splits)
  moreover have "follows s (client_invite_failure sip (s, c))" for sip
  proof -
    have a: "phase s1 = phase u" if "sendCurrentToWire (with_failure_ack sip (u, d)) = (s1, e)" for u d s1 e
      using that by (cases "with_failure_ack sip (u, d)") (auto dest!: phase_wire phase_failure_ack)
    show ?thesis using assms(1) st
      by (auto simp: client_invite_failure_def Let_def split: prod.splits intro!: follows_wire follows_destroy)
        (auto simp: phase_def dest!: a phase_wire phase_failure_ack)
  qed
  then have "follows s (client_invite_response sip (s, c))" for sip
    using calculation(2,3) by (auto simp: client_invite_response_def split: MethodTypes.splits)
  moreover have "follows s (timeout_response (s, x))" for x by (auto simp: timeout_response_def split: option.splits prod.splits)
  then have "follows s (client_invite_timer t d (s, c))" for t d
    using follows_transport_failure [of s] assms(1) st
    by (auto simp: client_invite_timer_def Let_def phase_def split: TimerType.splits intro!: follows_wire)
  moreover have "follows s (client_invite_cancel reasons (s, c))" for reasons
    using assms(1) by (auto simp: client_invite_cancel_def phase_def)
  moreover have "follows s (handleSync (s, c))" "follows s (stay (processTcpConnectState b (s, c)))" for b
    using assms(1) in_place_tcp by (intro in_place_follows in_place_handleSync; simp)+
  ultimately show ?thesis using follows_transport_failure [of s] assms(1) by (cases msg) (simp_all add: processClientInvite_def phase_def)
qed

lemma follows_stateless:
  assumes "mMachine s = Stateless" "stateless_ok s" "msg_fits msg s" "env_ok c"
  shows "follows s (processStateless msg (s, c))"
proof -
  have acks: "only_acks s" using assms(2) by (simp add: stateless_ok_def)
  have "follows s (handleSync (s, c))" using acks by (intro in_place_follows in_place_handleSync) simp
  moreover have "follows s (stay (sendCurrentToWire (resetNextTransmission (Some sip) s, c)))" for sip by (simp add: follows_wire)
  moreover have "follows s (sendToTU sip (s, c))" for sip using assms(4) by (simp add: sendToTU_def sendToTU_request_def)
  ultimately show ?thesis
    by (cases msg) (auto simp: processStateless_def follows_def split: prod.splits option.splits simp: delete_this_def stay_def)
qed

text \<open>Every machine follows its diagram.\<close>

lemma machine_step_follows:
  assumes "ts_ok s" "msg_fits msg s" "env_ok c"
  shows "follows s (machine_step msg (s, c))"
proof (cases "mMachine s")
  case ClientStale
  then have "mPendingOperation s \<noteq> Dns" using assms(1) by (simp add: ts_ok_def stale_ok_def)
  then show ?thesis using ClientStale follows_transport_failure [of s]
    by (cases msg) (simp_all add: machine_step_def processClientStale_def handleSync_def phase_def)
next
  case ServerStale
  have "follows s (handleSync (s, x))" for x using ServerStale by (intro in_place_follows in_place_handleSync) simp
  moreover have "env_ok (resip_assert b c)" for b using assms(3) by (simp add: env_ok_def resip_assert_def)
  ultimately show ?thesis using ServerStale follows_transport_failure [of s]
    by (cases msg) (auto simp: machine_step_def processServerStale_def sendToTU_def sendToTU_request_def phase_def
      resetNextTransmission_def intro!: follows_wire)
qed (use assms in \<open>simp_all add: machine_step_def ts_ok_def follows_server_non_invite follows_server_invite
      follows_client_non_invite follows_client_invite follows_stateless\<close>)

end
