(* ===== verification/TransOnce.thy ===== *)
theory TransOnce
  imports TransSpec
begin

text \<open>Two facts about single transactions that the invariant does not show: the timer that a finished
  transaction waits for deletes it, and a non-INVITE client transaction gives its user at most one
  final response.\<close>

section \<open>The end of a transaction\<close>

lemma timeout_deletes: "fst (timeout_response (s, c)) = None"
  by (auto simp: timeout_response_def delete_this_def split: option.splits prod.splits)

lemma ender_deletes:
  assumes "ts_ok s" "ender s = Some t"
  shows "fst (machine_step (TimerMessage tid t d) (s, c)) = None"
proof -
  have st: "mMachine s = ClientNonInvite \<Longrightarrow> mState s \<in> {Trying, Proceeding, Completed}" using assms(1) by (simp add: ts_ok_def cni_ok_def)
  have del: "fst (delete_this x) = None" for x by (simp add: delete_this_def split: prod.splits)
  show ?thesis using assms(2) st timeout_deletes del
    by (cases "mMachine s") (auto simp: ender_def machine_step_def processClientNonInvite_def client_non_invite_timer_def
      processClientInvite_def client_invite_timer_def processServerNonInvite_def server_non_invite_timer_def processServerInvite_def
      server_invite_timer_def processClientStale_def processServerStale_def processStateless_def split: if_splits)
qed

lemma ender_not_postponed: "ender s = Some t \<Longrightarrow> postponed t d tm = None"
  by (cases "mMachine s") (auto simp: ender_def postponed_def split: if_splits)

lemma tmap_leave: "tmap (isClient s) (leave s rc) (mId s) = fst rc"
  by (simp add: leave_def)

section \<open>Rounds of timers\<close>

lemma run_machine_fifo:
  assumes inv: "cinv x c" and s: "tmap (isClient s) c (mId s) = Some s" "msg_fits msg s"
  shows "mTimerFifo (run_machine msg s c) = mTimerFifo c"
proof -
  have "ts_ok s" "env_ok c" using cinv_entry [OF inv s(1)] inv by (auto simp: cinv_def)
  then obtain c1 where c1: "c1 = c \<or> spawns s c c1" "step_ok msg s c1 (machine_step msg (s, c))"
    using machine_step_ok [OF _ s(2)] unfolding machine_ok_def by blast
  have "mTimerFifo c1 = mTimerFifo c" using c1(1) by (auto simp: spawns_def core_def)
  then have "mTimerFifo (snd (machine_step msg (s, c))) = mTimerFifo c" using c1(2) by (auto simp: step_ok_def calm_def core_def)
  then show ?thesis by (simp add: run_machine_def leave_def set_tmap_def)
qed

lemma fire_fifo:
  assumes inv: "cinv None c" and f: "mTimerFifo c = m # ms"
  shows "mTimerFifo (processTimer m (c\<lparr>mTimerFifo := ms\<rparr>)) = ms"
proof (cases "\<exists>tid t d. m = TimerMessage tid t d")
  case True
  then obtain tid t d where m: "m = TimerMessage tid t d" by blast
  let ?c = "c\<lparr>mTimerFifo := ms\<rparr>"
  have pop: "cinv (Some (t, tid)) ?c" using pop_timer [OF inv] f m by simp
  have "(t, tid) \<in> pending_timers c" using f m by (auto simp: pending_timers_def)
  then obtain cl where cl: "timer_isClient t = Some cl" "\<And>s. tmap cl c tid = Some s \<Longrightarrow> timer_fits t s"
    using pending_timer_fits [OF inv] by blast
  have mp: "tmap x ?c = tmap x c" for x by (simp add: tmap_def)
  have "mTimerFifo (dispatch m ?c) = ms"
  proof (cases "tmap cl c tid")
    case (Some s)
    then have s: "tmap cl ?c tid = Some s" by (simp add: mp)
    moreover have "mId s = tid" "isClient s = cl" using cinv_entry [OF inv Some] by auto
    ultimately have "mTimerFifo (run_machine m s ?c) = mTimerFifo ?c"
      using cl Some m by (intro run_machine_fifo [OF pop]) (auto simp: msg_fits_def)
    then show ?thesis using m cl s by (simp add: dispatch_def)
  next
    case None
    then have "tmap cl ?c tid = None" by (simp add: mp)
    then show ?thesis using m cl by (simp add: dispatch_def)
  qed
  then show ?thesis using m by (simp add: timers_add_def split: option.split)
next
  case False
  then show ?thesis by (cases m) auto
qed

lemma drain_steps: "sip_step\<^sup>*\<^sup>* c (drain_timers n c)"
proof (induction n arbitrary: c)
  case (Suc n)
  show ?case
  proof (cases "mTimerFifo c")
    case (Cons m ms)
    then show ?thesis using Suc [of "processTimer m (c\<lparr>mTimerFifo := ms\<rparr>)"] sip_step.timer [OF Cons]
      by (simp add: converse_rtranclp_into_rtranclp)
  qed simp
qed simp

lemma reachable_steps: "sip_step\<^sup>*\<^sup>* c c' \<Longrightarrow> sip_reachable c \<Longrightarrow> sip_reachable c'"
  by (induction rule: rtranclp_induct) (auto intro: sip_reachable.step)

lemma drain_empty: "cinv None c \<Longrightarrow> mTimerFifo (drain_timers (length (mTimerFifo c)) c) = []"
proof (induction "length (mTimerFifo c)" arbitrary: c)
  case (Suc n)
  then obtain m ms where f: "mTimerFifo c = m # ms" by (cases "mTimerFifo c") auto
  let ?c = "processTimer m (c\<lparr>mTimerFifo := ms\<rparr>)"
  have "mTimerFifo ?c = ms" using fire_fifo [OF Suc.prems f] .
  moreover have "mTimerFifo (drain_timers (length (mTimerFifo ?c)) ?c) = []"
    using Suc.hyps(1) [of ?c] Suc.hyps(2) fire_cinv [OF Suc.prems f] calculation f by simp
  ultimately show ?case using f by simp
qed simp

section \<open>Final responses\<close>

fun is_final :: "nat option \<times> TuMessage \<Rightarrow> bool" where
  "is_final (_, TuSip sip) \<longleftrightarrow> isResponse sip \<and> 200 \<le> sip_code sip"
| "is_final _ \<longleftrightarrow> False"

definition finals :: "Controller \<Rightarrow> nat" where
  "finals c = length (filter is_final (posted (mTuSelector c)))"

lemma finals_same [simp]:
  "finals (emit e c) = finals c" "finals (resip_assert b c) = finals c" "finals (timers_add t tid d c) = finals c"
  "finals (fifo_add m c) = finals c" "finals (dns_feedback sip s c) = finals c" "finals (destructed s c) = finals c"
  "finals (c\<lparr>ct_asked := n\<rparr>) = finals c"
  by (simp_all add: finals_def emit_def resip_assert_def timers_add_def fifo_add_def dns_feedback_def destructed_def split: option.splits)

lemma finals_ask: "ask c = (a, c') \<Longrightarrow> finals c' = finals c"
  by (auto simp: ask_def)

lemma finals_fresh: "fresh_response sip code reason c = (r, c') \<Longrightarrow> finals c' = finals c"
  by (auto simp: fresh_response_def split: prod.splits dest: finals_ask)

lemma finals_prime: "prime d c = (d', c') \<Longrightarrow> finals c' = finals c"
  by (auto simp: prime_def split: prod.splits if_splits dest: finals_ask)

lemma finals_transmit: "transmit sip t c = (b, c') \<Longrightarrow> finals c' = finals c"
  by (auto simp: transmit_def split: prod.splits option.splits dest: finals_ask)

lemma finals_reliability: "processReliability t (s, c) = (s', c') \<Longrightarrow> finals c' = finals c"
  by (auto simp: processReliability_def split: if_splits Machine.splits)

lemma finals_transmit_current: "transmit_current sip t (s, c) = (b, s', c') \<Longrightarrow> finals c' = finals c"
  by (auto simp: transmit_current_def split: prod.splits dest: finals_transmit)

lemma finals_send_client: "send_client sip (s, c) = (b, s', c') \<Longrightarrow> finals c' = finals c"
  by (auto simp: send_client_def Let_def split: if_splits prod.splits dest!: finals_transmit_current finals_reliability)

lemma finals_send_server: "send_server sip (s, c) = (b, s', c') \<Longrightarrow> finals c' = finals c"
  by (auto simp: send_server_def Let_def split: option.splits dest!: finals_transmit_current)

lemma finals_wire: "sendCurrentToWire (s, c) = (s', c') \<Longrightarrow> finals c' = finals c"
  by (auto simp: sendCurrentToWire_def split: option.splits prod.splits if_splits dest: finals_send_client finals_send_server)

lemma finals_restore: "restoreOriginalContactAndVia (s, c) = (s', c') \<Longrightarrow> finals c' = finals c"
  by (auto simp: restoreOriginalContactAndVia_def Let_def split: option.splits)

lemma finals_destroy: "destroy_dns (s, c) = (s', c') \<Longrightarrow> finals c' = finals c"
  by (auto simp: destroy_dns_def split: option.splits)

lemma finals_terminate: "terminateTransaction b (s, c) = (s', c') \<Longrightarrow> finals c' = finals c"
  by (auto simp: terminateTransaction_def finals_def tu_add_def split: if_splits option.splits)

lemma finals_post: "finals (post_sip tu sip c) \<le> Suc (finals c)" "sip_code sip < 200 \<Longrightarrow> finals (post_sip tu sip c) = finals c"
  by (auto simp: post_sip_def finals_def tu_add_def split: option.splits)

lemma finals_response:
  "finals c \<le> finals (sendToTU_response sip s c)" "finals (sendToTU_response sip s c) \<le> Suc (finals c)"
  "sip_code sip < 200 \<Longrightarrow> finals (sendToTU_response sip s c) = finals c"
proof -
  have "finals c \<le> finals (post_sip tu sip c)" for tu c by (simp add: post_sip_def finals_def tu_add_def split: option.split)
  then show "finals c \<le> finals (sendToTU_response sip s c)" using finals_same(2,5)
    by (auto simp: sendToTU_response_def Let_def) (metis finals_same(2) finals_same(5))+
  show "finals (sendToTU_response sip s c) \<le> Suc (finals c)"
    using finals_post(1) [of "mTransactionUser s" sip] by (auto simp: sendToTU_response_def Let_def) (metis finals_same(2) finals_same(5))+
  show "sip_code sip < 200 \<Longrightarrow> finals (sendToTU_response sip s c) = finals c"
    by (simp add: sendToTU_response_def Let_def finals_post(2))
qed

lemma finals_response_cases:
  "finals (sendToTU_response sip s c) = finals c \<or> finals (sendToTU_response sip s c) = Suc (finals c)"
  using finals_response(1) [of c sip s] finals_response(2) [of sip s c] by linarith

text \<open>A step posts no final response, or one and the transaction is over or completed.\<close>

definition once :: "Controller \<Rightarrow> TransactionState option \<times> Controller \<Rightarrow> bool" where
  "once c rc \<longleftrightarrow> finals (snd rc) = finals c \<or>
     finals (snd rc) = Suc (finals c) \<and> (\<forall>s'. fst rc = Some s' \<longrightarrow> mState s' = Completed)"

lemma once_stay [simp]: "finals c' = finals c \<Longrightarrow> once c (stay (s', c'))"
  by (simp add: once_def stay_def)

lemma once_wire: "finals c' = finals c \<Longrightarrow> once c (stay (sendCurrentToWire (s', c')))"
  by (cases "sendCurrentToWire (s', c')") (simp add: finals_wire)

lemma once_send: "finals c' = finals c \<Longrightarrow> once c (stay (sendCurrentToWire (processReliability t (s', c'))))"
  by (cases "processReliability t (s', c')") (simp add: finals_reliability once_wire)

lemma once_end:
  assumes "finals c1 = finals c" shows "once c (delete_this (terminateTransaction b (s, sendToTU_response r s c1)))"
proof -
  obtain s' c' where t: "terminateTransaction b (s, sendToTU_response r s c1) = (s', c')" by fastforce
  have "finals c' = finals (sendToTU_response r s c1)" using finals_terminate [OF t] .
  then show ?thesis using t finals_response_cases [of r s c1] assms by (auto simp: once_def delete_this_def)
qed

lemma once_quiet_end: "finals c' = finals c \<Longrightarrow> once c (delete_this (terminateTransaction b (s, c')))"
  by (cases "terminateTransaction b (s, c')") (auto simp: once_def delete_this_def finals_terminate)

lemma once_timeout: "finals c1 = finals c \<Longrightarrow> once c (timeout_response (s, c1))"
  by (cases "mNextTransmission s")
    (auto simp: timeout_response_def once_quiet_end split: prod.splits intro!: once_end dest: finals_fresh)

lemma once_no_results:
  assumes "mMachine s \<noteq> Stateless" "finals c1 = finals c" shows "once c (processNoDnsResults (s, c1))"
proof -
  have e: "(case terminateClientTransaction (u, d) of (s, c) \<Rightarrow> if mMachine s \<noteq> Stateless then delete_this (s, c) else stay (s, c)) =
    delete_this (terminateClientTransaction (u, d))" if "mMachine u \<noteq> Stateless" for u d using that by (simp add: terminateTransaction_def)
  show ?thesis using assms
    by (auto simp: processNoDnsResults_def Let_def e split: option.splits prod.splits intro!: once_end dest!: finals_fresh finals_prime)
qed

lemma once_failover:
  assumes "mMachine s \<noteq> Stateless" "finals c1 = finals c" shows "once c (failover d (s, c1))"
  using assms by (auto simp: failover_def Let_def split: DnsView.splits list.splits prod.splits
      intro!: once_send once_no_results dest!: finals_prime finals_restore)

lemma once_transport_failure:
  assumes "mMachine s \<noteq> Stateless" "\<not> cancel_undelivered (noted r sub s)" shows "once c (processTransportFailure r sub (s, c))"
proof -
  let ?s = "noted r sub s" and ?a = "resip_assert (mState s \<noteq> Bogus) c"
  let ?g = "emit (GreylistLast (mId s) (ct_now ?a + ct_greylist ?a)) ?a"
  have m: "mMachine ?s \<noteq> Stateless" "mId ?s = mId s" using noted_alike [of s r sub] assms(1) by (simp_all add: alike_def)
  have "processTransportFailure r sub (s, c) \<in> {processNoDnsResults (?s, ?a), processNoDnsResults (?s, ?g)} \<union>
     {failover d (if mMachine ?s = ClientInvite \<and> mState ?s = Proceeding then ?s\<lparr>mState := Calling\<rparr> else ?s, ?g) |d. True}"
    using assms(2) by (auto simp: processTransportFailure_def noted_def Let_def split: if_splits option.splits)
  moreover have "finals ?a = finals c" "finals ?g = finals c" by simp_all
  ultimately show ?thesis using m by (auto intro!: once_no_results once_failover)
qed

lemma once_handleSync:
  assumes "mMachine s \<noteq> Stateless" shows "once c (handleSync (s, c))"
  using assms by (auto simp: handleSync_def Let_def split: option.splits DnsView.splits list.splits prod.splits
      intro!: once_send once_no_results dest!: finals_prime)

lemma not_undelivered: "cni_ok s \<Longrightarrow> mMethod s \<noteq> CANCEL \<Longrightarrow> alike s s' \<Longrightarrow> \<not> cancel_undelivered s'"
  by (auto simp: cni_ok_def alike_def cancel_undelivered_def request_ready_def split: option.splits if_splits)

lemma cni_once:
  assumes m: "mMachine s = ClientNonInvite" "cni_ok s" "mMethod s \<noteq> CANCEL"
  shows "once c (processClientNonInvite msg (s, c))"
proof -
  have fail: "once c (processTransportFailure r sub (s, c))" for r sub
    using m by (intro once_transport_failure not_undelivered [OF m(2,3)] noted_alike) simp
  have "once c (client_non_invite_request sip (s, c))" for sip by (simp add: client_non_invite_request_def Let_def once_wire)
  moreover have "once c (client_non_invite_response sip (s, c))" for sip
  proof (cases "sip_code sip < 200")
    case True
    then show ?thesis by (auto simp: client_non_invite_response_def Let_def finals_response(3))
  next
    case False
    have st: "mState s \<in> {Trying, Proceeding, Completed}" using m(2) by (simp add: cni_ok_def)
    let ?c = "sendToTU_response sip s c"
    obtain s' c' where d: "destroy_dns (s\<lparr>mState := Completed\<rparr>, timers_add TimerK (mId s) (T4 (ct_timing ?c)) ?c) = (s', c')" by fastforce
    have "finals c' = finals ?c" "mState s' = Completed" using finals_destroy [OF d] phase_destroy_dns [OF d] by (simp_all add: phase_def)
    then have "once c (stay (resetNextTransmission None s', c'))"
      using finals_response_cases [of sip s c] by (auto simp: once_def stay_def resetNextTransmission_def)
    then show ?thesis using False st d by (auto simp: client_non_invite_response_def Let_def once_end once_quiet_end)
  qed
  moreover have "once c (client_non_invite_timer t d (s, c))" for t d
    by (cases t) (auto simp: client_non_invite_timer_def Let_def fail intro!: once_wire once_timeout once_quiet_end)
  moreover have "once c (stay (processTcpConnectState b (s, c)))" for b
    by (auto simp: processTcpConnectState_def)
  ultimately show ?thesis using fail once_handleSync [of s c] m(1) by (cases msg) (simp_all add: processClientNonInvite_def)
qed

text \<open>A completed transaction posts nothing more.\<close>

lemma cni_completed_quiet:
  assumes m: "mMachine s = ClientNonInvite" "cni_ok s" "mState s = Completed" "\<not> (\<exists>sip. msg = SipMsg sip \<and> isRequest sip)"
  shows "finals (snd (processClientNonInvite msg (s, c))) = finals c"
proof -
  have s: "isClient s" "only_acks s" "mDnsResult s = None" "mPendingOperation s \<noteq> Dns"
    using m by (auto simp: cni_ok_def only_acks_def client_ok_def)
  have "finals (snd (processTransportFailure r sub (s, c))) = finals c" for r sub
    using m(3) s(2,3) only_acks_no_results [of "noted r sub s"] noted_alike [of s r sub]
    by (auto simp: processTransportFailure_def noted_def alike_def only_acks_def cancel_undelivered_def stay_def Let_def split: option.splits)
  moreover have "finals (snd (delete_this (terminateTransaction b (s, c)))) = finals c" for b
    by (cases "terminateTransaction b (s, c)") (simp add: delete_this_def finals_terminate)
  ultimately show ?thesis using m(3,4) s(4)
    by (cases msg) (auto simp: processClientNonInvite_def client_non_invite_response_def client_non_invite_timer_def handleSync_def
      processTcpConnectState_def stay_def split: TimerType.splits)
qed

section \<open>Sequences of messages\<close>

text \<open>What a transaction makes of the messages it gets, one after the other.\<close>

fun feed :: "TransactionMessage list \<Rightarrow> TransactionState option \<times> Controller \<Rightarrow> TransactionState option \<times> Controller" where
  "feed (m # ms) (Some s, c) = feed ms (machine_step m (s, c))"
| "feed _ r = r"

fun feed_fits :: "TransactionMessage list \<Rightarrow> TransactionState option \<times> Controller \<Rightarrow> bool" where
  "feed_fits (m # ms) (Some s, c) \<longleftrightarrow> msg_fits m s \<and> feed_fits ms (machine_step m (s, c))"
| "feed_fits _ _ \<longleftrightarrow> True"

lemma cni_step:
  assumes m: "mMachine s = ClientNonInvite" "ts_ok s" "mMethod s \<noteq> CANCEL" "env_ok c" "msg_fits msg s"
    and r: "machine_step msg (s, c) = (Some s', c')"
  shows "mMachine s' = ClientNonInvite \<and> ts_ok s' \<and> env_ok c' \<and> mMethod s' = mMethod s \<and> (mState s = Completed \<longrightarrow> mState s' = Completed)"
proof -
  have "step_ok msg s c (Some s', c')"
    using machine_step_ok [OF m(2,5,4)] r m(1) by (simp add: machine_ok_def)
  then obtain X where X: "calm (mId s) X c c'" "ts_ok s'" by (auto simp: step_ok_def good_next_def)
  have "phase s' \<in> successors (mIsAbandoned s) ClientNonInvite (mState s) \<times> {mMethod s}"
    using machine_step_follows [OF m(2,5,4)] r m(1) by (simp add: follows_def)
  then show ?thesis using X calm_env_ok [OF X(1) m(4)] m(1,2)
    by (cases "mState s") (auto simp: phase_def ts_ok_def cni_ok_def)
qed

lemma feed_once:
  assumes "mMachine s = ClientNonInvite" "ts_ok s" "mMethod s \<noteq> CANCEL" "env_ok c" "feed_fits ms (Some s, c)"
  shows "finals (snd (feed ms (Some s, c))) \<le> finals c + (if mState s = Completed then 0 else 1)"
  using assms
proof (induction ms arbitrary: s c)
  case (Cons m ms)
  have cni: "cni_ok s" using Cons.prems(1,2) by (simp add: ts_ok_def)
  obtain r c' where r: "machine_step m (s, c) = (r, c')" by fastforce
  have f: "msg_fits m s" "feed_fits ms (r, c')" using Cons.prems(5) r by auto
  have p: "processClientNonInvite m (s, c) = (r, c')" using r Cons.prems(1) by (simp add: machine_step_def)
  have once: "finals c' = finals c \<or> finals c' = Suc (finals c) \<and> (\<forall>s'. r = Some s' \<longrightarrow> mState s' = Completed)"
    using cni_once [OF Cons.prems(1) cni Cons.prems(3), of c m] p by (simp add: once_def)
  have "\<not> (\<exists>sip. m = SipMsg sip \<and> isRequest sip)" using f(1) Cons.prems(1) by (auto simp: msg_fits_def)
  then have quiet: "finals c' = finals c" if "mState s = Completed"
    using cni_completed_quiet [OF Cons.prems(1) cni that, of m c] p by simp
  show ?case
  proof (cases r)
    case None
    then show ?thesis using r once quiet by auto
  next
    case (Some s')
    have n: "mMachine s' = ClientNonInvite \<and> ts_ok s' \<and> env_ok c' \<and> mMethod s' = mMethod s \<and> (mState s = Completed \<longrightarrow> mState s' = Completed)"
      using cni_step [OF Cons.prems(1-4) f(1)] r Some by simp
    then have "finals (snd (feed ms (Some s', c'))) \<le> finals c' + (if mState s' = Completed then 0 else 1)"
      using f(2) Some Cons.prems(3) by (intro Cons.IH) auto
    then show ?thesis using r Some once quiet n by (auto split: if_splits)
  qed
qed simp

end
