(* ===== verification/TransProps.thy ===== *)
theory TransProps
  imports TransOnce
begin

text \<open>The properties of the SIP transaction layer.\<close>

section \<open>A concrete run\<close>

text \<open>A controller with the default timers, whose DNS knows nothing; a request with one of our branches.\<close>

definition w_answer :: Answer where
  "w_answer = \<lparr>a_transmit = None, a_dns = DnsFinished, a_tag = ''t''\<rparr>"

definition w_start :: Controller where
  "w_start = new_Controller ''host'' default_timing 0 0 (\<lambda>_. w_answer)"

definition w_request :: "MethodTypes \<Rightarrow> bool \<Rightarrow> SipMessage" where
  "w_request m ext = new_sip\<lparr>sip_start := RequestLine, sip_method := m, sip_external := ext,
     sip_vias := [\<lparr>v_transport = UDP, v_sentPort = 5060, v_rport = None,
       v_branch = Some \<lparr>mHasMagicCookie = True, mIsMyBranch = True, mTransactionId = ''z1'', mTransportSeq = 1\<rparr>\<rparr>],
     sip_source := no_tuple\<lparr>tp_type := UDP\<rparr>\<rparr>"

definition w_run :: "MethodTypes \<Rightarrow> bool \<Rightarrow> Controller" where
  "w_run m ext = process (SipMsg (w_request m ext)) w_start"

lemma w_start_reachable: "sip_reachable w_start"
  unfolding w_start_def by (rule sip_reachable.start) (simp_all add: w_answer_def trying_duration_def default_timing_def)

lemma w_step:
  assumes "sip_reachable c" "mStateMacFifo c = []" "admissible m c" shows "sip_reachable (process m c)"
proof -
  have e: "(fifo_add m c)\<lparr>mStateMacFifo := []\<rparr> = c" "mStateMacFifo (fifo_add m c) = [m]" using assms(2) by (simp_all add: fifo_add_def)
  have "sip_step (fifo_add m c) (process m c)" using sip_step.message [OF e(2)] e(1) assms(3) by simp
  then show ?thesis using sip_reachable.step [OF sip_reachable.step [OF assms(1) sip_step.arrive]] by blast
qed

lemma w_run_reachable: "sip_reachable (w_run m ext)"
  unfolding w_run_def
proof (rule w_step [OF w_start_reachable])
  show "mStateMacFifo w_start = []" by (simp add: w_start_def new_Controller_def)
  show "admissible (SipMsg (w_request m ext)) w_start"
    by (auto simp: admissible_sip_def admissible_new_def unused_def w_start_def new_Controller_def w_request_def new_sip_def
        isRequest_def flow_ok_def no_tuple_def branch_is_mine_def tmap_def pending_timers_def split: option.split)
qed

lemmas w_defs = w_run_def w_start_def w_request_def w_answer_def new_Controller_def new_sip_def new_TuSelector_def no_tuple_def
  default_timing_def process_def process_sip_def processSipMessageAsNew_def getTransactionId_def transaction_key_def isRequest_def
  isResponse_def isClientTransaction_sip_def tmap_def set_tmap_def tmap_add_def leave_def stay_def Let_def new_TransactionState_def
  isClient_def run_machine_def machine_step_def

lemmas w_client_defs = w_defs new_tu_request_def new_client_def processClientNonInvite_def client_non_invite_request_def
  saveOriginalContactAndVia_def resetNextTransmission_def timers_add_def add_timer_def push_timer_def new_timer_def
  sendCurrentToWire_def send_client_def emit_def

lemmas w_server_defs = w_defs new_external_request_def new_server_invite_def make100_def fresh_response_def makeResponse_def ask_def
  reply_target_def getPortForReply_def sendToTU_def sendToTU_request_def getRejectionBehavior_def post_sip_def tu_add_def
  timers_add_def add_timer_def push_timer_def new_timer_def DefaultSipPort_def

lemma w_client:
  "map_option (\<lambda>s. (mMachine s, mState s, mMethod s, ender s)) (tmap True (w_run OPTIONS False) ''z1'') =
     Some (ClientNonInvite, Trying, OPTIONS, Some TimerF)"
  by (simp add: w_client_defs ender_def)

lemma w_server:
  "map_option (\<lambda>s. (mMachine s, mState s, mMethod s)) (tmap False (w_run INVITE True) ''z1'') =
     Some (ServerInvite, Trying, INVITE)"
  by (simp add: w_server_defs)

lemma w_client_obtain:
  obtains s where "tmap True (w_run OPTIONS False) ''z1'' = Some s" "mMachine s = ClientNonInvite" "mState s = Trying"
    "mMethod s = OPTIONS" "ender s = Some TimerF" "ts_ok s" "mId s = ''z1''" "isClient s"
proof -
  obtain s where s: "tmap True (w_run OPTIONS False) ''z1'' = Some s" "mMachine s = ClientNonInvite" "mState s = Trying"
    "mMethod s = OPTIONS" "ender s = Some TimerF" using w_client by auto
  then show thesis using that cinv_entry [OF reachable_cinv [OF w_run_reachable] s(1)] by blast
qed

section \<open>Safety and the invariant\<close>





text \<open>C10: No finished transaction leaks: a transaction that only waits for a timer (a client transaction
  other than an unanswered INVITE, a completed or confirmed server transaction, a stale one, a
  stateless one) has that timer in the queue or among the expired timers.\<close>

theorem waiting_transaction_has_timer:
  assumes "sip_reachable c" "tmap client c tid = Some s" "ender s = Some t"
  shows "(t, tid) \<in> pending_timers c"
  using ender_pending [OF reachable_cinv [OF assms(1)] assms(2,3)] by simp

theorem waiting_transaction_has_timer_witness: "(TimerF, ''z1'') \<in> pending_timers (w_run OPTIONS False)"
proof -
  obtain s where "tmap True (w_run OPTIONS False) ''z1'' = Some s" "ender s = Some TimerF" by (rule w_client_obtain)
  then show ?thesis using waiting_transaction_has_timer [OF w_run_reachable] by blast
qed

text \<open>C11: The timer that a transaction waits for ends it: when it fires, the transaction is deleted, also
  while the stack is congested.\<close>

theorem awaited_timer_deletes:
  assumes "sip_reachable c" "mTimerFifo c = TimerMessage tid t d # ms" "tmap client c tid = Some s" "ender s = Some t"
  shows "tmap client (processTimer (TimerMessage tid t d) (c\<lparr>mTimerFifo := ms\<rparr>)) tid = None"
proof -
  have s: "ts_ok s" "mId s = tid" "isClient s = client" using cinv_entry [OF reachable_cinv [OF assms(1)] assms(3)] by auto
  have m: "tmap client (c\<lparr>mTimerFifo := ms\<rparr>) tid = Some s" using assms(3) by (cases client) (simp_all add: tmap_def)
  have "timer_isClient t = Some client" using ender_isClient [OF assms(4)] s(3) by simp
  then have "processTimer (TimerMessage tid t d) (c\<lparr>mTimerFifo := ms\<rparr>) = run_machine (TimerMessage tid t d) s (c\<lparr>mTimerFifo := ms\<rparr>)"
    using m ender_not_postponed [OF assms(4)] by (simp add: dispatch_def)
  then show ?thesis using tmap_leave [of s] ender_deletes [OF s(1) assms(4)] s by (simp add: run_machine_def)
qed

text \<open>The transaction of the run, some time later: timer F has expired.\<close>

definition w_expired :: Controller where
  "w_expired = expire ((w_run OPTIONS False)\<lparr>ct_now := 32000\<rparr>)"

lemma w_expired_reachable: "sip_reachable w_expired"
proof -
  have "ct_now (w_run OPTIONS False) = 0" by (simp add: w_client_defs)
  then show ?thesis unfolding w_expired_def
    using sip_reachable.step [OF sip_reachable.step [OF w_run_reachable sip_step.tick] sip_step.expire] by simp
qed

lemma w_expired_fifo: "mTimerFifo w_expired = [TimerMessage ''z1'' TimerF 32000]" "tmap True w_expired = tmap True (w_run OPTIONS False)"
  by (simp_all add: w_expired_def expire_def w_client_defs timer_message_def)

theorem awaited_timer_deletes_witness:
  "tmap True (processTimer (TimerMessage ''z1'' TimerF 32000) (w_expired\<lparr>mTimerFifo := []\<rparr>)) ''z1'' = None"
proof -
  obtain s where "tmap True w_expired ''z1'' = Some s" "ender s = Some TimerF" using w_client_obtain w_expired_fifo(2) by metis
  then show ?thesis using awaited_timer_deletes [OF w_expired_reachable w_expired_fifo(1)] by blast
qed

text \<open>A round of timers ends: it empties the fifo of the expired timers, and is made of steps of the
  controller.\<close>

theorem timer_round_complete:
  assumes "sip_reachable c" shows "mTimerFifo (run_timers c) = [] \<and> sip_reachable (run_timers c)"
proof -
  have e: "sip_reachable (expire c)" using assms sip_step.expire by (rule sip_reachable.step)
  then show ?thesis using drain_empty [OF reachable_cinv [OF e]] reachable_steps [OF drain_steps e]
    by (simp add: run_timers_def Let_def)
qed

theorem timer_round_complete_witness: "mTimerFifo (run_timers w_expired) = [] \<and> sip_reachable (run_timers w_expired)"
  by (rule timer_round_complete [OF w_expired_reachable])

section \<open>The state machines\<close>



text \<open>C9: A client transaction other than INVITE and CANCEL gives its user at most one final response, whatever
  sequence of messages, timers, DNS results and failures it goes through, and none once it is
  completed.\<close>

theorem final_response_once:
  assumes "sip_reachable c" "tmap True c tid = Some s" "mMachine s = ClientNonInvite" "mMethod s \<noteq> CANCEL" "feed_fits ms (Some s, c)"
  shows "finals (snd (feed ms (Some s, c))) \<le> finals c + (if mState s = Completed then 0 else 1)"
proof -
  have inv: "cinv None c" using assms(1) by (rule reachable_cinv)
  then have "ts_ok s" "env_ok c" using cinv_entry [OF inv assms(2)] by (auto simp: cinv_def)
  then show ?thesis using feed_once assms(3-5) by blast
qed

theorem final_response_once_witness:
  "\<exists>s. tmap True (w_run OPTIONS False) ''z1'' = Some s \<and>
     finals (snd (feed [TimerMessage ''z1'' TimerF 1] (Some s, w_run OPTIONS False))) \<le> finals (w_run OPTIONS False) + 1"
proof -
  obtain s where s: "tmap True (w_run OPTIONS False) ''z1'' = Some s" "mMachine s = ClientNonInvite" "mState s = Trying"
    "mMethod s = OPTIONS" "isClient s" by (rule w_client_obtain)
  let ?ms = "[TimerMessage ''z1'' TimerF 1]"
  have "feed_fits ?ms (Some s, w_run OPTIONS False)" using s(2,5) by (simp add: msg_fits_def timer_fits_def)
  from final_response_once [OF w_run_reachable s(1,2) _ this] show ?thesis using s(1,3,4) by (intro exI [of _ s]) simp
qed


text \<open>The run for a request from the network: the user answers it over UDP.\<close>

definition w_ok :: SipMessage where
  "w_ok = (w_request OPTIONS True)\<lparr>sip_start := StatusLine, sip_code := 200, sip_external := False\<rparr>"

definition w_answered :: Controller where
  "w_answered = process (SipMsg w_ok) (w_run OPTIONS True)"

lemma w_answered_reachable: "sip_reachable w_answered"
  unfolding w_answered_def
proof (rule w_step [OF w_run_reachable])
  show "mStateMacFifo (w_run OPTIONS True) = []" by (simp add: w_server_defs new_server_non_invite_def startServerNonInviteTimerTrying_def
    trying_duration_def resetNextTransmission_def)
  show "admissible (SipMsg w_ok) (w_run OPTIONS True)"
    by (auto simp: admissible_sip_def admissible_new_def w_ok_def w_request_def new_sip_def isRequest_def isResponse_def
        admissible_known_def isClientTransaction_sip_def split: option.split)
      (auto dest: cinv_entry [OF reachable_cinv [OF w_run_reachable]])
qed

lemmas w_answer_defs = w_server_defs new_server_non_invite_def startServerNonInviteTimerTrying_def trying_duration_def
  resetNextTransmission_def w_answered_def w_ok_def corrected_def bad_ack_def process_known_def accepts_def method_matches_def
  processServerNonInvite_def is_code_def server_non_invite_response_def sendCurrentToWire_def send_server_def transmit_current_def
  transmit_def emit_def onSendSuccess_def

lemma w_answered_state:
  "map_option (\<lambda>s. (mMachine s, mState s, mIsAbandoned s, mIsReliable s, mMsgToRetransmit s = None, mMethod s))
     (mServerTransactionMap w_answered ''z1'') = Some (ServerNonInvite, Completed, False, False, False, OPTIONS)"
  by (simp add: w_answer_defs)


text \<open>C29: Cancelling an INVITE that has been answered provisionally leaves it alone and starts a CANCEL
  transaction next to it, with the timer that bounds it.\<close>

theorem cancel_starts_transaction:
  assumes "sip_reachable c" "mClientTransactionMap c tid = Some s" "mMachine s = ClientInvite" "mState s = Proceeding"
  shows "\<exists>sc. mClientTransactionMap (process (CancelClientInviteTransaction tid reasons) c) =
      (mClientTransactionMap c)(tid @ ''cancel'' \<mapsto> sc) \<and>
    mMachine sc = ClientNonInvite \<and> mMethod sc = CANCEL \<and> mState sc \<noteq> Completed \<and> ts_ok sc \<and>
    (TimerF, tid @ ''cancel'') \<in> pending_timers (process (CancelClientInviteTransaction tid reasons) c)"
proof -
  have t: "tmap True c tid = Some s" using assms(2) by (simp add: tmap_def)
  have s: "ts_ok s" "mId s = tid" "isClient s" using cinv_entry [OF reachable_cinv [OF assms(1)] t] by auto
  have "client_active s" "resolved s" using s(1) assms(3,4) active_iff [of s] by (auto simp: ts_ok_def ci_ok_def)
  then have sp: "spawns s c (send_cancel reasons s c)" using assms(3) by (intro send_cancel_spawns)
  let ?c = "send_cancel reasons s c"
  obtain sc where sc: "mId sc = tid @ ''cancel''" "mMachine sc = ClientNonInvite" "mMethod sc = CANCEL" "mState sc \<noteq> Completed" "ts_ok sc"
    "(TimerF, mId sc) \<in> pending_timers ?c" "core ?c = core (c\<lparr>mClientTransactionMap := (mClientTransactionMap c)(mId sc \<mapsto> sc)\<rparr>)"
    using sp s(2) unfolding spawns_def by metis
  have map: "mClientTransactionMap ?c = (mClientTransactionMap c)(tid @ ''cancel'' \<mapsto> sc)" using core_client_map(1) [OF sc(7)] sc(1) by simp
  have "process (CancelClientInviteTransaction tid reasons) c = leave s (Some s, ?c)"
    using assms(3,4) t by (simp add: process_def dispatch_def run_machine_def machine_step_def processClientInvite_def client_invite_cancel_def stay_def)
  moreover have "leave s (Some s, ?c) = ?c"
    using map assms(2) s by (simp add: leave_def set_tmap_def tmap_def fun_upd_idem)
  ultimately show ?thesis using sc map by (intro exI [of _ sc]) auto
qed

text \<open>The run for an INVITE that is sent over a flow and answered with 180.\<close>

definition w_invite :: SipMessage where
  "w_invite = (w_request INVITE False)\<lparr>sip_destination := no_tuple\<lparr>tp_type := UDP, mFlowKey := 1\<rparr>\<rparr>"

definition w_180 :: SipMessage where
  "w_180 = (w_request INVITE True)\<lparr>sip_start := StatusLine, sip_code := 180\<rparr>"

definition w_invited :: Controller where
  "w_invited = process (SipMsg w_invite) w_start"

definition w_ringing :: Controller where
  "w_ringing = process (SipMsg w_180) w_invited"

lemmas w_invite_defs = w_client_defs w_invited_def w_invite_def processClientInvite_def client_invite_request_def
  processReliability_def resip_assert_def transmit_current_def transmit_def ask_def onSendSuccess_def

lemma w_invited_state:
  "map_option (\<lambda>s. (mMachine s, mState s, tp_type (mTarget s))) (mClientTransactionMap w_invited ''z1'') = Some (ClientInvite, Calling, UDP)"
  "mStateMacFifo w_invited = []"
  by (simp_all add: w_invite_defs)

lemma w_invited_reachable: "sip_reachable w_invited"
  unfolding w_invited_def
proof (rule w_step [OF w_start_reachable])
  show "mStateMacFifo w_start = []" by (simp add: w_start_def new_Controller_def)
  show "admissible (SipMsg w_invite) w_start"
    by (auto simp: admissible_sip_def admissible_new_def unused_def w_start_def new_Controller_def w_invite_def w_request_def new_sip_def
        isRequest_def flow_ok_def no_tuple_def branch_is_mine_def tmap_def pending_timers_def split: option.split)
qed

lemma w_ringing_reachable: "sip_reachable w_ringing"
  unfolding w_ringing_def
proof (rule w_step [OF w_invited_reachable w_invited_state(2)])
  have "transaction_key w_180 ''z1'' = ''z1''" "getTransactionId w_180 = Some ''z1''" "isClientTransaction_sip w_180" "isResponse w_180"
    "\<not> isRequest w_180"
    by (simp_all add: transaction_key_def getTransactionId_def isClientTransaction_sip_def isResponse_def isRequest_def w_180_def w_request_def new_sip_def)
  then show "admissible (SipMsg w_180) w_invited"
    using w_invited_state(1) by (auto simp: admissible_sip_def admissible_known_def tmap_def resolved_def)
qed

lemma w_ringing_state:
  "map_option (\<lambda>s. (mMachine s, mState s)) (mClientTransactionMap w_ringing ''z1'') = Some (ClientInvite, Proceeding)"
  by (simp add: w_ringing_def w_invite_defs w_180_def corrected_def fix_response_def fix_dialog_def bad_ack_def process_known_def
    accepts_def method_matches_def is_code_def client_invite_response_def client_invite_provisional_def sendToTU_response_def
    dns_feedback_def getRejectionBehavior_def post_sip_def tu_add_def)

theorem cancel_starts_transaction_witness:
  "\<exists>sc. mClientTransactionMap (process (CancelClientInviteTransaction ''z1'' None) w_ringing) ''z1cancel'' = Some sc \<and> mMethod sc = CANCEL"
proof -
  obtain s where "mClientTransactionMap w_ringing ''z1'' = Some s" "mMachine s = ClientInvite" "mState s = Proceeding"
    using w_ringing_state by auto
  from cancel_starts_transaction [OF w_ringing_reachable this, of None] show ?thesis by auto
qed

section \<open>Timers\<close>

text \<open>C30: In every reachable state the controller's timers expire on time: the timers that are due go to the
  fifo, all of them and only they, the earliest first, and the others stay in the queue.\<close>

theorem due_timers_expire:
  assumes "sip_reachable c"
  shows "mset (mTimers (expire c)) = filter_mset (\<lambda>t. ct_now c < mWhen t) (mset (mTimers c)) \<and>
    (\<exists>due. mTimerFifo (expire c) = mTimerFifo c @ map timer_message due \<and>
       mset due = filter_mset (\<lambda>t. mWhen t \<le> ct_now c) (mset (mTimers c)) \<and> sorted (map mWhen due))"
proof -
  have "in_order (mTimers c)" using reachable_cinv [OF assms] by (simp add: cinv_def)
  moreover obtain q' fifo' where p: "process_timers (ct_now c) (mTimers c) (mTimerFifo c) = (q', fifo')" by fastforce
  ultimately show ?thesis using sip_timers.fire [OF _ p] p by (simp add: expire_def)
qed

theorem due_timers_expire_witness:
  "\<exists>due. mTimerFifo (expire (w_run OPTIONS False)) = mTimerFifo (w_run OPTIONS False) @ map timer_message due \<and> sorted (map mWhen due)"
  using due_timers_expire [OF w_run_reachable, of OPTIONS False] by blast

lemma trying_loop_doubles:
  "trying_loop d t2 = Some r \<Longrightarrow> \<exists>k. r = d * 2 ^ k \<and> t2 \<le> 2 * r \<and> (k = 0 \<or> r < t2)"
proof (induction d t2 rule: trying_loop.induct)
  case (1 d t2)
  show ?case
  proof (cases "d * 2 < t2")
    case True
    then have "d \<noteq> 0" "trying_loop (d * 2) t2 = Some r" using 1(2) by (subst (asm) trying_loop.simps, simp split: if_splits)+
    then obtain k where k: "r = d * 2 * 2 ^ k" "t2 \<le> 2 * r" "k = 0 \<or> r < t2" using 1(1) [OF True] by blast
    then show ?thesis using True by (intro exI [of _ "Suc k"]) auto
  next
    case False
    then have "r = d" using 1(2) by (simp add: trying_loop.simps)
    then show ?thesis using False by (intro exI [of _ 0]) simp
  qed
qed

lemma trying_loop_ends: "0 < d \<Longrightarrow> trying_loop d t2 \<noteq> None"
  by (induction d t2 rule: trying_loop.induct) (subst trying_loop.simps, auto)

text \<open>The wait before a non-INVITE request is answered with 100 is found for all settings of the timers but
  T1 = 0 with T2 > 0, where the loop never ends. Unless T1 has its default value, it is T1 doubled until
  twice the value reaches T2, the last interval of the peer's retransmissions.\<close>

theorem trying_duration_found:
  "(trying_duration tm = None \<longleftrightarrow> T1 tm = 0 \<and> T2 tm > 0) \<and>
   (trying_duration tm = Some d \<longrightarrow>
      (if T1 tm = 500 then d = 3500 else \<exists>k. d = T1 tm * 2 ^ k \<and> T2 tm \<le> 2 * d \<and> (k = 0 \<or> d < T2 tm)))"
proof -
  have "trying_loop 0 t = None \<longleftrightarrow> t > 0" for t by (simp add: trying_loop.simps)
  then show ?thesis using trying_loop_ends [of "T1 tm" "T2 tm"] trying_loop_doubles [of "T1 tm" "T2 tm" d]
    by (cases "T1 tm = 0") (auto simp: trying_duration_def)
qed

theorem trying_duration_found_witness:
  "trying_duration (resetT1 100 default_timing) = Some 400 \<and>
   (\<exists>k. (400::nat) = 100 * 2 ^ k \<and> 800 \<le> 2 * (400::nat) \<and> (k = 0 \<or> (400::nat) < 800))"
proof -
  let ?tm = "resetT1 100 default_timing"
  have "trying_duration ?tm = Some 400" by (simp add: trying_duration_def resetT1_def default_timing_def trying_loop.simps)
  with trying_duration_found [of ?tm 400] show ?thesis by (simp add: resetT1_def default_timing_def)
qed

section \<open>Congestion\<close>

text \<open>The congestion manager of the transaction users has no effect: whatever is registered and whichever
  manager is set, in whatever order, the selector reports normal behaviour, so no request is rejected
  for congestion of a user.\<close>

theorem congestion_manager_ignored:
  assumes "tu_history ts" shows "getRejectionBehavior tu ts = NORMAL"
  using tu_history_no_manager [OF assms] by (simp add: getRejectionBehavior_def)

theorem congestion_manager_ignored_witness:
  "getRejectionBehavior None (setCongestionManager (\<lambda>_. REJECTING_NEW_WORK) new_TuSelector) = NORMAL"
  by (rule congestion_manager_ignored [OF tu_history.step [OF tu_history.start tu_step.congestion]])

end
