(* ===== verification/DnsResProps.thy ===== *)
theory DnsResProps
  imports DnsResEnds DnsResTold TransProps
begin

text \<open>The properties of the DNS lookups of the SIP stack, and how they meet what the transaction layer assumes.\<close>

section \<open>A concrete lookup\<close>

text \<open>A stack with UDP over IPv4, and a lookup of \<^verbatim>\<open>sip:example.com\<close> that finds two SRV records and a host.\<close>

definition ex_iface :: DnsInterface where
  "ex_iface = addTransportType UDP V4 \<lparr>mSupportedTransports = Map.empty, mSupportedNaptrs = Map.empty, mUdpOnlyOnNumeric = False\<rparr>"

definition ex_uri :: Uri where
  "ex_uri = \<lparr>u_scheme = ''sip'', u_user = '''', u_host = ''example.com'', u_port = 0, u_transport = None, u_maddr = None\<rparr>"

definition ex_srv :: "int \<Rightarrow> string \<Rightarrow> DnsSrvRecord" where
  "ex_srv weight target = \<lparr>rr_name = ''_sip._udp.example.com'', rr_priority = 0, rr_weight = weight, rr_port = 5060, rr_target = target\<rparr>"

definition ex_start :: DnsResult where
  "ex_start = lookup ex_uri (new_DnsResult ex_iface \<lparr>mList = Map.empty, mListeners = []\<rparr> (\<lambda>_. True) [] [] 0 (\<lambda>_. 15))"

definition ex_naptr :: DnsResult where "ex_naptr = answer 0 NoReply ex_start"

definition ex_asked :: DnsResult where "ex_asked = answer 0 (NaptrReply 0 []) ex_naptr"

definition ex_host :: DnsResult where "ex_host = answer 0 (SrvReply 0 [ex_srv 10 ''a'', ex_srv 20 ''b'']) ex_asked"

definition ex_found :: DnsResult where "ex_found = answer 0 (HostReply 0 [''10.0.0.1'']) ex_host"

lemma ex_support: "isSupported t v ex_iface \<longleftrightarrow> t = UDP \<and> v = V4"
  by (simp add: ex_iface_def isSupported_def addTransportType_def count_up_def)

lemma ex_supported: "isSupportedProtocol t ex_iface \<longleftrightarrow> t = UDP"
  by (auto simp: isSupportedProtocol_def ex_support)

lemma ex_no_address: "\<not> isIpAddress ''example.com''"
  by (simp add: isIpAddress_def isIpV4Address_def isIpV6Address_def is_digit_def octet_ok_def is_xdigit_def numeral_eq_Suc)

lemma ex_srv_transport: "transport_of_key ''_sip._udp.example.com'' = Some UDP"
  by (simp add: transport_of_key_def)

lemmas ex_run = ex_start_def ex_uri_def lookup_def new_DnsResult_def ask_dns_def answer_def

lemma ex_start_reachable: "dns_reachable ex_start"
  unfolding ex_start_def
  by (rule dns_reachable.start) (simp_all add: iface_ok_def ex_supported uri_ok_def ex_uri_def)

lemma ex_naptr: "ex_naptr = ex_start\<lparr>mSips := False, dr_target := ''example.com'', dr_queries := [NaptrQ ''example.com'']\<rparr>"
  by (simp add: ex_naptr_def ex_run lookupInternalWithEnum_def lookupInternal_def is_sips_def lookup_target_def without_brackets_def
      ex_no_address)

lemma ex_naptr_reachable: "dns_reachable ex_naptr"
  unfolding ex_naptr_def by (rule dns_reachable.step [OF ex_start_reachable], rule dns_step.answered) (simp_all add: ex_run)

lemma ex_asked: "ex_asked = ex_naptr\<lparr>mSRVCount := 1, dr_queries := [SrvQ ''_sip._udp.example.com'']\<rparr>"
  by (simp add: ex_asked_def ex_naptr ex_run onNaptr_def onNaptrResult_def naptr_failed_def ask_srv_if_def ask_srv_def ex_supported)

lemma ex_asked_reachable: "dns_reachable ex_asked"
  unfolding ex_asked_def by (rule dns_reachable.step [OF ex_naptr_reachable], rule dns_step.answered) (simp_all add: ex_naptr ex_run)

text \<open>The random number 15 falls into the interval of the second record.\<close>

lemma ex_host:
  "dr_queries ex_host = [HostQ ''b''] \<and> dr_type ex_host = Pending \<and> mSRVCount ex_host = 0 \<and> dr_transport ex_host = UDP \<and>
   dr_iface ex_host = ex_iface \<and> dr_port ex_host = 5060 \<and> map srv_target (mSRVResults ex_host) = [''a''] \<and> mResults ex_host = [] \<and>
   mGreylistedTuples ex_host = [] \<and> dr_target ex_host = ''example.com'' \<and> mList (dr_marks ex_host) = Map.empty \<and>
   \<not> dr_deleted ex_host \<and> dr_calls ex_host = []"
  by (simp add: ex_host_def ex_asked ex_naptr ex_run onSrvResult_def dr_assert_def Let_def add_srv_def ex_srv_def ex_srv_transport
      srv_sort_def srv_less_def primeResults_def retrieveSRV_def cumulate_def draw_def leading_transport_def same_group_def transition_def
      lookupHost_def ex_support ex_supported)

lemma ex_host_reachable: "dns_reachable ex_host"
  unfolding ex_host_def
  by (rule dns_reachable.step [OF ex_asked_reachable], rule dns_step.answered)
    (simp_all add: ex_asked ex_naptr ex_run srv_admissible_def ex_srv_def ex_srv_transport ex_supported)

lemma ex_found_reachable: "dns_reachable ex_found"
  unfolding ex_found_def by (rule dns_reachable.step [OF ex_host_reachable], rule dns_step.answered) (simp_all add: ex_host)

lemma ex_found:
  "dr_type ex_found = Available \<and> mResults ex_found = [no_tuple\<lparr>tp_type := UDP, tp_host := ''10.0.0.1'', tp_port := 5060, mTargetDomain := ''example.com''\<rparr>]
   \<and> \<not> dr_deleted ex_found \<and> dr_calls ex_found = [Handle] \<and> map srv_target (mSRVResults ex_found) = [''a'']"
  by (simp add: ex_found_def answer_def ex_host onHostResult_def hosts_done_def ex_supported add_hosts_def add_tuple_def get_mark_def getMarkType_def
      host_tuple_def Let_def transition_def dr_assert_def call_handler_def)

section \<open>Safety of the lookup\<close>

text \<open>C3: No assertion of a DNS lookup fails, whatever the answers to its queries are and whenever the transaction asks for
  targets, marks them or gives the lookup up. It is assumed that the stack supports one of UDP, TCP, TLS and DTLS, that the
  URIs can be handled (a transport parameter with a port is supported), that SRV records name supported transports and that
  the lookup is not given up during ENUM queries; without these the assertions can fail.\<close>

theorem dns_no_assertion_fails: "dns_reachable d \<Longrightarrow> \<not> dr_failed d"
  using dns_reachable_inv by (auto simp: dr_inv_def base_ok_def)

theorem dns_no_assertion_fails_witness: "dns_reachable ex_found \<and> \<not> dr_failed ex_found"
  using dns_no_assertion_fails [OF ex_found_reachable] ex_found_reachable by simp

text \<open>C22: A lookup that is pending, or that was destroyed while it was pending, has a query under way, and one that is
  available or finished has none. A transaction that waits for a lookup is thus never forgotten.\<close>

theorem dns_waits_for_answers: "dns_reachable d \<Longrightarrow> dr_type d \<in> {Pending, Destroyed} \<longleftrightarrow> dr_queries d \<noteq> []"
  using dns_reachable_inv [of d] by (auto simp: dr_inv_def waiting_def elim!: in_phase.elims)

theorem dns_waits_for_answers_witness: "dr_type ex_host = Pending \<and> dr_queries ex_host \<noteq> []"
  using dns_waits_for_answers [OF ex_host_reachable] ex_host by simp

text \<open>C12: Every lookup ends: in a run of any length there are finitely many answers and finitely many targets taken.\<close>

theorem dns_lookup_ends:
  assumes "dns_reachable (f 0)" "\<And>i. dns_step (f i) (f (Suc i))" shows "\<exists>n. \<forall>i\<ge>n. \<not> dns_progress (f i) (f (Suc i))"
  using finitely_much_progress assms by blast

definition ex_path :: "nat \<Rightarrow> DnsResult" where
  "ex_path i = (if i = 0 then ex_host else ex_found\<lparr>dr_now := dr_now ex_found + (i - 1)\<rparr>)"

lemma ex_progress: "dns_progress ex_host ex_found"
  unfolding ex_found_def by (rule dns_progress.answered) (simp_all add: ex_host)

lemma ex_path_step: "dns_step (ex_path i) (ex_path (Suc i))"
proof (cases i)
  case 0
  then show ?thesis using progress_step [OF ex_progress] by (simp add: ex_path_def)
next
  case (Suc j)
  then show ?thesis using dns_step.time [of "ex_path i" 1] by (simp add: ex_path_def)
qed

theorem dns_lookup_ends_witness:
  "dns_progress (ex_path 0) (ex_path 1) \<and> (\<exists>n. \<forall>i\<ge>n. \<not> dns_progress (ex_path i) (ex_path (Suc i)))"
proof
  show "dns_progress (ex_path 0) (ex_path 1)" using ex_progress by (simp add: ex_path_def)
  show "\<exists>n. \<forall>i\<ge>n. \<not> dns_progress (ex_path i) (ex_path (Suc i))"
  proof (rule dns_lookup_ends)
    show "dns_reachable (ex_path 0)" by (simp add: ex_path_def ex_host_reachable)
  qed (rule ex_path_step)
qed

section \<open>Destroyed lookups\<close>

text \<open>A lookup that its owner has given up.\<close>

definition gone :: "DnsResult \<Rightarrow> bool" where
  "gone d \<longleftrightarrow> dr_type d = Destroyed \<or> dr_deleted d \<and> dr_queries d = []"

lemma destroy_calls: "dr_calls (destroy d) = dr_calls d" "dr_queries (destroy d) = dr_queries d"
  "dr_type d = Destroyed \<Longrightarrow> dr_deleted (destroy d)"
  by (simp_all add: destroy_def transition_def dr_assert_def)

lemma gone_answer:
  assumes "dr_inv d" "dr_type d = Destroyed" "i < length (dr_queries d)" "fits (dr_queries d ! i) r" "reply_ok d r"
  shows "dr_calls (answer i r d) = dr_calls d \<and> gone (answer i r d)"
proof -
  have one: "take i qs @ drop (Suc i) qs = []" if "qs = [q]" "i < length qs" for q and qs :: "DnsQuery list" using that by simp
  obtain p where b: "base_ok d" and p: "in_phase p d" using assms(1) by (auto simp: dr_inv_def)
  let ?e = "remove_query i d"
  have destroyed: "dr_calls (destroy ?e) = dr_calls d \<and> gone (destroy ?e)" if "dr_queries d = [q]" for q
    using that assms(2,3) by (simp add: destroy_calls gone_def)
  show ?thesis
  proof (cases p)
    case Srvs
    then have q: "list_all is_srv_query (dr_queries d)" and c: "mSRVCount d = int (length (dr_queries d))" using p by simp_all
    then obtain n where n: "dr_queries d ! i = SrvQ n" using remaining_queries(3) [OF assms(3) q] by (cases "dr_queries d ! i") auto
    then obtain st rs where r: "r = SrvReply st rs" using assms(4) by (cases r) auto
    define e where "e = (if st = 0 then fold add_srv rs (?e\<lparr>mSRVCount := mSRVCount ?e - 1\<rparr>) else ?e\<lparr>mSRVCount := mSRVCount ?e - 1\<rparr>)"
    obtain ss where e: "e = ?e\<lparr>mSRVCount := mSRVCount ?e - 1, mSRVResults := mSRVResults ?e @ ss\<rparr>"
    proof (cases "st = 0")
      case True
      have "\<forall>r\<in>set rs. srv_admissible (dr_iface (?e\<lparr>mSRVCount := mSRVCount ?e - 1\<rparr>)) r" using assms(5) r by simp
      from add_srvs_frame [OF this] show thesis using that True unfolding e_def by auto
    next
      case False then show thesis using that [of "[]"] unfolding e_def by simp
    qed
    have a: "answer i r d = (if mSRVCount d = 1 then destroy (?e\<lparr>mSRVCount := mSRVCount ?e - 1\<rparr>) else e)"
      using onSrvResult_eq [OF _ _ e_def [symmetric]] c e assms(2) n r by (simp add: answer_def)
    show ?thesis unfolding a using e assms(2,3) c by (auto simp: destroy_calls gone_def)
  next
    case Enums then show ?thesis using p assms(2) by simp
  next
    case Idle then show ?thesis using p assms(2) by simp
  next
    case Starting then show ?thesis using p assms(2-4) destroyed by (cases r) (auto simp: answer_def lookupInternalWithEnum_def)
  next
    case Naptrs then show ?thesis using p assms(2-4) destroyed by (cases r) (auto simp: answer_def onNaptr_def)
  next
    case Hosts then show ?thesis using p assms(2-4) destroyed by (cases r) (auto simp: answer_def onHostResult_def hosts_done_def onAAAAResult_def)
  qed
qed

lemma gone_step: "dns_step d d' \<Longrightarrow> dr_inv d \<Longrightarrow> gone d \<Longrightarrow> dr_calls d' = dr_calls d \<and> gone d'"
proof (induction rule: dns_step.induct)
  case (answered i d r)
  then show ?case using gone_answer by (auto simp: gone_def)
next
  case (executed d c cs)
  then show ?case by (cases c) (auto simp: execute_defs gone_def)
qed (auto simp: gone_def)

lemma gone_steps:
  assumes "dns_step\<^sup>*\<^sup>* d d'" "dr_inv d" "gone d" shows "dr_calls d' = dr_calls d \<and> gone d' \<and> dr_inv d'"
  using assms by (induction rule: rtranclp_induct) (auto dest: gone_step dns_step_inv)

lemma destroy_gone: "dr_inv d \<Longrightarrow> \<not> dr_deleted d \<Longrightarrow> dr_type d \<noteq> Destroyed \<Longrightarrow> mDoingEnum d = 0 \<Longrightarrow> gone (destroy d)"
  by (auto simp: dr_inv_def gone_def destroy_def transition_def dr_assert_def waiting_def elim!: in_phase.elims)

text \<open>C18: After a lookup was given up outside the ENUM queries its handler is never called again, and with the answer to the
  last query that is under way it is deleted.\<close>

theorem destroyed_lookup_is_silent:
  assumes "dns_reachable d" "\<not> dr_deleted d" "dr_type d \<noteq> Destroyed" "mDoingEnum d = 0" "dns_step\<^sup>*\<^sup>* (destroy d) d'"
  shows "dr_calls d' = dr_calls d \<and> (dr_queries d' = [] \<longrightarrow> dr_deleted d')"
proof -
  have inv: "dr_inv d" by (rule dns_reachable_inv [OF assms(1)])
  then have "dr_calls d' = dr_calls (destroy d)" "gone d'" "dr_inv d'"
    using gone_steps [OF assms(5)] destroy_inv destroy_gone assms(2-4) by auto
  then show ?thesis by (auto simp: destroy_calls gone_def dr_inv_def waiting_def elim!: in_phase.elims)
qed

theorem destroyed_lookup_is_silent_witness:
  "dr_calls (answer 0 (HostReply 0 [''10.0.0.1'']) (destroy ex_host)) = [] \<and> dr_deleted (answer 0 (HostReply 0 [''10.0.0.1'']) (destroy ex_host))"
proof -
  have e: "mDoingEnum ex_host = 0" using dns_reachable_inv [OF ex_host_reachable] ex_host by (auto simp: dr_inv_def waiting_def elim!: in_phase.elims)
  have q: "dr_queries (destroy ex_host) = [HostQ ''b'']" using ex_host by (simp add: destroy_calls)
  then have "dns_step (destroy ex_host) (answer 0 (HostReply 0 [''10.0.0.1'']) (destroy ex_host))" by (intro dns_step.answered) simp_all
  then have s: "dns_step\<^sup>*\<^sup>* (destroy ex_host) (answer 0 (HostReply 0 [''10.0.0.1'']) (destroy ex_host))" by blast
  have "dr_queries (answer 0 (HostReply 0 [''10.0.0.1'']) (destroy ex_host)) = []"
    by (simp add: answer_def q onHostResult_def hosts_done_def ex_host destroy_def transition_def dr_assert_def ex_supported)
  then show ?thesis using destroyed_lookup_is_silent [OF ex_host_reachable _ _ e s] ex_host by simp
qed

text \<open>C23: The handler is told exactly once, by the answer that ends the waiting; an answer after which the lookup is still
  pending does not tell it.\<close>

theorem handler_told_when_resolved:
  assumes "dns_reachable d" "dr_type d = Pending" "i < length (dr_queries d)" "fits (dr_queries d ! i) r" "reply_ok d r"
  shows "filter (\<lambda>c. c = Handle) (dr_calls (answer i r d)) =
    filter (\<lambda>c. c = Handle) (dr_calls d) @ (if dr_type (answer i r d) = Pending then [] else [Handle])"
  using answer_told [OF dns_reachable_inv [OF assms(1)] assms(2-)] by (simp add: told_def)

theorem handler_told_when_resolved_witness: "filter (\<lambda>c. c = Handle) (dr_calls ex_found) = [Handle]"
  using handler_told_when_resolved [OF ex_host_reachable, of 0 "HostReply 0 [''10.0.0.1'']"] ex_host ex_found
  by (simp add: ex_found_def [symmetric])

text \<open>A lookup of a telephone number whose ENUM answer comes after the transaction has gone.\<close>

definition ex_tel :: Uri where
  "ex_tel = \<lparr>u_scheme = ''tel'', u_user = ''+1234'', u_host = ''example.com'', u_port = 0, u_transport = None, u_maddr = None\<rparr>"

definition ex_enum :: NAPTR where
  "ex_enum = \<lparr>n_key = '''', n_order = 0, n_pref = 0, n_flags = ''u'', n_service = ''E2U+sip'',
     n_regex = (\<lambda>u. Some (ex_uri\<lparr>u_host := ''10.0.0.1''\<rparr>)), n_replacement = ''''\<rparr>"

definition ex_calling :: DnsResult where
  "ex_calling = answer 0 NoReply (lookup ex_tel (new_DnsResult ex_iface \<lparr>mList = Map.empty, mListeners = []\<rparr> (\<lambda>_. True)
     [''e164.arpa''] [''example.com''] 0 (\<lambda>_. 0)))"

lemma ex_calling:
  "ex_calling = (new_DnsResult ex_iface \<lparr>mList = Map.empty, mListeners = []\<rparr> (\<lambda>_. True) [''e164.arpa''] [''example.com''] 0 (\<lambda>_. 0))
     \<lparr>mInputUri := ex_tel, mDoingEnum := 1, dr_queries := [EnumQ 0 ''4.3.2.1.e164.arpa'']\<rparr>"
  by (simp add: ex_calling_def answer_def lookup_def ask_dns_def lookupInternalWithEnum_def new_DnsResult_def getEnumLookups_def
      isEnumSearchable_def ex_tel_def is_digit_def ask_enums_eq dr_assert_def)

lemma ex_address: "isIpAddress ''10.0.0.1''"
  by (simp add: isIpAddress_def isIpV4Address_def is_digit_def octet_ok_def numeral_eq_Suc)

lemma ex_enum: "is_enum_record ex_enum" "n_regex ex_enum u = Some (ex_uri\<lparr>u_host := ''10.0.0.1''\<rparr>)"
  by (simp_all add: is_enum_record_def ex_enum_def Let_def char_of_eq_iff take_bit_eq_mod)

lemma ex_late_answer:
  "answer 0 (NaptrReply 0 [ex_enum]) (destroy ex_calling) = lookupInternal (ex_uri\<lparr>u_host := ''10.0.0.1''\<rparr>)
     ((new_DnsResult ex_iface \<lparr>mList = Map.empty, mListeners = []\<rparr> (\<lambda>_. True) [''e164.arpa''] [''example.com''] 0 (\<lambda>_. 0))
       \<lparr>mInputUri := ex_tel, dr_type := Destroyed, dr_calls := [RewriteRequest (ex_uri\<lparr>u_host := ''10.0.0.1''\<rparr>)],
        mEnumDestinations := [(0, ex_uri\<lparr>u_host := ''10.0.0.1''\<rparr>)]\<rparr>)"
  by (simp add: ex_calling destroy_def transition_def dr_assert_def new_DnsResult_def answer_def onEnumResult_def Let_def better_enum_def ex_enum)

text \<open>An ENUM answer that comes after the lookup was destroyed still rewrites the request of the transaction that has
  gone, calls its handler, and fails the assertion that a destroyed lookup does not become available.\<close>

theorem enum_answer_reaches_dead_transaction:
  "dr_type (destroy ex_calling) = Destroyed \<and>
   dr_calls (answer 0 (NaptrReply 0 [ex_enum]) (destroy ex_calling)) = [RewriteRequest (ex_uri\<lparr>u_host := ''10.0.0.1''\<rparr>), Handle] \<and>
   dr_failed (answer 0 (NaptrReply 0 [ex_enum]) (destroy ex_calling))"
proof -
  have "dr_type (destroy ex_calling) = Destroyed" by (simp add: ex_calling destroy_def transition_def new_DnsResult_def)
  then show ?thesis unfolding ex_late_answer
    by (simp add: lookupInternal_def ex_uri_def lookup_target_def without_brackets_def is_sips_def ex_address new_DnsResult_def transition_def
      dr_assert_def lookup_numeric_def probe_if_def probe_back_def probe_def ex_supported get_mark_def getMarkType_def call_handler_def Let_def)
qed

section \<open>Targets\<close>

text \<open>C19: The SRV record that is used next is chosen as RFC 2782 says: among the leading records of one priority and
  transport, the one in whose interval of the cumulated weights a random number below their sum falls; the first one when the
  weights are zero. It is taken off the list and the order of the others is kept.\<close>

theorem srv_weighted_choice:
  assumes "dns_reachable d" "mSRVResults d \<noteq> []" "mSRVCount d = 0"
  defines "w \<equiv> weights (lead (mSRVResults d))" and "r \<equiv> int (dr_random d (dr_drawn d))"
  shows "\<exists>pre s post. mSRVResults d = pre @ s # post \<and> fst (retrieveSRV d) = s \<and> mSRVResults (snd (retrieveSRV d)) = pre @ post \<and>
    srv_priority s = srv_priority (hd (mSRVResults d)) \<and> srv_transport s = srv_transport (hd (mSRVResults d)) \<and>
    (if w = 0 then pre = [] else weights pre \<le> r mod w \<and> r mod w < weights pre + srv_weight s)"
proof -
  have "\<forall>s\<in>set (mSRVResults d). srv_good d s" "cum_ok (mSRVResults d) (mCumulativeWeight d)"
    using dns_reachable_inv [OF assms(1)] by (auto simp: dr_inv_def base_ok_def)
  then obtain pre s post u n where s: "mSRVResults d = pre @ s # post"
    "retrieveSRV d = (s, d\<lparr>mSRVResults := pre @ post, mCumulativeWeight := u, dr_drawn := n\<rparr>)" "s \<in> set (lead (mSRVResults d))"
    "w = 0 \<longrightarrow> pre = []" "w \<noteq> 0 \<longrightarrow> weights pre \<le> r mod w \<and> r mod w < weights pre + srv_weight s"
    using retrieveSRV_spec [OF assms(2,3)] unfolding w_def r_def by metis
  then show ?thesis using lead_group [OF s(3)] by (intro exI [of _ pre] exI [of _ s] exI [of _ post]) (auto simp: same_group_def)
qed

theorem srv_weighted_choice_witness: "srv_target (fst (retrieveSRV ex_found)) = ''a'' \<and> mSRVResults (snd (retrieveSRV ex_found)) = []"
proof -
  obtain s where s: "mSRVResults ex_found = [s]" "srv_target s = ''a''" using ex_found by auto
  have "mSRVCount ex_found = 0" using dns_reachable_inv [OF ex_found_reachable] ex_found
    by (auto simp: dr_inv_def waiting_def elim!: in_phase.elims)
  then obtain pre x post where "mSRVResults ex_found = pre @ x # post" "fst (retrieveSRV ex_found) = x"
    "mSRVResults (snd (retrieveSRV ex_found)) = pre @ post" using srv_weighted_choice [OF ex_found_reachable] s(1) by auto
  then show ?thesis using s by (cases pre) auto
qed

text \<open>C20: A host answer offers the addresses that are not marked, in the order of the answer, behind the targets that are
  there. Grey targets are held back and offered only when there is no other target and no SRV record left, black ones never.
  The lookup is finished when there is nothing to offer, and available otherwise.\<close>

theorem host_answer_targets:
  fixes status :: nat and addrs :: "string list"
  assumes "dns_reachable d" "dr_type d = Pending" "dr_queries d = [HostQ h]"
  defines "ok \<equiv> mResults d @ found OK status addrs d" and "grey \<equiv> mGreylistedTuples d @ found GREY status addrs d"
    and "d' \<equiv> answer 0 (HostReply status addrs) d"
  shows "if ok = [] \<and> mSRVResults d = []
    then mResults d' = grey \<and> mGreylistedTuples d' = [] \<and> dr_type d' = (if grey = [] then Finished else Available)
    else mResults d' = ok \<and> mGreylistedTuples d' = grey \<and> dr_type d' = Available"
proof -
  have p: "isSupportedProtocol (dr_transport d) (dr_iface d)" "mSRVCount d = 0"
    using dns_reachable_inv [OF assms(1)] assms(2,3) by (auto simp: dr_inv_def waiting_def elim!: in_phase.elims)
  let ?e = "remove_query 0 d"
  have e: "d' = onHostResult status addrs ?e" using assms(3) by (simp add: d'_def answer_def)
  have f: "mResults ?e @ found OK status addrs ?e = ok" "mGreylistedTuples ?e @ found GREY status addrs ?e = grey"
    by (simp_all add: ok_def grey_def found_def mark_of_def host_tuple_def)
  obtain mm where "d' = call_handler (if ok = [] \<and> mSRVResults ?e = [] then
       if grey = [] then ?e\<lparr>mResults := [], mGreylistedTuples := [], dr_marks := mm, dr_type := Finished, mCurrentPath := []\<rparr>
       else ?e\<lparr>dr_marks := mm, mResults := grey, mGreylistedTuples := [], dr_type := Available\<rparr>
     else ?e\<lparr>mResults := ok, mGreylistedTuples := grey, dr_marks := mm, dr_type := Available\<rparr>)"
    using onHostResult_eq [of ?e status addrs, unfolded f] p assms(2) e by auto
  then show ?thesis by (simp add: call_handler_def)
qed

theorem host_answer_targets_witness: "map tp_host (mResults ex_found) = [''10.0.0.1''] \<and> dr_type ex_found = Available"
proof -
  have "mark_of ex_host t = OK" for t using ex_host by (simp add: mark_of_def getMarkType_def)
  then have "map tp_host (found OK 0 [''10.0.0.1''] ex_host) = [''10.0.0.1'']" by (simp add: found_def host_tuple_def)
  moreover have "mSRVResults ex_host \<noteq> []" using ex_host by auto
  ultimately show ?thesis using host_answer_targets [OF ex_host_reachable, of "''b''" 0 "[''10.0.0.1'']"] ex_host
    by (simp add: ex_found_def [symmetric])
qed

text \<open>What the transaction sees of a lookup.\<close>

fun targets :: "DnsResult \<Rightarrow> DnsView" where
  "targets d = (case dr_type d of Available \<Rightarrow> DnsTargets (mResults d) | Finished \<Rightarrow> DnsFinished | _ \<Rightarrow> DnsPending)"

lemma reachable_targets_known: "dr_inv d \<Longrightarrow> targets_known (targets d)"
  by (auto simp: dr_inv_def base_ok_def tuple_known_def list_all_iff split: Type.split)

text \<open>Taking targets one after the other.\<close>

fun take_targets :: "('s \<Rightarrow> Tuple \<times> 's) \<Rightarrow> nat \<Rightarrow> 's \<Rightarrow> Tuple list \<times> 's" where
  "take_targets f 0 s = ([], s)"
| "take_targets f (Suc n) s = (case f s of (t, s) \<Rightarrow> case take_targets f n s of (ts, s) \<Rightarrow> (t # ts, s))"

text \<open>What a source of targets promises to a transaction.\<close>

locale target_source =
  fixes ok :: "'s \<Rightarrow> bool" and view :: "'s \<Rightarrow> DnsView" and ask_targets :: "'s \<Rightarrow> 's" and take_target :: "'s \<Rightarrow> Tuple \<times> 's"
  assumes ask_ok: "ok s \<Longrightarrow> ok (ask_targets s)"
    and ask_same: "ok s \<Longrightarrow> view s \<noteq> DnsTargets [] \<Longrightarrow> ask_targets s = s"
    and ask_done: "ok s \<Longrightarrow> view (ask_targets s) \<noteq> DnsTargets []"
    and known: "ok s \<Longrightarrow> targets_known (view s)"
    and take: "ok s \<Longrightarrow> view s = DnsTargets (t # ts) \<Longrightarrow>
      fst (take_target s) = t \<and> ok (snd (take_target s)) \<and> view (snd (take_target s)) = DnsTargets ts"
begin

lemma ask_twice: "ok s \<Longrightarrow> ask_targets (ask_targets s) = ask_targets s"
  by (simp add: ask_same ask_ok ask_done)

lemma take_all:
  assumes "ok s" "view s = DnsTargets ts"
  shows "fst (take_targets take_target (length ts) s) = ts \<and> view (snd (take_targets take_target (length ts) s)) = DnsTargets []"
  using assms
proof (induction ts arbitrary: s)
  case (Cons t ts)
  obtain s' where s': "take_target s = (t, s')" "ok s'" "view s' = DnsTargets ts" using take [OF Cons.prems] by (metis prod.collapse)
  then show ?case using Cons.IH [of s'] by (auto split: prod.split)
qed simp

text \<open>The transaction layer reads the same from its environment.\<close>

lemma prime_view:
  assumes "ok s" "view s = DnsTargets [] \<Longrightarrow> a_dns (fst (ask c)) = view (ask_targets s)"
  shows "fst (prime (view s) c) = view (ask_targets s)"
  using assms ask_same [OF assms(1)] ask_done [OF assms(1)] by (cases "view s = DnsTargets []") (auto simp: prime_def split: prod.split)

end

definition live :: "DnsResult \<Rightarrow> bool" where
  "live d \<longleftrightarrow> dr_inv d \<and> dr_type d \<noteq> Destroyed"

lemma available_live: "live d \<Longrightarrow> live (snd (available d))"
  using available_inv [of d] by (auto simp: live_def available_eq Let_def primeResults_type)

lemma next_live:
  assumes "live d" "targets d = DnsTargets (t # ts)"
  shows "fst (next_target d) = t \<and> live (snd (next_target d)) \<and> targets (snd (next_target d)) = DnsTargets ts"
proof -
  have d: "dr_inv d" "dr_type d = Available" "mResults d = t # ts" using assms by (auto simp: live_def split: Type.splits)
  then have a: "available d = (Available, d)" "dr_type d \<noteq> Destroyed" by (simp_all add: available_eq Let_def)
  obtain path where "next_target d = (t, d\<lparr>mLastResult := t, mResults := ts, mCurrentPath := path, mLastReturnedPath := path,
      mHaveReturnedResults := True\<rparr>)" using next_target_eq [OF d(1) a(2)] a(1) d(3) by auto
  moreover have "dr_inv (snd (next_target d))" using next_target_inv [OF d(1) a(2)] a(1) by simp
  ultimately show ?thesis using d(2) by (simp add: live_def)
qed

interpretation lookups: target_source live targets "\<lambda>d. snd (available d)" next_target
proof
  fix d :: DnsResult and t ts
  show "live d \<Longrightarrow> live (snd (available d))" by (rule available_live)
  show "live d \<Longrightarrow> targets d \<noteq> DnsTargets [] \<Longrightarrow> snd (available d) = d"
    by (auto simp: live_def available_eq Let_def split: Type.splits)
  show "live d \<Longrightarrow> targets (snd (available d)) \<noteq> DnsTargets []"
    using primeResults_done [of d] by (auto simp: live_def available_eq Let_def split: Type.splits)
  show "live d \<Longrightarrow> targets_known (targets d)" by (simp add: live_def reachable_targets_known del: targets.simps)
  show "live d \<Longrightarrow> targets d = DnsTargets (t # ts) \<Longrightarrow>
      fst (next_target d) = t \<and> live (snd (next_target d)) \<and> targets (snd (next_target d)) = DnsTargets ts" by (rule next_live)
qed

text \<open>C8: A lookup implements what the transaction layer assumes of it: asking for targets gives the answer that the
  transaction reads from its environment when the targets are used up, every target has a transport, and the targets are
  handed out one after the other in their order until none is left.\<close>

theorem lookup_refines_targets:
  assumes "dns_reachable d" "dr_type d \<noteq> Destroyed" "a_dns (fst (ask c)) = targets (primeResults d)"
  defines "d' \<equiv> snd (available d)"
  shows "fst (prime (targets d) c) = targets d' \<and> targets_known (targets d') \<and> targets d' \<noteq> DnsTargets [] \<and>
    (\<forall>ts. targets d' = DnsTargets ts \<longrightarrow>
       fst (take_targets next_target (length ts) d') = ts \<and> targets (snd (take_targets next_target (length ts) d')) = DnsTargets [])"
proof -
  have l: "live d" using dns_reachable_inv [OF assms(1)] assms(2) by (simp add: live_def)
  then have l': "live d'" unfolding d'_def by (rule available_live)
  have "targets d = DnsTargets [] \<Longrightarrow> d' = primeResults d" unfolding d'_def using assms(2) by (auto simp: available_eq Let_def split: Type.splits)
  then have "fst (prime (targets d) c) = targets d'"
    unfolding d'_def using lookups.prime_view [OF l] assms(3) by (simp only: d'_def)
  then show ?thesis using lookups.known [OF l'] lookups.ask_done [OF l] lookups.take_all [OF l'] unfolding d'_def by blast
qed

definition ex_answer :: Answer where
  "ex_answer = \<lparr>a_transmit = None, a_dns = targets (primeResults ex_found), a_tag = ''t''\<rparr>"

theorem lookup_refines_targets_witness:
  "fst (prime (targets ex_found) (new_Controller ''host'' default_timing 0 0 (\<lambda>_. ex_answer))) = DnsTargets (mResults ex_found) \<and>
   fst (take_targets next_target (length (mResults ex_found)) ex_found) = mResults ex_found"
proof -
  let ?c = "new_Controller ''host'' default_timing 0 0 (\<lambda>_. ex_answer)"
  have a: "available ex_found = (Available, ex_found)" using ex_found by (simp add: available_eq Let_def)
  have v: "targets ex_found = DnsTargets (mResults ex_found)" using ex_found by simp
  have "a_dns (fst (ask ?c)) = targets (primeResults ex_found)" by (simp add: ask_def new_Controller_def ex_answer_def)
  moreover have "dr_type ex_found \<noteq> Destroyed" using ex_found by simp
  ultimately show ?thesis using lookup_refines_targets [OF ex_found_reachable, of ?c] a v by simp
qed

section \<open>Lookups and transactions\<close>


lemma w_waits_for_dns: "map_option mDnsResult (mClientTransactionMap (w_run OPTIONS False) ''z1'') = Some (Some DnsPending)"
  by (simp add: w_client_defs)


section \<open>Where the code goes wrong\<close>

text \<open>A mark on an entry that is there keeps the expiry of the entry, so that marking a target again after the first mark
  has expired has no effect.\<close>

theorem expired_mark_is_kept:
  assumes "mListeners mm = []" "mList mm (mark_key t) = Some (old, m')" "old \<le> now"
  shows "fst (getMarkType now t (mark t expiry m mm)) = OK"
  using assms by (simp add: getMarkType_after_mark)

theorem expired_mark_is_kept_witness:
  "fst (getMarkType 20 no_tuple (mark no_tuple 1000 BLACK (mark no_tuple 10 GREY \<lparr>mList = Map.empty, mListeners = []\<rparr>))) = OK"
  by (rule expired_mark_is_kept [where old = 10 and m' = GREY]) (simp_all add: mark_def notifyListeners_def)

text \<open>A URI with a port and a transport parameter that the stack does not support fails an assertion.\<close>

theorem unsupported_transport_asserts:
  assumes "u_transport uri = Some t" "u_port uri \<noteq> 0" "\<not> isIpAddress (lookup_target uri)" "\<not> isSupportedProtocol t (dr_iface d)"
  shows "dr_failed (lookupInternal uri d)"
  using assms by (simp add: lookupInternal_def lookup_transport_def lookupHost_def isSupportedProtocol_def dr_assert_def Let_def)

theorem unsupported_transport_asserts_witness: "dr_failed (lookupInternal (ex_uri\<lparr>u_transport := Some TCP, u_port := 5060\<rparr>) ex_start)"
proof (rule unsupported_transport_asserts [where t = TCP])
  show "\<not> isIpAddress (lookup_target (ex_uri\<lparr>u_transport := Some TCP, u_port := 5060\<rparr>))"
    using ex_no_address by (simp add: lookup_target_def ex_uri_def without_brackets_def)
qed (simp_all add: ex_start_def lookup_def ask_dns_def new_DnsResult_def ex_supported)

text \<open>A NAPTR record for UDP that names the SRV records of TCP.\<close>

definition ex_misled :: DnsResult where
  "ex_misled = answer 0 (NaptrReply 0 [\<lparr>n_key = ''example.com'', n_order = 0, n_pref = 0, n_flags = ''s'', n_service = ''SIP+D2U'',
     n_regex = (\<lambda>_. None), n_replacement = ''_sip._tcp.example.com''\<rparr>]) ex_naptr"

text \<open>A NAPTR record for a supported service can name SRV records of a transport that the stack does not support; the
  answer to the SRV query then fails an assertion.\<close>

theorem naptr_to_unsupported_transport_asserts:
  "\<not> dr_failed ex_misled \<and> dr_queries ex_misled = [SrvQ ''_sip._tcp.example.com''] \<and>
   dr_failed (answer 0 (SrvReply 0 [(ex_srv 1 ''a'')\<lparr>rr_name := ''_sip._tcp.example.com''\<rparr>]) ex_misled)"
proof -
  let ?ns = "\<lparr>n_key = ''example.com'', n_order = 0, n_pref = 0, n_flags = ''s'', n_service = ''SIP+D2U'',
     n_regex = (\<lambda>_. None), n_replacement = ''_sip._tcp.example.com''\<rparr>"
  have s: "isSupported_service ''SIP+D2U'' ex_iface" by (simp add: isSupported_service_def ex_iface_def addTransportType_def count_up_def)
  have m: "ex_misled = ex_naptr\<lparr>mSRVCount := 1, mTopOrderedNAPTRs := [''_sip._tcp.example.com'' \<mapsto> ?ns], dr_queries := [SrvQ ''_sip._tcp.example.com'']\<rparr>"
    using s by (simp add: ex_misled_def ex_naptr ex_run onNaptr_def onNaptrResult_def supported_naptr_def follow_naptr_def ask_srv_def
        transition_def dr_assert_def)
  have t: "transport_of_key ''_sip._tcp.example.com'' = Some TCP" by (simp add: transport_of_key_def)
  show ?thesis unfolding m
    by (simp add: ex_naptr ex_run onSrvResult_def dr_assert_def Let_def add_srv_def ex_srv_def t srv_sort_def primeResults_def retrieveSRV_def
      cumulate_def draw_def leading_transport_def same_group_def transition_def ex_supported call_handler_def)
qed

section \<open>Numeric addresses\<close>

text \<open>\<^verbatim>\<open>DnsUtil::isIpV4Address\<close> accepts a text exactly if it is four numbers below 256 in decimal notation without
  leading zeros, separated by dots.\<close>

theorem isIpV4Address_exact:
  "isIpV4Address s \<longleftrightarrow> (\<exists>a<256. \<exists>b<256. \<exists>c<256. \<exists>d<256.
     s = decimal_text a @ ''.'' @ decimal_text b @ ''.'' @ decimal_text c @ ''.'' @ decimal_text d)"
proof -
  have "isIpV4Address s = ip4_loop (Suc (Suc (Suc (Suc 0)))) s" by (simp add: isIpV4Address_def eval_nat_numeral del: ip4_loop.simps)
  then show ?thesis unfolding ip4_more ip4_last by (simp, metis)
qed

end
