(* ===== verification/RRecord.thy ===== *)
theory RRecord
  imports DnsName "HOL-Library.List_Lexorder" "HOL-Library.Product_Lexorder"
begin

text \<open>Resource records of the SIP stack's DNS (\<^verbatim>\<open>rutil/dns\<close>): \<^verbatim>\<open>RROverlay.cxx\<close>, the view of a record inside a
  received message, and the classes of parsed records (\<^verbatim>\<open>DnsHostRecord.cxx\<close>, \<^verbatim>\<open>DnsAAAARecord.cxx\<close>, \<^verbatim>\<open>DnsSrvRecord.cxx\<close>,
  \<^verbatim>\<open>DnsNaptrRecord.cxx\<close>, \<^verbatim>\<open>DnsCnameRecord.cxx\<close>), in a build with IPv6. Memory for names is always found.

  An operation ends with a value, throws an exception that carries a text, or goes wrong: it reads past the end of
  the message, fails an assertion, takes the first element of an empty vector, follows a null pointer or uses an
  object that was deleted.\<close>

named_theorems outcome_simps \<open>sequencing of operations that may throw or go wrong\<close>

section \<open>Outcomes\<close>

datatype fault = ReadPastEnd | AssertionFailed | NoElement | NullPointer | DeletedObject

datatype 'a outcome = Ok 'a | Throw string | Fault fault

primrec and_then :: "'a outcome \<Rightarrow> ('a \<Rightarrow> 'b outcome) \<Rightarrow> 'b outcome" where
  "and_then (Ok x) f = f x"
| "and_then (Throw e) f = Throw e"
| "and_then (Fault e) f = Fault e"

definition checked :: "'a option \<Rightarrow> 'a outcome" where
  "checked r = (case r of None \<Rightarrow> Fault ReadPastEnd | Some x \<Rightarrow> Ok x)"

definition asserting :: "bool \<Rightarrow> 'a outcome \<Rightarrow> 'a outcome" where
  "asserting b r = (if b then r else Fault AssertionFailed)"

text \<open>A loop over a list that ends at the first exception or fault.\<close>

fun fold_ok :: "('x \<Rightarrow> 's \<Rightarrow> 's outcome) \<Rightarrow> 'x list \<Rightarrow> 's \<Rightarrow> 's outcome" where
  "fold_ok f [] s = Ok s"
| "fold_ok f (x # xs) s = and_then (f x s) (fold_ok f xs)"

text \<open>The outcome is no fault, but may be an exception.\<close>

primrec sound :: "'a outcome \<Rightarrow> bool" where
  "sound (Ok x) = True"
| "sound (Throw e) = True"
| "sound (Fault e) = False"

text \<open>Decoding a name at an offset of a message; the constructor of \<^verbatim>\<open>Data\<close> takes the bytes before the first NUL.\<close>

definition expand_at :: "byte list \<Rightarrow> nat \<Rightarrow> (ares_status + cstring \<times> nat) outcome" where
  "expand_at abuf p = checked (ares_expand_name True abuf (length abuf) p)"

definition c_data :: "cstring \<Rightarrow> cstring" where
  "c_data s = takeWhile (\<lambda>b. b \<noteq> 0) s"

text \<open>A name, or an exception with the text \<open>e\<close>.\<close>

definition name_or_throw :: "string \<Rightarrow> byte list \<Rightarrow> nat \<Rightarrow> (cstring \<times> nat) outcome" where
  "name_or_throw e abuf p = and_then (expand_at abuf p) (\<lambda>r. case r of Inl _ \<Rightarrow> Throw e | Inr nl \<Rightarrow> Ok nl)"

section \<open>Constants\<close>

definition T_SOA :: nat where "T_SOA = 6"
definition T_AAAA :: nat where "T_AAAA = 28"
definition T_SRV :: nat where "T_SRV = 33"
definition T_NAPTR :: nat where "T_NAPTR = 35"

lemmas rr_types = T_A_def T_CNAME_def T_SOA_def T_AAAA_def T_SRV_def T_NAPTR_def

definition DNS_HEADER_NSCOUNT :: "byte list \<Rightarrow> nat option" where
  "DNS_HEADER_NSCOUNT h = DNS__16BIT h 8"

definition DNS_HEADER_ARCOUNT :: "byte list \<Rightarrow> nat option" where
  "DNS_HEADER_ARCOUNT h = DNS__16BIT h 10"

section \<open>Overlays\<close>

text \<open>\<open>mData\<close> is an offset into the message \<open>mMsg\<close>.\<close>

record RROverlay =
  mData :: nat
  mMsg :: "byte list"
  mDataLen :: nat
  mNameLen :: nat
  mTTL :: int
  mType :: nat
  mDomain :: cstring

definition new_RROverlay :: "nat \<Rightarrow> byte list \<Rightarrow> RROverlay outcome" where
  "new_RROverlay aptr abuf =
     and_then (name_or_throw ''Failed parse of RR'' abuf aptr) (\<lambda>(name, len).
     let aptr = aptr + len in
     if aptr + RRFIXEDSZ > length abuf then Throw ''Failed parse of RR''
     else
       and_then (checked (DNS_RR_TYPE abuf aptr)) (\<lambda>type.
       and_then (checked (DNS_RR_LEN abuf aptr)) (\<lambda>dlen.
       and_then (checked (DNS_RR_TTL abuf aptr)) (\<lambda>ttl.
       if aptr + RRFIXEDSZ + dlen > length abuf then Throw ''Failed parse of RR''
       else Ok \<lparr>mData = aptr + RRFIXEDSZ, mMsg = abuf, mDataLen = dlen, mNameLen = len, mTTL = ttl, mType = type,
                mDomain = c_data name\<rparr>))))"

text \<open>The order of \<^verbatim>\<open>operator<\<close>: by type, then by domain as it is written.\<close>

definition overlay_key :: "RROverlay \<Rightarrow> nat \<times> cstring" where
  "overlay_key v = (mType v, mDomain v)"

definition overlay_name_pos :: "RROverlay \<Rightarrow> nat" where
  "overlay_name_pos v = mData v - mNameLen v - RRFIXEDSZ"

section \<open>Records\<close>

datatype DnsResourceRecord =
    DnsHostRecord (mName: cstring) (mAddr: "byte list")
  | DnsAAAARecord (mName: cstring) (mAddr: "byte list")
  | DnsSrvRecord (mName: cstring) (mPriority: int) (mWeight: nat) (mPort: nat) (mTarget: cstring)
  | DnsNaptrRecord (mName: cstring) (mOrder: int) (mPreference: nat) (mFlags: cstring) (mService: cstring)
      (mRegexp: "cstring \<times> cstring") (mReplacement: cstring)
  | DnsCnameRecord (mName: cstring) (mCname: cstring)

fun rr_type :: "DnsResourceRecord \<Rightarrow> nat" where
  "rr_type (DnsHostRecord _ _) = T_A"
| "rr_type (DnsAAAARecord _ _) = T_AAAA"
| "rr_type (DnsSrvRecord _ _ _ _ _) = T_SRV"
| "rr_type (DnsNaptrRecord _ _ _ _ _ _ _) = T_NAPTR"
| "rr_type (DnsCnameRecord _ _) = T_CNAME"

text \<open>The address is copied without a look at the length of the data.\<close>

definition new_DnsHostRecord :: "RROverlay \<Rightarrow> DnsResourceRecord outcome" where
  "new_DnsHostRecord v =
     and_then (expand_at (mMsg v) (overlay_name_pos v)) (\<lambda>r. case r of
        Inl _ \<Rightarrow> Fault AssertionFailed
      | Inr (name, _) \<Rightarrow>
          and_then (checked (rd_range (mMsg v) (mData v) 4)) (\<lambda>addr. Ok (DnsHostRecord (c_data name) addr)))"

text \<open>Here the status is not looked at, but a null name fails the assertion of \<^verbatim>\<open>Data::operator=\<close>.\<close>

definition new_DnsAAAARecord :: "RROverlay \<Rightarrow> DnsResourceRecord outcome" where
  "new_DnsAAAARecord v =
     and_then (expand_at (mMsg v) (overlay_name_pos v)) (\<lambda>r. case r of
        Inl _ \<Rightarrow> Fault AssertionFailed
      | Inr (name, _) \<Rightarrow>
          and_then (checked (rd_range (mMsg v) (mData v) 16)) (\<lambda>addr. Ok (DnsAAAARecord (c_data name) addr)))"

definition new_DnsSrvRecord :: "RROverlay \<Rightarrow> DnsResourceRecord outcome" where
  "new_DnsSrvRecord v =
     and_then (name_or_throw ''Failed parse of SRV record'' (mMsg v) (overlay_name_pos v)) (\<lambda>(name, _).
     and_then (checked (DNS__16BIT (mMsg v) (mData v))) (\<lambda>priority.
     and_then (checked (DNS__16BIT (mMsg v) (mData v + 2))) (\<lambda>weight.
     and_then (checked (DNS__16BIT (mMsg v) (mData v + 4))) (\<lambda>port.
     and_then (name_or_throw ''Failed parse of SRV record'' (mMsg v) (mData v + 6)) (\<lambda>(target, _).
     Ok (DnsSrvRecord (c_data name) (int priority) weight port (c_data target)))))))"

definition new_DnsCnameRecord :: "RROverlay \<Rightarrow> DnsResourceRecord outcome" where
  "new_DnsCnameRecord v =
     and_then (name_or_throw ''Failed parse of CNAME record'' (mMsg v) (overlay_name_pos v)) (\<lambda>(name, _).
     and_then (name_or_throw ''Failed parse of CNAME record'' (mMsg v) (mData v)) (\<lambda>(cname, _).
     Ok (DnsCnameRecord (c_data name) (c_data cname))))"

text \<open>\<^verbatim>\<open>RegExp\<close>: the two parts of a substitution expression, delimited by its first character.\<close>

definition new_RegExp :: "cstring \<Rightarrow> (cstring \<times> cstring) outcome" where
  "new_RegExp d =
     (if length d > 1 then
        let delim = hd d;
            r1 = dropWhile (\<lambda>c. c \<noteq> delim) (tl d);
            r2 = dropWhile (\<lambda>c. c \<noteq> delim) (tl r1)
        in if r1 = [] \<or> r2 = [] then Throw ''skipped over eof''
           else Ok (takeWhile (\<lambda>c. c \<noteq> delim) (tl d), takeWhile (\<lambda>c. c \<noteq> delim) (tl r1))
      else Ok ([], []))"

text \<open>A string of the NAPTR data with its length byte, and the position behind it.\<close>

definition char_string :: "RROverlay \<Rightarrow> nat \<Rightarrow> (cstring \<times> nat) outcome" where
  "char_string v pPos =
     and_then (checked (rd (mMsg v) pPos)) (\<lambda>b. let len = unat b in
     if pPos + len + 1 > mData v + mDataLen v then Throw ''Failed parse of NAPTR record''
     else and_then (checked (rd_range (mMsg v) (pPos + 1) len)) (\<lambda>s. Ok (s, pPos + len + 1)))"

definition new_DnsNaptrRecord :: "RROverlay \<Rightarrow> DnsResourceRecord outcome" where
  "new_DnsNaptrRecord v =
     and_then (name_or_throw ''Failed parse of NAPTR record'' (mMsg v) (overlay_name_pos v)) (\<lambda>(name, _).
     and_then (checked (DNS__16BIT (mMsg v) (mData v))) (\<lambda>order.
     and_then (checked (DNS__16BIT (mMsg v) (mData v + 2))) (\<lambda>preference.
     and_then (char_string v (mData v + 4)) (\<lambda>(flags, pPos).
     and_then (char_string v pPos) (\<lambda>(service, pPos).
     and_then (char_string v pPos) (\<lambda>(regexp, pPos).
     and_then (new_RegExp regexp) (\<lambda>re.
     and_then (checked (rd (mMsg v) pPos)) (\<lambda>b.
     if b \<noteq> 0 then
       and_then (name_or_throw ''Failed parse of NAPTR record'' (mMsg v) pPos) (\<lambda>(replacement, _).
       Ok (DnsNaptrRecord (c_data name) (int order) preference flags service re (c_data replacement)))
     else Ok (DnsNaptrRecord (c_data name) (int order) preference flags service re [])))))))))"

text \<open>\<^verbatim>\<open>RRFactory::create\<close> by the type the factory is registered for; there is no factory for other types.\<close>

definition create :: "nat \<Rightarrow> (RROverlay \<Rightarrow> DnsResourceRecord outcome) option" where
  "create t =
     (if t = T_CNAME then Some new_DnsCnameRecord
      else if t = T_NAPTR then Some new_DnsNaptrRecord
      else if t = T_SRV then Some new_DnsSrvRecord
      else if t = T_AAAA then Some new_DnsAAAARecord
      else if t = T_A then Some new_DnsHostRecord
      else None)"

section \<open>Values of records\<close>

fun dec_text :: "nat \<Rightarrow> cstring" where
  "dec_text n = (if n < 10 then [word_of_nat (48 + n)] else dec_text (n div 10) @ [word_of_nat (48 + n mod 10)])"

declare dec_text.simps [simp del]

text \<open>\<^verbatim>\<open>DnsUtil::inet_ntop\<close> of an IPv4 address.\<close>

fun inet_ntop4 :: "byte list \<Rightarrow> cstring" where
  "inet_ntop4 [] = []"
| "inet_ntop4 [b] = dec_text (unat b)"
| "inet_ntop4 (b # bs) = dec_text (unat b) @ DOT # inet_ntop4 bs"

text \<open>\<^verbatim>\<open>isSameValue\<close>. The text of an IPv6 address is the C library's, given by \<open>ntop6\<close>.\<close>

fun isSameValue :: "(byte list \<Rightarrow> cstring) \<Rightarrow> cstring \<Rightarrow> DnsResourceRecord \<Rightarrow> bool" where
  "isSameValue ntop6 value (DnsHostRecord _ a) \<longleftrightarrow> inet_ntop4 a = value"
| "isSameValue ntop6 value (DnsAAAARecord _ a) \<longleftrightarrow> ntop6 a = value"
| "isSameValue ntop6 value (DnsSrvRecord _ _ _ port target) \<longleftrightarrow> value = target @ COLON # dec_text port"
| "isSameValue ntop6 value (DnsNaptrRecord _ _ _ _ _ _ replacement) \<longleftrightarrow> replacement = value"
| "isSameValue ntop6 value (DnsCnameRecord _ cname) \<longleftrightarrow> cname = value"

section \<open>Lemmas\<close>

lemma and_then_eq_Ok [outcome_simps]: "and_then r f = Ok y \<longleftrightarrow> (\<exists>x. r = Ok x \<and> f x = Ok y)"
  by (cases r) auto

lemma sound_and_then [outcome_simps]: "sound (and_then r f) \<longleftrightarrow> sound r \<and> (\<forall>x. r = Ok x \<longrightarrow> sound (f x))"
  by (cases r) auto

lemma checked_eq_Ok [outcome_simps]: "checked r = Ok x \<longleftrightarrow> r = Some x"
  by (cases r) (auto simp: checked_def)

lemma sound_checked [outcome_simps]: "sound (checked r) \<longleftrightarrow> r \<noteq> None"
  by (cases r) (auto simp: checked_def)

lemma checked_Some [simp]: "checked (Some x) = Ok x"
  by (simp add: checked_def)

lemma asserting_eq_Ok [outcome_simps]: "asserting b r = Ok x \<longleftrightarrow> b \<and> r = Ok x"
  by (simp add: asserting_def)

lemma sound_asserting [outcome_simps]: "sound (asserting b r) \<longleftrightarrow> b \<and> sound r"
  by (simp add: asserting_def)

lemma case_sum_Ok [outcome_simps]:
  "(case r of Inl e \<Rightarrow> Fault x | Inr y \<Rightarrow> f y) = Ok z \<longleftrightarrow> (\<exists>y. r = Inr y \<and> f y = Ok z)"
  "(case r of Inl e \<Rightarrow> Throw m | Inr y \<Rightarrow> f y) = Ok z \<longleftrightarrow> (\<exists>y. r = Inr y \<and> f y = Ok z)"
  by (auto split: sum.splits)

lemma case_list_Ok [outcome_simps]:
  "(case xs of [] \<Rightarrow> r | v # vs \<Rightarrow> f v vs) = Ok z \<longleftrightarrow> xs = [] \<and> r = Ok z \<or> (\<exists>v vs. xs = v # vs \<and> f v vs = Ok z)"
  by (auto split: list.splits)

text \<open>Inside the message a name is decoded or refused, and its encoding ends inside.\<close>

lemma expand_at_inside:
  assumes "p \<le> length abuf"
  shows "(\<exists>e. expand_at abuf p = Ok (Inl e)) \<or> (\<exists>s k. expand_at abuf p = Ok (Inr (s, k)) \<and> 0 < k \<and> p + k \<le> length abuf)"
  using order_refl [of "length abuf"] assms
  by (cases rule: expand_name_cases [where m = True]) (auto simp: expand_at_def enc_size_pos dest: name_at_enc_size_le)

lemma sound_expand_at: "p \<le> length abuf \<Longrightarrow> sound (expand_at abuf p)"
  using expand_at_inside [of p abuf] by auto

lemma expand_at_bound: "expand_at abuf p = Ok (Inr (s, k)) \<Longrightarrow> p \<le> length abuf \<Longrightarrow> 0 < k \<and> p + k \<le> length abuf"
  using expand_at_inside [of p abuf] by auto

lemma sound_name_or_throw: "p \<le> length abuf \<Longrightarrow> sound (name_or_throw e abuf p)"
  by (auto simp: name_or_throw_def outcome_simps sound_expand_at split: sum.splits)

lemma name_or_throw_Ok: "name_or_throw e abuf p = Ok (s, k) \<longleftrightarrow> expand_at abuf p = Ok (Inr (s, k))"
  by (cases "expand_at abuf p") (auto simp: name_or_throw_def split: sum.splits)

end
