(* ===== verification/RRCacheM.thy ===== *)
theory RRCacheM
  imports RRecord
begin

text \<open>\<^verbatim>\<open>RRList.cxx\<close> and \<^verbatim>\<open>RRCache.cxx\<close>: the records of one domain and type with their time of expiry, and the cache of
  these lists. \<open>mRRSet\<close> is the \<^verbatim>\<open>std::set\<close> in its order; \<open>mLru\<close> is the intrusive list of the same nodes, the least
  recently used first, a node being named by its key. The clock (in seconds, 64 bits) is an argument.\<close>

section \<open>Lists of records\<close>

type_synonym secs = "64 word"
type_synonym rr_key = "nat \<times> cstring"

record RRList =
  mRecords :: "DnsResourceRecord list"
  mKey :: cstring
  mRRType :: nat
  mStatus :: nat
  mAbsoluteExpiry :: secs

definition ULONG_MAX :: secs where "ULONG_MAX = - 1"

text \<open>A \<^verbatim>\<open>int\<close> in 64 bit arithmetic; a negative one wraps.\<close>

definition ulong :: "int \<Rightarrow> secs" where
  "ulong t = word_of_int t"

definition new_RRList_key :: "cstring \<Rightarrow> nat \<Rightarrow> RRList" where
  "new_RRList_key key rrtype = \<lparr>mRecords = [], mKey = key, mRRType = rrtype, mStatus = 0, mAbsoluteExpiry = ULONG_MAX\<rparr>"

definition new_RRList_status :: "secs \<Rightarrow> cstring \<Rightarrow> nat \<Rightarrow> int \<Rightarrow> nat \<Rightarrow> RRList" where
  "new_RRList_status now key rrtype ttl status =
     \<lparr>mRecords = [], mKey = key, mRRType = rrtype, mStatus = status, mAbsoluteExpiry = ulong ttl + now\<rparr>"

definition RRList_update_host :: "secs \<Rightarrow> DnsResourceRecord \<Rightarrow> int \<Rightarrow> RRList \<Rightarrow> RRList" where
  "RRList_update_host now r ttl l = l\<lparr>mRecords := [r], mAbsoluteExpiry := now + ulong ttl\<rparr>"

definition new_RRList_host :: "secs \<Rightarrow> DnsResourceRecord \<Rightarrow> int \<Rightarrow> RRList" where
  "new_RRList_host now r ttl = RRList_update_host now r ttl (new_RRList_key (mName r) T_A)"

text \<open>A record that cannot be parsed is left out. The least time to live counts, but not less than \<open>ttl\<close>. The status
  stays as it is.\<close>

fun update_loop ::
  "(RROverlay \<Rightarrow> DnsResourceRecord outcome) \<Rightarrow> RROverlay list \<Rightarrow> DnsResourceRecord list \<Rightarrow> secs
   \<Rightarrow> (DnsResourceRecord list \<times> secs) outcome" where
  "update_loop f [] rs e = Ok (rs, e)"
| "update_loop f (v # vs) rs e =
     (case f v of
        Ok r \<Rightarrow> update_loop f vs (rs @ [r]) (if ulong (mTTL v) < e then ulong (mTTL v) else e)
      | Throw _ \<Rightarrow> update_loop f vs rs e
      | Fault x \<Rightarrow> Fault x)"

definition RRList_update ::
  "secs \<Rightarrow> (RROverlay \<Rightarrow> DnsResourceRecord outcome) \<Rightarrow> RROverlay list \<Rightarrow> int \<Rightarrow> RRList \<Rightarrow> RRList outcome" where
  "RRList_update now f vs ttl l =
     and_then (update_loop f vs [] ULONG_MAX) (\<lambda>(rs, e).
     let e = (if e < ulong ttl then ulong ttl else e)
     in Ok (l\<lparr>mRecords := rs, mAbsoluteExpiry := e + now\<rparr>))"

section \<open>The set\<close>

text \<open>\<^verbatim>\<open>CompareT\<close> orders by type, then by the key in lower case; two nodes with the same \<open>node_key\<close> are the same for it.\<close>

definition key_of :: "nat \<Rightarrow> cstring \<Rightarrow> rr_key" where
  "key_of t d = (t, map tolower d)"

definition node_key :: "RRList \<Rightarrow> rr_key" where
  "node_key l = key_of (mRRType l) (mKey l)"

definition set_find :: "rr_key \<Rightarrow> RRList list \<Rightarrow> RRList option" where
  "set_find k s = find (\<lambda>l. node_key l = k) s"

fun set_insert :: "RRList \<Rightarrow> RRList list \<Rightarrow> RRList list" where
  "set_insert l [] = [l]"
| "set_insert l (x # xs) =
     (if node_key l < node_key x then l # x # xs
      else if node_key x < node_key l then x # set_insert l xs
      else x # xs)"

definition set_erase :: "rr_key \<Rightarrow> RRList list \<Rightarrow> RRList list" where
  "set_erase k s = filter (\<lambda>l. node_key l \<noteq> k) s"

text \<open>A node changed in place, which keeps its key.\<close>

definition set_assign :: "rr_key \<Rightarrow> RRList \<Rightarrow> RRList list \<Rightarrow> RRList list" where
  "set_assign k l s = map (\<lambda>x. if node_key x = k then l else x) s"

section \<open>The cache\<close>

record RRCache =
  mRRSet :: "RRList list"
  mLru :: "rr_key list"
  mUserDefinedTTL :: int
  mSize :: "32 word"

definition DEFAULT_USER_DEFINED_TTL :: int where "DEFAULT_USER_DEFINED_TTL = 10"
definition DEFAULT_SIZE :: "32 word" where "DEFAULT_SIZE = 512"
definition MIN_TO_SEC :: int where "MIN_TO_SEC = 60"

definition new_RRCache :: RRCache where
  "new_RRCache = \<lparr>mRRSet = [], mLru = [], mUserDefinedTTL = DEFAULT_USER_DEFINED_TTL, mSize = DEFAULT_SIZE\<rparr>"

definition setTTL :: "int \<Rightarrow> RRCache \<Rightarrow> RRCache" where
  "setTTL ttl c = (if ttl > 0 then c\<lparr>mUserDefinedTTL := ttl * MIN_TO_SEC\<rparr> else c)"

definition setSize :: "int \<Rightarrow> RRCache \<Rightarrow> RRCache" where
  "setSize n c = c\<lparr>mSize := word_of_int n\<rparr>"

definition unlink :: "rr_key \<Rightarrow> RRCache \<Rightarrow> RRCache" where
  "unlink k c = c\<lparr>mLru := filter (\<lambda>x. x \<noteq> k) (mLru c)\<rparr>"

definition lru_push_back :: "rr_key \<Rightarrow> RRCache \<Rightarrow> RRCache" where
  "lru_push_back k c = c\<lparr>mLru := mLru c @ [k]\<rparr>"

definition touch :: "rr_key \<Rightarrow> RRCache \<Rightarrow> RRCache" where
  "touch k c = lru_push_back k (unlink k c)"

text \<open>A node that is deleted leaves the list, too (the destructor of \<^verbatim>\<open>IntrusiveListElement\<close>).\<close>

definition erase :: "rr_key \<Rightarrow> RRCache \<Rightarrow> RRCache" where
  "erase k c = (unlink k c)\<lparr>mRRSet := set_erase k (mRRSet c)\<rparr>"

definition add_node :: "RRList \<Rightarrow> RRCache \<Rightarrow> RRCache" where
  "add_node l c = lru_push_back (node_key l) (c\<lparr>mRRSet := set_insert l (mRRSet c)\<rparr>)"

definition assign_node :: "RRList \<Rightarrow> RRCache \<Rightarrow> RRCache" where
  "assign_node l c = c\<lparr>mRRSet := set_assign (node_key l) l (mRRSet c)\<rparr>"

definition purge :: "RRCache \<Rightarrow> RRCache outcome" where
  "purge c =
     (if length (mRRSet c) < unat (mSize c) then Ok c
      else case mLru c of
        [] \<Rightarrow> Fault AssertionFailed
      | lst # _ \<Rightarrow> asserting (set_find lst (mRRSet c) \<noteq> None) (Ok (erase lst c)))"

definition updateCacheFromHostFile :: "secs \<Rightarrow> DnsResourceRecord \<Rightarrow> RRCache \<Rightarrow> RRCache outcome" where
  "updateCacheFromHostFile now r c =
     (let key = node_key (new_RRList_host now r 3600) in
      case set_find key (mRRSet c) of
        Some l \<Rightarrow> Ok (touch key (assign_node (RRList_update_host now r 3600 l) c))
      | None \<Rightarrow> purge (add_node (new_RRList_host now r 3600) c))"

definition updateCache :: "secs \<Rightarrow> nat \<Rightarrow> RROverlay list \<Rightarrow> RRCache \<Rightarrow> RRCache outcome" where
  "updateCache now rrType vs c =
     (let domain = mDomain (hd vs) in
      case create rrType of
        None \<Rightarrow> Fault AssertionFailed
      | Some f \<Rightarrow>
          (case set_find (key_of rrType domain) (mRRSet c) of
             Some l \<Rightarrow>
               and_then (RRList_update now f vs (mUserDefinedTTL c) l) (\<lambda>l.
               Ok (touch (key_of rrType domain) (assign_node l c)))
           | None \<Rightarrow>
               and_then (RRList_update now f vs (mUserDefinedTTL c) (new_RRList_key domain rrType)) (\<lambda>l.
               purge (add_node l c))))"

text \<open>The negative time to live of a SOA record (its last field).\<close>

definition getTTL :: "RROverlay \<Rightarrow> int outcome" where
  "getTTL v =
     (if mType v \<noteq> T_SOA then Ok (- 1)
      else
        and_then (expand_at (mMsg v) (mData v)) (\<lambda>r. case r of
           Inl _ \<Rightarrow> Fault AssertionFailed
         | Inr (_, len) \<Rightarrow>
             let pPos = mData v + len in
             and_then (expand_at (mMsg v) pPos) (\<lambda>r. case r of
                Inl _ \<Rightarrow> Fault AssertionFailed
              | Inr (_, len) \<Rightarrow> checked (DNS__32BIT (mMsg v) (pPos + len + 16)))))"

definition cacheTTL :: "secs \<Rightarrow> cstring \<Rightarrow> nat \<Rightarrow> nat \<Rightarrow> RROverlay \<Rightarrow> RRCache \<Rightarrow> RRCache outcome" where
  "cacheTTL now target rrType status v c =
     and_then (getTTL v) (\<lambda>ttl.
     if ttl < 0 then Ok c
     else
       let ttl = (if ttl < mUserDefinedTTL c then mUserDefinedTTL c else ttl);
           val = new_RRList_status now target rrType ttl status
       in purge (add_node val
            (if set_find (node_key val) (mRRSet c) \<noteq> None then erase (node_key val) c else c)))"

definition lookup ::
  "secs \<Rightarrow> cstring \<Rightarrow> nat \<Rightarrow> RRCache \<Rightarrow> (DnsResourceRecord list \<times> nat) option \<times> RRCache" where
  "lookup now target type c =
     (let key = key_of type target in
      case set_find key (mRRSet c) of
        None \<Rightarrow> (None, c)
      | Some l \<Rightarrow>
          if now \<ge> mAbsoluteExpiry l then (None, erase key c)
          else (Some (mRecords l, mStatus l), touch key c))"

definition cleanup :: "RRCache \<Rightarrow> RRCache" where
  "cleanup c = c\<lparr>mRRSet := [], mLru := []\<rparr>"

text \<open>\<^verbatim>\<open>logCache\<close> and \<^verbatim>\<open>getCacheDump\<close>: the lists that are printed, in the order of the set; expired ones are deleted.\<close>

fun dump_loop :: "secs \<Rightarrow> RRList list \<Rightarrow> RRCache \<Rightarrow> RRList list \<times> RRCache" where
  "dump_loop now [] c = ([], c)"
| "dump_loop now (l # ls) c =
     (if now \<ge> mAbsoluteExpiry l then dump_loop now ls (erase (node_key l) c)
      else let (out, c) = dump_loop now ls c in (l # out, c))"

definition getCacheDump :: "secs \<Rightarrow> RRCache \<Rightarrow> RRList list \<times> RRCache" where
  "getCacheDump now c = dump_loop now (mRRSet c) c"

section \<open>Invariant\<close>

text \<open>The set is ordered, the list of use has the same nodes, each once, and the records of a node have its type.\<close>

definition typed_list :: "RRList \<Rightarrow> bool" where
  "typed_list l \<longleftrightarrow> (\<forall>r \<in> set (mRecords l). rr_type r = mRRType l)"

definition cache_ok :: "RRCache \<Rightarrow> bool" where
  "cache_ok c \<longleftrightarrow>
     sorted_wrt (<) (map node_key (mRRSet c)) \<and> distinct (mLru c) \<and>
     set (mLru c) = node_key ` set (mRRSet c) \<and> list_all typed_list (mRRSet c) \<and> 0 < mUserDefinedTTL c"

definition entry :: "RRCache \<Rightarrow> rr_key \<Rightarrow> RRList option" where
  "entry c k = set_find k (mRRSet c)"

section \<open>Facts about the set\<close>

named_theorems cache_simps \<open>what the operations do to the entries\<close>

lemma set_find_eq_Some: "set_find k s = Some l \<Longrightarrow> l \<in> set s \<and> node_key l = k"
  by (auto simp: set_find_def find_Some_iff)

lemma set_find_eq_None: "set_find k s = None \<longleftrightarrow> k \<notin> node_key ` set s"
  by (auto simp: set_find_def find_None_iff)

lemma set_insert_keys: "node_key ` set (set_insert l s) = insert (node_key l) (node_key ` set s)"
  by (induction l s rule: set_insert.induct) auto

lemma set_insert_sub: "set (set_insert l s) \<subseteq> insert l (set s)"
  by (induction l s rule: set_insert.induct) auto

lemma set_insert_sorted:
  "sorted_wrt (<) (map node_key s) \<Longrightarrow> sorted_wrt (<) (map node_key (set_insert l s))"
proof (induction l s rule: set_insert.induct)
  case (2 l x xs)
  have "\<forall>y \<in> set (set_insert l xs). node_key y \<in> insert (node_key l) (node_key ` set xs)"
    using set_insert_keys by blast
  then show ?case using 2 by (auto intro: less_trans)
qed simp

lemma find_insert:
  "sorted_wrt (<) (map node_key s) \<Longrightarrow>
   set_find k (set_insert l s) = (if set_find k s = None \<and> k = node_key l then Some l else set_find k s)"
proof (induction l s rule: set_insert.induct)
  case (2 l x xs)
  have "node_key l < node_key x \<Longrightarrow> set_find (node_key l) (x # xs) = None"
    using 2(2) by (auto simp: set_find_eq_None)
  then show ?case using 2 by (auto simp: set_find_def)
qed (simp add: set_find_def)

lemma find_erase: "set_find k (set_erase k' s) = (if k = k' then None else set_find k s)"
  by (induction s) (auto simp: set_find_def set_erase_def)

lemma find_assign:
  "node_key l = k' \<Longrightarrow>
   set_find k (set_assign k' l s) = (if k = k' \<and> set_find k s \<noteq> None then Some l else set_find k s)"
  by (induction s) (auto simp: set_find_def set_assign_def)

lemma map_key_assign: "node_key l = k \<Longrightarrow> map node_key (set_assign k l s) = map node_key s"
  by (auto simp: set_assign_def)

section \<open>The operations keep the invariant\<close>

lemma entry_unlink [cache_simps]: "entry (unlink k c) = entry c"
  and entry_push_back [cache_simps]: "entry (lru_push_back k c) = entry c"
  and entry_touch [cache_simps]: "entry (touch k c) = entry c"
  by (simp_all add: fun_eq_iff entry_def unlink_def lru_push_back_def touch_def)

lemma settings_kept [simp]:
  "mUserDefinedTTL (touch k c) = mUserDefinedTTL c" "mSize (touch k c) = mSize c"
  "mUserDefinedTTL (erase k c) = mUserDefinedTTL c" "mSize (erase k c) = mSize c"
  "mUserDefinedTTL (add_node l c) = mUserDefinedTTL c" "mSize (add_node l c) = mSize c"
  "mUserDefinedTTL (assign_node l c) = mUserDefinedTTL c" "mSize (assign_node l c) = mSize c"
  by (simp_all add: touch_def unlink_def lru_push_back_def erase_def add_node_def assign_node_def)

lemma entry_erase [cache_simps]: "entry (erase k c) = (entry c)(k := None)"
  by (auto simp: fun_eq_iff entry_def erase_def find_erase)

lemma entry_add_node [cache_simps]:
  "cache_ok c \<Longrightarrow> entry c (node_key l) = None \<Longrightarrow> entry (add_node l c) = (entry c)(node_key l \<mapsto> l)"
  by (auto simp: fun_eq_iff entry_def add_node_def lru_push_back_def find_insert cache_ok_def)

lemma entry_assign_node [cache_simps]:
  "entry c (node_key l) \<noteq> None \<Longrightarrow> entry (assign_node l c) = (entry c)(node_key l \<mapsto> l)"
  by (auto simp: fun_eq_iff entry_def assign_node_def find_assign)

lemma entry_key: "entry c k = Some l \<Longrightarrow> node_key l = k \<and> l \<in> set (mRRSet c)"
  by (auto simp: entry_def dest: set_find_eq_Some)

lemma entry_dom: "entry c k \<noteq> None \<longleftrightarrow> k \<in> node_key ` set (mRRSet c)"
  using set_find_eq_None [of k "mRRSet c"] by (auto simp: entry_def)

lemma entry_typed: "cache_ok c \<Longrightarrow> entry c k = Some l \<Longrightarrow> typed_list l"
  by (auto simp: cache_ok_def list_all_iff dest!: entry_key)

lemma cache_ok_touch: "cache_ok c \<Longrightarrow> entry c k \<noteq> None \<Longrightarrow> cache_ok (touch k c)"
  using entry_dom [of c k] by (auto simp: cache_ok_def touch_def unlink_def lru_push_back_def)

lemma cache_ok_erase: "cache_ok c \<Longrightarrow> cache_ok (erase k c)"
  unfolding cache_ok_def
  by (auto simp: erase_def unlink_def set_erase_def list_all_iff sorted_wrt_map sorted_wrt_filter)

lemma cache_ok_add_node: "cache_ok c \<Longrightarrow> entry c (node_key l) = None \<Longrightarrow> typed_list l \<Longrightarrow> cache_ok (add_node l c)"
  using set_insert_sub [of l "mRRSet c"] entry_dom [of c "node_key l"]
  by (auto simp: cache_ok_def add_node_def lru_push_back_def set_insert_sorted set_insert_keys list_all_iff subset_iff)

lemma cache_ok_assign_node: "cache_ok c \<Longrightarrow> entry c (node_key l) \<noteq> None \<Longrightarrow> typed_list l \<Longrightarrow> cache_ok (assign_node l c)"
proof -
  assume a: "cache_ok c" "typed_list l"
  have "node_key ` set (set_assign (node_key l) l (mRRSet c)) = node_key ` set (mRRSet c)"
    using arg_cong [where f = set, OF map_key_assign [of l "node_key l" "mRRSet c"]] by simp
  moreover have "list_all typed_list (set_assign (node_key l) l (mRRSet c))"
    using a by (auto simp: cache_ok_def list_all_iff set_assign_def)
  ultimately show ?thesis using a by (simp add: cache_ok_def assign_node_def map_key_assign)
qed

text \<open>The first node of the list of use is in the set, so that the assertion of \<^verbatim>\<open>purge\<close> holds.\<close>

lemma purge_cases:
  assumes "cache_ok c" "mRRSet c \<noteq> []"
  obtains "purge c = Ok c" "length (mRRSet c) < unat (mSize c)"
  | k ks where "mLru c = k # ks" "purge c = Ok (erase k c)" "unat (mSize c) \<le> length (mRRSet c)"
proof (cases "length (mRRSet c) < unat (mSize c)")
  case False
  have "mLru c \<noteq> []" using assms by (auto simp: cache_ok_def)
  then obtain k ks where "mLru c = k # ks" by (cases "mLru c") auto
  moreover from this have "set_find k (mRRSet c) \<noteq> None"
    using assms(1) set_find_eq_None [of k "mRRSet c"] by (auto simp: cache_ok_def)
  ultimately show ?thesis using False that(2) by (auto simp: purge_def asserting_def)
qed (use that(1) in \<open>auto simp: purge_def\<close>)

lemma set_insert_not_Nil [simp]: "set_insert l s \<noteq> []"
  by (cases s) auto

lemma add_node_not_Nil [simp]: "mRRSet (add_node l c) \<noteq> []"
  by (simp add: add_node_def lru_push_back_def)

lemma purge_ok: "cache_ok c \<Longrightarrow> mRRSet c \<noteq> [] \<Longrightarrow> \<exists>c'. purge c = Ok c' \<and> cache_ok c'"
  using purge_cases [of c] cache_ok_erase by metis

lemma create_typed: "create t = Some f \<Longrightarrow> f v = Ok r \<Longrightarrow> rr_type r = t"
  by (auto simp: create_def new_DnsCnameRecord_def new_DnsNaptrRecord_def new_DnsSrvRecord_def new_DnsAAAARecord_def
      new_DnsHostRecord_def outcome_simps split: if_splits)

lemma update_loop_typed:
  "update_loop f vs rs e = Ok (rs', e') \<Longrightarrow> (\<And>v r. f v = Ok r \<Longrightarrow> rr_type r = t) \<Longrightarrow>
   \<forall>r \<in> set rs. rr_type r = t \<Longrightarrow> \<forall>r \<in> set rs'. rr_type r = t"
  by (induction f vs rs e rule: update_loop.induct) (fastforce split: outcome.splits)+

lemma RRList_update_key: "RRList_update now f vs ttl l = Ok l' \<Longrightarrow> mRRType l' = mRRType l \<and> mKey l' = mKey l \<and> mStatus l' = mStatus l"
  by (auto simp: RRList_update_def outcome_simps Let_def)

lemma RRList_update_ok:
  assumes "RRList_update now f vs ttl l = Ok l'" "create (mRRType l) = Some f"
  shows "node_key l' = node_key l \<and> typed_list l'"
  using assms update_loop_typed [where t = "mRRType l"] create_typed [OF assms(2)]
  by (fastforce simp: RRList_update_def outcome_simps Let_def typed_list_def node_key_def)

lemma node_key_new [simp]: "node_key (new_RRList_key d t) = key_of t d"
  by (simp add: new_RRList_key_def node_key_def)

text \<open>The list that \<^verbatim>\<open>updateCache\<close> fills: the one in the cache, or a new one.\<close>

definition list_for :: "RRCache \<Rightarrow> nat \<Rightarrow> cstring \<Rightarrow> RRList" where
  "list_for c t d = (case entry c (key_of t d) of None \<Rightarrow> new_RRList_key d t | Some l \<Rightarrow> l)"

lemma list_for_key: "node_key (list_for c t d) = key_of t d"
  by (auto simp: list_for_def split: option.splits dest: entry_key)

lemma list_for_type: "mRRType (list_for c t d) = t"
  using list_for_key [of c t d] by (simp add: node_key_def key_of_def)

text \<open>What \<^verbatim>\<open>updateCache\<close> does before \<^verbatim>\<open>purge\<close>, as one change of the entries.\<close>

lemma updateCache_cases:
  assumes "cache_ok c" "updateCache now t vs c = Ok c'"
  obtains f l c1 where "create t = Some f" "RRList_update now f vs (mUserDefinedTTL c) (list_for c t (mDomain (hd vs))) = Ok l"
    "cache_ok c1" "entry c1 = (entry c)(key_of t (mDomain (hd vs)) \<mapsto> l)" "mSize c1 = mSize c"
    "mUserDefinedTTL c1 = mUserDefinedTTL c"
    "if entry c (key_of t (mDomain (hd vs))) = None
     then mRRSet c1 \<noteq> [] \<and> purge c1 = Ok c' \<and> length (mRRSet c1) = Suc (length (mRRSet c))
     else c' = c1 \<and> length (mRRSet c1) = length (mRRSet c)"
proof -
  let ?d = "mDomain (hd vs)"
  let ?k = "key_of t ?d"
  from assms(2) obtain f where f: "create t = Some f" by (auto simp: updateCache_def Let_def split: option.splits)
  show thesis
  proof (cases "entry c ?k")
    case None
    then obtain l where l: "RRList_update now f vs (mUserDefinedTTL c) (list_for c t ?d) = Ok l" "purge (add_node l c) = Ok c'"
      using assms(2) f by (auto simp: updateCache_def entry_def list_for_def outcome_simps)
    have k: "node_key l = ?k" "typed_list l" using RRList_update_ok [OF l(1)] f by (simp_all add: list_for_type list_for_key)
    have n: "length (set_insert l s) = Suc (length s)" if "node_key l \<notin> node_key ` set s" for s
      using that by (induction l s rule: set_insert.induct) auto
    have "length (mRRSet (add_node l c)) = Suc (length (mRRSet c))"
      using None k n entry_dom [of c ?k] by (simp add: add_node_def lru_push_back_def)
    then show thesis
      using that [of f l "add_node l c"] f l k None assms(1) cache_ok_add_node [of c l] entry_add_node [of c l]
      by (simp add: add_node_def lru_push_back_def)
  next
    case (Some l0)
    then obtain l where l: "RRList_update now f vs (mUserDefinedTTL c) (list_for c t ?d) = Ok l" "c' = touch ?k (assign_node l c)"
      using assms(2) f by (auto simp: updateCache_def entry_def list_for_def outcome_simps)
    have k: "node_key l = ?k" "typed_list l" using RRList_update_ok [OF l(1)] f by (simp_all add: list_for_type list_for_key)
    have a: "cache_ok (assign_node l c)" "entry (assign_node l c) = (entry c)(?k \<mapsto> l)"
      using cache_ok_assign_node [of c l] entry_assign_node [of c l] k Some assms(1) by auto
    then have "cache_ok c'" "entry c' = (entry c)(?k \<mapsto> l)" using l cache_ok_touch [OF a(1), of ?k] by (simp_all add: cache_simps)
    moreover have "length (mRRSet c') = length (mRRSet c)" "mSize c' = mSize c" "mUserDefinedTTL c' = mUserDefinedTTL c"
      using l(2) by (simp_all add: touch_def unlink_def lru_push_back_def assign_node_def set_assign_def)
    ultimately show thesis using that [of f l c'] f l Some by simp
  qed
qed

lemma purge_Ok:
  assumes "cache_ok c" "mRRSet c \<noteq> []" "purge c = Ok c'"
  shows "cache_ok c' \<and> (\<forall>k. entry c' k = None \<or> entry c' k = entry c k) \<and> mSize c' = mSize c \<and>
    mUserDefinedTTL c' = mUserDefinedTTL c \<and> length (mRRSet c') \<le> max (length (mRRSet c) - 1) (unat (mSize c) - 1) \<and>
    (length (mRRSet c) < unat (mSize c) \<longrightarrow> c' = c)"
  using assms(1,2)
proof (cases rule: purge_cases)
  case 1
  then show ?thesis using assms by auto
next
  case (2 k ks)
  have "k \<in> node_key ` set (mRRSet c)" using 2 assms(1) by (auto simp: cache_ok_def)
  then have "length (set_erase k (mRRSet c)) < length (mRRSet c)"
    by (auto simp: set_erase_def intro!: length_filter_less)
  then show ?thesis using 2 assms cache_ok_erase [of c k] by (auto simp: cache_simps) (auto simp: erase_def unlink_def)
qed

text \<open>After an update the cache has no more than \<open>mSize - 1\<close> lists, or no more than before.\<close>

lemma updateCache_ok:
  assumes "cache_ok c" "updateCache now t vs c = Ok c'"
  shows "cache_ok c' \<and> mSize c' = mSize c \<and> mUserDefinedTTL c' = mUserDefinedTTL c \<and>
    length (mRRSet c') \<le> max (length (mRRSet c)) (unat (mSize c) - 1)"
  using assms
proof (cases rule: updateCache_cases)
  case (1 f l c1)
  then show ?thesis using purge_Ok [of c1 c'] by (auto split: if_splits)
qed

text \<open>The new list is in the cache unless that was full, and other entries stay as they are or are dropped.\<close>

lemma updateCache_entry:
  assumes "cache_ok c" "updateCache now t vs c = Ok c'"
  obtains f l where "create t = Some f" "RRList_update now f vs (mUserDefinedTTL c) (list_for c t (mDomain (hd vs))) = Ok l"
    "\<And>k. entry c' k = None \<or> entry c' k = ((entry c)(key_of t (mDomain (hd vs)) \<mapsto> l)) k"
    "Suc (length (mRRSet c)) < unat (mSize c) \<Longrightarrow> entry c' = (entry c)(key_of t (mDomain (hd vs)) \<mapsto> l)"
    "length (mRRSet c') \<le> Suc (length (mRRSet c))"
  using assms
proof (cases rule: updateCache_cases)
  case (1 f l c1)
  have "c' = c1 \<and> length (mRRSet c1) = length (mRRSet c) \<or>
    mRRSet c1 \<noteq> [] \<and> purge c1 = Ok c' \<and> length (mRRSet c1) = Suc (length (mRRSet c))" using 1(7) by (auto split: if_splits)
  then have "(\<forall>k. entry c' k = None \<or> entry c' k = entry c1 k) \<and> length (mRRSet c') \<le> Suc (length (mRRSet c)) \<and>
    (Suc (length (mRRSet c)) < unat (mSize c) \<longrightarrow> c' = c1)"
    using purge_Ok [of c1 c'] 1(3,5) by (auto simp: max_def split: if_splits)
  then show thesis using that [OF 1(1,2)] 1(4) by metis
qed

lemma host_list_ok: "rr_type r = T_A \<Longrightarrow> mRRType l = T_A \<Longrightarrow>
  typed_list (RRList_update_host now r n l) \<and> node_key (RRList_update_host now r n l) = node_key l"
  by (simp add: typed_list_def RRList_update_host_def node_key_def)

lemma key_type: "node_key l = key_of t d \<Longrightarrow> mRRType l = t"
  by (simp add: node_key_def key_of_def)

lemma new_host_key: "node_key (new_RRList_host now r n) = key_of T_A (mName r)"
  by (simp add: new_RRList_host_def RRList_update_host_def node_key_def new_RRList_key_def)

lemma updateCacheFromHostFile_ok:
  assumes "cache_ok c" "rr_type r = T_A"
  obtains c' l where "updateCacheFromHostFile now r c = Ok c'" "cache_ok c'" "mUserDefinedTTL c' = mUserDefinedTTL c"
    "mRecords l = [r]" "mRRType l = T_A"
    "\<And>k. entry c' k = None \<or> entry c' k = ((entry c)(key_of T_A (mName r) \<mapsto> l)) k"
proof (cases "entry c (key_of T_A (mName r))")
  case None
  let ?l = "new_RRList_host now r 3600"
  let ?c1 = "add_node ?l c"
  have l: "typed_list ?l" "mRRType ?l = T_A" "mRecords ?l = [r]"
    using host_list_ok [of r "new_RRList_key (mName r) T_A" now 3600] assms(2)
    by (auto simp: new_RRList_host_def RRList_update_host_def new_RRList_key_def)
  have c1: "cache_ok ?c1" "entry ?c1 = (entry c)(key_of T_A (mName r) \<mapsto> ?l)" "mUserDefinedTTL ?c1 = mUserDefinedTTL c"
    using cache_ok_add_node [of c ?l] entry_add_node [of c ?l] None assms l
    by (simp_all add: new_host_key add_node_def lru_push_back_def)
  then obtain c' where "purge ?c1 = Ok c'" using purge_ok [of ?c1] by auto
  then show thesis using that [of c' ?l] purge_Ok [of ?c1 c'] c1 l None
    by (auto simp: updateCacheFromHostFile_def new_host_key entry_def)
next
  case (Some l0)
  let ?l = "RRList_update_host now r 3600 l0"
  let ?k = "key_of T_A (mName r)"
  have k: "node_key ?l = ?k" "typed_list ?l" "mRRType ?l = T_A" "mRecords ?l = [r]"
    using host_list_ok [of r l0 now 3600] entry_key [OF Some] assms(2) key_type [of l0 T_A "mName r"]
    by (auto simp: RRList_update_host_def)
  have "cache_ok (assign_node ?l c)" "entry (assign_node ?l c) = (entry c)(?k \<mapsto> ?l)"
    using cache_ok_assign_node [of c ?l] entry_assign_node [of c ?l] k Some assms(1) by auto
  then show thesis
    using that [of "touch ?k (assign_node ?l c)" ?l] Some k cache_ok_touch [of "assign_node ?l c" ?k]
    by (simp add: updateCacheFromHostFile_def new_host_key entry_def [symmetric] cache_simps)
qed

lemma new_status_key: "node_key (new_RRList_status now d t ttl st) = key_of t d"
  by (simp add: new_RRList_status_def node_key_def)

text \<open>A negative answer: nothing is stored, or an empty list with the status.\<close>

lemma cacheTTL_ok:
  assumes "cache_ok c" "getTTL v = Ok ttl"
  obtains c' where "cacheTTL now d t st v c = Ok c'" "cache_ok c'" "mUserDefinedTTL c' = mUserDefinedTTL c"
    "\<And>k. entry c' k = None \<or> entry c' k = entry c k \<or>
          k = key_of t d \<and> entry c' k = Some (new_RRList_status now d t (max ttl (mUserDefinedTTL c)) st)"
proof (cases "ttl < 0")
  case True
  then show thesis using that [of c] assms by (simp add: cacheTTL_def)
next
  case False
  define l where "l = new_RRList_status now d t (max ttl (mUserDefinedTTL c)) st"
  define c1 where "c1 = (if entry c (key_of t d) \<noteq> None then erase (key_of t d) c else c)"
  have l: "node_key l = key_of t d" "typed_list l"
    by (simp_all add: l_def new_status_key) (simp add: new_RRList_status_def typed_list_def)
  have c1: "cache_ok c1" "entry c1 = (entry c)(key_of t d := None)" "mUserDefinedTTL c1 = mUserDefinedTTL c"
    using assms(1) by (auto simp: c1_def cache_ok_erase cache_simps fun_eq_iff)
  have c2: "cache_ok (add_node l c1)" "entry (add_node l c1) = (entry c)(key_of t d \<mapsto> l)"
    using cache_ok_add_node [of c1 l] entry_add_node [of c1 l] c1 l by simp_all
  obtain c' where c': "purge (add_node l c1) = Ok c'" using purge_ok [OF c2(1)] by auto
  have "cacheTTL now d t st v c = purge (add_node l c1)"
    using assms(2) False by (simp add: cacheTTL_def Let_def max_def new_status_key entry_def l_def c1_def)
  then have t: "cacheTTL now d t st v c = Ok c'" using c' by simp
  have p: "cache_ok c'" "mUserDefinedTTL c' = mUserDefinedTTL c" "\<And>k. entry c' k = None \<or> entry c' k = entry (add_node l c1) k"
    using purge_Ok [OF c2(1) _ c'] c1(3) by auto
  show thesis
  proof (rule that [OF t p(1,2)])
    fix k
    show "entry c' k = None \<or> entry c' k = entry c k \<or>
      k = key_of t d \<and> entry c' k = Some (new_RRList_status now d t (max ttl (mUserDefinedTTL c)) st)"
      using p(3) [of k] c2(2) by (auto simp: l_def split: if_splits)
  qed
qed

lemma getTTL_not_soa: "mType v \<noteq> T_SOA \<Longrightarrow> getTTL v = Ok (- 1)"
  by (simp add: getTTL_def)

text \<open>A lookup finds the list of the key, whatever its case, until it expires.\<close>

lemma lookup_result:
  "fst (lookup now d t c) =
     (case entry c (key_of t d) of
        None \<Rightarrow> None
      | Some l \<Rightarrow> if mAbsoluteExpiry l \<le> now then None else Some (mRecords l, mStatus l))"
  by (auto simp: lookup_def entry_def Let_def split: option.splits)

lemma lookup_entry:
  "entry (snd (lookup now d t c)) =
    (\<lambda>k. if k = key_of t d \<and> (\<exists>l. entry c k = Some l \<and> mAbsoluteExpiry l \<le> now) then None else entry c k)"
  by (auto simp: lookup_def entry_def [symmetric] Let_def fun_eq_iff cache_simps split: option.splits)

lemma lookup_cache:
  assumes "cache_ok c"
  shows "cache_ok (snd (lookup now d t c)) \<and> mUserDefinedTTL (snd (lookup now d t c)) = mUserDefinedTTL c"
  using assms cache_ok_touch [of c "key_of t d"] cache_ok_erase [of c "key_of t d"]
  by (auto simp: lookup_def entry_def [symmetric] Let_def fun_eq_iff cache_simps split: option.splits)

lemma dump_loop_ok:
  "cache_ok c \<Longrightarrow> cache_ok (snd (dump_loop now ls c)) \<and> mUserDefinedTTL (snd (dump_loop now ls c)) = mUserDefinedTTL c \<and>
    (\<forall>k. entry (snd (dump_loop now ls c)) k = None \<or> entry (snd (dump_loop now ls c)) k = entry c k) \<and>
    fst (dump_loop now ls c) = filter (\<lambda>l. now < mAbsoluteExpiry l) ls"
proof (induction ls arbitrary: c)
  case (Cons l ls)
  show ?case
  proof (cases "mAbsoluteExpiry l \<le> now")
    case True
    note IH = Cons.IH [OF cache_ok_erase [OF Cons.prems], of "node_key l"]
    have "entry (snd (dump_loop now ls (erase (node_key l) c))) k = None \<or>
      entry (snd (dump_loop now ls (erase (node_key l) c))) k = entry c k" for k
      using IH [THEN conjunct2, THEN conjunct2, THEN conjunct1, rule_format, of k] by (auto simp: entry_erase split: if_splits)
    then show ?thesis using IH True by (simp del: split_paired_All add: not_less)
  next
    case False
    then show ?thesis using Cons.IH [OF Cons.prems] by (auto simp del: split_paired_All simp: not_le case_prod_beta)
  qed
qed simp

lemma cleanup_ok: "cache_ok c \<Longrightarrow> cache_ok (cleanup c) \<and> mUserDefinedTTL (cleanup c) = mUserDefinedTTL c \<and> entry (cleanup c) k = None"
  by (simp add: cleanup_def cache_ok_def entry_def set_find_def)

lemma settings_ok: "cache_ok c \<Longrightarrow> cache_ok (setTTL n c) \<and> cache_ok (setSize n c) \<and> entry (setTTL n c) = entry c \<and> entry (setSize n c) = entry c"
  by (auto simp: setTTL_def setSize_def cache_ok_def MIN_TO_SEC_def entry_def fun_eq_iff)

lemma new_cache_ok: "cache_ok new_RRCache \<and> entry new_RRCache k = None"
  by (simp add: new_RRCache_def cache_ok_def DEFAULT_USER_DEFINED_TTL_def entry_def set_find_def)

end
