(* ===== verification/RRVipM.thy ===== *)
theory RRVipM
  imports RRecord
begin

text \<open>\<^verbatim>\<open>RRVip.cxx\<close>: the record that worked last (the vip) is preferred in later answers. For addresses it moves to the
  front of the answer; for SRV and NAPTR records its priority (order) becomes the best one. The vector of an answer
  holds pointers to the records of the cache, so a changed priority is a change of the cache: \<open>transform\<close> returns the
  new vector and the records as they are in the cache afterwards.\<close>

type_synonym RRVip = "cstring \<times> nat \<rightharpoonup> cstring"

definition has_transform_factory :: "nat \<Rightarrow> bool" where
  "has_transform_factory t \<longleftrightarrow> t = T_A \<or> t = T_AAAA \<or> t = T_NAPTR \<or> t = T_SRV"

definition vip :: "cstring \<Rightarrow> nat \<Rightarrow> cstring \<Rightarrow> RRVip \<Rightarrow> RRVip outcome" where
  "vip target rrType v m =
     (case m (target, rrType) of
        Some _ \<Rightarrow> Ok (m((target, rrType) \<mapsto> v))
      | None \<Rightarrow> asserting (has_transform_factory rrType) (Ok (m((target, rrType) \<mapsto> v))))"

definition removeVip :: "cstring \<Rightarrow> nat \<Rightarrow> RRVip \<Rightarrow> RRVip" where
  "removeVip target rrType m = m((target, rrType) := None)"

text \<open>\<^verbatim>\<open>Transform::transform\<close>; \<open>None\<close> for \<^verbatim>\<open>invalidVip\<close>.\<close>

definition host_transform ::
  "(byte list \<Rightarrow> cstring) \<Rightarrow> cstring \<Rightarrow> DnsResourceRecord list \<Rightarrow> DnsResourceRecord list option" where
  "host_transform ntop6 v src =
     (case List.extract (isSameValue ntop6 v) src of
        None \<Rightarrow> None
      | Some (before, r, after) \<Rightarrow> Some (r # before @ after))"

text \<open>The order of a NAPTR and the priority of an SRV record; the two transformations differ in nothing else.\<close>

fun rank :: "DnsResourceRecord \<Rightarrow> int" where
  "rank (DnsNaptrRecord _ order _ _ _ _ _) = order"
| "rank (DnsSrvRecord _ priority _ _ _) = priority"
| "rank _ = 0"

fun set_rank :: "int \<Rightarrow> DnsResourceRecord \<Rightarrow> DnsResourceRecord" where
  "set_rank k (DnsNaptrRecord n _ p f s re rep) = DnsNaptrRecord n k p f s re rep"
| "set_rank k (DnsSrvRecord n _ w port t) = DnsSrvRecord n k w port t"
| "set_rank k r = r"

definition min_rank :: "DnsResourceRecord list \<Rightarrow> int" where
  "min_rank src = foldl (\<lambda>m r. if rank r < m then rank r else m) (rank (hd src)) src"

definition bump :: "DnsResourceRecord \<Rightarrow> DnsResourceRecord" where
  "bump r = set_rank (rank r + 1) r"

definition ranked_transform ::
  "(byte list \<Rightarrow> cstring) \<Rightarrow> cstring \<Rightarrow> DnsResourceRecord list \<Rightarrow> DnsResourceRecord list option" where
  "ranked_transform ntop6 v src =
     (case List.extract (isSameValue ntop6 v) src of
        None \<Rightarrow> None
      | Some (before, r, after) \<Rightarrow> Some (map bump before @ set_rank (min_rank src) r # map bump after))"

text \<open>\<^verbatim>\<open>RRVip::transform\<close>: the answer, the records in the cache and the table of vips. A NAPTR or SRV transformation
  casts every record to its class and follows the pointer.\<close>

definition transform ::
  "(byte list \<Rightarrow> cstring) \<Rightarrow> cstring \<Rightarrow> nat \<Rightarrow> DnsResourceRecord list \<Rightarrow> RRVip
   \<Rightarrow> (DnsResourceRecord list \<times> DnsResourceRecord list \<times> RRVip) outcome" where
  "transform ntop6 target rrType src m =
     (case m (target, rrType) of
        None \<Rightarrow> Ok (src, src, m)
      | Some v \<Rightarrow>
          if rrType = T_NAPTR \<or> rrType = T_SRV then
            (case ranked_transform ntop6 v src of
               None \<Rightarrow> Ok (src, src, removeVip target rrType m)
             | Some src' \<Rightarrow>
                 if list_all (\<lambda>r. rr_type r = rrType) src then Ok (src', src', m) else Fault NullPointer)
          else
            (case host_transform ntop6 v src of
               None \<Rightarrow> Ok (src, src, removeVip target rrType m)
             | Some src' \<Rightarrow> Ok (src', src, m)))"

section \<open>Lemmas\<close>

lemma rr_type_set_rank [simp]: "rr_type (set_rank k r) = rr_type r"
  by (cases r) simp_all

lemma rr_type_bump [simp]: "rr_type (bump r) = rr_type r"
  by (simp add: bump_def)

lemma rank_set_rank: "rr_type r = T_NAPTR \<or> rr_type r = T_SRV \<Longrightarrow> rank (set_rank k r) = k"
  by (cases r) (simp_all add: rr_types)

lemma foldl_min: "(\<forall>r \<in> set src. foldl (\<lambda>m r. if rank r < m then rank r else m) k src \<le> rank r) \<and>
   foldl (\<lambda>m r. if rank r < m then rank r else m) k src \<le> k"
proof (induction src arbitrary: k)
  case (Cons a src)
  show ?case using Cons [of "if rank a < k then rank a else k"] by (auto split: if_splits)
qed simp

lemma min_rank_le: "r \<in> set src \<Longrightarrow> min_rank src \<le> rank r"
  using foldl_min by (auto simp: min_rank_def)

lemma extract_split: "List.extract P xs = Some (ys, x, zs) \<Longrightarrow> xs = ys @ x # zs \<and> P x \<and> (\<forall>y \<in> set ys. \<not> P y)"
  by (simp add: extract_Some_iff)

end
