(* ===== verification/DnsStub.thy ===== *)
theory DnsStub
  imports RRCacheM RRVipM
begin

text \<open>\<^verbatim>\<open>DnsStub.cxx\<close>: queries for records, answered from the cache or by the resolver (\<^verbatim>\<open>AresDns.cxx\<close>), whose replies
  are put into the cache. \<^verbatim>\<open>DnsResult\<close> is its client.

  A query object is named by a number. \<open>st_queries\<close> is the set of queries, \<open>st_pending\<close> the lookups the resolver has
  not answered, \<open>st_asked\<close> all lookups it was given, \<open>st_told\<close> what the clients were told. The hosts file, the mode in which
  only that file is used and the text of an IPv6 address belong to the system and are fields that no operation changes.
  The resolver is the one of the repository, which on a change of its servers fails the lookups under way. Its answer
  comes as a separate event even where it calls back at once: nothing happens after such a call. A clock reading holds
  for one event. \<^verbatim>\<open>std::sort\<close> is taken to be stable.\<close>

section \<open>State\<close>

text \<open>The text of a notification: the one of a status code, or an exception's.\<close>

datatype Message = ErrorMessage nat | Text string

record DNSResult =
  res_domain :: cstring
  res_status :: nat
  res_msg :: Message
  res_records :: "DnsResourceRecord list"

record Query =
  q_rrType :: nat
  q_transform :: bool
  q_target :: cstring
  q_reQuery :: nat
  q_followCname :: bool

definition MAX_REQUERIES :: nat where "MAX_REQUERIES = 5"

datatype Command =
    QueryCommand nat cstring
  | SetEnumSuffixesCommand "cstring list"
  | SetEnumDomainsCommand "(cstring \<times> cstring) list"
  | ClearDnsCacheCommand
  | LogDnsCacheCommand
  | GetDnsCacheDumpCommand "nat \<times> nat"
  | ReloadDnsServersCommand

record Stub =
  st_cache :: RRCache
  st_vip :: RRVip
  st_transform :: bool
  st_queries :: "(nat \<times> Query) list"
  st_next :: nat
  st_fifo :: "Command list"
  st_pending :: "nat list"
  st_asked :: "(nat \<times> cstring \<times> nat) list"
  st_told :: "(nat \<times> DNSResult) list"
  st_dumps :: "((nat \<times> nat) \<times> RRList list) list"
  st_enumSuffixes :: "cstring list"
  st_enumDomains :: "(cstring \<times> cstring) list"
  st_now :: secs
  st_hostfile :: "cstring \<Rightarrow> byte list option"
  st_hostFileOnly :: bool
  st_ntop6 :: "byte list \<Rightarrow> cstring"

definition new_DnsStub ::
  "bool \<Rightarrow> (cstring \<Rightarrow> byte list option) \<Rightarrow> bool \<Rightarrow> (byte list \<Rightarrow> cstring) \<Rightarrow> secs \<Rightarrow> Stub" where
  "new_DnsStub xform hostfile hostonly ntop6 now =
     \<lparr>st_cache = new_RRCache, st_vip = Map.empty, st_transform = xform, st_queries = [], st_next = 0, st_fifo = [],
      st_pending = [], st_asked = [], st_told = [], st_dumps = [], st_enumSuffixes = [], st_enumDomains = [],
      st_now = now, st_hostfile = hostfile, st_hostFileOnly = hostonly, st_ntop6 = ntop6\<rparr>"

section \<open>Taking a reply apart\<close>

definition supportedType :: "bool \<Rightarrow> nat \<Rightarrow> bool" where
  "supportedType hostonly type \<longleftrightarrow>
     (if hostonly then type = T_A
      else type = T_A \<or> type = T_AAAA \<or> type = T_NAPTR \<or> type = T_SRV \<or> type = T_CNAME \<or> type = T_SOA)"

definition skipDNSQuestion :: "byte list \<Rightarrow> nat \<Rightarrow> nat outcome" where
  "skipDNSQuestion abuf aptr =
     and_then (name_or_throw ''Failed DNS preparse'' abuf aptr) (\<lambda>(_, len).
     if aptr + len + QFIXEDSZ > length abuf then Throw ''Failed DNS preparse'' else Ok (aptr + len + QFIXEDSZ))"

fun skip_questions :: "byte list \<Rightarrow> nat \<Rightarrow> nat \<Rightarrow> nat outcome" where
  "skip_questions abuf 0 aptr = Ok aptr"
| "skip_questions abuf (Suc n) aptr = and_then (skipDNSQuestion abuf aptr) (skip_questions abuf n)"

definition createOverlay ::
  "bool \<Rightarrow> byte list \<Rightarrow> bool \<Rightarrow> nat \<Rightarrow> RROverlay list \<Rightarrow> (nat \<times> RROverlay list) outcome" where
  "createOverlay hostonly abuf discard aptr vs =
     and_then (name_or_throw ''Failed overlay creation'' abuf aptr) (\<lambda>(_, len).
     and_then (checked (DNS_RR_TYPE abuf (aptr + len))) (\<lambda>type.
     and_then (checked (DNS_RR_LEN abuf (aptr + len))) (\<lambda>dlen.
     if \<not> supportedType hostonly type \<or> discard then Ok (aptr + len + RRFIXEDSZ + dlen, vs)
     else and_then (new_RROverlay aptr abuf) (\<lambda>v. Ok (aptr + len + RRFIXEDSZ + dlen, vs @ [v])))))"

fun create_overlays ::
  "bool \<Rightarrow> byte list \<Rightarrow> bool \<Rightarrow> nat \<Rightarrow> nat \<times> RROverlay list \<Rightarrow> (nat \<times> RROverlay list) outcome" where
  "create_overlays hostonly abuf discard 0 st = Ok st"
| "create_overlays hostonly abuf discard (Suc n) (aptr, vs) =
     and_then (createOverlay hostonly abuf discard aptr vs) (create_overlays hostonly abuf discard n)"

text \<open>The records of the answer and the additional section; those of the authority section are skipped.\<close>

definition message_overlays :: "bool \<Rightarrow> byte list \<Rightarrow> RROverlay list outcome" where
  "message_overlays hostonly abuf =
     and_then (checked (DNS_HEADER_QDCOUNT abuf)) (\<lambda>qdcount.
     and_then (skip_questions abuf qdcount HFIXEDSZ) (\<lambda>aptr.
     and_then (checked (DNS_HEADER_ANCOUNT abuf)) (\<lambda>ancount.
     and_then (create_overlays hostonly abuf False ancount (aptr, [])) (\<lambda>st.
     and_then (checked (DNS_HEADER_NSCOUNT abuf)) (\<lambda>nscount.
     and_then (create_overlays hostonly abuf True nscount st) (\<lambda>st.
     and_then (checked (DNS_HEADER_ARCOUNT abuf)) (\<lambda>arcount.
     and_then (create_overlays hostonly abuf False arcount st) (\<lambda>st. Ok (snd st)))))))))"

section \<open>The cache\<close>

text \<open>The ranges between \<^verbatim>\<open>itLow\<close> and \<^verbatim>\<open>upper_bound(itLow, end, *itLow)\<close> in the sorted vector.\<close>

function ranges :: "RROverlay list \<Rightarrow> RROverlay list list" where
  "ranges [] = []"
| "ranges (v # vs) =
     (v # takeWhile (\<lambda>w. \<not> overlay_key v < overlay_key w) vs)
     # ranges (dropWhile (\<lambda>w. \<not> overlay_key v < overlay_key w) vs)"
  by pat_completeness auto
termination
  by (relation "measure length") (auto simp: le_imp_less_Suc length_dropWhile_le)

definition update_ranges :: "secs \<Rightarrow> RROverlay list list \<Rightarrow> RRCache \<Rightarrow> RRCache outcome" where
  "update_ranges now gs c = fold_ok (\<lambda>g. updateCache now (mType (hd g)) g) gs c"

definition cache_message :: "byte list \<Rightarrow> Stub \<Rightarrow> Stub outcome" where
  "cache_message abuf s =
     and_then (message_overlays (st_hostFileOnly s) abuf) (\<lambda>vs.
     and_then (update_ranges (st_now s) (ranges (sort_key overlay_key vs)) (st_cache s)) (\<lambda>c.
     Ok (s\<lparr>st_cache := c\<rparr>)))"

definition cache_address :: "cstring \<Rightarrow> byte list \<Rightarrow> Stub \<Rightarrow> Stub outcome" where
  "cache_address key addr s =
     and_then (updateCacheFromHostFile (st_now s) (DnsHostRecord key addr) (st_cache s)) (\<lambda>c. Ok (s\<lparr>st_cache := c\<rparr>))"

definition stub_cacheTTL :: "cstring \<Rightarrow> nat \<Rightarrow> nat \<Rightarrow> byte list \<Rightarrow> Stub \<Rightarrow> Stub outcome" where
  "stub_cacheTTL key rrType status abuf s =
     and_then (checked (DNS_HEADER_QDCOUNT abuf)) (\<lambda>qdcount.
     and_then (skip_questions abuf qdcount HFIXEDSZ) (\<lambda>aptr.
     and_then (checked (DNS_HEADER_ANCOUNT abuf)) (\<lambda>ancount.
     if ancount \<noteq> 0 then Ok s
     else
       and_then (checked (DNS_HEADER_NSCOUNT abuf)) (\<lambda>nscount.
       if nscount = 0 then Ok s
       else
         and_then (createOverlay (st_hostFileOnly s) abuf False aptr []) (\<lambda>(_, soa).
         case soa of
           [] \<Rightarrow> Ok s
         | v # _ \<Rightarrow>
             and_then (cacheTTL (st_now s) key rrType status v (st_cache s)) (\<lambda>c. Ok (s\<lparr>st_cache := c\<rparr>)))))))"

section \<open>Queries\<close>

definition find_record :: "cstring \<Rightarrow> nat \<Rightarrow> Stub \<Rightarrow> (DnsResourceRecord list \<times> nat) option \<times> Stub" where
  "find_record target type s =
     (let (r, c) = lookup (st_now s) target type (st_cache s) in (r, s\<lparr>st_cache := c\<rparr>))"

text \<open>\<^verbatim>\<open>ResultConverterImpl::notifyUser\<close>: records of another class than the query's are left out.\<close>

definition notifyUser :: "nat \<Rightarrow> Query \<Rightarrow> nat \<Rightarrow> Message \<Rightarrow> DnsResourceRecord list \<Rightarrow> Stub \<Rightarrow> Stub" where
  "notifyUser i q status msg src s =
     s\<lparr>st_told := st_told s @
        [(i, \<lparr>res_domain = q_target q, res_status = status, res_msg = msg,
              res_records = filter (\<lambda>r. rr_type r = q_rrType q) src\<rparr>)]\<rparr>"

text \<open>\<^verbatim>\<open>removeQuery(this); delete this;\<close>\<close>

definition end_of_query :: "nat \<Rightarrow> Stub \<Rightarrow> Stub" where
  "end_of_query i s = s\<lparr>st_queries := filter (\<lambda>(j, _). j \<noteq> i) (st_queries s)\<rparr>"

definition save_query :: "nat \<Rightarrow> Query \<Rightarrow> Stub \<Rightarrow> Stub" where
  "save_query i q s = s\<lparr>st_queries := map (\<lambda>(j, q'). if j = i then (j, q) else (j, q')) (st_queries s)\<rparr>"

definition lookupRecords :: "nat \<Rightarrow> cstring \<Rightarrow> nat \<Rightarrow> Stub \<Rightarrow> Stub" where
  "lookupRecords i target type s = s\<lparr>st_asked := st_asked s @ [(i, target, type)], st_pending := st_pending s @ [i]\<rparr>"

text \<open>The records of a node as a transformation left them.\<close>

definition write_records :: "rr_key \<Rightarrow> DnsResourceRecord list \<Rightarrow> RRCache \<Rightarrow> RRCache" where
  "write_records k rs c =
     (case set_find k (mRRSet c) of None \<Rightarrow> c | Some l \<Rightarrow> assign_node (l\<lparr>mRecords := rs\<rparr>) c)"

text \<open>\<^verbatim>\<open>mTransform->transform\<close> on the records found under \<open>key\<close>, and the notification with the result.\<close>

definition transform_and_notify ::
  "nat \<Rightarrow> Query \<Rightarrow> cstring \<Rightarrow> bool \<Rightarrow> DnsResourceRecord list \<Rightarrow> nat \<Rightarrow> Stub \<Rightarrow> Stub outcome" where
  "transform_and_notify i q key wanted src status s =
     (if q_transform q \<and> wanted then
        and_then (transform (st_ntop6 s) (q_target q) (q_rrType q) src (st_vip s)) (\<lambda>(out, stored, m).
        Ok (notifyUser i q status (ErrorMessage status) out
          (s\<lparr>st_vip := m, st_cache := write_records (key_of (q_rrType q) key) stored (st_cache s)\<rparr>)))
      else Ok (notifyUser i q status (ErrorMessage status) src s))"

text \<open>The lookup whose outcome is not looked at, before a notification.\<close>

definition answer_from_cache :: "nat \<Rightarrow> Query \<Rightarrow> cstring \<Rightarrow> Stub \<Rightarrow> Stub outcome" where
  "answer_from_cache i q key s =
     (let (r, s) = find_record key (q_rrType q) s;
          (src, status) = (case r of None \<Rightarrow> ([], 0) | Some x \<Rightarrow> x)
      in and_then (transform_and_notify i q key True src status s) (\<lambda>s. Ok (end_of_query i s)))"

text \<open>\<^verbatim>\<open>dynamic_cast<DnsCnameRecord*>(cnames[0])->cname()\<close>\<close>

definition first_cname :: "DnsResourceRecord list \<Rightarrow> cstring outcome" where
  "first_cname cnames =
     (case cnames of
        [] \<Rightarrow> Fault NoElement
      | r # _ \<Rightarrow> (case r of DnsCnameRecord _ cname \<Rightarrow> Ok cname | _ \<Rightarrow> Fault NullPointer))"

text \<open>The loop of \<^verbatim>\<open>go\<close> over the aliases in the cache: nothing bounds it.\<close>

partial_function (option) cname_loop :: "cstring \<Rightarrow> Stub \<Rightarrow> (cstring \<times> Stub) outcome option" where
  "cname_loop target s =
     (case find_record target T_CNAME s of
        (None, s) \<Rightarrow> Some (Ok (target, s))
      | (Some (cnames, _), s) \<Rightarrow>
          (case first_cname cnames of
             Ok cname \<Rightarrow> cname_loop cname s
           | Throw e \<Rightarrow> Some (Throw e)
           | Fault x \<Rightarrow> Some (Fault x)))"

declare cname_loop.simps [code]

text \<open>The part of \<^verbatim>\<open>go\<close> after the search in the cache has failed.\<close>

definition go_external :: "nat \<Rightarrow> Query \<Rightarrow> cstring \<Rightarrow> Stub \<Rightarrow> Stub outcome" where
  "go_external i q targetToQuery s =
     (if st_hostFileOnly s then
        asserting (q_rrType q = T_A)
          (case st_hostfile s targetToQuery of
             Some address \<Rightarrow> and_then (cache_address (q_target q) address s) (answer_from_cache i q (q_target q))
           | None \<Rightarrow>
               Ok (end_of_query i (notifyUser i q (status_code ARES_ENOTFOUND) (ErrorMessage (status_code ARES_ENOTFOUND)) [] s)))
      else Ok (lookupRecords i targetToQuery (q_rrType q) s))"

definition go_cached :: "nat \<Rightarrow> Query \<Rightarrow> cstring \<Rightarrow> DnsResourceRecord list \<times> nat \<Rightarrow> Stub \<Rightarrow> Stub outcome" where
  "go_cached i q key r s =
     (case r of (records, status) \<Rightarrow>
        and_then (transform_and_notify i q key (records \<noteq> []) records status s) (\<lambda>s. Ok (end_of_query i s)))"

definition go_alias :: "nat \<Rightarrow> Query \<Rightarrow> cstring \<Rightarrow> Stub \<Rightarrow> Stub outcome" where
  "go_alias i q targetToQuery s =
     (if targetToQuery \<noteq> q_target q then
        (case find_record targetToQuery (q_rrType q) s of
           (Some r, s) \<Rightarrow> go_cached i q targetToQuery r s
         | (None, s) \<Rightarrow> go_external i q targetToQuery s)
      else go_external i q targetToQuery s)"

definition go :: "nat \<Rightarrow> Query \<Rightarrow> Stub \<Rightarrow> Stub outcome option" where
  "go i q s =
     (case find_record (q_target q) (q_rrType q) s of
        (Some r, s) \<Rightarrow> Some (go_cached i q (q_target q) r s)
      | (None, s) \<Rightarrow>
          if q_rrType q \<noteq> T_CNAME then
            (case cname_loop (q_target q) s of
               None \<Rightarrow> None
             | Some r \<Rightarrow> Some (and_then r (\<lambda>(targetToQuery, s). go_alias i q targetToQuery s)))
          else Some (go_external i q (q_target q) s))"

text \<open>The loop of \<^verbatim>\<open>followCname\<close>, which counts.\<close>

function follow_loop :: "cstring \<Rightarrow> nat \<Rightarrow> Stub \<Rightarrow> (cstring \<times> nat \<times> Stub) outcome" where
  "follow_loop targetToQuery reQuery s =
     (case find_record targetToQuery T_CNAME s of
        (None, s) \<Rightarrow> Ok (targetToQuery, reQuery, s)
      | (Some (cnames, _), s) \<Rightarrow>
          and_then (first_cname cnames) (\<lambda>cname.
          if reQuery + 1 < MAX_REQUERIES then follow_loop cname (reQuery + 1) s else Ok (cname, reQuery + 1, s)))"
  by pat_completeness auto
termination
  by (relation "measure (\<lambda>(t, n, s). MAX_REQUERIES - n)") auto

declare follow_loop.simps [simp del]

text \<open>\<^verbatim>\<open>followCname\<close> with the rest of \<^verbatim>\<open>process\<close> that depends on it: the query is answered and ends, or asks again.\<close>

definition follow_answer :: "nat \<Rightarrow> Query \<Rightarrow> cstring \<Rightarrow> Stub \<Rightarrow> Stub outcome" where
  "follow_answer i q targetToQuery s =
     (if q_followCname q \<and> q_reQuery q < MAX_REQUERIES then
        and_then (follow_loop targetToQuery (q_reQuery q + 1) s) (\<lambda>(targetToQuery, reQuery, s).
        case find_record targetToQuery (q_rrType q) s of
          (None, s) \<Rightarrow> Ok (lookupRecords i targetToQuery (q_rrType q) (save_query i (q\<lparr>q_reQuery := reQuery\<rparr>) s))
        | (Some _, s) \<Rightarrow> answer_from_cache i q targetToQuery s)
      else Ok (end_of_query i (notifyUser i q 1 (ErrorMessage 1) [] s)))"

definition followCname :: "nat \<Rightarrow> Query \<Rightarrow> nat \<Rightarrow> byte list \<Rightarrow> Stub \<Rightarrow> Stub outcome" where
  "followCname i q aptr abuf s =
     and_then (expand_at abuf aptr) (\<lambda>r. case r of
        Inl _ \<Rightarrow>
          Ok (end_of_query i (notifyUser i q (status_code ARES_EFORMERR) (Text ''Failed DNS preparse'') [] s))
      | Inr (name, len) \<Rightarrow>
          (case cache_message abuf s of
             Throw e \<Rightarrow> Ok (end_of_query i (notifyUser i q (status_code ARES_EFORMERR) (Text e) [] s))
           | Fault x \<Rightarrow> Fault x
           | Ok s \<Rightarrow>
               if q_rrType q \<noteq> T_CNAME then
                 and_then (checked (DNS_RR_TYPE abuf (aptr + len))) (\<lambda>type.
                 if type = T_CNAME then follow_answer i q (c_data name) s
                 else answer_from_cache i q (c_data name) s)
               else answer_from_cache i q (c_data name) s))"

definition cacheable_error :: "ares_status \<Rightarrow> bool" where
  "cacheable_error status \<longleftrightarrow>
     status \<in> {ARES_ENODATA, ARES_EFORMERR, ARES_ESERVFAIL, ARES_ENOTFOUND, ARES_ENOTIMP, ARES_EREFUSED}"

definition process_error :: "nat \<Rightarrow> Query \<Rightarrow> ares_status \<Rightarrow> byte list \<Rightarrow> Stub \<Rightarrow> Stub outcome" where
  "process_error i q status abuf s =
     (let fail = (\<lambda>s. Ok (end_of_query i
            (notifyUser i q (status_code status) (ErrorMessage (status_code status)) [] s)))
      in if cacheable_error status then
           (case (if q_rrType q = T_A then st_hostfile s (q_target q) else None) of
              Some address \<Rightarrow> and_then (cache_address (q_target q) address s) (answer_from_cache i q (q_target q))
            | None \<Rightarrow>
                (case stub_cacheTTL (q_target q) (q_rrType q) (status_code status) abuf s of
                   Ok s \<Rightarrow> fail s
                 | Throw _ \<Rightarrow> fail s
                 | Fault x \<Rightarrow> Fault x))
         else asserting (status \<noteq> ARES_EBADFAMILY) (fail s))"

definition process_query :: "nat \<Rightarrow> Query \<Rightarrow> ares_status \<Rightarrow> byte list \<Rightarrow> Stub \<Rightarrow> Stub outcome" where
  "process_query i q status abuf s =
     (if status \<noteq> ARES_SUCCESS then process_error i q status abuf s
      else
        and_then (checked (DNS_HEADER_QDCOUNT abuf)) (\<lambda>qdcount.
        case skip_questions abuf qdcount HFIXEDSZ of
          Throw e \<Rightarrow> Ok (end_of_query i (notifyUser i q (status_code ARES_EFORMERR) (Text e) [] s))
        | Fault x \<Rightarrow> Fault x
        | Ok aptr \<Rightarrow>
            and_then (checked (DNS_HEADER_ANCOUNT abuf)) (\<lambda>ancount.
            if ancount = 0 then Ok (end_of_query i (notifyUser i q 0 (ErrorMessage 0) [] s))
            else followCname i q aptr abuf s)))"

text \<open>\<^verbatim>\<open>handleDnsRaw\<close> calls the query whose address the lookup carries.\<close>

definition handleDnsRaw :: "nat \<Rightarrow> ares_status \<Rightarrow> byte list \<Rightarrow> Stub \<Rightarrow> Stub outcome" where
  "handleDnsRaw i status abuf s =
     (let s = s\<lparr>st_pending := remove1 i (st_pending s)\<rparr> in
      case map_of (st_queries s) i of
        None \<Rightarrow> Fault DeletedObject
      | Some q \<Rightarrow> process_query i q status abuf s)"

section \<open>Commands\<close>

definition SupportsCName :: "nat \<Rightarrow> bool" where
  "SupportsCName t \<longleftrightarrow> t \<noteq> T_CNAME"

definition new_Query :: "bool \<Rightarrow> cstring \<Rightarrow> nat \<Rightarrow> Query" where
  "new_Query xform target rrType =
     \<lparr>q_rrType = rrType, q_transform = xform, q_target = target, q_reQuery = 0, q_followCname = SupportsCName rrType\<rparr>"

definition query_command :: "nat \<Rightarrow> cstring \<Rightarrow> Stub \<Rightarrow> Stub outcome option" where
  "query_command rrType target s =
     (let q = new_Query (st_transform s) target rrType; i = st_next s
      in go i q (s\<lparr>st_queries := st_queries s @ [(i, q)], st_next := Suc i\<rparr>))"

definition queueCommand :: "Command \<Rightarrow> Stub \<Rightarrow> Stub" where
  "queueCommand cmd s = s\<lparr>st_fifo := st_fifo s @ [cmd]\<rparr>"

definition fail_pending :: "nat list \<Rightarrow> Stub \<Rightarrow> Stub outcome" where
  "fail_pending is s = fold_ok (\<lambda>i. handleDnsRaw i ARES_EDESTRUCTION []) is s"

text \<open>\<open>changed\<close> is the result of \<^verbatim>\<open>checkDnsChange\<close>; \<^verbatim>\<open>init\<close> of the resolver then destroys its channel.\<close>

definition doReloadDnsServers :: "bool \<Rightarrow> Stub \<Rightarrow> Stub outcome" where
  "doReloadDnsServers changed s =
     (if changed then fail_pending (st_pending s) (s\<lparr>st_cache := cleanup (st_cache s)\<rparr>) else Ok s)"

fun execute :: "bool \<Rightarrow> Command \<Rightarrow> Stub \<Rightarrow> Stub outcome option" where
  "execute changed (QueryCommand rrType target) s = query_command rrType target s"
| "execute changed (SetEnumSuffixesCommand suffixes) s = Some (Ok (s\<lparr>st_enumSuffixes := suffixes\<rparr>))"
| "execute changed (SetEnumDomainsCommand domains) s = Some (Ok (s\<lparr>st_enumDomains := domains\<rparr>))"
| "execute changed ClearDnsCacheCommand s = Some (Ok (s\<lparr>st_cache := cleanup (st_cache s)\<rparr>))"
| "execute changed LogDnsCacheCommand s = Some (Ok (s\<lparr>st_cache := snd (getCacheDump (st_now s) (st_cache s))\<rparr>))"
| "execute changed (GetDnsCacheDumpCommand key) s =
     (let (out, c) = getCacheDump (st_now s) (st_cache s)
      in Some (Ok (s\<lparr>st_cache := c, st_dumps := st_dumps s @ [(key, out)]\<rparr>)))"
| "execute changed ReloadDnsServersCommand s = Some (doReloadDnsServers changed s)"

text \<open>One turn of \<^verbatim>\<open>processFifo\<close>.\<close>

definition process_command :: "bool \<Rightarrow> Stub \<Rightarrow> Stub outcome option" where
  "process_command changed s =
     (case st_fifo s of [] \<Rightarrow> Some (Ok s) | cmd # rest \<Rightarrow> execute changed cmd (s\<lparr>st_fifo := rest\<rparr>))"

section \<open>Steps\<close>

text \<open>What can happen to a stub whose clients ask for records of the types \<open>ts\<close>: a client queues a command, the DNS
  thread executes one, the resolver answers a lookup, \<^verbatim>\<open>DnsResult\<close> sets or removes a preferred record, the application
  changes a setting, and time passes.\<close>

fun asks_for :: "nat set \<Rightarrow> Command \<Rightarrow> bool" where
  "asks_for ts (QueryCommand t _) \<longleftrightarrow> t \<in> ts"
| "asks_for ts _ \<longleftrightarrow> True"

inductive stub_step :: "nat set \<Rightarrow> Stub \<Rightarrow> Stub \<Rightarrow> bool" for ts :: "nat set" where
  queue: "asks_for ts cmd \<Longrightarrow> stub_step ts s (queueCommand cmd s)"
| exec: "process_command changed s = Some (Ok s') \<Longrightarrow> stub_step ts s s'"
| raw: "i \<in> set (st_pending s) \<Longrightarrow> handleDnsRaw i status abuf s = Ok s' \<Longrightarrow> stub_step ts s s'"
| set_vip: "vip target t v (st_vip s) = Ok m \<Longrightarrow> stub_step ts s (s\<lparr>st_vip := m\<rparr>)"
| remove_vip: "stub_step ts s (s\<lparr>st_vip := removeVip target t (st_vip s)\<rparr>)"
| transform: "stub_step ts s (s\<lparr>st_transform := b\<rparr>)"
| ttl: "stub_step ts s (s\<lparr>st_cache := setTTL n (st_cache s)\<rparr>)"
| size: "stub_step ts s (s\<lparr>st_cache := setSize n (st_cache s)\<rparr>)"
| tick: "st_now s \<le> now \<Longrightarrow> stub_step ts s (s\<lparr>st_now := now\<rparr>)"

inductive stub_reachable :: "nat set \<Rightarrow> Stub \<Rightarrow> bool" for ts :: "nat set" where
  start: "0 < now \<Longrightarrow> stub_reachable ts (new_DnsStub xform hostfile hostonly ntop6 now)"
| step: "stub_reachable ts s \<Longrightarrow> stub_step ts s s' \<Longrightarrow> stub_reachable ts s'"

end
