(* ===== verification/DnsStubInv.thy ===== *)
theory DnsStubInv
  imports DnsStub
begin

text \<open>The invariant of the stub. Its book-keeping (queries, pending lookups, notifications) is separate from its cache:
  most operations leave the first alone and keep the second in order (\<open>retains\<close>); a query ends in one of two ways, with a
  notification or with another lookup.\<close>

declare split_paired_All [simp del]

section \<open>What an operation keeps\<close>

definition same_book :: "Stub \<Rightarrow> Stub \<Rightarrow> bool" where
  "same_book s s' \<longleftrightarrow>
     st_queries s' = st_queries s \<and> st_pending s' = st_pending s \<and> st_told s' = st_told s \<and>
     st_asked s' = st_asked s \<and> st_next s' = st_next s \<and> st_fifo s' = st_fifo s \<and> st_now s' = st_now s \<and>
     st_hostfile s' = st_hostfile s \<and> st_hostFileOnly s' = st_hostFileOnly s \<and> st_ntop6 s' = st_ntop6 s"

text \<open>A list of aliases that can still be found has a record.\<close>

definition filled :: "secs \<Rightarrow> RRCache \<Rightarrow> bool" where
  "filled now c \<longleftrightarrow>
     (\<forall>k l. entry c k = Some l \<longrightarrow> mRRType l = T_CNAME \<longrightarrow> mRecords l \<noteq> [] \<or> mAbsoluteExpiry l \<le> now)"

text \<open>\<open>b\<close> says that clients may ask for aliases.\<close>

definition cache_good :: "bool \<Rightarrow> secs \<Rightarrow> RRCache \<Rightarrow> bool" where
  "cache_good b now c \<longleftrightarrow> cache_ok c \<and> 0 < now \<and> (b \<or> filled now c)"

definition retains :: "bool \<Rightarrow> Stub \<Rightarrow> Stub \<Rightarrow> bool" where
  "retains b s s' \<longleftrightarrow> same_book s s' \<and> (cache_good b (st_now s) (st_cache s) \<longrightarrow> cache_good b (st_now s) (st_cache s'))"

lemma retains_refl [simp]: "retains b s s"
  by (simp add: retains_def same_book_def)

lemma retains_trans: "retains b s s' \<Longrightarrow> retains b s' s'' \<Longrightarrow> retains b s s''"
  by (auto simp: retains_def same_book_def)

lemma retains_cache:
  "(cache_good b (st_now s) (st_cache s) \<Longrightarrow> cache_good b (st_now s) c) \<Longrightarrow> retains b s (s\<lparr>st_cache := c\<rparr>)"
  by (auto simp: retains_def same_book_def)

section \<open>The cache\<close>

lemma filled_sub: "filled now c \<Longrightarrow> (\<And>k. entry c' k = None \<or> entry c' k = entry c k) \<Longrightarrow> filled now c'"
  unfolding filled_def by (metis option.distinct(1))

lemma filled_put:
  assumes "filled now c" "\<And>k. entry c' k = None \<or> entry c' k = ((entry c)(k0 \<mapsto> l)) k"
    "mRRType l = T_CNAME \<Longrightarrow> mRecords l \<noteq> [] \<or> mAbsoluteExpiry l \<le> now"
  shows "filled now c'"
  unfolding filled_def
proof (intro allI impI)
  fix k l' assume "entry c' k = Some l'" "mRRType l' = T_CNAME"
  moreover from this assms(2) [of k] have "((entry c)(k0 \<mapsto> l)) k = Some l'" by auto
  ultimately show "mRecords l' \<noteq> [] \<or> mAbsoluteExpiry l' \<le> now"
    using assms(1,3) by (auto simp: filled_def split: if_splits)
qed

lemma update_loop_empty: "update_loop f vs rs e = Ok ([], e') \<Longrightarrow> rs = [] \<and> e' = e"
  by (induction f vs rs e rule: update_loop.induct) (auto split: outcome.splits)

text \<open>When no record of a reply could be parsed the list has expired already.\<close>

lemma before_now: "0 < (now :: secs) \<Longrightarrow> now - 1 \<le> now"
  by (simp add: word_le_nat_alt unat_minus_one word_neq_0_conv [symmetric])

lemma RRList_update_filled:
  assumes "RRList_update now f vs ttl l = Ok l'" "0 < now"
  shows "mRecords l' \<noteq> [] \<or> mAbsoluteExpiry l' \<le> now"
proof (rule disjCI)
  assume a: "\<not> mAbsoluteExpiry l' \<le> now"
  show "mRecords l' \<noteq> []"
  proof
    assume "mRecords l' = []"
    then have "update_loop f vs [] ULONG_MAX = Ok ([], ULONG_MAX)"
      using assms(1) update_loop_empty by (fastforce simp: RRList_update_def outcome_simps Let_def)
    moreover have "\<not> ULONG_MAX < ulong ttl" by (simp add: ULONG_MAX_def not_less)
    ultimately have "mAbsoluteExpiry l' = now - 1"
      using assms(1) by (auto simp: RRList_update_def Let_def ULONG_MAX_def)
    then show False using a before_now [OF assms(2)] by simp
  qed
qed

lemma updateCache_good: "cache_good b now c \<Longrightarrow> updateCache now t vs c = Ok c' \<Longrightarrow> cache_good b now c'"
proof -
  assume a: "cache_good b now c" "updateCache now t vs c = Ok c'"
  then have c: "cache_ok c" "cache_ok c'" "0 < now" using updateCache_ok [of c now t vs c'] by (auto simp: cache_good_def)
  from c(1) a(2) show ?thesis
  proof (cases rule: updateCache_entry)
    case (1 f l)
    then have "filled now c \<Longrightarrow> filled now c'"
      using filled_put [OF _ 1(3)] RRList_update_filled [OF 1(2)] c(3) by blast
    then show ?thesis using a c by (auto simp: cache_good_def)
  qed
qed

lemma fold_ok_inv: "fold_ok f xs s = Ok s' \<Longrightarrow> P s \<Longrightarrow> (\<And>x s s'. x \<in> set xs \<Longrightarrow> P s \<Longrightarrow> f x s = Ok s' \<Longrightarrow> P s') \<Longrightarrow> P s'"
  by (induction f xs s rule: fold_ok.induct) (auto simp: outcome_simps)

lemma update_ranges_good: "cache_good b now c \<Longrightarrow> update_ranges now gs c = Ok c' \<Longrightarrow> cache_good b now c'"
  unfolding update_ranges_def by (erule fold_ok_inv) (auto intro: updateCache_good)

lemma cache_good_sub:
  "cache_good b now c \<Longrightarrow> cache_ok c' \<Longrightarrow> (\<And>k. entry c' k = None \<or> entry c' k = entry c k) \<Longrightarrow> cache_good b now c'"
  using filled_sub by (auto simp: cache_good_def)

lemma lookup_good: "cache_good b now c \<Longrightarrow> cache_good b now (snd (lookup now d t c))"
  using cache_good_sub [of b now c "snd (lookup now d t c)"] lookup_cache [of c now d t] lookup_entry [of now d t c]
  by (auto simp: cache_good_def)

lemma dump_good: "cache_good b now c \<Longrightarrow> cache_good b now (snd (getCacheDump now c))"
  using cache_good_sub [of b now c "snd (getCacheDump now c)"] dump_loop_ok [of c now "mRRSet c"]
  by (auto simp: cache_good_def getCacheDump_def)

lemma cleanup_good: "cache_good b now c \<Longrightarrow> cache_good b now (cleanup c)"
  using cache_good_sub [of b now c "cleanup c"] cleanup_ok by (auto simp: cache_good_def)

lemma host_good:
  assumes "cache_good b now c" "rr_type r = T_A" shows "\<exists>c'. updateCacheFromHostFile now r c = Ok c' \<and> cache_good b now c'"
proof -
  have "cache_ok c" using assms(1) by (simp add: cache_good_def)
  from updateCacheFromHostFile_ok [OF this assms(2)] obtain c' l
    where c': "updateCacheFromHostFile now r c = Ok c'" "cache_ok c'" "mRRType l = T_A"
      "\<And>k. entry c' k = None \<or> entry c' k = ((entry c)(key_of T_A (mName r) \<mapsto> l)) k" by metis
  have "filled now c \<Longrightarrow> filled now c'"
    using filled_put [OF _ c'(4)] c'(3) by (auto simp: rr_types)
  then show ?thesis using c' assms(1) by (auto simp: cache_good_def)
qed

lemma cacheTTL_good:
  assumes "cache_good b now c" "cacheTTL now d t st v c = Ok c'" "b \<or> t \<noteq> T_CNAME"
  shows "cache_good b now c'"
proof -
  have c: "cache_ok c" using assms(1) by (simp add: cache_good_def)
  obtain ttl where "getTTL v = Ok ttl" using assms(2) by (auto simp: cacheTTL_def outcome_simps)
  from cacheTTL_ok [OF c this, of now d t st] assms(2)
  have c': "cache_ok c'" "\<And>k. entry c' k = None \<or> entry c' k = entry c k \<or>
      k = key_of t d \<and> entry c' k = Some (new_RRList_status now d t (max ttl (mUserDefinedTTL c)) st)"
    by (metis outcome.inject(1))+
  have "filled now c'" if "filled now c" "t \<noteq> T_CNAME"
    unfolding filled_def
  proof (intro allI impI)
    fix k l assume e: "entry c' k = Some l" "mRRType l = T_CNAME"
    then have "entry c k = Some l" using c'(2) [of k] that(2) by (auto simp: new_RRList_status_def)
    then show "mRecords l \<noteq> [] \<or> mAbsoluteExpiry l \<le> now" using that(1) e by (simp add: filled_def)
  qed
  then show ?thesis using assms c' by (auto simp: cache_good_def)
qed

text \<open>The records of a list replaced by as many of the same type.\<close>

lemma write_records_good:
  assumes "cache_good b now c"
    "\<And>l. entry c k = Some l \<Longrightarrow> map rr_type rs = map rr_type (mRecords l)"
  shows "cache_good b now (write_records k rs c)"
proof (cases "entry c k")
  case (Some l)
  let ?l = "l\<lparr>mRecords := rs\<rparr>"
  have e: "map rr_type rs = map rr_type (mRecords l)" using assms(2) Some by simp
  have k: "node_key ?l = k" using entry_key [OF Some] by (simp add: node_key_def)
  have "rr_type ` set rs = rr_type ` set (mRecords l)" using arg_cong [where f = set, OF e] by simp
  moreover have "typed_list l" using assms(1) entry_typed [OF _ Some] by (auto simp: cache_good_def)
  ultimately have t: "typed_list ?l" by (auto simp: typed_list_def)
  have "rs = [] \<longleftrightarrow> mRecords l = []" using e by (metis map_is_Nil_conv)
  then have "filled now c \<Longrightarrow> filled now (assign_node ?l c)"
    using filled_put [of now c "assign_node ?l c" k ?l] entry_assign_node [of c ?l] k Some by (auto simp: filled_def)
  then show ?thesis using assms(1) Some k t cache_ok_assign_node [of c ?l]
    by (auto simp: write_records_def entry_def [symmetric] cache_good_def)
qed (use assms in \<open>simp add: write_records_def entry_def [symmetric]\<close>)

section \<open>The operations of the stub\<close>

lemma find_record_retains: "find_record d t s = (r, s') \<Longrightarrow> retains b s s'"
  using lookup_good by (auto simp: find_record_def split: prod.splits intro!: retains_cache) (metis snd_conv)

lemma find_record_result: "find_record d t s = (r, s') \<Longrightarrow> r = fst (lookup (st_now s) d t (st_cache s)) \<and> s' = s\<lparr>st_cache := snd (lookup (st_now s) d t (st_cache s))\<rparr>"
  by (auto simp: find_record_def split: prod.splits)

lemma cache_message_retains: "cache_message abuf s = Ok s' \<Longrightarrow> retains b s s'"
  by (auto simp: cache_message_def outcome_simps intro!: retains_cache intro: update_ranges_good)

lemma cache_address_retains: "cache_address d a s = Ok s' \<Longrightarrow> retains b s s'"
proof -
  assume "cache_address d a s = Ok s'"
  then obtain c where c: "updateCacheFromHostFile (st_now s) (DnsHostRecord d a) (st_cache s) = Ok c" "s' = s\<lparr>st_cache := c\<rparr>"
    by (auto simp: cache_address_def outcome_simps)
  have "cache_good b (st_now s) c" if "cache_good b (st_now s) (st_cache s)"
    using host_good [OF that, of "DnsHostRecord d a"] c(1) by auto
  then show ?thesis using c(2) retains_cache by blast
qed

lemma stub_cacheTTL_retains: "stub_cacheTTL d t st abuf s = Ok s' \<Longrightarrow> b \<or> t \<noteq> T_CNAME \<Longrightarrow> retains b s s'"
  by (auto simp: stub_cacheTTL_def outcome_simps split: if_splits intro!: retains_cache intro: cacheTTL_good)

lemma follow_loop_retains: "follow_loop d n s = Ok (d', n', s') \<Longrightarrow> retains b s s' \<and> n \<le> n'"
proof (induction d n s rule: follow_loop.induct)
  case (1 d n s)
  obtain r s1 where r: "find_record d T_CNAME s = (r, s1)" by fastforce
  note k = find_record_retains [OF r, of b]
  show ?case
  proof (cases r)
    case None
    then show ?thesis using 1(2) r k by (subst (asm) follow_loop.simps) auto
  next
    case (Some x)
    then obtain cnames st cname where x: "x = (cnames, st)" "first_cname cnames = Ok cname"
      using 1(2) r by (subst (asm) follow_loop.simps) (auto simp: outcome_simps split: prod.splits)
    show ?thesis
    proof (cases "n + 1 < MAX_REQUERIES")
      case True
      then have "follow_loop cname (n + 1) s1 = Ok (d', n', s')"
        using 1(2) r Some x by (subst (asm) follow_loop.simps) simp
      then have "retains b s1 s' \<and> n + 1 \<le> n'" using 1(1) [OF r [symmetric] Some x(1) [symmetric]] True by blast
      then show ?thesis using retains_trans [OF k] by auto
    next
      case False
      then show ?thesis using 1(2) r Some x k by (subst (asm) follow_loop.simps) auto
    qed
  qed
qed

text \<open>The loop of \<^verbatim>\<open>go\<close>, when it returns.\<close>

lemma cname_loop_retains:
  assumes "cname_loop d s = Some (Ok (d', s'))" shows "retains b s s'"
proof -
  have "\<forall>d' s'. y = Ok (d', s') \<longrightarrow> retains b s s'" if "cname_loop d s = Some y" for y
  proof (rule cname_loop.raw_induct [OF _ that])
    fix loop d s y
    assume IH: "\<And>d s y. loop d s = Some y \<Longrightarrow> \<forall>d' s'. y = Ok (d', s') \<longrightarrow> retains b s s'"
      and eq: "(case find_record d T_CNAME s of (None, s) \<Rightarrow> Some (Ok (d, s))
        | (Some (cnames, x), s) \<Rightarrow> (case first_cname cnames of Ok cname \<Rightarrow> loop cname s
            | Throw e \<Rightarrow> Some (Throw e) | Fault x \<Rightarrow> Some (Fault x))) = Some y"
    obtain r s1 where r: "find_record d T_CNAME s = (r, s1)" by fastforce
    note k = find_record_retains [OF r, of b]
    show "\<forall>d' s'. y = Ok (d', s') \<longrightarrow> retains b s s'"
    proof (cases r)
      case None
      then show ?thesis using eq r k by auto
    next
      case (Some x)
      obtain cnames st where x: "x = (cnames, st)" by fastforce
      show ?thesis
      proof (cases "first_cname cnames")
        case (Ok cname)
        then have "loop cname s1 = Some y" using eq r Some x by simp
        then show ?thesis using IH retains_trans [OF k] by blast
      qed (use eq r Some x in auto)
    qed
  qed
  then show ?thesis using assms by blast
qed

section \<open>The ends of an event\<close>

definition told_and_ended :: "bool \<Rightarrow> nat \<Rightarrow> Query \<Rightarrow> Stub \<Rightarrow> Stub \<Rightarrow> bool" where
  "told_and_ended b i q s s' \<longleftrightarrow> (\<exists>s0 st m src. retains b s s0 \<and> s' = end_of_query i (notifyUser i q st m src s0))"

definition asked_first :: "bool \<Rightarrow> nat \<Rightarrow> Query \<Rightarrow> Stub \<Rightarrow> Stub \<Rightarrow> bool" where
  "asked_first b i q s s' \<longleftrightarrow> (\<exists>s0 t. retains b s s0 \<and> s' = lookupRecords i t (q_rrType q) s0)"

definition asked_again :: "bool \<Rightarrow> nat \<Rightarrow> Query \<Rightarrow> Stub \<Rightarrow> Stub \<Rightarrow> bool" where
  "asked_again b i q s s' \<longleftrightarrow>
     (\<exists>s0 t n. retains b s s0 \<and> q_reQuery q < MAX_REQUERIES \<and> q_reQuery q < n \<and>
        s' = lookupRecords i t (q_rrType q) (save_query i (q\<lparr>q_reQuery := n\<rparr>) s0))"

lemma told_later: "retains b s s1 \<Longrightarrow> told_and_ended b i q s1 s' \<Longrightarrow> told_and_ended b i q s s'"
  unfolding told_and_ended_def using retains_trans by blast

lemma asked_later: "retains b s s1 \<Longrightarrow> asked_first b i q s1 s' \<Longrightarrow> asked_first b i q s s'"
  unfolding asked_first_def using retains_trans by blast

lemma asked_again_later: "retains b s s1 \<Longrightarrow> asked_again b i q s1 s' \<Longrightarrow> asked_again b i q s s'"
  unfolding asked_again_def using retains_trans by blast

lemma told_now: "told_and_ended b i q s (end_of_query i (notifyUser i q st m src s))"
  unfolding told_and_ended_def using retains_refl by blast

text \<open>A transformation changes neither the number nor the types of the records that are stored.\<close>

lemma map_type_bump [simp]: "map (rr_type \<circ> bump) xs = map rr_type xs"
  by simp

lemma transform_stored: "transform ntop6 d t src m = Ok (out, stored, m') \<Longrightarrow> map rr_type stored = map rr_type src"
  by (auto simp: transform_def ranked_transform_def split: option.splits if_splits dest!: extract_split)

text \<open>The records that are written back are those that were found.\<close>

lemma transform_and_notify_ends:
  assumes "transform_and_notify i q key w src st s = Ok s'"
    "\<And>l. entry (st_cache s) (key_of (q_rrType q) key) = Some l \<Longrightarrow> src = mRecords l"
  shows "told_and_ended b i q s (end_of_query i s')"
proof (cases "q_transform q \<and> w")
  case True
  then obtain out stored m where t: "transform (st_ntop6 s) (q_target q) (q_rrType q) src (st_vip s) = Ok (out, stored, m)"
    and s': "s' = notifyUser i q st (ErrorMessage st) out
      (s\<lparr>st_vip := m, st_cache := write_records (key_of (q_rrType q) key) stored (st_cache s)\<rparr>)"
    using assms(1) by (auto simp: transform_and_notify_def outcome_simps)
  have "cache_good b (st_now s) (st_cache s) \<Longrightarrow>
    cache_good b (st_now s) (write_records (key_of (q_rrType q) key) stored (st_cache s))"
    using write_records_good [of b "st_now s" "st_cache s" "key_of (q_rrType q) key" stored] transform_stored [OF t] assms(2) by auto
  then have "retains b s (s\<lparr>st_vip := m, st_cache := write_records (key_of (q_rrType q) key) stored (st_cache s)\<rparr>)"
    by (auto simp: retains_def same_book_def)
  then show ?thesis using s' by (auto simp: told_and_ended_def)
next
  case False
  then show ?thesis using assms(1) told_now by (auto simp: transform_and_notify_def)
qed

lemma found_src:
  assumes "find_record key t s = (r, s1)" "entry (st_cache s1) (key_of t key) = Some l"
  shows "r = Some (mRecords l, mStatus l)"
  using assms by (auto simp: find_record_def lookup_def entry_def [symmetric] cache_simps Let_def split: option.splits if_splits)

lemma answer_from_cache_ends: "answer_from_cache i q key s = Ok s' \<Longrightarrow> told_and_ended b i q s s'"
proof -
  assume a: "answer_from_cache i q key s = Ok s'"
  obtain r s1 where r: "find_record key (q_rrType q) s = (r, s1)" by fastforce
  obtain src st where x: "(case r of None \<Rightarrow> ([], 0) | Some x \<Rightarrow> x) = (src, st)" by fastforce
  from a r x obtain s2 where s2: "transform_and_notify i q key True src st s1 = Ok s2" "s' = end_of_query i s2"
    by (auto simp: answer_from_cache_def outcome_simps)
  have "told_and_ended b i q s1 s'"
    unfolding s2(2) by (rule transform_and_notify_ends [OF s2(1)]) (use found_src [OF r] x in auto)
  then show ?thesis using told_later find_record_retains [OF r] by blast
qed

lemma go_cached_ends:
  assumes "find_record key (q_rrType q) s = (Some r, s1)" "go_cached i q key r s1 = Ok s'"
  shows "told_and_ended b i q s s'"
proof -
  obtain src st where x: "r = (src, st)" by fastforce
  from assms(2) x obtain s2 where s2: "transform_and_notify i q key (src \<noteq> []) src st s1 = Ok s2" "s' = end_of_query i s2"
    by (auto simp: go_cached_def outcome_simps)
  have "told_and_ended b i q s1 s'"
    unfolding s2(2) by (rule transform_and_notify_ends [OF s2(1)]) (use found_src [OF assms(1)] x in auto)
  then show ?thesis using told_later find_record_retains [OF assms(1)] by blast
qed

lemma address_answer_ends:
  "and_then (cache_address d a s) (answer_from_cache i q key) = Ok s' \<Longrightarrow> told_and_ended b i q s s'"
  using told_later [OF cache_address_retains answer_from_cache_ends] by (auto simp: outcome_simps)

lemma go_external_ends: "go_external i q d s = Ok s' \<Longrightarrow> told_and_ended b i q s s' \<or> asked_first b i q s s'"
  using address_answer_ends told_now
  by (fastforce simp: go_external_def asserting_eq_Ok asked_first_def split: if_splits option.splits intro: retains_refl)

lemma go_alias_ends: "go_alias i q d s = Ok s' \<Longrightarrow> told_and_ended b i q s s' \<or> asked_first b i q s s'"
  using go_external_ends [where b = b] go_cached_ends [where b = b] find_record_retains [where b = b] told_later asked_later
  by (fastforce simp: go_alias_def split: if_splits option.splits prod.splits)

lemma go_ends:
  assumes "go i q s = Some (Ok s')"
  shows "told_and_ended b i q s s' \<or> asked_first b i q s s'"
proof -
  obtain r s1 where r: "find_record (q_target q) (q_rrType q) s = (r, s1)" by fastforce
  note k = find_record_retains [OF r, of b]
  show ?thesis
  proof (cases r)
    case None
    show ?thesis
    proof (cases "q_rrType q = T_CNAME")
      case True
      then have "go_external i q (q_target q) s1 = Ok s'" using assms r None by (simp add: go_def)
      then show ?thesis using go_external_ends [where b = b] told_later [OF k] asked_later [OF k] by blast
    next
      case False
      then obtain d s2 where d: "cname_loop (q_target q) s1 = Some (Ok (d, s2))" "go_alias i q d s2 = Ok s'"
        using assms r None by (auto simp: go_def outcome_simps split: option.splits)
      have "retains b s s2" using k cname_loop_retains [OF d(1)] retains_trans by blast
      then show ?thesis using go_alias_ends [OF d(2), where b = b] told_later asked_later by blast
    qed
  qed (use assms r go_cached_ends in \<open>auto simp: go_def\<close>)
qed

lemma follow_answer_ends: "follow_answer i q d s = Ok s' \<Longrightarrow> told_and_ended b i q s s' \<or> asked_again b i q s s'"
proof (cases "q_followCname q \<and> q_reQuery q < MAX_REQUERIES")
  case True
  assume "follow_answer i q d s = Ok s'"
  then obtain d1 n s1 where f: "follow_loop d (q_reQuery q + 1) s = Ok (d1, n, s1)"
    and e: "(case find_record d1 (q_rrType q) s1 of
          (None, s) \<Rightarrow> Ok (lookupRecords i d1 (q_rrType q) (save_query i (q\<lparr>q_reQuery := n\<rparr>) s))
        | (Some _, s) \<Rightarrow> answer_from_cache i q d1 s) = Ok s'"
    using True by (auto simp: follow_answer_def outcome_simps)
  obtain r s2 where r: "find_record d1 (q_rrType q) s1 = (r, s2)" by fastforce
  have k: "retains b s s2" using follow_loop_retains [OF f, of b] find_record_retains [OF r, of b] retains_trans by blast
  show ?thesis
  proof (cases r)
    case None
    have "q_reQuery q < n" using follow_loop_retains [OF f, of b] by simp
    moreover have "s' = lookupRecords i d1 (q_rrType q) (save_query i (q\<lparr>q_reQuery := n\<rparr>) s2)" using e r None by simp
    ultimately have "asked_again b i q s s'" unfolding asked_again_def using k True by blast
    then show ?thesis by simp
  next
    case (Some x)
    then show ?thesis using e r told_later [OF k] answer_from_cache_ends [where b = b] by auto
  qed
qed (auto simp: follow_answer_def told_now)

lemma followCname_ends: "followCname i q p abuf s = Ok s' \<Longrightarrow> told_and_ended b i q s s' \<or> asked_again b i q s s'"
proof -
  assume a: "followCname i q p abuf s = Ok s'"
  then obtain x where x: "expand_at abuf p = Ok x" by (auto simp: followCname_def outcome_simps)
  show ?thesis
  proof (cases x)
    case (Inl e)
    then show ?thesis using a x told_now by (auto simp: followCname_def)
  next
    case (Inr y)
    obtain name len where y: "y = (name, len)" by fastforce
    show ?thesis
    proof (cases "cache_message abuf s")
      case (Ok s1)
      have k: "retains b s s1" by (rule cache_message_retains [OF Ok])
      have "answer_from_cache i q (c_data name) s1 = Ok s' \<or> follow_answer i q (c_data name) s1 = Ok s'"
        using a x Inr y Ok by (auto simp: followCname_def outcome_simps split: if_splits)
      then show ?thesis
        using answer_from_cache_ends [where b = b] follow_answer_ends [where b = b] told_later [OF k] asked_again_later [OF k] by blast
    qed (use a x Inr y told_now in \<open>auto simp: followCname_def\<close>)
  qed
qed

lemma process_error_ends:
  assumes "process_error i q st abuf s = Ok s'" "b \<or> q_rrType q \<noteq> T_CNAME"
  shows "told_and_ended b i q s s'"
proof (cases "cacheable_error st \<and> (q_rrType q = T_A \<longrightarrow> st_hostfile s (q_target q) = None)")
  case True
  have "stub_cacheTTL (q_target q) (q_rrType q) (status_code st) abuf s = Ok s1 \<Longrightarrow> retains b s s1" for s1
    using stub_cacheTTL_retains assms(2) by blast
  then show ?thesis using assms(1) True told_now told_later
    by (auto simp: process_error_def Let_def split: outcome.splits option.splits if_splits)
next
  case False
  then show ?thesis using assms(1) told_now address_answer_ends
    by (auto simp: process_error_def Let_def asserting_eq_Ok split: if_splits)
qed

lemma process_query_ends:
  assumes "process_query i q st abuf s = Ok s'" "b \<or> q_rrType q \<noteq> T_CNAME"
  shows "told_and_ended b i q s s' \<or> asked_again b i q s s'"
proof (cases "st = ARES_SUCCESS")
  case False
  then show ?thesis using assms process_error_ends by (auto simp: process_query_def)
next
  case True
  then obtain n where n: "DNS_HEADER_QDCOUNT abuf = Some n" using assms(1) by (auto simp: process_query_def outcome_simps)
  show ?thesis
  proof (cases "skip_questions abuf n HFIXEDSZ")
    case (Ok p)
    then have "followCname i q p abuf s = Ok s' \<or> s' = end_of_query i (notifyUser i q 0 (ErrorMessage 0) [] s)"
      using assms(1) True n by (auto simp: process_query_def outcome_simps split: if_splits)
    then show ?thesis using followCname_ends told_now by blast
  qed (use assms(1) True n told_now in \<open>auto simp: process_query_def\<close>)
qed

end
