(* ===== verification/DnsStubReach.thy ===== *)
theory DnsStubReach
  imports DnsStubInv
begin

text \<open>The book-keeping of the stub in every reachable state: a query that was started is known and has one lookup under
  way, or is gone and its client was told once.\<close>

section \<open>The invariant\<close>

definition ids :: "Stub \<Rightarrow> nat set" where
  "ids s = fst ` set (st_queries s)"

definition told_count :: "Stub \<Rightarrow> nat \<Rightarrow> nat" where
  "told_count s i = length (filter (\<lambda>(j, _). j = i) (st_told s))"

definition asked_count :: "Stub \<Rightarrow> nat \<Rightarrow> nat" where
  "asked_count s i = length (filter (\<lambda>(j, _). j = i) (st_asked s))"

definition query_ok :: "nat set \<Rightarrow> Stub \<Rightarrow> nat \<times> Query \<Rightarrow> bool" where
  "query_ok ts s = (\<lambda>(i, q). i < st_next s \<and> q_rrType q \<in> ts \<and> asked_count s i \<le> Suc (min MAX_REQUERIES (q_reQuery q)))"

text \<open>\<open>J\<close> are the queries that are being worked on.\<close>

definition book :: "nat set \<Rightarrow> nat set \<Rightarrow> Stub \<Rightarrow> bool" where
  "book ts J s \<longleftrightarrow>
     distinct (map fst (st_queries s)) \<and> distinct (st_pending s) \<and> set (st_pending s) = ids s - J \<and>
     (\<forall>i. told_count s i = (if i < st_next s \<and> i \<notin> ids s then 1 else 0)) \<and>
     (\<forall>x \<in> set (st_queries s). query_ok ts s x) \<and>
     (\<forall>i. asked_count s i \<le> Suc MAX_REQUERIES \<and> (st_next s \<le> i \<longrightarrow> asked_count s i = 0)) \<and>
     list_all (asks_for ts) (st_fifo s)"

definition stub_ok :: "nat set \<Rightarrow> Stub \<Rightarrow> bool" where
  "stub_ok ts s \<longleftrightarrow> book ts {} s \<and> cache_good (T_CNAME \<in> ts) (st_now s) (st_cache s)"

section \<open>The ends of an event keep it\<close>

lemma book_same: "same_book s s' \<Longrightarrow> book ts J s' = book ts J s"
  by (simp add: book_def same_book_def ids_def told_count_def asked_count_def query_ok_def)

lemma retains_book: "retains b s s' \<Longrightarrow> book ts J s \<Longrightarrow> book ts J s'"
  by (auto simp: retains_def book_same)

lemma retains_good: "retains b s s' \<Longrightarrow> cache_good b (st_now s) (st_cache s) \<Longrightarrow> cache_good b (st_now s') (st_cache s') \<and> st_now s' = st_now s"
  by (simp add: retains_def same_book_def)

lemma in_ids: "(i, q) \<in> set (st_queries s) \<Longrightarrow> i \<in> ids s"
  by (force simp: ids_def)

lemma book_query: "book ts J s \<Longrightarrow> (i, q) \<in> set (st_queries s) \<Longrightarrow> query_ok ts s (i, q)"
  unfolding book_def by blast

lemma query_ok_type: "query_ok ts s (i, q) \<Longrightarrow> q_rrType q \<in> ts"
  by (simp add: query_ok_def)

lemma ids_end [simp]: "ids (end_of_query i s) = ids s - {i}"
  by (auto simp: ids_def end_of_query_def)

lemma ids_notify [simp]: "ids (notifyUser i q st m src s) = ids s"
  by (simp add: ids_def notifyUser_def)

lemma book_told:
  assumes "book ts {i} s" "i \<in> ids s"
  shows "book ts {} (end_of_query i (notifyUser i q st m src s))"
proof -
  let ?s = "end_of_query i (notifyUser i q st m src s)"
  have "i < st_next s" using assms by (auto simp: book_def query_ok_def ids_def)
  then have t: "told_count ?s j = (if j < st_next ?s \<and> j \<notin> ids ?s then 1 else 0)" for j
    using assms by (auto simp: book_def told_count_def end_of_query_def notifyUser_def ids_def)
  have "distinct (map fst (st_queries ?s))"
    using assms(1) by (auto simp: book_def end_of_query_def notifyUser_def distinct_map inj_on_def)
  then show ?thesis using assms t
    by (auto simp: book_def query_ok_def asked_count_def) (auto simp: end_of_query_def notifyUser_def)
qed

lemma told_ok:
  assumes "told_and_ended b i q s s'" "book ts {i} s" "i \<in> ids s" "cache_good b (st_now s) (st_cache s)"
  shows "book ts {} s' \<and> cache_good b (st_now s') (st_cache s') \<and> st_now s' = st_now s \<and> ids s' = ids s - {i} \<and>
    st_pending s' = st_pending s"
proof -
  obtain s0 st m src where s0: "retains b s s0" "s' = end_of_query i (notifyUser i q st m src s0)"
    using assms(1) by (auto simp: told_and_ended_def)
  have i: "ids s0 = ids s" "st_pending s0 = st_pending s" using s0(1) by (simp_all add: retains_def same_book_def ids_def)
  have "book ts {} s'" using book_told retains_book s0 assms(2,3) i by simp
  moreover have "cache_good b (st_now s') (st_cache s') \<and> st_now s' = st_now s"
    using retains_good [OF s0(1) assms(4)] s0(2) by (auto simp: end_of_query_def notifyUser_def)
  moreover have "ids s' = ids s - {i}" using s0(2) i by simp
  moreover have "st_pending s' = st_pending s" using s0(2) i by (simp add: end_of_query_def notifyUser_def)
  ultimately show ?thesis by blast
qed

lemma asked_count_lookup:
  "asked_count (lookupRecords i t ty s) j = asked_count s j + (if j = i then 1 else 0)"
  "asked_count (save_query i q s) j = asked_count s j"
  by (auto simp: asked_count_def lookupRecords_def save_query_def)

lemma ids_save [simp]: "ids (save_query i q s) = ids s" "ids (lookupRecords i t ty s) = ids s"
  by (force simp: ids_def save_query_def lookupRecords_def)+

lemma book_asked:
  assumes "book ts {i} s" "i \<in> ids s" "q_rrType q \<in> ts" "Suc (asked_count s i) \<le> Suc (min MAX_REQUERIES (q_reQuery q))"
  shows "book ts {} (lookupRecords i t ty (save_query i q s))"
proof -
  let ?s = "lookupRecords i t ty (save_query i q s)"
  have "map fst (st_queries ?s) = map fst (st_queries s)"
    by (auto simp: lookupRecords_def save_query_def)
  then have d: "distinct (map fst (st_queries ?s))" using assms(1) by (simp add: book_def)
  have p: "distinct (st_pending ?s)" "set (st_pending ?s) = ids ?s"
    using assms(1,2) by (auto simp: book_def) (auto simp: lookupRecords_def save_query_def)
  have "query_ok ts ?s x" if "x \<in> set (st_queries ?s)" for x
    using that assms by (auto simp: book_def query_ok_def asked_count_lookup) (auto simp: lookupRecords_def save_query_def ids_def split: if_splits)
  moreover have "asked_count ?s j \<le> Suc MAX_REQUERIES \<and> (st_next ?s \<le> j \<longrightarrow> asked_count ?s j = 0)" for j
  proof -
    have "i < st_next s" using assms(1,2) by (auto simp: book_def query_ok_def ids_def)
    then show ?thesis using assms(1,4) by (auto simp: book_def asked_count_lookup) (auto simp: lookupRecords_def save_query_def)
  qed
  moreover have "told_count ?s = told_count s" "st_next ?s = st_next s" "st_fifo ?s = st_fifo s"
    by (simp_all add: fun_eq_iff told_count_def lookupRecords_def save_query_def)
  ultimately show ?thesis using assms(1) d p by (auto simp: book_def)
qed

lemma save_same: "distinct (map fst (st_queries s)) \<Longrightarrow> (i, q) \<in> set (st_queries s) \<Longrightarrow> save_query i q s = s"
proof -
  assume a: "distinct (map fst (st_queries s))" "(i, q) \<in> set (st_queries s)"
  have "map (\<lambda>(j, q'). if j = i then (j, q) else (j, q')) (st_queries s) = st_queries s"
  proof (rule map_idI)
    fix x assume "x \<in> set (st_queries s)"
    then show "(\<lambda>(j, q'). if j = i then (j, q) else (j, q')) x = x"
      using a eq_key_imp_eq_value [OF a(1), of i] by (auto split: prod.splits)
  qed
  then show ?thesis by (simp add: save_query_def)
qed

lemma asked_first_ok:
  assumes "asked_first b i q s s'" "book ts {i} s" "(i, q) \<in> set (st_queries s)" "asked_count s i = 0"
    "cache_good b (st_now s) (st_cache s)"
  shows "book ts {} s' \<and> cache_good b (st_now s') (st_cache s') \<and> st_now s' = st_now s"
proof -
  obtain s0 t where s0: "retains b s s0" "s' = lookupRecords i t (q_rrType q) s0"
    using assms(1) by (auto simp: asked_first_def)
  have e: "st_queries s0 = st_queries s" "asked_count s0 i = 0" "book ts {i} s0"
    using s0(1) retains_book [OF s0(1) assms(2)] assms(4) by (simp_all add: retains_def same_book_def asked_count_def)
  have "save_query i q s0 = s0" using save_same e assms(2,3) by (simp add: book_def)
  moreover have "i \<in> ids s0" "q_rrType q \<in> ts"
    using in_ids [of i q s0] query_ok_type [OF book_query [OF assms(2,3)]] assms(3) e by simp_all
  ultimately have "book ts {} s'" using book_asked [of ts i s0 q t "q_rrType q"] e s0(2) by (simp add: MAX_REQUERIES_def)
  then show ?thesis using retains_good [OF s0(1) assms(5)] s0(2) by (auto simp: lookupRecords_def)
qed

lemma asked_again_ok:
  assumes "asked_again b i q s s'" "book ts {i} s" "(i, q) \<in> set (st_queries s)" "cache_good b (st_now s) (st_cache s)"
  shows "book ts {} s' \<and> cache_good b (st_now s') (st_cache s') \<and> st_now s' = st_now s"
proof -
  obtain s0 t n where s0: "retains b s s0" "q_reQuery q < MAX_REQUERIES" "q_reQuery q < n"
    "s' = lookupRecords i t (q_rrType q) (save_query i (q\<lparr>q_reQuery := n\<rparr>) s0)"
    using assms(1) by (auto simp: asked_again_def)
  have e: "st_queries s0 = st_queries s" "book ts {i} s0"
    using s0(1) retains_book [OF s0(1) assms(2)] by (simp_all add: retains_def same_book_def)
  have "i \<in> ids s0" "query_ok ts s0 (i, q)" using assms(3) e in_ids [of i q s0] book_query by simp_all
  then have "book ts {} s'" unfolding s0(4) using s0(2,3) e(2) by (intro book_asked) (auto simp: query_ok_def)
  then show ?thesis using retains_good [OF s0(1) assms(4)] s0(4) by (auto simp: lookupRecords_def save_query_def)
qed

section \<open>Every event keeps it\<close>

lemma begin_raw:
  assumes "book ts {} s" "i \<in> set (st_pending s)"
  obtains q where "map_of (st_queries s) i = Some q" "(i, q) \<in> set (st_queries s)" "q_rrType q \<in> ts"
    "book ts {i} (s\<lparr>st_pending := remove1 i (st_pending s)\<rparr>)"
proof -
  have "i \<in> ids s" "distinct (map fst (st_queries s))" using assms by (auto simp: book_def)
  then obtain q where q: "(i, q) \<in> set (st_queries s)" "map_of (st_queries s) i = Some q" by (force simp: ids_def)
  moreover have "q_rrType q \<in> ts" using query_ok_type book_query [OF assms(1)] q(1) by blast
  moreover have "book ts {i} (s\<lparr>st_pending := remove1 i (st_pending s)\<rparr>)"
  proof -
    let ?s = "s\<lparr>st_pending := remove1 i (st_pending s)\<rparr>"
    have "ids ?s = ids s" "told_count ?s = told_count s" "asked_count ?s = asked_count s" "query_ok ts ?s = query_ok ts s"
      by (simp_all add: fun_eq_iff ids_def told_count_def asked_count_def query_ok_def)
    then show ?thesis using assms(1) unfolding book_def by simp
  qed
  ultimately show thesis using that by blast
qed

lemma handleDnsRaw_ok:
  assumes "stub_ok ts s" "i \<in> set (st_pending s)" "handleDnsRaw i st abuf s = Ok s'"
  shows "stub_ok ts s'"
proof -
  let ?b = "T_CNAME \<in> ts" and ?s = "s\<lparr>st_pending := remove1 i (st_pending s)\<rparr>"
  obtain q where q: "map_of (st_queries s) i = Some q" "(i, q) \<in> set (st_queries s)" "q_rrType q \<in> ts" "book ts {i} ?s"
    using begin_raw assms(1,2) unfolding stub_ok_def by blast
  have g: "cache_good ?b (st_now ?s) (st_cache ?s)" using assms(1) by (simp add: stub_ok_def)
  have c: "?b \<or> q_rrType q \<noteq> T_CNAME" using q(3) by auto
  have "process_query i q st abuf ?s = Ok s'" using assms(3) q(1) by (simp add: handleDnsRaw_def)
  then have "told_and_ended ?b i q ?s s' \<or> asked_again ?b i q ?s s'" by (rule process_query_ends [OF _ c])
  moreover have "i \<in> ids ?s" "(i, q) \<in> set (st_queries ?s)" using q(2) in_ids [of i q ?s] by simp_all
  ultimately show ?thesis using told_ok [OF _ q(4) _ g] asked_again_ok [OF _ q(4) _ g] unfolding stub_ok_def by blast
qed

lemma fail_one:
  assumes "stub_ok ts s" "i \<in> set (st_pending s)"
  shows "\<exists>s'. handleDnsRaw i ARES_EDESTRUCTION [] s = Ok s' \<and> st_pending s' = remove1 i (st_pending s)"
proof -
  obtain q where "map_of (st_queries s) i = Some q" using begin_raw assms unfolding stub_ok_def by blast
  then show ?thesis
    by (simp add: handleDnsRaw_def process_query_def process_error_def cacheable_error_def asserting_def end_of_query_def notifyUser_def)
qed

text \<open>When the resolver is set up anew, every query under way ends.\<close>

lemma fail_pending_ok:
  "stub_ok ts s \<Longrightarrow> distinct is \<Longrightarrow> set is \<subseteq> set (st_pending s) \<Longrightarrow>
   \<exists>s'. fail_pending is s = Ok s' \<and> stub_ok ts s' \<and> set (st_pending s') = set (st_pending s) - set is"
proof (induction "is" arbitrary: s)
  case (Cons i js)
  obtain s1 where s1: "handleDnsRaw i ARES_EDESTRUCTION [] s = Ok s1" "st_pending s1 = remove1 i (st_pending s)"
    using fail_one Cons.prems by fastforce
  have ok: "stub_ok ts s1" using handleDnsRaw_ok [OF Cons.prems(1) _ s1(1)] Cons.prems(3) by simp
  have p: "set (st_pending s1) = set (st_pending s) - {i}" using Cons.prems(1) s1(2) by (simp add: stub_ok_def book_def)
  then obtain s' where "fail_pending js s1 = Ok s'" "stub_ok ts s'" "set (st_pending s') = set (st_pending s1) - set js"
    using Cons.IH [OF ok] Cons.prems(2,3) by auto
  then show ?case using s1 p by (auto simp: fail_pending_def)
qed (simp add: fail_pending_def)

lemma query_command_ok:
  assumes "stub_ok ts s" "t \<in> ts" "query_command t d s = Some (Ok s')"
  shows "stub_ok ts s'"
proof -
  let ?b = "T_CNAME \<in> ts" and ?i = "st_next s" and ?q = "new_Query (st_transform s) d t"
  let ?s = "s\<lparr>st_queries := st_queries s @ [(?i, ?q)], st_next := Suc ?i\<rparr>"
  have bk: "book ts {} s" using assms(1) by (simp add: stub_ok_def)
  have i: "ids ?s = insert ?i (ids s)" "?i \<notin> ids s" "asked_count ?s = asked_count s" "told_count ?s = told_count s"
    using bk by (auto simp: ids_def fun_eq_iff asked_count_def told_count_def book_def query_ok_def)
  have a: "asked_count s ?i = 0" using bk by (simp add: book_def)
  have "book ts {?i} ?s"
    unfolding book_def
  proof (intro conjI allI ballI)
    show "distinct (map fst (st_queries ?s))" "distinct (st_pending ?s)" using bk i(2) by (auto simp: book_def ids_def)
    show "set (st_pending ?s) = ids ?s - {?i}" using bk i(1,2) by (auto simp: book_def)
    show "told_count ?s j = (if j < st_next ?s \<and> j \<notin> ids ?s then 1 else 0)" for j
      using bk i(1,2,4) by (auto simp: book_def less_Suc_eq)
    show "query_ok ts ?s x" if "x \<in> set (st_queries ?s)" for x
      using that bk a i(3) assms(2) by (auto simp: book_def query_ok_def new_Query_def)
    show "asked_count ?s j \<le> Suc MAX_REQUERIES" "st_next ?s \<le> j \<longrightarrow> asked_count ?s j = 0" for j
      using bk i(3) by (auto simp: book_def)
    show "list_all (asks_for ts) (st_fifo ?s)" using bk by (simp add: book_def)
  qed
  note b = this
  have g: "cache_good ?b (st_now ?s) (st_cache ?s)" using assms(1) by (simp add: stub_ok_def)
  have "go ?i ?q ?s = Some (Ok s')" using assms(3) by (simp add: query_command_def Let_def)
  then have "told_and_ended ?b ?i ?q ?s s' \<or> asked_first ?b ?i ?q ?s s'" by (rule go_ends)
  moreover have "?i \<in> ids ?s" "(?i, ?q) \<in> set (st_queries ?s)" "asked_count ?s ?i = 0" using i(1,3) a by auto
  ultimately show ?thesis using told_ok [OF _ b _ g] asked_first_ok [OF _ b _ _ g] unfolding stub_ok_def by blast
qed

lemma stub_ok_cong:
  "stub_ok ts s \<Longrightarrow> st_queries s' = st_queries s \<Longrightarrow> st_pending s' = st_pending s \<Longrightarrow> st_told s' = st_told s \<Longrightarrow>
   st_asked s' = st_asked s \<Longrightarrow> st_next s' = st_next s \<Longrightarrow> list_all (asks_for ts) (st_fifo s') \<Longrightarrow>
   cache_good (T_CNAME \<in> ts) (st_now s') (st_cache s') \<Longrightarrow> stub_ok ts s'"
  by (simp add: stub_ok_def book_def ids_def told_count_def asked_count_def query_ok_def)

lemma stub_okD:
  assumes "stub_ok ts s"
  shows "list_all (asks_for ts) (st_fifo s)" "cache_good (T_CNAME \<in> ts) (st_now s) (st_cache s)" "distinct (st_pending s)"
  using assms by (simp_all add: stub_ok_def book_def)

lemma execute_ok:
  assumes "stub_ok ts s" "asks_for ts cmd" "execute changed cmd s = Some (Ok s')"
  shows "stub_ok ts s'"
proof (cases cmd)
  case (QueryCommand t d)
  then show ?thesis using assms query_command_ok by simp
next
  case ReloadDnsServersCommand
  let ?s = "s\<lparr>st_cache := cleanup (st_cache s)\<rparr>"
  have "stub_ok ts ?s" by (rule stub_ok_cong [OF assms(1)]) (simp_all add: stub_okD [OF assms(1)] cleanup_good)
  then show ?thesis using fail_pending_ok [of ts ?s "st_pending s"] stub_okD(3) [OF assms(1)] assms ReloadDnsServersCommand
    by (auto simp: doReloadDnsServers_def split: if_splits)
next
  case (GetDnsCacheDumpCommand key)
  obtain out c where d: "getCacheDump (st_now s) (st_cache s) = (out, c)" by fastforce
  have "cache_good (T_CNAME \<in> ts) (st_now s) c" using dump_good [OF stub_okD(2) [OF assms(1)]] d by simp
  moreover have "s' = s\<lparr>st_cache := c, st_dumps := st_dumps s @ [(key, out)]\<rparr>"
    using assms(3) GetDnsCacheDumpCommand d by simp
  ultimately show ?thesis by (intro stub_ok_cong [OF assms(1)]) (simp_all add: stub_okD [OF assms(1)])
next
  case LogDnsCacheCommand
  then have "s' = s\<lparr>st_cache := snd (getCacheDump (st_now s) (st_cache s))\<rparr>" using assms(3) by simp
  then show ?thesis by (intro stub_ok_cong [OF assms(1)]) (simp_all add: stub_okD [OF assms(1)] dump_good)
next
  case ClearDnsCacheCommand
  then have "s' = s\<lparr>st_cache := cleanup (st_cache s)\<rparr>" using assms(3) by simp
  then show ?thesis by (intro stub_ok_cong [OF assms(1)]) (simp_all add: stub_okD [OF assms(1)] cleanup_good)
next
  case (SetEnumSuffixesCommand x)
  then have "s' = s\<lparr>st_enumSuffixes := x\<rparr>" using assms(3) by simp
  then show ?thesis by (intro stub_ok_cong [OF assms(1)]) (simp_all add: stub_okD [OF assms(1)])
next
  case (SetEnumDomainsCommand x)
  then have "s' = s\<lparr>st_enumDomains := x\<rparr>" using assms(3) by simp
  then show ?thesis by (intro stub_ok_cong [OF assms(1)]) (simp_all add: stub_okD [OF assms(1)])
qed

lemma process_command_ok: "stub_ok ts s \<Longrightarrow> process_command changed s = Some (Ok s') \<Longrightarrow> stub_ok ts s'"
proof (cases "st_fifo s")
  case (Cons cmd rest)
  assume a: "stub_ok ts s" "process_command changed s = Some (Ok s')"
  have "list_all (asks_for ts) (cmd # rest)" using stub_okD(1) [OF a(1)] Cons by simp
  moreover from this have "stub_ok ts (s\<lparr>st_fifo := rest\<rparr>)"
    by (intro stub_ok_cong [OF a(1)]) (simp_all add: stub_okD [OF a(1)])
  moreover have "execute changed cmd (s\<lparr>st_fifo := rest\<rparr>) = Some (Ok s')" using a(2) Cons by (simp add: process_command_def)
  ultimately show ?thesis using execute_ok by auto
qed (simp add: process_command_def)

lemma filled_later: "filled now c \<Longrightarrow> now \<le> now' \<Longrightarrow> filled now' c"
  unfolding filled_def using order_trans by blast

lemma cache_good_later: "cache_good b now c \<Longrightarrow> now \<le> now' \<Longrightarrow> cache_good b now' c"
  using filled_later by (auto simp: cache_good_def)

lemma settings_good: "cache_good b now c \<Longrightarrow> cache_good b now (setTTL n c) \<and> cache_good b now (setSize n c)"
  using settings_ok [of c n] by (auto simp: cache_good_def filled_def)

lemma stub_step_ok:
  assumes "stub_step ts s s'" "stub_ok ts s" shows "stub_ok ts s'"
  using assms(1)
proof cases
  case (exec changed)
  then show ?thesis using process_command_ok assms(2) by blast
next
  case (raw i st abuf)
  then show ?thesis using handleDnsRaw_ok assms(2) by blast
qed (use stub_okD [OF assms(2)] cache_good_later settings_good in
      \<open>auto intro!: stub_ok_cong [OF assms(2)] simp: queueCommand_def\<close>)

lemma new_stub_ok: "0 < now \<Longrightarrow> stub_ok ts (new_DnsStub x h ho n now)"
  using new_cache_ok by (simp add: stub_ok_def new_DnsStub_def book_def ids_def told_count_def asked_count_def cache_good_def filled_def)

lemma reachable_ok: "stub_reachable ts s \<Longrightarrow> stub_ok ts s"
  by (induction rule: stub_reachable.induct) (auto simp: new_stub_ok intro: stub_step_ok)

end
