(* ===== verification/DnsStubReply.thy ===== *)
theory DnsStubReply
  imports DnsStubReach
begin

text \<open>Replies: how the records of a message are grouped and cached, and which messages are taken apart without a fault.\<close>

section \<open>The ranges of a reply\<close>

lemma sorted_drop_key:
  assumes "sorted (map overlay_key (v # vs))"
  shows "takeWhile (\<lambda>w. \<not> overlay_key v < overlay_key w) vs = filter (\<lambda>w. overlay_key w = overlay_key v) vs \<and>
         dropWhile (\<lambda>w. \<not> overlay_key v < overlay_key w) vs = filter (\<lambda>w. overlay_key w \<noteq> overlay_key v) vs"
  using assms
proof (induction vs)
  case (Cons w vs)
  then show ?case
  proof (cases "overlay_key v < overlay_key w")
    case True
    then have "\<forall>x \<in> set (w # vs). overlay_key x \<noteq> overlay_key v" using Cons.prems by auto
    then have "filter (\<lambda>w. overlay_key w = overlay_key v) (w # vs) = []" "filter (\<lambda>w. overlay_key w \<noteq> overlay_key v) (w # vs) = w # vs"
      by (simp_all only: filter_empty_conv filter_id_conv)
    then show ?thesis using True by simp
  qed auto
qed simp

text \<open>The ranges of a sorted vector are the sets of records with the same type and name, each once.\<close>

lemma ranges_sorted:
  "sorted (map overlay_key vs) \<Longrightarrow>
   distinct (map (\<lambda>g. overlay_key (hd g)) (ranges vs)) \<and>
   (\<forall>g \<in> set (ranges vs). g \<noteq> [] \<and> g = filter (\<lambda>w. overlay_key w = overlay_key (hd g)) vs) \<and>
   (\<forall>v \<in> set vs. \<exists>g \<in> set (ranges vs). overlay_key (hd g) = overlay_key v)"
proof (induction vs rule: ranges.induct)
  case (2 v vs)
  let ?r = "filter (\<lambda>w. overlay_key w \<noteq> overlay_key v) vs"
  have e: "ranges (v # vs) = (v # filter (\<lambda>w. overlay_key w = overlay_key v) vs) # ranges ?r"
    using sorted_drop_key [OF 2(2)] by simp
  have "sorted (map overlay_key ?r)" using 2(2) by (simp add: sorted_map sorted_wrt_filter)
  then have IH: "distinct (map (\<lambda>g. overlay_key (hd g)) (ranges ?r))"
    "\<And>g. g \<in> set (ranges ?r) \<Longrightarrow> g \<noteq> [] \<and> g = filter (\<lambda>w. overlay_key w = overlay_key (hd g)) ?r"
    "\<And>w. w \<in> set ?r \<Longrightarrow> \<exists>g \<in> set (ranges ?r). overlay_key (hd g) = overlay_key w"
    using 2(1) sorted_drop_key [OF 2(2)] by auto
  have n: "overlay_key (hd g) \<noteq> overlay_key v" if "g \<in> set (ranges ?r)" for g
  proof -
    have "hd g \<in> set g" using IH(2) [OF that] by simp
    then have "hd g \<in> set ?r" using IH(2) [OF that] by (metis filter_is_subset subsetD)
    then show ?thesis by simp
  qed
  have "g = filter (\<lambda>w. overlay_key w = overlay_key (hd g)) (v # vs)" if "g \<in> set (ranges ?r)" for g
    using IH(2) [OF that] n [OF that] by (simp add: conj_commute) (smt (verit) filter_cong)
  note f = this
  show ?case unfolding e
  proof (intro conjI ballI)
    show "distinct (map (\<lambda>g. overlay_key (hd g)) ((v # filter (\<lambda>w. overlay_key w = overlay_key v) vs) # ranges ?r))"
      using IH(1) n by auto metis
  next
    fix g assume "g \<in> set ((v # filter (\<lambda>w. overlay_key w = overlay_key v) vs) # ranges ?r)"
    then show "g \<noteq> []" "g = filter (\<lambda>w. overlay_key w = overlay_key (hd g)) (v # vs)" using IH(2) f by fastforce+
  next
    fix w assume "w \<in> set (v # vs)"
    then show "\<exists>g \<in> set ((v # filter (\<lambda>w. overlay_key w = overlay_key v) vs) # ranges ?r). overlay_key (hd g) = overlay_key w"
      using IH(3) [of w] by (cases "overlay_key w = overlay_key v") auto
  qed
qed simp


section \<open>What is cached\<close>

text \<open>The records that can be parsed, and their least time to live.\<close>

definition parsed :: "(RROverlay \<Rightarrow> DnsResourceRecord outcome) \<Rightarrow> RROverlay list \<Rightarrow> DnsResourceRecord list" where
  "parsed f vs = concat (map (\<lambda>v. case f v of Ok r \<Rightarrow> [r] | _ \<Rightarrow> []) vs)"

definition least_ttl :: "(RROverlay \<Rightarrow> DnsResourceRecord outcome) \<Rightarrow> RROverlay list \<Rightarrow> secs" where
  "least_ttl f vs = fold min (map (\<lambda>v. ulong (mTTL v)) (filter (\<lambda>v. case f v of Ok _ \<Rightarrow> True | _ \<Rightarrow> False) vs)) ULONG_MAX"

lemma update_loop_spec:
  "update_loop f vs rs e = Ok (rs', e') \<Longrightarrow>
   rs' = rs @ parsed f vs \<and> e' = fold min (map (\<lambda>v. ulong (mTTL v)) (filter (\<lambda>v. case f v of Ok _ \<Rightarrow> True | _ \<Rightarrow> False) vs)) e"
  by (induction f vs rs e rule: update_loop.induct) (auto simp: parsed_def min_def split: outcome.splits)

lemma RRList_update_spec:
  assumes "RRList_update now f vs ttl l = Ok l'"
  shows "l' = l\<lparr>mRecords := parsed f vs, mAbsoluteExpiry := max (least_ttl f vs) (ulong ttl) + now\<rparr>"
  using assms update_loop_spec [of f vs "[]" ULONG_MAX]
  by (auto simp: RRList_update_def outcome_simps Let_def least_ttl_def max_def)

text \<open>A store of values under keys that has room for a number of them, and what is in it after a list of them was put
  into it.\<close>

locale record_store =
  fixes look :: "'c \<Rightarrow> 'k \<Rightarrow> 'v option"
    and put :: "'g \<Rightarrow> 'c \<Rightarrow> 'c outcome"
    and key :: "'g \<Rightarrow> 'k"
    and new_value :: "'c \<Rightarrow> 'g \<Rightarrow> 'v"
    and room :: "nat \<Rightarrow> 'c \<Rightarrow> bool"
  assumes put_look: "room (Suc n) c \<Longrightarrow> put g c = Ok c' \<Longrightarrow> look c' = (look c)(key g \<mapsto> new_value c g)"
    and put_room: "room (Suc n) c \<Longrightarrow> put g c = Ok c' \<Longrightarrow> room n c'"
    and same_value: "room (Suc n) c \<Longrightarrow> put g c = Ok c' \<Longrightarrow> key h \<noteq> key g \<Longrightarrow> new_value c' h = new_value c h"
begin

lemma put_all:
  "fold_ok put gs c = Ok c' \<Longrightarrow> room (length gs) c \<Longrightarrow> distinct (map key gs) \<Longrightarrow>
   (\<forall>g \<in> set gs. look c' (key g) = Some (new_value c g)) \<and> (\<forall>k. k \<notin> key ` set gs \<longrightarrow> look c' k = look c k)"
proof (induction gs arbitrary: c)
  case (Cons g gs)
  then obtain c1 where c1: "put g c = Ok c1" "fold_ok put gs c1 = Ok c'" by (auto simp: outcome_simps)
  have r: "room (Suc (length gs)) c" using Cons.prems(2) by simp
  note l = put_look [OF r c1(1)]
  have IH: "\<And>h. h \<in> set gs \<Longrightarrow> look c' (key h) = Some (new_value c1 h)" "\<And>k. k \<notin> key ` set gs \<Longrightarrow> look c' k = look c1 k"
    using Cons.IH [OF c1(2) put_room [OF r c1(1)]] Cons.prems(3) by auto
  have "look c' (key h) = Some (new_value c h)" if "h \<in> set gs" for h
  proof -
    have "key h \<noteq> key g" using Cons.prems(3) that by (metis distinct.simps(2) image_eqI list.simps(9) set_map)
    then show ?thesis using IH(1) [OF that] same_value [OF r c1(1), of h] by simp
  qed
  moreover have "look c' (key g) = Some (new_value c g)" using IH(2) [of "key g"] l Cons.prems(3) by simp
  moreover have "look c' k = look c k" if "k \<notin> key ` set (g # gs)" for k using IH(2) [of k] l that by simp
  ultimately show ?case by simp
qed simp

end

text \<open>The cache is such a store of ranges, while it has room and the types of the records are known.\<close>

definition range_key :: "RROverlay list \<Rightarrow> rr_key" where
  "range_key g = key_of (mType (hd g)) (mDomain (hd g))"

definition range_list :: "secs \<Rightarrow> int \<Rightarrow> RRCache \<Rightarrow> RROverlay list \<Rightarrow> RRList" where
  "range_list now ttl c g =
     (let f = the (create (mType (hd g)))
      in (list_for c (mType (hd g)) (mDomain (hd g)))
           \<lparr>mRecords := parsed f g, mAbsoluteExpiry := max (least_ttl f g) (ulong ttl) + now\<rparr>)"

definition cache_room :: "int \<Rightarrow> nat \<Rightarrow> RRCache \<Rightarrow> bool" where
  "cache_room ttl n c \<longleftrightarrow> cache_ok c \<and> mUserDefinedTTL c = ttl \<and> length (mRRSet c) + n < unat (mSize c)"

interpretation ranges_in_cache: record_store entry "\<lambda>g. updateCache now (mType (hd g)) g" range_key "range_list now ttl" "cache_room ttl"
  for now ttl
proof
  fix n c g c'
  assume r: "cache_room ttl (Suc n) c" and u: "updateCache now (mType (hd g)) g c = Ok c'"
  have ok: "cache_ok c" using r by (simp add: cache_room_def)
  from ok u have e: "entry c' = (entry c)(range_key g \<mapsto> range_list now ttl c g)"
  proof (cases rule: updateCache_entry)
    case (1 f l)
    then show ?thesis using r RRList_update_spec [OF 1(2)] by (simp add: cache_room_def range_key_def range_list_def)
  qed
  then show "entry c' = (entry c)(range_key g \<mapsto> range_list now ttl c g)" .
  from ok u show "cache_room ttl n c'"
  proof (cases rule: updateCache_entry)
    case (1 f l)
    then show ?thesis using r updateCache_ok [OF ok u] by (simp add: cache_room_def)
  qed
  show "range_list now ttl c' h = range_list now ttl c h" if "range_key h \<noteq> range_key g" for h
    using that e by (simp add: range_list_def list_for_def range_key_def)
qed

section \<open>Messages that are taken apart without a fault\<close>

text \<open>An overlay whose name and data lie in its message, and data that is as long as the record's type needs.\<close>

definition overlay_inside :: "RROverlay \<Rightarrow> bool" where
  "overlay_inside v \<longleftrightarrow>
     mData v + mDataLen v \<le> length (mMsg v) \<and> (\<exists>x. expand_at (mMsg v) (overlay_name_pos v) = Ok (Inr x))"

fun strings_fit :: "byte list \<Rightarrow> nat \<Rightarrow> nat \<Rightarrow> nat \<Rightarrow> bool" where
  "strings_fit b 0 p e \<longleftrightarrow> p < e"
| "strings_fit b (Suc k) p e \<longleftrightarrow> p < e \<and> strings_fit b k (p + unat (b ! p) + 1) e"

definition data_fits :: "RROverlay \<Rightarrow> bool" where
  "data_fits v \<longleftrightarrow>
     (mType v = T_A \<longrightarrow> 4 \<le> mDataLen v) \<and> (mType v = T_AAAA \<longrightarrow> 16 \<le> mDataLen v) \<and>
     (mType v = T_SRV \<longrightarrow> 6 \<le> mDataLen v) \<and>
     (mType v = T_NAPTR \<longrightarrow> strings_fit (mMsg v) 3 (mData v + 4) (mData v + mDataLen v)) \<and> mType v \<noteq> T_SOA"

text \<open>\<open>n\<close> whole records from \<open>p\<close> to \<open>r\<close>.\<close>

inductive whole_records :: "byte list \<Rightarrow> nat \<Rightarrow> nat \<Rightarrow> nat \<Rightarrow> bool" for abuf where
  none: "p \<le> length abuf \<Longrightarrow> whole_records abuf 0 p p"
| more: "name_at abuf (length abuf) p ls h \<Longrightarrow> enc_size abuf p k \<Longrightarrow> p + k + RRFIXEDSZ \<le> length abuf \<Longrightarrow>
     DNS_RR_LEN abuf (p + k) = Some dlen \<Longrightarrow> whole_records abuf n (p + k + RRFIXEDSZ + dlen) r \<Longrightarrow>
     whole_records abuf (Suc n) p r"

inductive_cases whole_recordsE: "whole_records abuf n p r"

definition complete_reply :: "bool \<Rightarrow> byte list \<Rightarrow> bool" where
  "complete_reply hostonly abuf \<longleftrightarrow>
     HFIXEDSZ \<le> length abuf \<and>
     (\<forall>qd an ns ar p. DNS_HEADER_QDCOUNT abuf = Some qd \<longrightarrow> DNS_HEADER_ANCOUNT abuf = Some an \<longrightarrow>
        DNS_HEADER_NSCOUNT abuf = Some ns \<longrightarrow> DNS_HEADER_ARCOUNT abuf = Some ar \<longrightarrow>
        skip_questions abuf qd HFIXEDSZ = Ok p \<longrightarrow> (\<exists>r. whole_records abuf (an + ns + ar) p r)) \<and>
     (\<forall>vs. message_overlays hostonly abuf = Ok vs \<longrightarrow> list_all data_fits vs)"

text \<open>The names of a SOA record and the five numbers behind them.\<close>

definition soa_fits :: "RROverlay \<Rightarrow> bool" where
  "soa_fits v \<longleftrightarrow>
     (\<exists>ls h k ls' h' k'. name_at (mMsg v) (length (mMsg v)) (mData v) ls h \<and> enc_size (mMsg v) (mData v) k \<and>
        name_at (mMsg v) (length (mMsg v)) (mData v + k) ls' h' \<and> enc_size (mMsg v) (mData v + k) k' \<and>
        mData v + k + k' + 20 \<le> length (mMsg v))"

definition complete_failure :: "bool \<Rightarrow> byte list \<Rightarrow> bool" where
  "complete_failure hostonly abuf \<longleftrightarrow>
     HFIXEDSZ \<le> length abuf \<and>
     (\<forall>qd p n. DNS_HEADER_QDCOUNT abuf = Some qd \<longrightarrow> skip_questions abuf qd HFIXEDSZ = Ok p \<longrightarrow>
        DNS_HEADER_ANCOUNT abuf = Some 0 \<longrightarrow> DNS_HEADER_NSCOUNT abuf = Some (Suc n) \<longrightarrow>
        (\<exists>r. whole_records abuf 1 p r) \<and>
        (\<forall>v. new_RROverlay p abuf = Ok v \<longrightarrow> mType v = T_SOA \<longrightarrow> soa_fits v))"

lemma expand_at_name: "name_at abuf (length abuf) p ls h \<Longrightarrow> enc_size abuf p k \<Longrightarrow> expand_at abuf p = Ok (Inr (print_name ls, k))"
  using expand_name_complete [of "length abuf" abuf p ls h k] by (simp add: expand_at_def)

lemma get16_inside: "p + 2 \<le> length abuf \<Longrightarrow> \<exists>n. DNS__16BIT abuf p = Some n"
  by (simp add: DNS__16BIT_def rd_def)

lemma get32_inside: "p + 4 \<le> length abuf \<Longrightarrow> \<exists>n. DNS__32BIT abuf p = Some n"
  by (simp add: DNS__32BIT_def rd_def)

lemma rr_fields_inside:
  "p + RRFIXEDSZ \<le> length abuf \<Longrightarrow> (\<exists>t. DNS_RR_TYPE abuf p = Some t) \<and> (\<exists>n. DNS_RR_LEN abuf p = Some n) \<and> (\<exists>n. DNS_RR_TTL abuf p = Some n)"
  using get16_inside [of p abuf] get16_inside [of "p + 8" abuf] get32_inside [of "p + 4" abuf]
  by (simp add: dns_accessors RRFIXEDSZ_def)

text \<open>The constructor of an overlay checks what it reads.\<close>

lemma new_RROverlay_inside:
  assumes "p \<le> length abuf"
  shows "sound (new_RROverlay p abuf) \<and> (\<forall>v. new_RROverlay p abuf = Ok v \<longrightarrow> overlay_inside v \<and> mMsg v = abuf \<and> overlay_name_pos v = p)"
  using assms sound_name_or_throw [OF assms] rr_fields_inside
  by (auto simp: new_RROverlay_def outcome_simps Let_def name_or_throw_Ok overlay_inside_def overlay_name_pos_def)

lemma inside_name: "overlay_inside v \<Longrightarrow> \<exists>n k. expand_at (mMsg v) (overlay_name_pos v) = Ok (Inr (n, k))"
  by (auto simp: overlay_inside_def)

lemma inside_name_sound: "overlay_inside v \<Longrightarrow> sound (name_or_throw e (mMsg v) (overlay_name_pos v))"
  by (auto simp: overlay_inside_def name_or_throw_def)

lemma address_sound:
  "overlay_inside v \<Longrightarrow> 4 \<le> mDataLen v \<Longrightarrow> sound (new_DnsHostRecord v)"
  "overlay_inside v \<Longrightarrow> 16 \<le> mDataLen v \<Longrightarrow> sound (new_DnsAAAARecord v)"
  using inside_name [of v]
  by (auto simp: new_DnsHostRecord_def new_DnsAAAARecord_def outcome_simps rd_range_def overlay_inside_def)

lemma srv_sound: "overlay_inside v \<Longrightarrow> 6 \<le> mDataLen v \<Longrightarrow> sound (new_DnsSrvRecord v)"
  using inside_name_sound [of v] get16_inside [of "mData v" "mMsg v"] get16_inside [of "mData v + 2" "mMsg v"]
    get16_inside [of "mData v + 4" "mMsg v"] sound_name_or_throw [of "mData v + 6" "mMsg v"]
  by (auto simp: new_DnsSrvRecord_def outcome_simps overlay_inside_def)

lemma cname_sound: "overlay_inside v \<Longrightarrow> sound (new_DnsCnameRecord v)"
  using inside_name_sound [of v] sound_name_or_throw [of "mData v" "mMsg v"]
  by (auto simp: new_DnsCnameRecord_def outcome_simps overlay_inside_def)

lemma char_string_sound:
  assumes "overlay_inside v" "p < mData v + mDataLen v"
  shows "sound (char_string v p) \<and> (\<forall>s p'. char_string v p = Ok (s, p') \<longrightarrow> p' = p + unat (mMsg v ! p) + 1)"
  using assms by (auto simp: char_string_def rd_def rd_range_def outcome_simps overlay_inside_def Let_def)

lemma new_RegExp_sound: "sound (new_RegExp d)"
  by (simp add: new_RegExp_def Let_def)

lemma naptr_sound:
  assumes v: "overlay_inside v" and f: "strings_fit (mMsg v) 3 (mData v + 4) (mData v + mDataLen v)"
  shows "sound (new_DnsNaptrRecord v)"
proof -
  let ?e = "mData v + mDataLen v"
  have e: "?e \<le> length (mMsg v)" using v by (simp add: overlay_inside_def)
  define p1 p2 p3 where "p1 = mData v + 4 + unat (mMsg v ! (mData v + 4)) + 1"
    and "p2 = p1 + unat (mMsg v ! p1) + 1" and "p3 = p2 + unat (mMsg v ! p2) + 1"
  have p: "mData v + 4 < ?e" "p1 < ?e" "p2 < ?e" "p3 < ?e"
    using f by (simp_all add: p1_def p2_def p3_def numeral_3_eq_3)
  have c: "sound (char_string v (mData v + 4))" "sound (char_string v p1)" "sound (char_string v p2)"
    "\<And>s p'. char_string v (mData v + 4) = Ok (s, p') \<Longrightarrow> p' = p1" "\<And>s p'. char_string v p1 = Ok (s, p') \<Longrightarrow> p' = p2"
    "\<And>s p'. char_string v p2 = Ok (s, p') \<Longrightarrow> p' = p3"
    using char_string_sound [OF v p(1)] char_string_sound [OF v p(2)] char_string_sound [OF v p(3)]
    by (simp_all add: p1_def p2_def p3_def)
  have "\<exists>n. DNS__16BIT (mMsg v) (mData v) = Some n" "\<exists>n. DNS__16BIT (mMsg v) (mData v + 2) = Some n"
    using get16_inside [of "mData v" "mMsg v"] get16_inside [of "mData v + 2" "mMsg v"] p(1) e by auto
  moreover have "rd (mMsg v) p3 \<noteq> None" "sound (name_or_throw t (mMsg v) p3)" for t
    using p(4) e sound_name_or_throw [of p3 "mMsg v"] by (simp_all add: rd_def)
  ultimately show ?thesis using inside_name_sound [OF v] c new_RegExp_sound
    by (auto simp: new_DnsNaptrRecord_def outcome_simps dest!: c(4-6))
qed

lemma create_sound:
  assumes "overlay_inside v" "data_fits v" "create (mType v) = Some f"
  shows "sound (f v)"
  using assms address_sound srv_sound cname_sound naptr_sound
  by (auto simp: create_def data_fits_def split: if_splits)

text \<open>The overlays of whole records.\<close>

lemma createOverlay_whole:
  assumes "name_at abuf (length abuf) p ls h" "enc_size abuf p k" "p + k + RRFIXEDSZ \<le> length abuf" "DNS_RR_LEN abuf (p + k) = Some dlen"
    "list_all overlay_inside vs"
  shows "sound (createOverlay ho abuf d p vs) \<and>
    (\<forall>q vs'. createOverlay ho abuf d p vs = Ok (q, vs') \<longrightarrow> q = p + k + RRFIXEDSZ + dlen \<and> list_all overlay_inside vs')"
proof -
  have p: "p \<le> length abuf" using assms(3) by simp
  obtain t where t: "DNS_RR_TYPE abuf (p + k) = Some t" using rr_fields_inside [OF assms(3)] by blast
  have n: "name_or_throw e abuf p = Ok (print_name ls, k)" for e
    using expand_at_name [OF assms(1,2)] by (simp add: name_or_throw_Ok)
  show ?thesis using new_RROverlay_inside [OF p] assms(4,5) by (auto simp: createOverlay_def n t outcome_simps)
qed

lemma create_overlays_whole:
  "whole_records abuf n p r \<Longrightarrow> n = m + n' \<Longrightarrow> list_all overlay_inside vs \<Longrightarrow>
   sound (create_overlays ho abuf d m (p, vs)) \<and>
   (\<forall>q vs'. create_overlays ho abuf d m (p, vs) = Ok (q, vs') \<longrightarrow> whole_records abuf n' q r \<and> list_all overlay_inside vs')"
proof (induction m arbitrary: n p vs)
  case (Suc m)
  from Suc.prems(1) obtain ls h k dlen where w: "name_at abuf (length abuf) p ls h" "enc_size abuf p k"
    "p + k + RRFIXEDSZ \<le> length abuf" "DNS_RR_LEN abuf (p + k) = Some dlen" "whole_records abuf (m + n') (p + k + RRFIXEDSZ + dlen) r"
    by (cases rule: whole_records.cases) (use Suc.prems(2) in auto)
  note c = createOverlay_whole [OF w(1-4) Suc.prems(3), of ho d]
  show ?case using c Suc.IH [OF w(5) refl] by (fastforce simp: outcome_simps)
qed simp

lemma skip_questions_inside:
  "p \<le> length abuf \<Longrightarrow> sound (skip_questions abuf n p) \<and> (\<forall>q. skip_questions abuf n p = Ok q \<longrightarrow> q \<le> length abuf)"
proof (induction n arbitrary: p)
  case (Suc n)
  have "sound (skipDNSQuestion abuf p)" "\<And>q. skipDNSQuestion abuf p = Ok q \<Longrightarrow> q \<le> length abuf"
    using sound_name_or_throw [OF Suc.prems] by (auto simp: skipDNSQuestion_def outcome_simps split: if_splits)
  then show ?case using Suc.IH by (fastforce simp: outcome_simps)
qed simp

lemma header_inside:
  "HFIXEDSZ \<le> length abuf \<Longrightarrow>
   (\<exists>n. DNS_HEADER_QDCOUNT abuf = Some n) \<and> (\<exists>n. DNS_HEADER_ANCOUNT abuf = Some n) \<and>
   (\<exists>n. DNS_HEADER_NSCOUNT abuf = Some n) \<and> (\<exists>n. DNS_HEADER_ARCOUNT abuf = Some n)"
  using get16_inside [of 4 abuf] get16_inside [of 6 abuf] get16_inside [of 8 abuf] get16_inside [of 10 abuf]
  by (simp add: HFIXEDSZ_def dns_accessors DNS_HEADER_NSCOUNT_def DNS_HEADER_ARCOUNT_def)

lemma message_overlays_complete:
  assumes "complete_reply ho abuf"
  shows "sound (message_overlays ho abuf) \<and> (\<forall>vs. message_overlays ho abuf = Ok vs \<longrightarrow> list_all overlay_inside vs)"
proof -
  have l: "HFIXEDSZ \<le> length abuf" using assms by (simp add: complete_reply_def)
  obtain qd an ns ar where h: "DNS_HEADER_QDCOUNT abuf = Some qd" "DNS_HEADER_ANCOUNT abuf = Some an"
    "DNS_HEADER_NSCOUNT abuf = Some ns" "DNS_HEADER_ARCOUNT abuf = Some ar" using header_inside [OF l] by blast
  note q = skip_questions_inside [OF l, of qd]
  show ?thesis
  proof (cases "skip_questions abuf qd HFIXEDSZ")
    case (Ok p)
    then obtain r where w: "whole_records abuf (an + (ns + ar)) p r" using assms h by (auto simp: complete_reply_def add.assoc)
    note a = create_overlays_whole [OF w refl, of "[]" ho False]
    have b: "sound (create_overlays ho abuf True ns (p', vs)) \<and>
        (\<forall>q vs'. create_overlays ho abuf True ns (p', vs) = Ok (q, vs') \<longrightarrow> whole_records abuf ar q r \<and> list_all overlay_inside vs')"
      if "create_overlays ho abuf False an (p, []) = Ok (p', vs)" for p' vs
    proof -
      have "whole_records abuf (ns + ar) p' r" "list_all overlay_inside vs" using a that by simp_all
      then show ?thesis by (rule create_overlays_whole [OF _ refl])
    qed
    have c: "sound (create_overlays ho abuf False ar (q, vs)) \<and>
        (\<forall>q' vs'. create_overlays ho abuf False ar (q, vs) = Ok (q', vs') \<longrightarrow> list_all overlay_inside vs')"
      if "whole_records abuf ar q r" "list_all overlay_inside vs" for q vs
      using create_overlays_whole [of abuf ar q r ar 0 vs ho False] that by simp
    show ?thesis using a b c Ok h by (fastforce simp: message_overlays_def outcome_simps)
  qed (use q h in \<open>auto simp: message_overlays_def outcome_simps\<close>)
qed

section \<open>The cache takes such messages\<close>

lemma update_loop_sound: "(\<And>v. v \<in> set vs \<Longrightarrow> sound (f v)) \<Longrightarrow> \<exists>x. update_loop f vs rs e = Ok x"
proof (induction f vs rs e rule: update_loop.induct)
  case (2 f v vs rs e)
  have "sound (f v)" using 2(3) [of v] by simp
  then show ?case using 2 by (cases "f v") auto
qed simp

lemma updateCache_total:
  assumes "cache_ok c" "create t = Some f" "\<And>v. v \<in> set vs \<Longrightarrow> sound (f v)"
  shows "\<exists>c'. updateCache now t vs c = Ok c'"
proof -
  have u: "\<exists>l'. RRList_update now f vs ttl l = Ok l'" for ttl l
    using update_loop_sound [of vs f "[]" ULONG_MAX] assms(3) by (fastforce simp: RRList_update_def Let_def)
  show ?thesis
  proof (cases "entry c (key_of t (mDomain (hd vs)))")
    case None
    obtain l where l: "RRList_update now f vs (mUserDefinedTTL c) (new_RRList_key (mDomain (hd vs)) t) = Ok l" using u by blast
    have "mRRType (new_RRList_key (mDomain (hd vs)) t) = t" by (simp add: new_RRList_key_def)
    then have "node_key l = key_of t (mDomain (hd vs))" "typed_list l" using RRList_update_ok [OF l] assms(2) by simp_all
    then have "cache_ok (add_node l c)" using cache_ok_add_node assms(1) None by simp
    then show ?thesis using purge_ok [of "add_node l c"] None l assms(2) by (auto simp: updateCache_def entry_def)
  next
    case (Some l)
    then show ?thesis using u [of "mUserDefinedTTL c" l] assms(2) by (auto simp: updateCache_def entry_def)
  qed
qed

lemma fold_ok_total:
  "P s \<Longrightarrow> (\<And>x s. x \<in> set xs \<Longrightarrow> P s \<Longrightarrow> \<exists>s'. f x s = Ok s' \<and> P s') \<Longrightarrow> \<exists>s'. fold_ok f xs s = Ok s' \<and> P s'"
proof (induction xs arbitrary: s)
  case (Cons x xs)
  then obtain s1 where "f x s = Ok s1" "P s1" by force
  then show ?case using Cons.IH [of s1] Cons.prems(2) by auto
qed simp

lemma supported_factory: "supportedType ho t \<Longrightarrow> t \<noteq> T_SOA \<Longrightarrow> \<exists>f. create t = Some f"
  by (auto simp: supportedType_def create_def split: if_splits)

lemma create_overlays_supported:
  "create_overlays ho abuf d n (p, vs) = Ok (p', vs') \<Longrightarrow> list_all (\<lambda>v. supportedType ho (mType v)) vs \<Longrightarrow>
   list_all (\<lambda>v. supportedType ho (mType v)) vs'"
proof (induction n arbitrary: p vs)
  case (Suc n)
  then obtain p1 vs1 where c: "createOverlay ho abuf d p vs = Ok (p1, vs1)" "create_overlays ho abuf d n (p1, vs1) = Ok (p', vs')"
    by (auto simp: outcome_simps)
  have "list_all (\<lambda>v. supportedType ho (mType v)) vs1"
    using c(1) Suc.prems(2) by (auto simp: createOverlay_def new_RROverlay_def outcome_simps Let_def name_or_throw_Ok split: if_splits)
  then show ?case using Suc.IH c(2) by blast
qed simp

lemma message_overlays_supported:
  "message_overlays ho abuf = Ok vs \<Longrightarrow> list_all (\<lambda>v. supportedType ho (mType v)) vs"
  by (auto simp: message_overlays_def outcome_simps dest!: create_overlays_supported)

text \<open>The ranges of a message: the records of one type and name, in the order of the message.\<close>

lemma message_range:
  assumes "g \<in> set (ranges (sort_key overlay_key vs))"
  shows "g \<noteq> [] \<and> g = filter (\<lambda>w. overlay_key w = overlay_key (hd g)) vs"
  using ranges_sorted [of "sort_key overlay_key vs"] assms sort_key_stable [of overlay_key "overlay_key (hd g)" vs] by fastforce

lemma cache_message_sound:
  assumes "complete_reply (st_hostFileOnly s) abuf" "cache_ok (st_cache s)"
  shows "sound (cache_message abuf s)"
proof (cases "message_overlays (st_hostFileOnly s) abuf")
  case (Ok vs)
  have vs: "list_all overlay_inside vs" "list_all data_fits vs" "list_all (\<lambda>v. supportedType (st_hostFileOnly s) (mType v)) vs"
    using message_overlays_complete [OF assms(1)] Ok assms(1) message_overlays_supported by (auto simp: complete_reply_def)
  have "\<exists>c'. update_ranges (st_now s) (ranges (sort_key overlay_key vs)) (st_cache s) = Ok c' \<and> cache_ok c'"
    unfolding update_ranges_def
  proof (rule fold_ok_total [where P = cache_ok, OF assms(2)])
    fix g c assume g: "g \<in> set (ranges (sort_key overlay_key vs))" and c: "cache_ok c"
    note r = message_range [OF g]
    have "hd g \<in> set g" using r by simp
    then have "hd g \<in> set vs" using r by (metis filter_is_subset subsetD)
    then have "supportedType (st_hostFileOnly s) (mType (hd g))" "mType (hd g) \<noteq> T_SOA"
      using vs(2,3) by (auto simp: list_all_iff data_fits_def)
    then obtain f where f: "create (mType (hd g)) = Some f" using supported_factory by blast
    have "sound (f v)" if "v \<in> set g" for v
    proof -
      have "set g = set (filter (\<lambda>w. overlay_key w = overlay_key (hd g)) vs)" using r by metis
      then have "v \<in> set vs \<and> overlay_key v = overlay_key (hd g)" using that by (simp only: set_filter) blast
      then have "v \<in> set vs \<and> mType v = mType (hd g)" by (simp add: overlay_key_def)
      then show ?thesis using create_sound [of v f] f vs(1,2) by (auto simp: list_all_iff)
    qed
    then obtain c' where "updateCache (st_now s) (mType (hd g)) g c = Ok c'" using updateCache_total [OF c f] by blast
    then show "\<exists>c'. updateCache (st_now s) (mType (hd g)) g c = Ok c' \<and> cache_ok c'" using updateCache_ok [OF c] by blast
  qed
  then show ?thesis using Ok by (auto simp: cache_message_def)
qed (use message_overlays_complete [OF assms(1)] in \<open>auto simp: cache_message_def\<close>)

section \<open>Aliases\<close>

text \<open>The alias that a name has in the cache, and the names whose chain of aliases ends.\<close>

definition alias_of :: "Stub \<Rightarrow> cstring \<Rightarrow> cstring option" where
  "alias_of s d =
     (case fst (lookup (st_now s) d T_CNAME (st_cache s)) of
        Some (DnsCnameRecord _ cname # _, _) \<Rightarrow> Some cname
      | _ \<Rightarrow> None)"

inductive chain_ends :: "(cstring \<Rightarrow> cstring option) \<Rightarrow> cstring \<Rightarrow> bool" for al where
  last: "al d = None \<Longrightarrow> chain_ends al d"
| more: "al d = Some c \<Longrightarrow> chain_ends al c \<Longrightarrow> chain_ends al d"

lemma lookup_again: "fst (lookup now d t (snd (lookup now d' t' c))) = fst (lookup now d t c)"
  by (auto simp: lookup_result lookup_entry split: option.splits)

lemma alias_find: "find_record d t s = (r, s') \<Longrightarrow> alias_of s' = alias_of s"
  by (auto simp: fun_eq_iff alias_of_def lookup_again dest!: find_record_result)

text \<open>In a good cache a list of aliases that is found has an alias.\<close>

lemma find_alias:
  assumes "cache_good False (st_now s) (st_cache s)" "find_record d T_CNAME s = (r, s')"
  shows "(r = None \<and> alias_of s d = None) \<or> (\<exists>cnames st c. r = Some (cnames, st) \<and> first_cname cnames = Ok c \<and> alias_of s d = Some c)"
proof (cases r)
  case None
  then show ?thesis using find_record_result [OF assms(2)] by (simp add: alias_of_def)
next
  case (Some x)
  have r: "fst (lookup (st_now s) d T_CNAME (st_cache s)) = Some x" using find_record_result [OF assms(2)] Some by simp
  then obtain l where l: "entry (st_cache s) (key_of T_CNAME d) = Some l" "\<not> mAbsoluteExpiry l \<le> st_now s" "x = (mRecords l, mStatus l)"
    by (auto simp: lookup_result split: option.splits if_splits)
  have t: "mRRType l = T_CNAME" using entry_key [OF l(1)] key_type by blast
  then have "mRecords l \<noteq> []" using assms(1) l by (auto simp: cache_good_def filled_def)
  then obtain a as where a: "mRecords l = a # as" by (cases "mRecords l") auto
  have "rr_type a = T_CNAME" using entry_typed [OF _ l(1)] assms(1) a t by (auto simp: cache_good_def typed_list_def)
  then obtain n c where "a = DnsCnameRecord n c" by (cases a) (auto simp: rr_types)
  then show ?thesis using Some r l(3) a by (auto simp: alias_of_def first_cname_def)
qed

lemma retains_good': "retains b s s' \<Longrightarrow> cache_good b (st_now s) (st_cache s) \<Longrightarrow> cache_good b (st_now s') (st_cache s')"
  using retains_good by blast

section \<open>Queries end without a fault\<close>

lemma transform_total: "list_all (\<lambda>r. rr_type r = t) src \<Longrightarrow> \<exists>x. transform n d t src m = Ok x"
  by (auto simp: transform_def split: option.splits)

lemma transform_and_notify_total:
  "list_all (\<lambda>r. rr_type r = q_rrType q) src \<Longrightarrow> \<exists>s'. transform_and_notify i q key w src st s = Ok s'"
  using transform_total [of "q_rrType q" src "st_ntop6 s" "q_target q" "st_vip s"]
  by (auto simp: transform_and_notify_def split: prod.splits)

lemma found_typed:
  assumes "cache_ok (st_cache s)" "find_record d t s = (Some (src, st), s')"
  shows "list_all (\<lambda>r. rr_type r = t) src"
proof -
  obtain l where l: "entry (st_cache s) (key_of t d) = Some l" "src = mRecords l"
    using find_record_result [OF assms(2)] by (auto simp: lookup_result split: option.splits if_splits)
  then show ?thesis using entry_typed [OF assms(1) l(1)] entry_key [OF l(1)] key_type by (auto simp: list_all_iff typed_list_def)
qed

lemma answer_from_cache_total:
  assumes "cache_ok (st_cache s)" shows "\<exists>s'. answer_from_cache i q key s = Ok s'"
proof -
  obtain r s1 where r: "find_record key (q_rrType q) s = (r, s1)" by fastforce
  obtain src st where x: "(case r of None \<Rightarrow> ([], 0) | Some x \<Rightarrow> x) = (src, st)" by fastforce
  have "list_all (\<lambda>r. rr_type r = q_rrType q) src" using found_typed [OF assms] r x by (auto split: option.splits)
  then show ?thesis using transform_and_notify_total [of q src i key True st s1] r x by (auto simp: answer_from_cache_def)
qed

lemma follow_loop_total:
  "cache_good False (st_now s) (st_cache s) \<Longrightarrow> \<exists>x. follow_loop d n s = Ok x"
proof (induction d n s rule: follow_loop.induct)
  case (1 d n s)
  obtain r s1 where r: "find_record d T_CNAME s = (r, s1)" by fastforce
  note g = retains_good' [OF find_record_retains [OF r] 1(2)]
  show ?case
  proof (cases r)
    case None
    then show ?thesis using r by (subst follow_loop.simps) simp
  next
    case (Some x)
    then obtain cnames st c where x: "x = (cnames, st)" "first_cname cnames = Ok c" using find_alias [OF 1(2) r] by auto
    show ?thesis
    proof (cases "n + 1 < MAX_REQUERIES")
      case True
      then show ?thesis using 1(1) [OF r [symmetric] Some x(1) [symmetric] True g] r Some x by (subst follow_loop.simps) simp
    next
      case False
      then show ?thesis using r Some x by (subst follow_loop.simps) simp
    qed
  qed
qed

lemma follow_answer_total:
  assumes "cache_good False (st_now s) (st_cache s)" shows "\<exists>s'. follow_answer i q d s = Ok s'"
proof (cases "q_followCname q \<and> q_reQuery q < MAX_REQUERIES")
  case True
  obtain d1 n s1 where f: "follow_loop d (q_reQuery q + 1) s = Ok (d1, n, s1)" using follow_loop_total [OF assms] by (metis prod.exhaust)
  obtain r s2 where r: "find_record d1 (q_rrType q) s1 = (r, s2)" by fastforce
  have "cache_good False (st_now s2) (st_cache s2)"
    using retains_good' [OF retains_trans assms] follow_loop_retains [OF f, of False] find_record_retains [OF r, of False] by blast
  then obtain s' where "answer_from_cache i q d1 s2 = Ok s'" using answer_from_cache_total unfolding cache_good_def by blast
  then show ?thesis using True f r by (auto simp: follow_answer_def split: option.splits)
qed (auto simp: follow_answer_def)

lemma process_success_total:
  assumes "cache_good False (st_now s) (st_cache s)" "complete_reply (st_hostFileOnly s) abuf"
  shows "\<exists>s'. process_query i q ARES_SUCCESS abuf s = Ok s'"
proof -
  have l: "HFIXEDSZ \<le> length abuf" using assms(2) by (simp add: complete_reply_def)
  obtain qd an ns ar where h: "DNS_HEADER_QDCOUNT abuf = Some qd" "DNS_HEADER_ANCOUNT abuf = Some an"
    "DNS_HEADER_NSCOUNT abuf = Some ns" "DNS_HEADER_ARCOUNT abuf = Some ar" using header_inside [OF l] by blast
  show ?thesis
  proof (cases "skip_questions abuf qd HFIXEDSZ")
    case (Ok p)
    show ?thesis
    proof (cases an)
      case (Suc m)
      obtain r where "whole_records abuf (an + ns + ar) p r" using assms(2) h Ok by (auto simp: complete_reply_def)
      then obtain ls hh k where w: "name_at abuf (length abuf) p ls hh" "enc_size abuf p k" "p + k + RRFIXEDSZ \<le> length abuf"
        by (cases rule: whole_records.cases) (use Suc in auto)
      obtain t where t: "DNS_RR_TYPE abuf (p + k) = Some t" using rr_fields_inside [OF w(3)] by blast
      have "sound (cache_message abuf s)" using cache_message_sound [OF assms(2)] assms(1) by (simp add: cache_good_def)
      then have "\<exists>s'. followCname i q p abuf s = Ok s'"
      proof (cases "cache_message abuf s")
        case (Ok s1)
        have g: "cache_good False (st_now s1) (st_cache s1)" using retains_good' [OF cache_message_retains [OF Ok] assms(1)] .
        then have "\<exists>s'. answer_from_cache i q d s1 = Ok s'" for d using answer_from_cache_total by (auto simp: cache_good_def)
        then show ?thesis using Ok follow_answer_total [OF g] t by (auto simp: followCname_def expand_at_name [OF w(1,2)])
      qed (auto simp: followCname_def expand_at_name [OF w(1,2)])
      then show ?thesis using h Ok Suc by (simp add: process_query_def)
    qed (use h Ok in \<open>simp add: process_query_def\<close>)
  qed (use h skip_questions_inside [OF l, of qd] in \<open>auto simp: process_query_def\<close>)
qed

text \<open>Failures.\<close>

lemma getTTL_fits: "soa_fits v \<or> mType v \<noteq> T_SOA \<Longrightarrow> \<exists>ttl. getTTL v = Ok ttl"
proof (cases "mType v = T_SOA")
  case True
  assume "soa_fits v \<or> mType v \<noteq> T_SOA"
  then obtain ls h k ls' h' k' where n: "name_at (mMsg v) (length (mMsg v)) (mData v) ls h" "enc_size (mMsg v) (mData v) k"
    "name_at (mMsg v) (length (mMsg v)) (mData v + k) ls' h'" "enc_size (mMsg v) (mData v + k) k'"
    "mData v + k + k' + 20 \<le> length (mMsg v)" using True by (auto simp: soa_fits_def)
  then obtain x where "DNS__32BIT (mMsg v) (mData v + k + k' + 16) = Some x" using get32_inside [of "mData v + k + k' + 16" "mMsg v"] by auto
  then show ?thesis using True by (simp add: getTTL_def Let_def expand_at_name [OF n(1,2)] expand_at_name [OF n(3,4)])
qed (simp add: getTTL_def)

lemma stub_cacheTTL_sound:
  assumes "complete_failure (st_hostFileOnly s) abuf" "cache_ok (st_cache s)"
  shows "sound (stub_cacheTTL d t st abuf s)"
proof -
  have l: "HFIXEDSZ \<le> length abuf" using assms(1) by (simp add: complete_failure_def)
  obtain qd an ns where h: "DNS_HEADER_QDCOUNT abuf = Some qd" "DNS_HEADER_ANCOUNT abuf = Some an"
    "DNS_HEADER_NSCOUNT abuf = Some ns" using header_inside [OF l] by blast
  show ?thesis
  proof (cases "skip_questions abuf qd HFIXEDSZ")
    case (Ok p)
    show ?thesis
    proof (cases "an = 0 \<and> ns \<noteq> 0")
      case True
      then obtain m where m: "ns = Suc m" by (cases ns) auto
      have c: "\<exists>r. whole_records abuf 1 p r" "\<And>v. new_RROverlay p abuf = Ok v \<Longrightarrow> mType v = T_SOA \<Longrightarrow> soa_fits v"
        using assms(1) h Ok True m by (auto simp: complete_failure_def)
      from c(1) obtain ls hh k dlen where w: "name_at abuf (length abuf) p ls hh" "enc_size abuf p k" "p + k + RRFIXEDSZ \<le> length abuf"
        "DNS_RR_LEN abuf (p + k) = Some dlen" by (auto elim!: whole_recordsE)
      have o: "sound (createOverlay (st_hostFileOnly s) abuf False p [])" using createOverlay_whole [OF w, of "[]"] by simp
      have "\<exists>c'. cacheTTL (st_now s) d t st v (st_cache s) = Ok c'"
        if "createOverlay (st_hostFileOnly s) abuf False p [] = Ok (q, v # vs)" for q v vs
      proof -
        have "new_RROverlay p abuf = Ok v" using that by (auto simp: createOverlay_def outcome_simps split: if_splits)
        then obtain ttl where "getTTL v = Ok ttl" using getTTL_fits c(2) by blast
        then show ?thesis by (rule cacheTTL_ok [OF assms(2)]) blast
      qed
      then show ?thesis using o Ok h True by (fastforce simp: stub_cacheTTL_def outcome_simps split: list.splits)
    qed (use Ok h in \<open>auto simp: stub_cacheTTL_def\<close>)
  qed (use h skip_questions_inside [OF l, of qd] in \<open>auto simp: stub_cacheTTL_def\<close>)
qed

lemma process_error_total:
  assumes "cache_good b (st_now s) (st_cache s)" "cacheable_error st \<Longrightarrow> complete_failure (st_hostFileOnly s) abuf" "st \<noteq> ARES_EBADFAMILY"
  shows "\<exists>s'. process_error i q st abuf s = Ok s'"
proof -
  have ok: "cache_ok (st_cache s)" using assms(1) by (simp add: cache_good_def)
  have a: "\<exists>s'. and_then (cache_address (q_target q) addr s) (answer_from_cache i q (q_target q)) = Ok s'" for addr
  proof -
    obtain c where c: "updateCacheFromHostFile (st_now s) (DnsHostRecord (q_target q) addr) (st_cache s) = Ok c" "cache_good b (st_now s) c"
      using host_good [OF assms(1), of "DnsHostRecord (q_target q) addr"] by auto
    then show ?thesis using answer_from_cache_total [of "s\<lparr>st_cache := c\<rparr>" i q "q_target q"] by (simp add: cache_address_def cache_good_def)
  qed
  show ?thesis
  proof (cases "cacheable_error st")
    case True
    have "sound (stub_cacheTTL (q_target q) (q_rrType q) (status_code st) abuf s)" by (rule stub_cacheTTL_sound [OF assms(2) [OF True] ok])
    then show ?thesis using True a by (auto simp: process_error_def Let_def split: option.splits outcome.splits)
  qed (use assms(3) in \<open>simp add: process_error_def asserting_def\<close>)
qed

end
