(* ===== verification/DnsStubProps.thy ===== *)
theory DnsStubProps
  imports DnsStubReply
begin

text \<open>The properties of the DNS stub and of its cache.\<close>

section \<open>The loop over aliases\<close>

lemma cname_loop_total:
  "chain_ends al d \<Longrightarrow> al = alias_of s \<Longrightarrow> cache_good False (st_now s) (st_cache s) \<Longrightarrow> \<exists>d' s'. cname_loop d s = Some (Ok (d', s'))"
proof (induction arbitrary: s rule: chain_ends.induct)
  case (last d)
  obtain r s1 where r: "find_record d T_CNAME s = (r, s1)" by fastforce
  then show ?case using find_alias [OF last(3) r] last by (subst cname_loop.simps) auto
next
  case (more d c)
  obtain r s1 where r: "find_record d T_CNAME s = (r, s1)" by fastforce
  obtain cnames st where x: "r = Some (cnames, st)" "first_cname cnames = Ok c"
    using find_alias [OF more(5) r] more(1,4) by auto
  have "\<exists>d' s'. cname_loop c s1 = Some (Ok (d', s'))"
    using more(3) [of s1] alias_find [OF r] more(4) retains_good' [OF find_record_retains [OF r] more(5)] by simp
  then show ?case using r x by (subst cname_loop.simps) simp
qed

lemma cname_loop_ends:
  assumes "cname_loop d s = Some y" "cache_good False (st_now s) (st_cache s)"
  shows "chain_ends (alias_of s) d"
proof -
  have "cache_good False (st_now s) (st_cache s) \<longrightarrow> chain_ends (alias_of s) d" if "cname_loop d s = Some y" for d s y
  proof (rule cname_loop.raw_induct [OF _ that])
    fix loop d s y
    assume IH: "\<And>d s y. loop d s = Some y \<Longrightarrow> cache_good False (st_now s) (st_cache s) \<longrightarrow> chain_ends (alias_of s) d"
      and eq: "(case find_record d T_CNAME s of (None, s) \<Rightarrow> Some (Ok (d, s))
        | (Some (cnames, x), s) \<Rightarrow> (case first_cname cnames of Ok cname \<Rightarrow> loop cname s
            | Throw e \<Rightarrow> Some (Throw e) | Fault x \<Rightarrow> Some (Fault x))) = Some y"
    show "cache_good False (st_now s) (st_cache s) \<longrightarrow> chain_ends (alias_of s) d"
    proof
      assume g: "cache_good False (st_now s) (st_cache s)"
      obtain r s1 where r: "find_record d T_CNAME s = (r, s1)" by fastforce
      note g1 = retains_good' [OF find_record_retains [OF r] g] and al = alias_find [OF r]
      from find_alias [OF g r] show "chain_ends (alias_of s) d"
      proof (elim disjE exE conjE)
        fix cnames st c assume "r = Some (cnames, st)" "first_cname cnames = Ok c" and a: "alias_of s d = Some c"
        then have "loop c s1 = Some y" using eq r by simp
        then have "chain_ends (alias_of s) c" using IH g1 al by metis
        then show ?thesis by (rule chain_ends.more [of "alias_of s", OF a])
      qed (simp add: chain_ends.last)
    qed
  qed
  then show ?thesis using assms by blast
qed

lemma cycle_never_ends: "chain_ends al d \<Longrightarrow> (\<And>x. x \<in> C \<Longrightarrow> \<exists>y \<in> C. al x = Some y) \<Longrightarrow> d \<notin> C"
  by (induction rule: chain_ends.induct) fastforce+

section \<open>A small run\<close>

text \<open>A stub that has been asked for the address of a host, for the witnesses.\<close>

lemma find_in_empty: "mRRSet (st_cache s) = [] \<Longrightarrow> find_record d t s = (None, s)"
  by (simp add: find_record_def lookup_def set_find_def)

lemma go_empty: "mRRSet (st_cache s) = [] \<Longrightarrow> go i q s = Some (go_external i q (q_target q) s)"
  by (simp add: go_def find_in_empty cname_loop.simps go_alias_def)

definition small_run :: "cstring \<Rightarrow> Stub" where
  "small_run d = lookupRecords 0 d T_A
     ((new_DnsStub False (\<lambda>_. None) False (\<lambda>_. []) 1)\<lparr>st_queries := [(0, new_Query False d T_A)], st_next := 1\<rparr>)"

lemma small_run_reachable: "stub_reachable {T_A} (small_run d)"
proof -
  let ?s0 = "new_DnsStub False (\<lambda>_. None) False (\<lambda>_. []) 1"
  let ?s1 = "queueCommand (QueryCommand T_A d) ?s0"
  have r: "stub_reachable {T_A} ?s1"
    by (rule stub_reachable.step [of _ ?s0]) (simp_all add: stub_reachable.start stub_step.queue)
  have "process_command False ?s1 = Some (Ok (small_run d))"
    by (simp add: process_command_def queueCommand_def query_command_def Let_def go_empty go_external_def new_DnsStub_def
        new_RRCache_def small_run_def new_Query_def SupportsCName_def)
  then show ?thesis by (rule stub_reachable.step [OF r stub_step.exec])
qed

section \<open>Queries\<close>

lemma count_distinct: "distinct xs \<Longrightarrow> count_list xs x = (if x \<in> set xs then 1 else 0)"
  by (induction xs) auto

text \<open>C7: In every reachable state of the stub, a query that was started is in one of two situations: it exists, exactly
  one lookup for it is with the resolver, and its client has been told nothing; or it is gone, no lookup is left that would
  call it, and its client was told exactly once. This holds through replies, errors, aliases, the hosts file, cache
  commands and a change of the servers.\<close>

theorem query_told_once:
  assumes "stub_reachable ts s" "i < st_next s"
  shows "i \<in> ids s \<and> count_list (st_pending s) i = 1 \<and> told_count s i = 0 \<or>
         i \<notin> ids s \<and> i \<notin> set (st_pending s) \<and> told_count s i = 1"
  using reachable_ok [OF assms(1)] assms(2) by (auto simp: stub_ok_def book_def count_distinct)

theorem query_told_once_witness:
  "0 \<in> ids (small_run []) \<and> count_list (st_pending (small_run [])) 0 = 1 \<and> told_count (small_run []) 0 = 0"
  using query_told_once [OF small_run_reachable [of "[]"], of 0]
  by (simp add: small_run_def lookupRecords_def new_DnsStub_def ids_def)

text \<open>C17: A query makes at most six lookups, however many aliases the replies contain: the first one and one for each of the
  \<^verbatim>\<open>MAX_REQUERIES\<close> that it may add.\<close>

theorem lookups_bounded:
  assumes "stub_reachable ts s" shows "asked_count s i \<le> 6"
  using reachable_ok [OF assms] by (simp add: stub_ok_def book_def MAX_REQUERIES_def)

theorem lookups_bounded_witness: "asked_count (small_run [1]) 0 = 1 \<and> asked_count (small_run [1]) 0 \<le> 6"
  using lookups_bounded [OF small_run_reachable [of "[1]"], of 0]
  by (simp add: small_run_def lookupRecords_def new_DnsStub_def asked_count_def)

lemma fail_pending_next: "fail_pending is s = Ok s' \<Longrightarrow> st_next s' = st_next s"
  unfolding fail_pending_def
  by (erule fold_ok_inv [where P = "\<lambda>s'. st_next s' = st_next s"])
     (auto simp: handleDnsRaw_def process_query_def process_error_def cacheable_error_def asserting_def end_of_query_def
       notifyUser_def split: option.splits)

text \<open>C24: When the servers have changed, setting up the resolver anew ends every query that is under way: the command
  returns without a fault, and afterwards no query and no lookup is left, so that every client has been told.\<close>

theorem reload_ends_queries:
  assumes "stub_reachable ts s"
  shows "\<exists>s'. execute True ReloadDnsServersCommand s = Some (Ok s') \<and> ids s' = {} \<and> st_pending s' = [] \<and>
    (\<forall>i < st_next s. told_count s' i = 1)"
proof -
  let ?s = "s\<lparr>st_cache := cleanup (st_cache s)\<rparr>"
  note ok = reachable_ok [OF assms]
  have "stub_ok ts ?s" by (rule stub_ok_cong [OF ok]) (simp_all add: stub_okD [OF ok] cleanup_good)
  then obtain s' where s': "fail_pending (st_pending s) ?s = Ok s'" "stub_ok ts s'" "st_pending s' = []" "st_next s' = st_next s"
    using fail_pending_ok [of ts ?s "st_pending s"] stub_okD(3) [OF ok] fail_pending_next by fastforce
  then have "ids s' = {}" "\<And>i. told_count s' i = (if i < st_next s then 1 else 0)" by (auto simp: stub_ok_def book_def)
  then show ?thesis using s' by (auto simp: doReloadDnsServers_def)
qed

theorem reload_ends_queries_witness:
  "\<exists>s'. execute True ReloadDnsServersCommand (small_run [2]) = Some (Ok s') \<and> ids s' = {} \<and> st_pending s' = [] \<and>
    (\<forall>i < st_next (small_run [2]). told_count s' i = 1)"
  using reload_ends_queries [OF small_run_reachable [of "[2]"]] .

lemma go_returns:
  assumes "stub_reachable ts s" "T_CNAME \<notin> ts" "q_rrType q \<noteq> T_CNAME"
  shows "go i q s \<noteq> None \<longleftrightarrow> fst (find_record (q_target q) (q_rrType q) s) \<noteq> None \<or> chain_ends (alias_of s) (q_target q)"
proof -
  obtain r s1 where r: "find_record (q_target q) (q_rrType q) s = (r, s1)" by fastforce
  have g: "cache_good False (st_now s) (st_cache s)" using stub_okD(2) [OF reachable_ok [OF assms(1)]] assms(2) by simp
  note g1 = retains_good' [OF find_record_retains [OF r] g]
  have "cname_loop (q_target q) s1 \<noteq> None \<longleftrightarrow> chain_ends (alias_of s1) (q_target q)"
    using cname_loop_total [OF _ refl g1] cname_loop_ends [OF _ g1] by fastforce
  then show ?thesis using r assms(3) alias_find [OF r] by (auto simp: go_def split: option.splits)
qed



text \<open>A reply that says \<open>a\<close> is an alias of \<open>a\<close>.\<close>

definition self_alias :: "byte list" where
  "self_alias = [0, 0, 0x80, 0, 0, 0, 0, 1, 0, 0, 0, 0, 1, 0x61, 0, 0, 5, 0, 1, 0, 0, 0, 100, 0, 2, 0xc0, 12]"

lemma self_alias_cached:
  "(case handleDnsRaw 0 ARES_SUCCESS self_alias (small_run [0x61]) of
      Ok s \<Rightarrow> alias_of s [0x61] = Some [0x61] \<and> fst (find_record [0x61] T_SRV s) = None
    | _ \<Rightarrow> False)"
  by code_simp

text \<open>After this reply to one query, the next query for a service of the name does not return.\<close>

theorem self_alias_hangs:
  "\<exists>s. stub_reachable {T_A} s \<and> handleDnsRaw 0 ARES_SUCCESS self_alias (small_run [0x61]) = Ok s \<and>
       go 1 (new_Query False [0x61] T_SRV) s = None"
proof -
  obtain s where s: "handleDnsRaw 0 ARES_SUCCESS self_alias (small_run [0x61]) = Ok s"
    "alias_of s [0x61] = Some [0x61]" "fst (find_record [0x61] T_SRV s) = None"
    using self_alias_cached by (auto split: outcome.splits)
  have r: "stub_reachable {T_A} s"
    by (rule stub_reachable.step [OF small_run_reachable stub_step.raw [OF _ s(1)]])
       (simp add: small_run_def lookupRecords_def new_DnsStub_def)
  have "\<not> chain_ends (alias_of s) [0x61]" using cycle_never_ends [of "alias_of s" "[0x61]" "{[0x61]}"] s(2) by auto
  then have "go 1 (new_Query False [0x61] T_SRV) s = None"
    using go_returns [OF r, of "new_Query False [0x61] T_SRV" 1] s(3) by (simp add: rr_types new_Query_def)
  then show ?thesis using r s(1) by blast
qed

section \<open>Replies\<close>


text \<open>A reply with the address of \<open>a\<close>.\<close>

definition address_reply :: "byte list" where
  "address_reply = [0, 0, 0x80, 0, 0, 0, 0, 1, 0, 0, 0, 0, 1, 0x61, 0, 0, 1, 0, 1, 0, 0, 0, 100, 0, 4, 10, 0, 0, 1]"

lemma expanded_name:
  assumes "p \<le> length abuf" "expand_at abuf p = Ok (Inr (n, k))"
  shows "\<exists>ls h. name_at abuf (length abuf) p ls h \<and> enc_size abuf p k"
proof -
  have "ares_expand_name True abuf (length abuf) p = Some (Inr (n, k))" using assms(2) by (simp add: expand_at_def checked_eq_Ok)
  with order_refl [of "length abuf"] assms(1) show ?thesis
    by (cases rule: expand_name_cases [where m = True]) auto
qed

lemma address_reply_complete: "complete_reply False address_reply"
proof -
  have "expand_at address_reply 12 = Ok (Inr ([0x61], 3))" by code_simp
  moreover have l: "length address_reply = 29" by code_simp
  ultimately obtain ls h where n: "name_at address_reply (length address_reply) 12 ls h" "enc_size address_reply 12 3"
    using expanded_name [of 12 address_reply] by auto
  have d: "DNS_RR_LEN address_reply (12 + 3) = Some 4" by code_simp
  have "whole_records address_reply 0 29 29" by (rule whole_records.none) (simp add: l)
  then have w: "whole_records address_reply 1 12 29"
    using whole_records.more [OF n _ d, of 0 29] by (simp add: RRFIXEDSZ_def l)
  have h: "DNS_HEADER_QDCOUNT address_reply = Some 0" "DNS_HEADER_ANCOUNT address_reply = Some 1"
    "DNS_HEADER_NSCOUNT address_reply = Some 0" "DNS_HEADER_ARCOUNT address_reply = Some 0" by code_simp+
  have "case message_overlays False address_reply of Ok vs \<Rightarrow> list_all data_fits vs | _ \<Rightarrow> False" by code_simp
  then show ?thesis using w h l by (auto simp: complete_reply_def HFIXEDSZ_def)
qed


lemma length_ranges: "length (ranges vs) \<le> length vs"
  by (induction vs rule: ranges.induct) (auto intro: le_trans length_dropWhile_le)


definition address_overlay :: RROverlay where
  "address_overlay = \<lparr>mData = 25, mMsg = address_reply, mDataLen = 4, mNameLen = 3, mTTL = 100, mType = T_A, mDomain = [0x61]\<rparr>"


section \<open>Preferred records\<close>

text \<open>C21: The record that worked last becomes the only best one of an SRV or NAPTR answer: its priority (order) is smaller than
  that of every other record, and the others keep their order among each other, each moved back by one. This is a change of the
  records in the cache, too.\<close>

theorem vip_is_best:
  assumes "t = T_SRV \<or> t = T_NAPTR" "list_all (\<lambda>r. rr_type r = t) src" "m (d, t) = Some v" "\<exists>r \<in> set src. isSameValue n v r"
  shows "\<exists>out j. transform n d t src m = Ok (out, out, m) \<and> length out = length src \<and> j < length src \<and> isSameValue n v (src ! j) \<and>
    (\<forall>k < length src. k \<noteq> j \<longrightarrow> rank (out ! j) < rank (out ! k) \<and> rank (out ! k) = rank (src ! k) + 1)"
proof -
  obtain ys r zs where e: "List.extract (isSameValue n v) src = Some (ys, r, zs)"
    using assms(4) by (cases "List.extract (isSameValue n v) src") (auto simp: extract_None_iff)
  have src: "src = ys @ r # zs" "isSameValue n v r" using extract_split [OF e] by auto
  let ?out = "map bump ys @ set_rank (min_rank src) r # map bump zs" and ?j = "length ys"
  have "transform n d t src m = Ok (?out, ?out, m)" using assms(1-3) e by (auto simp: transform_def ranked_transform_def)
  moreover have k: "rr_type x = T_NAPTR \<or> rr_type x = T_SRV" if "x \<in> set src" for x using assms(1,2) that by (auto simp: list_all_iff)
  have b: "rank (bump x) = rank x + 1" if "x \<in> set src" for x using rank_set_rank k [OF that] by (simp add: bump_def)
  have "rank (?out ! ?j) < rank (?out ! i) \<and> rank (?out ! i) = rank (src ! i) + 1" if "i < length src" "i \<noteq> ?j" for i
  proof -
    have "?out ! i = bump (src ! i)" using that src(1) by (auto simp: nth_append nth_Cons')
    moreover have "src ! i \<in> set src" using that by simp
    moreover have "?out ! ?j = set_rank (min_rank src) r" by (simp add: nth_append)
    moreover have "rank (set_rank (min_rank src) r) = min_rank src" using rank_set_rank k [of r] src(1) by simp
    ultimately show ?thesis using b min_rank_le [of "src ! i" src] by simp
  qed
  moreover have "length ?out = length src" "?j < length src" "isSameValue n v (src ! ?j)" using src by (simp_all add: nth_append)
  ultimately show ?thesis by blast
qed

definition two_services :: "DnsResourceRecord list" where
  "two_services = [DnsSrvRecord [0x73] 10 0 5060 [0x61], DnsSrvRecord [0x73] 20 0 5060 [0x62]]"

theorem vip_is_best_witness:
  "\<exists>out j. transform (\<lambda>_. []) [0x73] T_SRV two_services [([0x73], T_SRV) \<mapsto> [0x62] @ COLON # dec_text 5060] = Ok (out, out, [([0x73], T_SRV) \<mapsto> [0x62] @ COLON # dec_text 5060]) \<and>
     length out = length two_services \<and> j < length two_services \<and>
     isSameValue (\<lambda>_. []) ([0x62] @ COLON # dec_text 5060) (two_services ! j) \<and>
    (\<forall>k < length two_services. k \<noteq> j \<longrightarrow> rank (out ! j) < rank (out ! k) \<and> rank (out ! k) = rank (two_services ! k) + 1)"
  using vip_is_best [of T_SRV two_services "[([0x73], T_SRV) \<mapsto> [0x62] @ COLON # dec_text 5060]" "[0x73]" "[0x62] @ COLON # dec_text 5060" "\<lambda>_. []"]
  by (simp add: two_services_def)

text \<open>Among addresses the preferred one moves to the front of the answer; the others keep their order, and the cache
  keeps the records as they are.\<close>

theorem vip_address_first:
  assumes "t = T_A \<or> t = T_AAAA" "m (d, t) = Some v" "\<exists>r \<in> set src. isSameValue n v r"
  shows "\<exists>ys r zs. src = ys @ r # zs \<and> isSameValue n v r \<and> transform n d t src m = Ok (r # ys @ zs, src, m)"
proof -
  obtain ys r zs where e: "List.extract (isSameValue n v) src = Some (ys, r, zs)"
    using assms(3) by (cases "List.extract (isSameValue n v) src") (auto simp: extract_None_iff)
  have "t \<noteq> T_NAPTR" "t \<noteq> T_SRV" using assms(1) by (auto simp: rr_types)
  then have "transform n d t src m = Ok (r # ys @ zs, src, m)" using assms(2) e by (simp add: transform_def host_transform_def)
  then show ?thesis using extract_split [OF e] by blast
qed

section \<open>Faults\<close>

lemma and_then_eq_Throw: "and_then r f = Throw e \<longleftrightarrow> r = Throw e \<or> (\<exists>x. r = Ok x \<and> f x = Throw e)"
  by (cases r) auto

lemma update_never_throws: "updateCache now t vs c \<noteq> Throw e"
proof -
  have "update_loop f vs rs x \<noteq> Throw e" for f rs x by (induction f vs rs x rule: update_loop.induct) (auto split: outcome.splits)
  moreover have "purge c \<noteq> Throw e" for c by (auto simp: purge_def asserting_def split: list.splits)
  ultimately show ?thesis
    by (auto simp: updateCache_def RRList_update_def Let_def and_then_eq_Throw split: option.splits)
qed

text \<open>C40: A reply with a SOA record in its answer or additional section brings the program down: \<^verbatim>\<open>createOverlay\<close> takes the
  record, since the type is supported, but the cache has no factory for it, and the assertion of \<^verbatim>\<open>updateCache\<close> fails (or a
  fault has happened before). No exception is thrown that would be handled.\<close>

theorem soa_in_answer_faults:
  assumes "message_overlays (st_hostFileOnly s) abuf = Ok vs" "v \<in> set vs" "mType v = T_SOA"
  shows "\<exists>x. cache_message abuf s = Fault x"
proof -
  have "\<exists>x. fold_ok (\<lambda>g. updateCache (st_now s) (mType (hd g)) g) gs c = Fault x" if "\<exists>g \<in> set gs. mType (hd g) = T_SOA" for gs c
    using that
  proof (induction gs arbitrary: c)
    case (Cons g gs)
    show ?case
    proof (cases "updateCache (st_now s) (mType (hd g)) g c")
      case (Ok c1)
      then have "mType (hd g) \<noteq> T_SOA" by (auto simp: updateCache_def create_def rr_types)
      then show ?thesis using Cons.IH [of c1] Cons.prems Ok by auto
    qed (use update_never_throws in auto)
  qed simp
  moreover have "\<exists>g \<in> set (ranges (sort_key overlay_key vs)). mType (hd g) = T_SOA"
    using ranges_sorted [of "sort_key overlay_key vs"] assms(2,3) by (fastforce simp: overlay_key_def)
  ultimately obtain x where "update_ranges (st_now s) (ranges (sort_key overlay_key vs)) (st_cache s) = Fault x"
    unfolding update_ranges_def by blast
  then show ?thesis using assms(1) by (simp add: cache_message_def)
qed

definition soa_reply :: "byte list" where
  "soa_reply = [0, 0, 0x80, 0, 0, 0, 0, 1, 0, 0, 0, 0, 1, 0x61, 0, 0, 6, 0, 1, 0, 0, 0, 100, 0, 0]"

theorem soa_in_answer_faults_witness: "\<exists>x. cache_message soa_reply (small_run [0x61]) = Fault x"
proof -
  let ?v = "\<lparr>mData = 25, mMsg = soa_reply, mDataLen = 0, mNameLen = 3, mTTL = 100, mType = T_SOA, mDomain = [0x61]\<rparr>"
  have "message_overlays (st_hostFileOnly (small_run [0x61])) soa_reply = Ok [?v]" by code_simp
  then show ?thesis using soa_in_answer_faults [of "small_run [0x61]" soa_reply "[?v]" ?v] by simp
qed

text \<open>A failure that is still in the cache taints a later success. When a list with the status of a failed lookup is filled
  from a reply (as additional record of another lookup, say), it gets the records of the reply and keeps the status, so that
  clients are told of a failure although the records are there.\<close>

theorem failure_status_survives:
  assumes "stub_reachable ts s" "entry (st_cache s) (key_of t (mDomain (hd vs))) = Some l" "create t = Some f"
    "updateCache (st_now s) t vs (st_cache s) = Ok c"
  shows "\<exists>l'. entry c (key_of t (mDomain (hd vs))) = Some l' \<and> mRecords l' = parsed f vs \<and> mStatus l' = mStatus l"
proof -
  have "cache_ok (st_cache s)" using stub_okD(2) [OF reachable_ok [OF assms(1)]] by (simp add: cache_good_def)
  from this assms(4) show ?thesis
  proof (cases rule: updateCache_cases)
    case (1 f' l' c1)
    then have "entry c (key_of t (mDomain (hd vs))) = Some l'" using assms(2) by simp
    moreover have "list_for (st_cache s) t (mDomain (hd vs)) = l" using assms(2) by (simp add: list_for_def)
    ultimately show ?thesis using RRList_update_spec [OF 1(2)] 1(1) assms(3) by simp
  qed
qed

definition failure_reply :: "byte list" where
  "failure_reply = [0, 0, 0x80, 3, 0, 0, 0, 0, 0, 1, 0, 0, 1, 0x61, 0, 0, 6, 0, 1, 0, 0, 0, 100, 0, 22,
     0, 0, 0, 0, 0, 0, 0, 0, 0, 0, 0, 0, 0, 0, 0, 0, 0, 0, 0, 0, 0, 100]"

theorem failure_status_survives_witness:
  "\<exists>s c l'. stub_reachable {T_A} s \<and> updateCache (st_now s) T_A [address_overlay] (st_cache s) = Ok c \<and>
     entry c (key_of T_A [0x61]) = Some l' \<and> mRecords l' = [DnsHostRecord [0x61] [10, 0, 0, 1]] \<and> mStatus l' = 4"
proof -
  have "case handleDnsRaw 0 ARES_ENOTFOUND failure_reply (small_run [0x61]) of
      Ok s \<Rightarrow> (case entry (st_cache s) (key_of T_A [0x61]) of Some l \<Rightarrow> mStatus l = 4 | None \<Rightarrow> False) \<and>
        (case updateCache (st_now s) T_A [address_overlay] (st_cache s) of Ok c \<Rightarrow> True | _ \<Rightarrow> False)
    | _ \<Rightarrow> False" by code_simp
  then obtain s l c where s: "handleDnsRaw 0 ARES_ENOTFOUND failure_reply (small_run [0x61]) = Ok s"
    "entry (st_cache s) (key_of T_A [0x61]) = Some l" "mStatus l = 4"
    "updateCache (st_now s) T_A [address_overlay] (st_cache s) = Ok c" by (auto split: outcome.splits option.splits)
  have r: "stub_reachable {T_A} s"
    by (rule stub_reachable.step [OF small_run_reachable stub_step.raw [OF _ s(1)]])
       (simp add: small_run_def lookupRecords_def new_DnsStub_def)
  have f: "create T_A = Some new_DnsHostRecord" by (simp add: create_def rr_types)
  have d: "mDomain (hd [address_overlay]) = [0x61]" by (simp add: address_overlay_def)
  have "parsed new_DnsHostRecord [address_overlay] = [DnsHostRecord [0x61] [10, 0, 0, 1]]" by code_simp
  then show ?thesis using failure_status_survives [OF r _ f s(4), of l] r s d by auto
qed

text \<open>A reply whose last record stops behind its name is read past its end.\<close>

theorem truncated_record_read_past_end:
  "message_overlays False [0, 0, 0x80, 0, 0, 0, 0, 1, 0, 0, 0, 0, 1, 0x61, 0] = Fault ReadPastEnd"
  by code_simp

text \<open>A failure whose SOA record is empty fails an assertion.\<close>

definition empty_soa :: "byte list" where
  "empty_soa = [0, 0, 0x80, 3, 0, 0, 0, 0, 0, 1, 0, 0, 1, 0x61, 0, 0, 6, 0, 1, 0, 0, 0, 100, 0, 0]"

theorem empty_soa_asserts:
  "(case handleDnsRaw 0 ARES_ENOTFOUND empty_soa (small_run [0x61]) of Fault x \<Rightarrow> x = AssertionFailed | _ \<Rightarrow> False)"
  by code_simp

end
