(* ===== verification/Spec2Isabelle.thy ===== *)
theory Spec2Isabelle
  imports Resolver DnsResProps DnsStubProps
begin

text \<open>
  A verification development for four layers of reSIProcate: the asynchronous DNS resolver (\<^verbatim>\<open>src/rutil/dns/ares\<close>,
  a library in C), the DNS stub with its cache of records on top of it (\<^verbatim>\<open>src/rutil/dns\<close>, C++), the search for the targets
  of a request (\<^verbatim>\<open>DnsResult\<close>) and the transaction layer of the SIP stack (\<^verbatim>\<open>src/resip/stack\<close>). A transaction that has a
  request to send asks a \<^verbatim>\<open>DnsResult\<close> for targets; this one makes NAPTR, SRV and host queries, which the stub answers from
  its cache or through the resolver, and hands out the targets one after the other.
  The transaction sends the request, retransmits it, matches the responses, tries the next target when one fails and tells
  the transaction user how it ended. Each layer sees the one below as answers, about which its theorems assume only what
  they name; the transport selector and the transports are not modelled.

  \<^bold>\<open>The resolver.\<close> The theories follow the files of the library.
  \<^item> \<^verbatim>\<open>Prelude\<close> has C buffers with checked reads and writes, C strings and the functions of the C library that the
    sources call, with the lemmas that all the theories share; \<^verbatim>\<open>DnsWire\<close> the macros of \<^verbatim>\<open>ares_dns.h\<close> and the status codes.
  \<^item> \<^verbatim>\<open>DnsName\<close> (\<^verbatim>\<open>ares_expand_name.c\<close>): the checking pass and the copying pass over a compressed name agree with the
    relation that says which labels a message holds at an offset. \<^verbatim>\<open>MkQuery\<close> (\<^verbatim>\<open>ares_mkquery.c\<close>): the packet fills its
    buffer exactly and its name reads back. \<^verbatim>\<open>SameQuestions\<close>: the comparison of question sections against a set inclusion.
  \<^item> \<^verbatim>\<open>ParseReply\<close> (\<^verbatim>\<open>ares_parse_a_reply.c\<close>, \<^verbatim>\<open>ares_parse_ptr_reply.c\<close>), \<^verbatim>\<open>HostsFile\<close> (\<^verbatim>\<open>ares__read_line.c\<close>,
    \<^verbatim>\<open>ares__get_hostent.c\<close>), \<^verbatim>\<open>SortAddresses\<close>, \<^verbatim>\<open>InetPton\<close>, \<^verbatim>\<open>Config\<close> and \<^verbatim>\<open>ConfigProps\<close> (\<^verbatim>\<open>ares_init.c\<close>): parsing never leaves
    its buffers and gives what reference definitions give; the sources of the configuration have the documented precedence.
  \<^item> \<^verbatim>\<open>ChannelState\<close> (\<^verbatim>\<open>ares_private.h\<close>, sockets), \<^verbatim>\<open>QuerySend\<close> (\<^verbatim>\<open>ares_send.c\<close> and the sending half of \<^verbatim>\<open>ares_process.c\<close>),
    \<^verbatim>\<open>Process\<close> (events, timeouts, destruction), \<^verbatim>\<open>Lookup\<close> (\<^verbatim>\<open>ares_query.c\<close>, \<^verbatim>\<open>ares_search.c\<close>, \<^verbatim>\<open>ares_gethostbyname.c\<close>,
    \<^verbatim>\<open>ares_gethostbyaddr.c\<close>) and \<^verbatim>\<open>Ahost\<close> (the program \<^verbatim>\<open>ahost.c\<close>) model the state machine of a channel. Memory is a heap of
    query objects named by handles, system calls are a script of results, what happens is a log. A callback is a value, and
    its effect an argument; the locales \<^verbatim>\<open>query_callback\<close> and \<^verbatim>\<open>callback_contract\<close> (\<^verbatim>\<open>QueryInv\<close>) and \<^verbatim>\<open>user_contract\<close>
    (\<^verbatim>\<open>LookupInv\<close>) state what a callback may do, and are interpreted for the callbacks of the library and of \<^verbatim>\<open>ahost\<close>.
  \<^item> \<^verbatim>\<open>QueryInv\<close>, \<^verbatim>\<open>ProcessInv\<close>, \<^verbatim>\<open>ChannelProps\<close>, \<^verbatim>\<open>LookupInv\<close>, \<^verbatim>\<open>Progress\<close>, \<^verbatim>\<open>Answers\<close> and \<^verbatim>\<open>Resolver\<close> prove that every query is
    completed exactly once in every reachable state, that the invariant of the channel holds in all of them, that event
    processing returns, that timeouts lead to completion, which answers are accepted, and how a TCP stream is cut into messages.

  \<^bold>\<open>The DNS stub.\<close>
  \<^item> \<^verbatim>\<open>RRecord\<close> has the view of a record inside a message (\<^verbatim>\<open>RROverlay.cxx\<close>) and the parsed records (\<^verbatim>\<open>DnsHostRecord.cxx\<close> and
    its siblings). An operation has an outcome: a value, an exception, or a fault (a read past the end of the message, a
    failed assertion, a null pointer, a deleted object).
  \<^item> \<^verbatim>\<open>RRCacheM\<close> (\<^verbatim>\<open>RRList.cxx\<close>, \<^verbatim>\<open>RRCache.cxx\<close>) has the cache: an ordered set of lists of records and the order of their use,
    with the invariant that ties the two together and the proofs that every operation keeps it. \<^verbatim>\<open>RRVipM\<close> (\<^verbatim>\<open>RRVip.cxx\<close>)
    has the preference for records that worked.
  \<^item> \<^verbatim>\<open>DnsStub\<close> (\<^verbatim>\<open>DnsStub.cxx\<close>) has the stub with its queries, the parsing of a reply into the cache, the aliases that a query
    follows, the commands, and the step relation. \<^verbatim>\<open>DnsStubInv\<close> shows that every event of a query ends in a notification of
    its client or in another lookup and keeps the cache in order; \<^verbatim>\<open>DnsStubReach\<close> has the invariant of the reachable states.
    \<^verbatim>\<open>DnsStubReply\<close> groups the records of a reply by type and name, says with the locale \<^verbatim>\<open>record_store\<close>, interpreted for the
    cache, what is in a store after a list of values was put into it, and shows that messages made of whole records are
    handled without a fault. \<^verbatim>\<open>DnsStubProps\<close> has the properties.

  \<^bold>\<open>The targets of a request.\<close>
  \<^item> \<^verbatim>\<open>DnsIface\<close> has the marks on targets (\<^verbatim>\<open>TupleMarkManager.cxx\<close>), the transports that the stack supports
    (\<^verbatim>\<open>DnsInterface.cxx\<close>) and the recognition of numeric addresses (\<^verbatim>\<open>DnsUtil.cxx\<close>).
  \<^item> \<^verbatim>\<open>DnsRes\<close> (\<^verbatim>\<open>DnsResult.cxx\<close>) has the record \<^verbatim>\<open>DnsResult\<close> with the fields of the class and one definition per function:
    the start of a lookup for a URI, the answers to ENUM, NAPTR, SRV, AAAA and A queries, the choice of the next SRV record,
    the marking of targets, and \<^verbatim>\<open>available\<close> and \<^verbatim>\<open>next\<close>. The queries that are under way, the commands for the DNS thread and
    the calls of the handler are lists of the record; a failed assertion sets a flag.
  \<^item> \<^verbatim>\<open>DnsResInv\<close> has the invariant (the phases of a lookup, by the queries under way) and the specification of the choice of
    SRV records; \<^verbatim>\<open>DnsResSteps\<close> the step relation, the reachable states and the proof that every step keeps the invariant;
    \<^verbatim>\<open>DnsResEnds\<close> the multiset of work that every answer and every target taken makes smaller; \<^verbatim>\<open>DnsResTold\<close> when the
    handler is told. \<^verbatim>\<open>DnsResProps\<close> has the properties, and the locale \<^verbatim>\<open>target_source\<close>, which says what the transaction
    layer relies on and is interpreted for \<^verbatim>\<open>DnsResult\<close>: this joins the lookups with the transaction layer.

  \<^bold>\<open>The transaction layer.\<close>
  \<^item> \<^verbatim>\<open>SipMsg\<close> has the data: methods, transports, tuples, the headers of a \<^verbatim>\<open>SipMessage\<close> that the layer reads or writes, the
    messages of its input queue, and the messages the layer makes (\<^verbatim>\<open>Helper::makeResponse\<close>, \<^verbatim>\<open>makeCancel\<close>, \<^verbatim>\<open>makeFailureAck\<close>).
  \<^item> \<^verbatim>\<open>SipTimers\<close> (\<^verbatim>\<open>Timer.cxx\<close>, \<^verbatim>\<open>TimerQueue.hxx\<close>) has the timer constants and the timer queue; the locale \<^verbatim>\<open>timer_queue\<close> says
    what a queue of timers owes its client and is interpreted for it. \<^verbatim>\<open>TuSelect\<close> (\<^verbatim>\<open>TuSelector.cxx\<close>) has the transaction users.
  \<^item> \<^verbatim>\<open>TransState\<close> has the record \<^verbatim>\<open>TransactionState\<close> with the fields of the class, the controller with its two transaction
    maps, timers and fifos, and the operations all machines share: sending, delivery to the user, termination, failover to
    another target. \<^verbatim>\<open>TransMachines\<close> has the seven state machines (\<^verbatim>\<open>processClientInvite\<close> and so on), one definition per kind
    of message; \<^verbatim>\<open>TransProcess\<close> the matching of messages to transactions, the creation of transactions, timers and the loop of
    \<^verbatim>\<open>TransactionController\<close>. A failed \<^verbatim>\<open>resip_assert\<close> or a null pointer that is followed sets a flag.
  \<^item> \<^verbatim>\<open>TransInv\<close> has the invariant of a transaction and the locale \<^verbatim>\<open>transaction_machine\<close>, the contract of a state machine;
    \<^verbatim>\<open>TransServer\<close>, \<^verbatim>\<open>TransClient\<close> and \<^verbatim>\<open>TransInvite\<close> interpret it for each of the seven machines. \<^verbatim>\<open>TransReach\<close> lifts it to the
    controller and defines the reachable states by an inductive step relation: messages, timers, DNS results, calls of the
    application and the passage of time, in any order. \<^verbatim>\<open>TransSpec\<close> has the transition diagrams of RFC 3261 and the proof that
    the machines refine them; \<^verbatim>\<open>TransOnce\<close> the end of transactions and the number of final responses; \<^verbatim>\<open>TransProps\<close> the
    properties.

  \<^bold>\<open>Bounds and fuel.\<close> Loops of the code are structural recursion or have a termination proof. The copying loop of
  \<^verbatim>\<open>ares_expand_name\<close> has no bound of its own and is a partial function, proved defined on every name that passes the check; the
  walks over the channel's queries and sockets and the event loop of \<^verbatim>\<open>ahost\<close> are partial functions or take fuel, with
  theorems that they return. The loop of a query over the aliases in the cache is a partial function that need not return. \<^verbatim>\<open>TransactionController::process\<close> takes 16 messages at most, as in the code, and the timer fifo
  is emptied by as many rounds as it has messages, which is enough because the handling of a timer adds none.

  \<^bold>\<open>What the theorems assume.\<close> The reachable states of the transaction layer are those reached with admissible messages: a
  new request does not reuse the identifier of a transaction whose timers are still pending, the requests of the application
  carry a branch of the stack, responses come for requests that have been sent, and targets have a known transport, which the
  lookups guarantee. The reachable states of a lookup are those of a stack that supports one of UDP, TCP, TLS and DTLS, for
  URIs whose transport is known and, with a port, supported, with SRV records of supported transports and weights that are
  not negative, and where a lookup is not given up during ENUM queries. The stub is free of faults for messages whose
  records are whole and for clients that ask for no aliases; its clock starts after 0 and does not run backwards. Without these an assertion of the code can fail;
  some of the ways are theorems.

  \<^bold>\<open>Not modelled.\<close> In the resolver: the Windows, Apple and Android ways to find name servers, the diagnostic program
  \<^verbatim>\<open>adig.c\<close> and the release of memory. Around the stub: the binding to the resolver
  (\<^verbatim>\<open>AresDns.cxx\<close>), the text of a cache dump, the deletion of the stub, and builds without IPv6 or with another resolver. Around
  the transaction layer: the transport selector and transports (sockets, TLS), network namespaces and the Windows name service, statistics, logging, the lazy parsers of header fields (a message has its parsed
  fields, and a header whose parsing would throw is assumed away except for From, To and Call-ID), what the transport
  selector writes into the Via and Contact of a message it sends, the depth of the fifos of users, and threads: the
  controller runs in one thread and is fed through its fifo. Times are natural numbers where the code has 64 bits. The rest of
  the repository (dialog usage manager, \<^verbatim>\<open>repro\<close>, media, \<^verbatim>\<open>reTurn\<close>, tests and vendored libraries) is outside this development.
\<close>

end
